(* ===== verification/Prelude.thy ===== *)
theory Prelude
  imports Main "HOL-Library.Word" "HOL-Library.Monad_Syntax"
begin

unbundle bit_operations_syntax

text \<open>
  Shared vocabulary of the development: the machine integers of the Rust sources, the
  two ways Rust reads a slice (a checked \<open>get\<close> that returns an \<open>Option\<close>, and an index
  that panics), big-endian encodings, and list lemmas about in-place patches.

  A computation that may panic has type \<open>'a rs\<close>: \<open>None\<close> is the panic, \<open>Some v\<close> is
  the value the function returns. A Rust function returning \<open>Option<T>\<close> that can also
  panic therefore has type \<open>'t option rs\<close>. Values of type \<open>usize\<close> that index a buffer
  are \<open>nat\<close>: a Rust slice never exceeds \<open>isize::MAX\<close> bytes, so the sums of an offset
  and a length (at most \<open>2 ^ 16\<close>) that the code forms cannot overflow.
\<close>

section \<open>Types\<close>

type_synonym u8 = "8 word"
type_synonym u16 = "16 word"
type_synonym u32 = "32 word"
type_synonym u64 = "64 word"
type_synonym bytes = "u8 list"
type_synonym 'a rs = "'a option"

named_theorems rs_simps \<open>rewriting of panicking reads and writes that are in range\<close>
named_theorems be_simps \<open>big-endian encoding and decoding\<close>

section \<open>Slices\<close>

text \<open>\<open>slice.get(i)\<close>, \<open>slice[i]\<close>, \<open>slice.get(i..j)\<close> and \<open>slice[i..j].copy_from_slice(xs)\<close>.\<close>

definition slice_get :: "'a list \<Rightarrow> nat \<Rightarrow> 'a option" where
  "slice_get xs i = (if i < length xs then Some (xs ! i) else None)"

definition index :: "'a list \<Rightarrow> nat \<Rightarrow> 'a rs" where
  "index xs i = (if i < length xs then Some (xs ! i) else None)"

definition get_range :: "'a list \<Rightarrow> nat \<Rightarrow> nat \<Rightarrow> 'a list option" where
  "get_range xs i j = (if i \<le> j \<and> j \<le> length xs then Some (take (j - i) (drop i xs)) else None)"

definition copy_at :: "'a list \<Rightarrow> nat \<Rightarrow> 'a list \<Rightarrow> 'a list rs" where
  "copy_at xs i ys = (if i + length ys \<le> length xs
     then Some (take i xs @ ys @ drop (i + length ys) xs) else None)"

definition set_at :: "'a list \<Rightarrow> nat \<Rightarrow> 'a \<Rightarrow> 'a list rs" where
  "set_at xs i y = (if i < length xs then Some (xs[i := y]) else None)"

lemma slice_get_in [rs_simps]: "i < length xs \<Longrightarrow> slice_get xs i = Some (xs ! i)"
  by (simp add: slice_get_def)

lemma index_in [rs_simps]: "i < length xs \<Longrightarrow> index xs i = Some (xs ! i)"
  by (simp add: index_def)

lemma slice_get_Some: "slice_get xs i = Some x \<longleftrightarrow> i < length xs \<and> x = xs ! i"
  by (auto simp: slice_get_def)

lemma index_Some: "index xs i = Some x \<longleftrightarrow> i < length xs \<and> x = xs ! i"
  by (auto simp: index_def)

lemma get_range_Some:
  "get_range xs i j = Some ys \<longleftrightarrow> i \<le> j \<and> j \<le> length xs \<and> ys = take (j - i) (drop i xs)"
  by (auto simp: get_range_def)

lemma copy_at_Some:
  "copy_at xs i ys = Some zs \<longleftrightarrow>
     i + length ys \<le> length xs \<and> zs = take i xs @ ys @ drop (i + length ys) xs"
  by (auto simp: copy_at_def)

lemma copy_at_in [rs_simps]:
  "i + length ys \<le> length xs \<Longrightarrow> copy_at xs i ys = Some (take i xs @ ys @ drop (i + length ys) xs)"
  by (simp add: copy_at_def)

lemma set_at_Some: "set_at xs i y = Some zs \<longleftrightarrow> i < length xs \<and> zs = xs[i := y]"
  by (auto simp: set_at_def)

lemma copy_at_length: "copy_at xs i ys = Some zs \<Longrightarrow> length zs = length xs"
  by (auto simp: copy_at_Some)

lemma copy_at_nth_out:
  "copy_at xs i ys = Some zs \<Longrightarrow> k < i \<or> i + length ys \<le> k \<Longrightarrow> zs ! k = xs ! k"
  by (auto simp: copy_at_Some nth_append)

lemma copy_at_nth_in:
  "copy_at xs i ys = Some zs \<Longrightarrow> i \<le> k \<Longrightarrow> k < i + length ys \<Longrightarrow> zs ! k = ys ! (k - i)"
  by (auto simp: copy_at_Some nth_append)

section \<open>Big-endian integers\<close>

text \<open>\<open>u16::from_be_bytes\<close>, \<open>u32::from_be_bytes\<close> and the \<open>to_be_bytes\<close> of both.\<close>

definition be16 :: "u8 \<Rightarrow> u8 \<Rightarrow> u16" where
  "be16 a b = word_of_nat (unat a * 256 + unat b)"

definition be32 :: "u8 \<Rightarrow> u8 \<Rightarrow> u8 \<Rightarrow> u8 \<Rightarrow> u32" where
  "be32 a b c d = word_of_nat (((unat a * 256 + unat b) * 256 + unat c) * 256 + unat d)"

definition u16_bytes :: "u16 \<Rightarrow> bytes" where
  "u16_bytes w = [word_of_nat (unat w div 256), word_of_nat (unat w mod 256)]"

definition u32_bytes :: "u32 \<Rightarrow> bytes" where
  "u32_bytes w = [word_of_nat (unat w div 256 div 256 div 256), word_of_nat (unat w div 256 div 256 mod 256),
     word_of_nat (unat w div 256 mod 256), word_of_nat (unat w mod 256)]"

lemma unat_u8_less: "unat (b :: u8) < 256"
  using unsigned_less [of b] by simp

lemma unat_u16_less: "unat (w :: u16) < 65536"
  using unsigned_less [of w] by simp

lemma unat_u32_less: "unat (w :: u32) < 4294967296"
  using unsigned_less [of w] by simp

lemma unat_of_nat_small: "n < 2 ^ LENGTH('a) \<Longrightarrow> unat (word_of_nat n :: 'a::len word) = n"
  by (simp add: unsigned_of_nat take_bit_nat_eq_self)

lemma unat_of_nat_u8: "n < 256 \<Longrightarrow> unat (word_of_nat n :: u8) = n"
  by (rule unat_of_nat_small) simp

lemma base256: "r < 256 \<Longrightarrow> (q * 256 + r) div 256 = q \<and> (q * 256 + r) mod 256 = (r::nat)"
  by simp

lemma length_u16_bytes [simp]: "length (u16_bytes w) = 2"
  by (simp add: u16_bytes_def)

lemma length_u32_bytes [simp]: "length (u32_bytes w) = 4"
  by (simp add: u32_bytes_def)

lemma unat_be16 [be_simps]: "unat (be16 a b) = unat a * 256 + unat b"
  unfolding be16_def using unat_u8_less [of a] unat_u8_less [of b]
  by (intro unat_of_nat_small) simp

lemma unat_be32 [be_simps]:
  "unat (be32 a b c d) = ((unat a * 256 + unat b) * 256 + unat c) * 256 + unat d"
  unfolding be32_def using unat_u8_less [of a] unat_u8_less [of b] unat_u8_less [of c] unat_u8_less [of d]
  by (intro unat_of_nat_small) simp

lemma be16_u16_bytes [be_simps]: "be16 (u16_bytes w ! 0) (u16_bytes w ! 1) = w"
  using unat_u16_less [of w]
  by (intro word_unat_eq_iff [THEN iffD2]) (simp add: unat_be16 u16_bytes_def unat_of_nat_u8)

lemma be32_u32_bytes [be_simps]:
  "be32 (u32_bytes w ! 0) (u32_bytes w ! 1) (u32_bytes w ! 2) (u32_bytes w ! 3) = w"
  using unat_u32_less [of w]
  by (intro word_unat_eq_iff [THEN iffD2]) (simp add: unat_be32 u32_bytes_def unat_of_nat_u8 numeral_3_eq_3 numeral_2_eq_2)

lemma u16_bytes_be16: "u16_bytes (be16 a b) = [a, b]"
  using unat_u8_less [of a] unat_u8_less [of b]
  by (simp add: u16_bytes_def unat_be16)

lemma u32_bytes_be32: "u32_bytes (be32 a b c d) = [a, b, c, d]"
  using unat_u8_less [of a] unat_u8_less [of b] unat_u8_less [of c] unat_u8_less [of d]
  by (simp only: u32_bytes_def unat_be32 base256) simp
section \<open>Properties of single bytes\<close>

text \<open>A decidable property of a byte can be checked on all 256 of them.\<close>

lemma u8_all:
  assumes "list_all P (map word_of_int [0..255])"
  shows "P (b :: u8)"
proof -
  have "b = word_of_int (uint b)" "uint b \<in> set [0..255]" using uint_lt2p [of b] by (auto simp: less_le)
  with assms show ?thesis by (metis image_eqI list.pred_set list.set_map)
qed

lemma label_byte: "(b :: u8) AND 0xC0 = 0 \<longleftrightarrow> unat b < 64"
  by (rule u8_all [of "\<lambda>b. b AND 0xC0 = 0 \<longleftrightarrow> unat b < 64"]) code_simp

lemma unat_ucast_u8: "unat (ucast (y :: u16) :: u8) = unat y mod 256"
  by (simp add: unsigned_ucast_eq take_bit_eq_mod)

section \<open>Saturating addition\<close>

definition saturating_add :: "u64 \<Rightarrow> u64 \<Rightarrow> u64" where
  "saturating_add a b = (if a + b < a then 0xFFFFFFFFFFFFFFFF else a + b)"

lemma unat_u64_less: "unat (a :: u64) < 18446744073709551616"
  using unsigned_less [of a] by simp

lemma unat_add_u64: "unat (a + b :: u64) = (unat a + unat b) mod 18446744073709551616"
  by (simp add: unat_word_ariths)

lemma unat_saturating_add: "unat (saturating_add a b) = min (unat a + unat b) 18446744073709551615"
proof (cases "unat a + unat b < 18446744073709551616")
  case True
  then have "unat (a + b) = unat a + unat b" by (simp add: unat_add_u64)
  with True show ?thesis by (simp add: saturating_add_def word_less_nat_alt)
next
  case False
  then have "unat (a + b) = unat a + unat b - 18446744073709551616"
    using unat_u64_less [of a] unat_u64_less [of b] by (simp add: unat_add_u64 mod_if)
  with False have "a + b < a"
    using unat_u64_less [of a] unat_u64_less [of b] by (simp add: word_less_nat_alt)
  moreover have "unat (0xFFFFFFFFFFFFFFFF :: u64) = 18446744073709551615" by simp
  ultimately show ?thesis using False by (simp add: saturating_add_def)
qed

lemma saturating_add_ge: "a \<le> saturating_add a b"
  using unat_u64_less [of a] by (simp add: word_le_nat_alt unat_saturating_add)

section \<open>Components as state machines\<close>

text \<open>
  A component whose operations are steps of a state machine keeps an invariant over every
  sequence of operations once each operation keeps it.
\<close>

locale state_machine =
  fixes step :: "'s \<Rightarrow> 'e \<Rightarrow> 's" and inv :: "'s \<Rightarrow> bool"
  assumes step_inv: "inv s \<Longrightarrow> inv (step s e)"
begin

lemma run_inv: "inv s \<Longrightarrow> inv (foldl step s es)"
  by (induction es arbitrary: s) (simp_all add: step_inv)

end

text \<open>
  The same for a component whose operations may panic: a run stops at the first panic, and
  when no operation panics in a state of the invariant, no run does.
\<close>

fun run_rs :: "('s \<Rightarrow> 'e \<Rightarrow> 's rs) \<Rightarrow> 's \<Rightarrow> 'e list \<Rightarrow> 's rs" where
  "run_rs step s [] = Some s"
| "run_rs step s (e # es) = do { s \<leftarrow> step s e; run_rs step s es }"

locale panic_free =
  fixes step :: "'s \<Rightarrow> 'e \<Rightarrow> 's rs" and inv :: "'s \<Rightarrow> bool"
  assumes step_total: "inv s \<Longrightarrow> \<exists>t. step s e = Some t \<and> inv t"
begin

lemma run_total: "inv s \<Longrightarrow> \<exists>t. run_rs step s es = Some t \<and> inv t"
proof (induction es arbitrary: s)
  case (Cons e es)
  then obtain t where "step s e = Some t" "inv t" using step_total by blast
  with Cons.IH [of t] show ?case by simp
qed simp

end

end
