(* ===== verification/Wire.thy ===== *)
theory Wire
  imports Prelude
begin

unbundle bit_operations_syntax

text \<open>
  The wire-format helpers of \<open>crates/core/src/wire.rs\<close>: the record cursor and every walker
  built on it, the in-place TTL rewrites, the EDNS scan, the question reader and the CNAME
  scan. All of them run on attacker-controlled bytes, so each panicking read or write of
  the source is a panicking read or write here and absence of panics is proved.
\<close>

section \<open>Constants\<close>

definition HEADER_LEN :: nat where "HEADER_LEN = 12"
definition TYPE_OPT :: u16 where "TYPE_OPT = 41"
definition TYPE_SOA :: u16 where "TYPE_SOA = 6"
definition TYPE_CNAME :: u16 where "TYPE_CNAME = 5"
definition OPT_CODE_ECS :: u16 where "OPT_CODE_ECS = 8"
definition RR_FIXED_LEN :: nat where "RR_FIXED_LEN = 10"
definition SOA_MIN_RDATA :: nat where "SOA_MIN_RDATA = 22"
definition MIN_UDP_PAYLOAD :: nat where "MIN_UDP_PAYLOAD = 512"
definition MAX_NAME_JUMPS :: nat where "MAX_NAME_JUMPS = 32"
definition MAX_NAME_LEN :: nat where "MAX_NAME_LEN = 255"

lemmas wire_consts = HEADER_LEN_def TYPE_OPT_def TYPE_SOA_def TYPE_CNAME_def OPT_CODE_ECS_def
  RR_FIXED_LEN_def SOA_MIN_RDATA_def MIN_UDP_PAYLOAD_def MAX_NAME_JUMPS_def MAX_NAME_LEN_def

section \<open>Header fields and the question\<close>

function question_end_loop :: "bytes \<Rightarrow> nat \<Rightarrow> nat option" where
  "question_end_loop msg i =
     (case slice_get msg i of
        None \<Rightarrow> None
      | Some b \<Rightarrow>
          if unat b = 0 then Some (i + 1)
          else if b AND 0xC0 \<noteq> 0 then None
          else if i + (1 + unat b) > length msg then None
          else question_end_loop msg (i + (1 + unat b)))"
  by pat_completeness auto
termination
  by (relation "measure (\<lambda>(msg, i). length msg - i)") (auto simp: slice_get_Some)

definition question_end :: "bytes \<Rightarrow> nat option rs" where
  "question_end msg =
     (if length msg < HEADER_LEN then Some None
      else do {
        b4 \<leftarrow> index msg 4;
        b5 \<leftarrow> index msg 5;
        if be16 b4 b5 = 0 then Some None
        else Some (case question_end_loop msg HEADER_LEN of
            None \<Rightarrow> None
          | Some i \<Rightarrow> if i + 4 \<le> length msg then Some (i + 4) else None)
      })"

definition opcode :: "bytes \<Rightarrow> u8 option" where
  "opcode msg = map_option (\<lambda>flags. drop_bit 3 flags AND 0x0F) (slice_get msg 2)"

definition set_id :: "bytes \<Rightarrow> u16 \<Rightarrow> bytes rs" where
  "set_id msg txid = (if length msg \<ge> 2 then copy_at msg 0 (u16_bytes txid) else Some msg)"

section \<open>The record cursor\<close>

datatype wire_section = Answer | Authority | Additional

record RecordRef =
  rr_section :: wire_section
  rtype :: u16
  rr_class :: u16
  ttl_off :: nat
  rdata_off :: nat
  rdata_len :: nat

datatype step = Record RecordRef | End | Malformed

record RecordCursor =
  cur_at :: nat
  cur_left :: "u16 list"
  cur_section :: nat

definition SECTIONS :: "wire_section list" where
  "SECTIONS = [Answer, Authority, Additional]"

text \<open>A compression pointer ends the name: the walk only skips, it never follows.\<close>

function skip_name :: "bytes \<Rightarrow> nat \<Rightarrow> nat option" where
  "skip_name msg i =
     (case slice_get msg i of
        None \<Rightarrow> None
      | Some b \<Rightarrow>
          if b AND 0xC0 = 0 then
            (if unat b = 0 then Some (i + 1)
             else if i + (1 + unat b) > length msg then None
             else skip_name msg (i + (1 + unat b)))
          else if b AND 0xC0 = 0xC0 then
            (case slice_get msg (i + 1) of None \<Rightarrow> None | Some _ \<Rightarrow> Some (i + 2))
          else None)"
  by pat_completeness auto
termination
  by (relation "measure (\<lambda>(msg, i). length msg - i)") (auto simp: slice_get_Some)

declare question_end_loop.simps [simp del] skip_name.simps [simp del]

fun skip_questions :: "bytes \<Rightarrow> nat \<Rightarrow> nat \<Rightarrow> nat option" where
  "skip_questions msg 0 i = Some i"
| "skip_questions msg (Suc n) i =
     (case skip_name msg i of
        None \<Rightarrow> None
      | Some j \<Rightarrow> if j + 4 > length msg then None else skip_questions msg n (j + 4))"

definition cursor_new :: "bytes \<Rightarrow> RecordCursor option rs" where
  "cursor_new msg =
     (if length msg < HEADER_LEN then Some None
      else do {
        b4 \<leftarrow> index msg 4;
        b5 \<leftarrow> index msg 5;
        (case skip_questions msg (unat (be16 b4 b5)) HEADER_LEN of
           None \<Rightarrow> Some None
         | Some i \<Rightarrow> do {
             b6 \<leftarrow> index msg 6; b7 \<leftarrow> index msg 7;
             b8 \<leftarrow> index msg 8; b9 \<leftarrow> index msg 9;
             b10 \<leftarrow> index msg 10; b11 \<leftarrow> index msg 11;
             Some (Some \<lparr>cur_at = i, cur_left = [be16 b6 b7, be16 b8 b9, be16 b10 b11],
               cur_section = 0\<rparr>)
           })
      })"

function skip_sections :: "u16 list \<Rightarrow> nat \<Rightarrow> nat rs" where
  "skip_sections left s =
     (if s < length SECTIONS
      then (case index left s of
              None \<Rightarrow> None
            | Some n \<Rightarrow> if n = 0 then skip_sections left (s + 1) else Some s)
      else Some s)"
  by pat_completeness auto
termination
  by (relation "measure (\<lambda>(left, s). length SECTIONS - s)") auto

declare skip_sections.simps [simp del]

definition cursor_next :: "RecordCursor \<Rightarrow> bytes \<Rightarrow> (step \<times> RecordCursor) rs" where
  "cursor_next cur msg = do {
     s \<leftarrow> skip_sections (cur_left cur) (cur_section cur);
     let cur = cur\<lparr>cur_section := s\<rparr>;
     if s \<ge> length SECTIONS then Some (End, cur)
     else do {
       n \<leftarrow> index (cur_left cur) s;
       left \<leftarrow> set_at (cur_left cur) s (n - 1);
       let cur = cur\<lparr>cur_left := left\<rparr>;
       (case skip_name msg (cur_at cur) of
          None \<Rightarrow> Some (Malformed, cur)
        | Some after_name \<Rightarrow>
            let rdata = after_name + RR_FIXED_LEN in
            if rdata > length msg then Some (Malformed, cur)
            else do {
              l0 \<leftarrow> index msg (after_name + 8);
              l1 \<leftarrow> index msg (after_name + 9);
              let len = unat (be16 l0 l1);
              if rdata + len > length msg then Some (Malformed, cur)
              else do {
                sec \<leftarrow> index SECTIONS s;
                t0 \<leftarrow> index msg after_name;
                t1 \<leftarrow> index msg (after_name + 1);
                c0 \<leftarrow> index msg (after_name + 2);
                c1 \<leftarrow> index msg (after_name + 3);
                Some (Record \<lparr>rr_section = sec, rtype = be16 t0 t1, rr_class = be16 c0 c1,
                    ttl_off = after_name + 4, rdata_off = rdata, rdata_len = len\<rparr>,
                  cur\<lparr>cur_at := rdata + len\<rparr>)
              }
            })
     }
   }"


subsection \<open>Facts about the cursor\<close>

text \<open>Where a name ends, as a relation: what \<open>skip_name\<close> computes.\<close>

inductive name_ends :: "bytes \<Rightarrow> nat \<Rightarrow> nat \<Rightarrow> bool" for msg where
  root: "i < length msg \<Longrightarrow> msg ! i = 0 \<Longrightarrow> name_ends msg i (i + 1)"
| label: "i < length msg \<Longrightarrow> msg ! i AND 0xC0 = 0 \<Longrightarrow> msg ! i \<noteq> 0 \<Longrightarrow>
    i + (1 + unat (msg ! i)) \<le> length msg \<Longrightarrow> name_ends msg (i + (1 + unat (msg ! i))) j \<Longrightarrow>
    name_ends msg i j"
| pointer: "i + 1 < length msg \<Longrightarrow> msg ! i AND 0xC0 = 0xC0 \<Longrightarrow> name_ends msg i (i + 2)"

lemma name_ends_skip_name: "name_ends msg i j \<Longrightarrow> skip_name msg i = Some j"
proof (induction rule: name_ends.induct)
  case (pointer i)
  then have "msg ! i AND 0xC0 \<noteq> 0" by simp
  with pointer show ?case by (subst skip_name.simps) (simp add: rs_simps)
qed (subst skip_name.simps; simp add: rs_simps unsigned_eq_0_iff)+

lemma skip_name_name_ends: "skip_name msg i = Some j \<Longrightarrow> name_ends msg i j"
proof (induction msg i rule: skip_name.induct)
  case (1 msg i)
  from "1.prems" have lt: "i < length msg"
    by (subst (asm) skip_name.simps) (auto simp: slice_get_Some split: option.splits)
  then have sg: "slice_get msg i = Some (msg ! i)" by (simp add: rs_simps)
  consider (root) "msg ! i = 0"
    | (label) "msg ! i AND 0xC0 = 0" "msg ! i \<noteq> 0" "i + (1 + unat (msg ! i)) \<le> length msg"
        "skip_name msg (i + (1 + unat (msg ! i))) = Some j"
    | (ptr) "msg ! i AND 0xC0 = 0xC0" "i + 1 < length msg" "j = i + 2"
    using "1.prems" lt by (subst (asm) skip_name.simps)
      (auto simp: slice_get_Some unsigned_eq_0_iff sg split: option.splits if_splits)
  then show ?case
  proof cases
    case root
    then have "j = i + 1" using "1.prems" lt
      by (subst (asm) skip_name.simps) (simp add: rs_simps)
    with root lt show ?thesis by (simp only: name_ends.root)
  next
    case label
    then have "name_ends msg (i + (1 + unat (msg ! i))) j"
      using "1.IH" [OF sg] by (simp add: unsigned_eq_0_iff)
    then show ?thesis by (rule name_ends.label [OF lt label(1-3)])
  next
    case ptr
    then show ?thesis by (simp only: name_ends.pointer)
  qed
qed

lemma skip_name_iff: "skip_name msg i = Some j \<longleftrightarrow> name_ends msg i j"
  by (blast intro: name_ends_skip_name skip_name_name_ends)

lemma name_ends_bounds: "name_ends msg i j \<Longrightarrow> i < j \<and> j \<le> length msg"
  by (induction rule: name_ends.induct) auto

lemma name_ends_cong:
  "name_ends msg i j \<Longrightarrow> length msg' = length msg \<Longrightarrow>
     (\<And>k. i \<le> k \<Longrightarrow> k < j \<Longrightarrow> msg' ! k = msg ! k) \<Longrightarrow> name_ends msg' i j"
proof (induction rule: name_ends.induct)
  case (root i)
  then show ?case by (intro name_ends.root) auto
next
  case (pointer i)
  then show ?case by (intro name_ends.pointer) auto
next
  case (label i j)
  have "i + (1 + unat (msg ! i)) < j"
    using name_ends_bounds [OF label.hyps(5)] by simp
  then have "msg' ! i = msg ! i"
    by (intro label.prems(2)) auto
  moreover from this have "name_ends msg' (i + (1 + unat (msg' ! i))) j"
    using label by simp
  ultimately show ?case using label.hyps label.prems(1)
    by (intro name_ends.label [of i]) simp_all
qed

definition cursor_ok :: "RecordCursor \<Rightarrow> bool" where
  "cursor_ok cur \<longleftrightarrow> length (cur_left cur) = length SECTIONS"

definition records_left :: "RecordCursor \<Rightarrow> nat" where
  "records_left cur = sum_list (map unat (cur_left cur))"

lemma length_SECTIONS [simp]: "length SECTIONS = 3"
  by (simp add: SECTIONS_def)

lemma skip_sections_Some:
  assumes "length left = 3"
  shows "\<exists>t. skip_sections left s = Some t \<and> s \<le> t \<and> (t < 3 \<longrightarrow> left ! t \<noteq> 0)"
  using assms
proof (induction left s rule: skip_sections.induct)
  case (1 left s)
  show ?case
  proof (cases "s < 3")
    case False
    then show ?thesis by (simp add: skip_sections.simps)
  next
    case True
    then have ix: "index left s = Some (left ! s)"
      using "1.prems" by (simp add: rs_simps)
    show ?thesis
    proof (cases "left ! s = 0")
      case True
      with \<open>s < 3\<close> obtain t where "skip_sections left (s + 1) = Some t" "s + 1 \<le> t"
          "t < 3 \<longrightarrow> left ! t \<noteq> 0"
        using "1.IH" [OF _ ix True] "1.prems" by auto
      with \<open>s < 3\<close> ix True show ?thesis by (subst skip_sections.simps) auto
    next
      case False
      with \<open>s < 3\<close> ix show ?thesis by (subst skip_sections.simps) auto
    qed
  qed
qed

lemma sum_list_dec:
  assumes "s < length xs" and "xs ! s \<noteq> (0 :: u16)"
  shows "sum_list (map unat (xs[s := xs ! s - 1])) < sum_list (map unat xs)"
proof -
  have "unat (xs ! s - 1) < unat (xs ! s)"
    using assms(2) by (simp add: unat_gt_0 unat_minus_one)
  moreover have "sum_list (map unat xs) =
      sum_list (map unat (take s xs @ xs ! s # drop (Suc s) xs))"
    using assms(1) by (simp only: id_take_nth_drop [symmetric])
  ultimately show ?thesis
    using assms(1) by (simp add: upd_conv_take_nth_drop)
qed

lemma skip_sections_step:
  assumes "cursor_ok cur"
  obtains t where "skip_sections (cur_left cur) (cur_section cur) = Some t"
    and "t < 3 \<longrightarrow> cur_left cur ! t \<noteq> 0"
  using skip_sections_Some [of "cur_left cur"] assms by (auto simp: cursor_ok_def)

text \<open>One step of the cursor, on a cursor with its three counters: every read is in range.\<close>

lemma cursor_next_eq:
  assumes "cursor_ok cur" and "skip_sections (cur_left cur) (cur_section cur) = Some t"
  shows "cursor_next cur msg =
    (if t \<ge> 3 then Some (End, cur\<lparr>cur_section := t\<rparr>)
     else let cur1 = cur\<lparr>cur_section := t, cur_left := (cur_left cur)[t := cur_left cur ! t - 1]\<rparr> in
       (case skip_name msg (cur_at cur) of
          None \<Rightarrow> Some (Malformed, cur1)
        | Some j \<Rightarrow>
            if j + 10 > length msg then Some (Malformed, cur1)
            else let len = unat (be16 (msg ! (j + 8)) (msg ! (j + 9))) in
              if j + 10 + len > length msg then Some (Malformed, cur1)
              else Some (Record \<lparr>rr_section = SECTIONS ! t, rtype = be16 (msg ! j) (msg ! (j + 1)),
                  rr_class = be16 (msg ! (j + 2)) (msg ! (j + 3)), ttl_off = j + 4,
                  rdata_off = j + 10, rdata_len = len\<rparr>, cur1\<lparr>cur_at := j + 10 + len\<rparr>)))"
  using assms
  by (auto simp: cursor_next_def cursor_ok_def rs_simps set_at_def RR_FIXED_LEN_def Let_def
      split: option.splits)

lemma cursor_next_total:
  assumes "cursor_ok cur"
  shows "\<exists>st cur'. cursor_next cur msg = Some (st, cur') \<and> cursor_ok cur'"
proof -
  obtain t where t: "skip_sections (cur_left cur) (cur_section cur) = Some t"
    using assms by (rule skip_sections_step)
  with assms show ?thesis
    by (auto simp: cursor_next_eq [OF assms t] Let_def cursor_ok_def split: option.splits)
qed

lemma skip_sections_nonzero:
  "skip_sections left s = Some t \<Longrightarrow> t < 3 \<Longrightarrow> t < length left \<and> left ! t \<noteq> 0"
proof (induction left s rule: skip_sections.induct)
  case (1 left s)
  then show ?case
    by (subst (asm) skip_sections.simps) (auto simp: index_Some split: if_splits option.splits)
qed

lemma cursor_next_counts:
  assumes "cursor_next cur msg = Some (Record r, cur')"
  shows "records_left cur' < records_left cur"
proof -
  obtain t where t: "skip_sections (cur_left cur) (cur_section cur) = Some t" "t < 3"
    using assms by (cases "skip_sections (cur_left cur) (cur_section cur)")
      (auto simp: cursor_next_def Let_def split: if_splits)
  then have nz: "t < length (cur_left cur)" "cur_left cur ! t \<noteq> 0"
    by (auto dest: skip_sections_nonzero)
  have "cur_left cur' = (cur_left cur)[t := cur_left cur ! t - 1]"
    using assms t nz
    by (auto simp: cursor_next_def rs_simps set_at_def Let_def bind_eq_Some_conv
        split: if_splits option.splits)
  with nz show ?thesis by (simp add: records_left_def sum_list_dec)
qed

text \<open>What a record handed out by the cursor is: where it lies in the message.\<close>

definition record_at :: "bytes \<Rightarrow> nat \<Rightarrow> RecordRef \<Rightarrow> nat \<Rightarrow> bool" where
  "record_at msg i r e \<longleftrightarrow> (\<exists>j. name_ends msg i j \<and> ttl_off r = j + 4 \<and> rdata_off r = j + 10 \<and>
     e = rdata_off r + rdata_len r \<and> e \<le> length msg \<and>
     rtype r = be16 (msg ! j) (msg ! (j + 1)) \<and> rr_class r = be16 (msg ! (j + 2)) (msg ! (j + 3)) \<and>
     rdata_len r = unat (be16 (msg ! (j + 8)) (msg ! (j + 9))))"

lemma cursor_next_RecordD:
  assumes ok: "cursor_ok cur" and nx: "cursor_next cur msg = Some (Record r, cur')"
  shows "record_at msg (cur_at cur) r (cur_at cur')"
    and "cursor_ok cur'"
proof -
  obtain t where t: "skip_sections (cur_left cur) (cur_section cur) = Some t"
      "t < 3 \<longrightarrow> cur_left cur ! t \<noteq> 0"
    using ok by (rule skip_sections_step)
  note nx' = nx [unfolded cursor_next_eq [OF ok t(1)] Let_def]
  have t3: "t < 3" using nx' by (auto split: if_splits)
  obtain j where j: "skip_name msg (cur_at cur) = Some j"
    using nx' t3 by (auto split: option.splits)
  then have "name_ends msg (cur_at cur) j" by (rule skip_name_name_ends)
  then show "record_at msg (cur_at cur) r (cur_at cur')"
    using nx' t3 j unfolding record_at_def by (intro exI [of _ j]) (auto split: if_splits)
  have left: "cur_left cur' = (cur_left cur)[t := cur_left cur ! t - 1]"
    using nx' t3 j by (auto split: if_splits)
  with ok show "cursor_ok cur'" by (simp add: cursor_ok_def)
qed

lemma record_at_bounds:
  "record_at msg i r e \<Longrightarrow> i < ttl_off r \<and> ttl_off r + 6 = rdata_off r \<and>
     rdata_off r + rdata_len r = e \<and> e \<le> length msg"
  by (auto simp: record_at_def dest: name_ends_bounds)

lemmas cursor_next_Record_bounds = record_at_bounds [OF cursor_next_RecordD(1)]

text \<open>
  A cursor step reads the name, the type, the class and the RDLENGTH, but not the TTL and
  not the RDATA: a message that differs only there gives the same step.
\<close>

lemma cursor_next_Record_cong:
  assumes ok: "cursor_ok cur" and nx: "cursor_next cur msg = Some (Record r, cur')"
    and len: "length msg' = length msg"
    and eq: "\<And>k. cur_at cur \<le> k \<Longrightarrow> k < rdata_off r \<Longrightarrow>
      \<not> (ttl_off r \<le> k \<and> k < ttl_off r + 4) \<Longrightarrow> msg' ! k = msg ! k"
  shows "cursor_next cur msg' = Some (Record r, cur')"
proof -
  obtain t where t: "skip_sections (cur_left cur) (cur_section cur) = Some t"
    using ok by (rule skip_sections_step)
  obtain j where j: "name_ends msg (cur_at cur) j" "ttl_off r = j + 4" "rdata_off r = j + 10"
    using cursor_next_RecordD(1) [OF ok nx] by (auto simp: record_at_def)
  have ends: "name_ends msg' (cur_at cur) j"
    using j by (intro name_ends_cong [OF j(1) len]) (auto intro!: eq)
  have fld: "msg' ! (j + k) = msg ! (j + k)" if "k < 4 \<or> k = 8 \<or> k = 9" for k
    using that j name_ends_bounds [OF j(1)] by (intro eq) auto
  have fld0: "msg' ! j = msg ! j" using fld [of 0] by simp
  have "cursor_next cur msg' = cursor_next cur msg"
    using len fld [of 1] fld [of 2] fld [of 3] fld [of 8] fld [of 9] fld0
    by (simp add: cursor_next_eq [OF ok t] name_ends_skip_name [OF j(1)]
        name_ends_skip_name [OF ends] Let_def)
  with nx show ?thesis by simp
qed

lemma skip_name_cong_from:
  assumes "length msg' = length msg" and "\<And>k. i \<le> k \<Longrightarrow> msg' ! k = msg ! k"
  shows "skip_name msg' i = skip_name msg i"
proof -
  have "skip_name msg' i = Some j \<longleftrightarrow> skip_name msg i = Some j" for j
    unfolding skip_name_iff using assms name_ends_cong [of msg i j msg'] name_ends_cong [of msg' i j msg]
    by auto
  then show ?thesis by (metis option.exhaust)
qed

lemma cursor_next_cong_from:
  assumes ok: "cursor_ok cur" and len: "length msg' = length msg"
    and eq: "\<And>k. cur_at cur \<le> k \<Longrightarrow> msg' ! k = msg ! k"
  shows "cursor_next cur msg' = cursor_next cur msg"
proof -
  obtain t where t: "skip_sections (cur_left cur) (cur_section cur) = Some t"
    using ok by (rule skip_sections_step)
  have sk: "skip_name msg' (cur_at cur) = skip_name msg (cur_at cur)"
    using len eq by (rule skip_name_cong_from)
  show ?thesis
  proof (cases "skip_name msg (cur_at cur)")
    case (Some j)
    then have "cur_at cur < j" using name_ends_bounds skip_name_name_ends by blast
    then have fld: "j \<le> k \<Longrightarrow> msg' ! k = msg ! k" for k
      by (simp add: eq)
    show ?thesis
      by (simp add: cursor_next_eq [OF ok t] sk Some fld len Let_def)
  qed (simp add: cursor_next_eq [OF ok t] sk)
qed

lemma cursor_new_eq:
  "cursor_new msg =
     Some (if length msg < 12 then None
       else map_option (\<lambda>i. \<lparr>cur_at = i, cur_left = [be16 (msg ! 6) (msg ! 7),
           be16 (msg ! 8) (msg ! 9), be16 (msg ! 10) (msg ! 11)], cur_section = 0\<rparr>)
         (skip_questions msg (unat (be16 (msg ! 4) (msg ! 5))) 12))"
  by (auto simp: cursor_new_def rs_simps HEADER_LEN_def split: option.splits)

lemma cursor_new_ok: "cursor_new msg = Some (Some cur) \<Longrightarrow> cursor_ok cur"
  by (auto simp: cursor_new_eq cursor_ok_def split: if_splits)

lemma cursor_new_total: "\<exists>c. cursor_new msg = Some c"
  by (simp add: cursor_new_eq)

section \<open>Walking the records\<close>

text \<open>
  Every walker of the source is the same loop around \<open>RecordCursor::next\<close>: do something for
  a record, then go on or return; return at the end of the sections; return when the message
  turns out to be malformed. The message is part of the loop's state, because the TTL
  rewrites patch it while they walk. The records still to visit are counted down by each
  step, so the loop ends on every input.
\<close>

datatype ('s, 'r) flow = Continue 's | Return 'r

function cursor_loop :: "(RecordRef \<Rightarrow> bytes \<times> 's \<Rightarrow> (bytes \<times> 's, 'r) flow rs) \<Rightarrow>
    (bytes \<times> 's \<Rightarrow> 'r) \<Rightarrow> (bytes \<times> 's \<Rightarrow> 'r) \<Rightarrow> RecordCursor \<Rightarrow> bytes \<times> 's \<Rightarrow> 'r rs" where
  "cursor_loop on_record on_end on_malformed cur st =
     (case cursor_next cur (fst st) of
        None \<Rightarrow> None
      | Some (End, _) \<Rightarrow> Some (on_end st)
      | Some (Malformed, _) \<Rightarrow> Some (on_malformed st)
      | Some (Record r, cur') \<Rightarrow>
          (case on_record r st of
             None \<Rightarrow> None
           | Some (Return x) \<Rightarrow> Some x
           | Some (Continue st') \<Rightarrow> cursor_loop on_record on_end on_malformed cur' st'))"
  by pat_completeness auto
termination
  by (relation "measure (\<lambda>(_, _, _, cur, _). records_left cur)")
    (auto dest: cursor_next_counts)

declare cursor_loop.simps [simp del]

definition is_well_formed :: "bytes \<Rightarrow> bool rs" where
  "is_well_formed msg = do {
     new \<leftarrow> cursor_new msg;
     (case new of
        None \<Rightarrow> Some False
      | Some cur \<Rightarrow> cursor_loop (\<lambda>r st. Some (Continue st)) (\<lambda>st. True) (\<lambda>st. False) cur (msg, ()))
   }"

definition rcode_record :: "RecordRef \<Rightarrow> bytes \<times> u16 \<Rightarrow> (bytes \<times> u16, u8 option) flow rs" where
  "rcode_record r st =
     (if rtype r = TYPE_OPT \<and> rr_section r = Additional
      then do { b \<leftarrow> index (fst st) (ttl_off r); Some (Continue (fst st, ucast b)) }
      else Some (Continue st))"

definition rcode_value :: "u16 \<Rightarrow> u16 \<Rightarrow> u8" where
  "rcode_value high low = ucast (min (push_bit 4 high OR low) 255)"

definition rcode :: "bytes \<Rightarrow> u8 option rs" where
  "rcode msg =
     (if length msg < HEADER_LEN then Some None
      else do {
        b3 \<leftarrow> index msg 3;
        let low = ucast (b3 AND 0x0F);
        new \<leftarrow> cursor_new msg;
        (case new of
           None \<Rightarrow> Some None
         | Some cur \<Rightarrow> cursor_loop rcode_record (\<lambda>st. Some (rcode_value (snd st) low))
             (\<lambda>st. None) cur (msg, 0))
      })"

definition udp_payload_record ::
    "RecordRef \<Rightarrow> bytes \<times> nat \<Rightarrow> (bytes \<times> nat, nat) flow rs" where
  "udp_payload_record r st =
     (if rtype r = TYPE_OPT \<and> rr_section r = Additional
      then Some (Continue (fst st, max (snd st) (unat (rr_class r))))
      else Some (Continue st))"

definition udp_payload :: "bytes \<Rightarrow> nat rs" where
  "udp_payload query = do {
     new \<leftarrow> cursor_new query;
     (case new of
        None \<Rightarrow> Some MIN_UDP_PAYLOAD
      | Some cur \<Rightarrow> cursor_loop udp_payload_record snd snd cur (query, MIN_UDP_PAYLOAD))
   }"

definition read_u32 :: "bytes \<Rightarrow> nat \<Rightarrow> u32 rs" where
  "read_u32 msg i = do {
     a \<leftarrow> index msg i; b \<leftarrow> index msg (i + 1); c \<leftarrow> index msg (i + 2); d \<leftarrow> index msg (i + 3);
     Some (be32 a b c d)
   }"

definition rewrite_ttls_record :: "(u32 \<Rightarrow> u32 option) \<Rightarrow> RecordRef \<Rightarrow> bytes \<times> bool \<Rightarrow>
    (bytes \<times> bool, bytes \<times> bool) flow rs" where
  "rewrite_ttls_record f r st =
     (if rtype r = TYPE_OPT then Some (Continue st)
      else do {
        ttl \<leftarrow> read_u32 (fst st) (ttl_off r);
        (case f ttl of
           None \<Rightarrow> Some (Continue st)
         | Some new \<Rightarrow> do {
             msg \<leftarrow> copy_at (fst st) (ttl_off r) (u32_bytes new);
             Some (Continue (msg, True))
           })
      })"

definition rewrite_ttls :: "bytes \<Rightarrow> (u32 \<Rightarrow> u32 option) \<Rightarrow> (bytes \<times> bool) rs" where
  "rewrite_ttls msg f = do {
     ok \<leftarrow> is_well_formed msg;
     if \<not> ok then Some (msg, False)
     else do {
       new \<leftarrow> cursor_new msg;
       (case new of
          None \<Rightarrow> Some (msg, False)
        | Some cur \<Rightarrow> cursor_loop (rewrite_ttls_record f) (\<lambda>st. st) (\<lambda>st. st) cur (msg, False))
     }
   }"

definition cap_ttls :: "bytes \<Rightarrow> u32 \<Rightarrow> (bytes \<times> bool) rs" where
  "cap_ttls msg max_ttl = rewrite_ttls msg (\<lambda>ttl. if ttl > max_ttl then Some max_ttl else None)"

definition set_ttls :: "bytes \<Rightarrow> u32 \<Rightarrow> (bytes \<times> bool) rs" where
  "set_ttls msg ttl = rewrite_ttls msg (\<lambda>current. if current \<noteq> ttl then Some ttl else None)"

text \<open>The state of \<open>cache_ttl\<close>: the smallest answer TTL and the negative TTL seen so far.\<close>

definition cache_ttl_record :: "RecordRef \<Rightarrow> bytes \<times> u32 option \<times> u32 option \<Rightarrow>
    (bytes \<times> u32 option \<times> u32 option, u32 option) flow rs" where
  "cache_ttl_record r st =
     (case st of (msg, min_answer, negative) \<Rightarrow>
       (case rr_section r of
          Answer \<Rightarrow> do {
            ttl \<leftarrow> read_u32 msg (ttl_off r);
            Some (Continue (msg,
              Some (case min_answer of None \<Rightarrow> ttl | Some m \<Rightarrow> min m ttl), negative))
          }
        | Authority \<Rightarrow>
            if rtype r = TYPE_SOA \<and> negative = None \<and> rdata_len r \<ge> SOA_MIN_RDATA
            then do {
              minimum \<leftarrow> read_u32 msg (rdata_off r + rdata_len r - 4);
              ttl \<leftarrow> read_u32 msg (ttl_off r);
              Some (Continue (msg, min_answer, Some (min ttl minimum)))
            }
            else Some (Continue st)
        | Additional \<Rightarrow> Some (Continue st)))"

definition cache_ttl_end :: "bytes \<times> u32 option \<times> u32 option \<Rightarrow> u32 option" where
  "cache_ttl_end st =
     (case st of (msg, min_answer, negative) \<Rightarrow>
       (case (case min_answer of Some m \<Rightarrow> Some m | None \<Rightarrow> negative) of
          None \<Rightarrow> None
        | Some ttl \<Rightarrow> if ttl > 0 then Some ttl else None))"

definition cache_ttl :: "bytes \<Rightarrow> u32 option rs" where
  "cache_ttl msg = do {
     new \<leftarrow> cursor_new msg;
     (case new of
        None \<Rightarrow> Some None
      | Some cur \<Rightarrow> cursor_loop cache_ttl_record cache_ttl_end (\<lambda>st. None) cur (msg, None, None))
   }"

section \<open>EDNS0\<close>

record EdnsRef =
  opt_payload_off :: nat
  opt_payload :: u16
  opt_ttl_off :: nat
  opt_dnssec_ok :: bool
  opt_has_ecs :: bool

datatype EdnsScan = Opt EdnsRef | NoOpt | EdnsMalformed

function has_ecs_loop :: "bytes \<Rightarrow> nat \<Rightarrow> nat \<Rightarrow> bool rs" where
  "has_ecs_loop msg i e =
     (if i + 4 \<le> e
      then do {
        c0 \<leftarrow> index msg i; c1 \<leftarrow> index msg (i + 1);
        l0 \<leftarrow> index msg (i + 2); l1 \<leftarrow> index msg (i + 3);
        if be16 c0 c1 = OPT_CODE_ECS then Some True
        else if i + (4 + unat (be16 l0 l1)) \<le> e
          then has_ecs_loop msg (i + (4 + unat (be16 l0 l1))) e
          else Some False
      }
      else Some False)"
  by pat_completeness auto
termination
  by (relation "measure (\<lambda>(msg, i, e). e - i)") auto

declare has_ecs_loop.simps [simp del]

definition has_ecs :: "bytes \<Rightarrow> nat \<Rightarrow> nat \<Rightarrow> bool rs" where
  "has_ecs msg off len = has_ecs_loop msg off (off + len)"

definition edns_record ::
    "RecordRef \<Rightarrow> bytes \<times> EdnsScan \<Rightarrow> (bytes \<times> EdnsScan, EdnsScan) flow rs" where
  "edns_record r st =
     (if rtype r = TYPE_OPT \<and> rr_section r = Additional \<and> snd st = NoOpt
      then do {
        flags \<leftarrow> index (fst st) (ttl_off r + 2);
        ecs \<leftarrow> has_ecs (fst st) (rdata_off r) (rdata_len r);
        Some (Continue (fst st, Opt \<lparr>opt_payload_off = ttl_off r - 2, opt_payload = rr_class r,
          opt_ttl_off = ttl_off r, opt_dnssec_ok = (flags AND 0x80 \<noteq> 0), opt_has_ecs = ecs\<rparr>))
      }
      else Some (Continue st))"

definition edns :: "bytes \<Rightarrow> EdnsScan rs" where
  "edns msg = do {
     new \<leftarrow> cursor_new msg;
     (case new of
        None \<Rightarrow> Some EdnsMalformed
      | Some cur \<Rightarrow> cursor_loop edns_record snd (\<lambda>st. EdnsMalformed) cur (msg, NoOpt))
   }"

definition set_dnssec_ok :: "bytes \<Rightarrow> EdnsRef \<Rightarrow> bool \<Rightarrow> bytes rs" where
  "set_dnssec_ok msg opt want = do {
     b \<leftarrow> index msg (opt_ttl_off opt + 2);
     set_at msg (opt_ttl_off opt + 2) (if want then b OR 0x80 else b AND NOT 0x80)
   }"

definition set_udp_payload :: "bytes \<Rightarrow> EdnsRef \<Rightarrow> u16 \<Rightarrow> bytes rs" where
  "set_udp_payload msg opt payload = copy_at msg (opt_payload_off opt) (u16_bytes payload)"

section \<open>Names as text\<close>

text \<open>
  A name is a \<open>string\<close>: the plain labels the reader accepts are ASCII, so a character of the
  Rust \<open>String\<close> is a byte of it and its length in bytes is the length of the list.
\<close>

definition to_ascii_lowercase :: "u8 \<Rightarrow> u8" where
  "to_ascii_lowercase b = (if 65 \<le> b \<and> b \<le> 90 then b + 32 else b)"

definition is_ascii_alphanumeric :: "u8 \<Rightarrow> bool" where
  "is_ascii_alphanumeric b \<longleftrightarrow> (48 \<le> b \<and> b \<le> 57) \<or> (65 \<le> b \<and> b \<le> 90) \<or> (97 \<le> b \<and> b \<le> 122)"

definition byte_char :: "u8 \<Rightarrow> char" where
  "byte_char b = char_of (unat b)"

definition is_plain_label :: "bytes \<Rightarrow> bool" where
  "is_plain_label label =
     (if length label \<ge> 4 \<and> map to_ascii_lowercase (take 4 label) = [0x78, 0x6E, 0x2D, 0x2D]
      then False
      else list_all (\<lambda>(i, b). is_ascii_alphanumeric b \<or> b = 0x5F \<or> (b = 0x2D \<and> i > 0) \<or>
          (b = 0x2A \<and> i = 0)) (enumerate 0 label))"

function read_name_loop :: "bytes \<Rightarrow> nat \<Rightarrow> nat \<Rightarrow> string \<Rightarrow> string option" where
  "read_name_loop msg i jumps out =
     (case slice_get msg i of
        None \<Rightarrow> None
      | Some b \<Rightarrow>
          if b AND 0xC0 = 0 then
            (if unat b = 0 then Some out
             else case get_range msg (i + 1) (i + 1 + unat b) of
               None \<Rightarrow> None
             | Some label \<Rightarrow>
                 if \<not> is_plain_label label then None
                 else if length out + unat b + 1 > MAX_NAME_LEN then None
                 else read_name_loop msg (i + (1 + unat b)) jumps
                   ((if out \<noteq> [] then out @ [CHR ''.''] else out)
                     @ map (\<lambda>b. byte_char (to_ascii_lowercase b)) label))
          else if b AND 0xC0 = 0xC0 then
            (if jumps + 1 > MAX_NAME_JUMPS then None
             else case slice_get msg (i + 1) of
               None \<Rightarrow> None
             | Some lo \<Rightarrow>
                 let dest = unat (b AND 0x3F) * 256 + unat lo in
                 if dest \<ge> i then None else read_name_loop msg dest (jumps + 1) out)
          else None)"
  by pat_completeness auto
termination
  by (relation "measures [\<lambda>(msg, i, jumps, out). MAX_NAME_JUMPS - jumps,
      \<lambda>(msg, i, jumps, out). length msg - i]")
    (auto simp: slice_get_Some get_range_Some)

declare read_name_loop.simps [simp del]

definition read_name_lower :: "bytes \<Rightarrow> nat \<Rightarrow> string option" where
  "read_name_lower msg i = read_name_loop msg i 0 []"

datatype QuestionScan = Q_Found string u16 | Q_Unsupported | Q_Missing

definition question :: "bytes \<Rightarrow> QuestionScan rs" where
  "question msg =
     (if length msg < HEADER_LEN then Some Q_Missing
      else do {
        b4 \<leftarrow> index msg 4;
        b5 \<leftarrow> index msg 5;
        if be16 b4 b5 = 0 then Some Q_Missing
        else case read_name_lower msg HEADER_LEN of
          None \<Rightarrow> do {
            e \<leftarrow> question_end msg;
            Some (case e of Some _ \<Rightarrow> Q_Unsupported | None \<Rightarrow> Q_Missing)
          }
        | Some name \<Rightarrow> do {
            e \<leftarrow> question_end msg;
            (case e of
               None \<Rightarrow> Some Q_Missing
             | Some end_off \<Rightarrow> do {
                 t0 \<leftarrow> index msg (end_off - 4);
                 t1 \<leftarrow> index msg (end_off - 3);
                 Some (Q_Found name (be16 t0 t1))
               })
          }
      })"

datatype CnameScan = C_NoMatch | C_Matched string | C_Unsupported

definition find_cname_record :: "(string \<Rightarrow> bool) \<Rightarrow> RecordRef \<Rightarrow> bytes \<times> unit \<Rightarrow>
    (bytes \<times> unit, CnameScan) flow rs" where
  "find_cname_record pred r st =
     (if rtype r = TYPE_CNAME \<and> rr_section r = Answer
      then (case read_name_lower (fst st) (rdata_off r) of
              Some target \<Rightarrow>
                Some (if pred target then Return (C_Matched target) else Continue st)
            | None \<Rightarrow> Some (Return C_Unsupported))
      else Some (Continue st))"

definition find_cname_target :: "bytes \<Rightarrow> (string \<Rightarrow> bool) \<Rightarrow> CnameScan rs" where
  "find_cname_target msg pred = do {
     new \<leftarrow> cursor_new msg;
     (case new of
        None \<Rightarrow> Some C_NoMatch
      | Some cur \<Rightarrow> cursor_loop (find_cname_record pred) (\<lambda>st. C_NoMatch) (\<lambda>st. C_NoMatch)
          cur (msg, ()))
   }"

end
