(* ===== verification/Wire_Walk.thy ===== *)
theory Wire_Walk
  imports Wire
begin

text \<open>
  Facts about the record walkers of \<open>Wire\<close>: a total-correctness rule for the cursor loop,
  the list of records of a structurally sound message (\<open>records\<close>, the abstract view every
  walker is measured against), panic freedom of every walker on arbitrary bytes, and the
  frame and functional properties of the in-place TTL rewrites.
\<close>

section \<open>The loop rule\<close>

lemma cursor_loop_rule:
  assumes "cursor_ok cur" and "I cur st"
    and step: "\<And>cur st r cur'. cursor_ok cur \<Longrightarrow> I cur st \<Longrightarrow>
      cursor_next cur (fst st) = Some (Record r, cur') \<Longrightarrow>
      (\<exists>x. f r st = Some (Return x) \<and> Q x) \<or> (\<exists>st'. f r st = Some (Continue st') \<and> I cur' st')"
    and fin: "\<And>cur st cur'. I cur st \<Longrightarrow> cursor_next cur (fst st) = Some (End, cur') \<Longrightarrow> Q (e st)"
    and bad: "\<And>cur st cur'. I cur st \<Longrightarrow> cursor_next cur (fst st) = Some (Malformed, cur') \<Longrightarrow>
      Q (b st)"
  shows "\<exists>x. cursor_loop f e b cur st = Some x \<and> Q x"
  using assms(1,2)
proof (induction "records_left cur" arbitrary: cur st rule: less_induct)
  case less
  obtain s cur' where nx: "cursor_next cur (fst st) = Some (s, cur')"
    using cursor_next_total [OF less.prems(1)] by blast
  show ?case
  proof (cases s)
    case (Record r)
    note nx = nx [unfolded Record]
    from step [OF less.prems nx] show ?thesis
    proof (elim disjE exE conjE)
      fix x assume "f r st = Some (Return x)" "Q x"
      then show ?thesis by (subst cursor_loop.simps) (simp add: nx)
    next
      fix st' assume "f r st = Some (Continue st')" "I cur' st'"
      then show ?thesis
        using less.hyps [OF cursor_next_counts [OF nx] cursor_next_RecordD(2) [OF less.prems(1) nx]]
        by (subst cursor_loop.simps) (simp add: nx)
    qed
  next
    case End
    with nx less.prems fin show ?thesis by (subst cursor_loop.simps) auto
  next
    case Malformed
    with nx less.prems bad show ?thesis by (subst cursor_loop.simps) auto
  qed
qed

section \<open>The records of a message\<close>

function walk :: "RecordCursor \<Rightarrow> bytes \<Rightarrow> RecordRef list \<times> bool" where
  "walk cur msg =
     (case cursor_next cur msg of
        Some (Record r, cur') \<Rightarrow> (case walk cur' msg of (rs, ok) \<Rightarrow> (r # rs, ok))
      | Some (End, _) \<Rightarrow> ([], True)
      | _ \<Rightarrow> ([], False))"
  by pat_completeness auto
termination
  by (relation "measure (\<lambda>(cur, msg). records_left cur)") (auto dest: cursor_next_counts)

declare walk.simps [simp del]

definition records :: "bytes \<Rightarrow> RecordRef list option" where
  "records msg =
     (case cursor_new msg of
        Some (Some cur) \<Rightarrow> (case walk cur msg of (rs, ok) \<Rightarrow> if ok then Some rs else None)
      | _ \<Rightarrow> None)"

definition record_in :: "bytes \<Rightarrow> RecordRef \<Rightarrow> bool" where
  "record_in msg r \<longleftrightarrow> 5 \<le> ttl_off r \<and> ttl_off r + 6 = rdata_off r \<and>
     rdata_off r + rdata_len r \<le> length msg"

lemma walk_induct [consumes 1, case_names End Malformed Record]:
  assumes "cursor_ok cur"
    and "\<And>cur cur'. cursor_ok cur \<Longrightarrow> cursor_next cur msg = Some (End, cur') \<Longrightarrow>
      walk cur msg = ([], True) \<Longrightarrow> P cur [] True"
    and "\<And>cur cur'. cursor_ok cur \<Longrightarrow> cursor_next cur msg = Some (Malformed, cur') \<Longrightarrow>
      walk cur msg = ([], False) \<Longrightarrow> P cur [] False"
    and "\<And>cur r cur' rs ok. cursor_ok cur \<Longrightarrow> cursor_next cur msg = Some (Record r, cur') \<Longrightarrow>
      cursor_ok cur' \<Longrightarrow> walk cur' msg = (rs, ok) \<Longrightarrow> walk cur msg = (r # rs, ok) \<Longrightarrow>
      P cur' rs ok \<Longrightarrow> P cur (r # rs) ok"
  shows "P cur (fst (walk cur msg)) (snd (walk cur msg))"
  using assms(1)
proof (induction "records_left cur" arbitrary: cur rule: less_induct)
  case less
  obtain s cur' where nx: "cursor_next cur msg = Some (s, cur')"
    using cursor_next_total [OF less.prems(1)] by blast
  show ?case
  proof (cases s)
    case (Record r)
    note nx = nx [unfolded Record]
    obtain rs ok where w: "walk cur' msg = (rs, ok)" by (cases "walk cur' msg")
    then have w': "walk cur msg = (r # rs, ok)" by (simp add: walk.simps [of cur] nx)
    have ok': "cursor_ok cur'" using less.prems nx by (rule cursor_next_RecordD(2))
    show ?thesis
      using assms(4) [OF less.prems nx ok' w w'] less.hyps [OF cursor_next_counts [OF nx] ok'] w w'
      by simp
  next
    case End
    with nx have "walk cur msg = ([], True)" by (simp add: walk.simps)
    with assms(2) [OF less.prems] nx End show ?thesis by simp
  next
    case Malformed
    with nx have "walk cur msg = ([], False)" by (simp add: walk.simps)
    with assms(3) [OF less.prems] nx Malformed show ?thesis by simp
  qed
qed

lemma cursor_next_record_in:
  "cursor_ok cur \<Longrightarrow> cursor_next cur msg = Some (Record r, cur') \<Longrightarrow> record_in msg r"
  by (frule (1) cursor_next_RecordD(1))
    (auto simp: record_in_def record_at_def dest: name_ends_bounds)

lemma walk_record_in:
  "cursor_ok cur \<Longrightarrow> \<forall>r \<in> set (fst (walk cur msg)). record_in msg r"
  by (induction rule: walk_induct) (auto dest: cursor_next_record_in)

text \<open>The records lie one after the other: each starts where the one before it ended.\<close>

definition follows :: "RecordRef \<Rightarrow> RecordRef \<Rightarrow> bool" where
  "follows r r' \<longleftrightarrow> rdata_off r + rdata_len r < ttl_off r'"

lemma walk_ordered:
  "cursor_ok cur \<Longrightarrow> (\<forall>r \<in> set (fst (walk cur msg)). cur_at cur < ttl_off r) \<and>
     sorted_wrt follows (fst (walk cur msg))"
proof (induction rule: walk_induct)
  case (Record cur r cur' rs ok)
  then show ?case
    using cursor_next_Record_bounds [OF Record.hyps(1,2)]
    by (auto simp: follows_def)
qed simp_all

lemma cursor_loop_fold:
  assumes "cursor_ok cur"
    and "\<And>r s. record_in msg r \<Longrightarrow> f r (msg, s) = Some (Continue (msg, g r s))"
  shows "cursor_loop f e b cur (msg, s) =
    Some ((if snd (walk cur msg) then e else b) (msg, fold g (fst (walk cur msg)) s))"
  using assms(1)
proof (induction arbitrary: s rule: walk_induct)
  case (Record cur r cur' rs ok)
  then show ?case
    using assms(2) [OF cursor_next_record_in [OF Record.hyps(1,2)]]
    by (subst cursor_loop.simps) simp
qed (subst cursor_loop.simps; simp)+

section \<open>The walkers against the list of records\<close>

definition ttl_of :: "bytes \<Rightarrow> RecordRef \<Rightarrow> u32" where
  "ttl_of msg r = be32 (msg ! ttl_off r) (msg ! (ttl_off r + 1)) (msg ! (ttl_off r + 2))
     (msg ! (ttl_off r + 3))"

lemma read_u32_in: "i + 4 \<le> length msg \<Longrightarrow>
    read_u32 msg i = Some (be32 (msg ! i) (msg ! (i + 1)) (msg ! (i + 2)) (msg ! (i + 3)))"
  by (simp add: read_u32_def rs_simps)

lemma read_u32_ttl: "record_in msg r \<Longrightarrow> read_u32 msg (ttl_off r) = Some (ttl_of msg r)"
  by (simp add: read_u32_in record_in_def ttl_of_def)

lemma is_well_formed_eq: "is_well_formed msg = Some (records msg \<noteq> None)"
proof -
  obtain c where c: "cursor_new msg = Some c" using cursor_new_total by blast
  show ?thesis
  proof (cases c)
    case (Some cur)
    then have "cursor_ok cur" using c cursor_new_ok by simp
    then show ?thesis
      using c Some cursor_loop_fold [where f = "\<lambda>r st. Some (Continue st)" and g = "\<lambda>r s. s"
          and cur = cur and msg = msg]
      by (auto simp: is_well_formed_def records_def split: prod.splits)
  qed (simp add: is_well_formed_def records_def c)
qed

text \<open>The records are those of a cursor placed behind the question section.\<close>

lemma records_SomeE:
  assumes "records msg = Some rs"
  obtains cur where "cursor_new msg = Some (Some cur)" and "cursor_ok cur"
    and "walk cur msg = (rs, True)"
  using assms cursor_new_ok
  by (auto simp: records_def split: option.splits prod.splits if_splits)

lemma records_ordered:
  assumes "records msg = Some rs"
  shows "sorted_wrt follows rs" and "\<forall>r \<in> set rs. record_in msg r"
proof -
  from assms obtain cur where "cursor_ok cur" "walk cur msg = (rs, True)"
    by (rule records_SomeE)
  then show "sorted_wrt follows rs" "\<forall>r \<in> set rs. record_in msg r"
    using walk_ordered [of cur msg] walk_record_in [of cur msg] by simp_all
qed

section \<open>In-place TTL rewrites\<close>

definition in_ttl :: "RecordRef \<Rightarrow> nat \<Rightarrow> bool" where
  "in_ttl r k \<longleftrightarrow> ttl_off r \<le> k \<and> k < ttl_off r + 4"

lemma ttl_disjoint:
  "sorted_wrt follows rs \<Longrightarrow> \<forall>r \<in> set rs. record_in msg r \<Longrightarrow> r \<in> set rs \<Longrightarrow> r' \<in> set rs \<Longrightarrow>
     in_ttl r k \<Longrightarrow> in_ttl r' k \<Longrightarrow> r' = r"
  by (induction rs) (fastforce simp: follows_def in_ttl_def record_in_def)+

text \<open>Two records of a message share no TTL byte.\<close>

lemma records_ttl_disjoint:
  assumes "records msg = Some rs" and "r \<in> set rs" "r' \<in> set rs" and "in_ttl r k" "in_ttl r' k"
  shows "r' = r"
  using ttl_disjoint [OF records_ordered [OF assms(1)]] assms(2-) by blast

text \<open>The walk does not look at TTL bytes, so it does not see a rewrite of them.\<close>

lemma walk_cong:
  assumes "cursor_ok cur" and "length msg' = length msg"
    and "\<And>k. (\<forall>r \<in> set (fst (walk cur msg)). \<not> in_ttl r k) \<Longrightarrow> msg' ! k = msg ! k"
    and "snd (walk cur msg)"
  shows "walk cur msg' = walk cur msg"
proof -
  have "(\<And>k. cur_at cur \<le> k \<Longrightarrow> (\<forall>r \<in> set rs. \<not> in_ttl r k) \<Longrightarrow> msg' ! k = msg ! k) \<Longrightarrow> ok \<Longrightarrow>
      walk cur msg' = (rs, ok)" if "rs = fst (walk cur msg)" "ok = snd (walk cur msg)" for rs ok
    unfolding that using assms(1)
  proof (induction rule: walk_induct)
    case (End cur cur')
    have "cursor_next cur msg' = cursor_next cur msg"
      using End.hyps(1) assms(2) by (rule cursor_next_cong_from) (use End.prems in auto)
    with End show ?case by (simp add: walk.simps)
  next
    case (Malformed cur cur')
    then show ?case by simp
  next
    case (Record cur r cur' rs ok)
    note b = cursor_next_Record_bounds [OF Record.hyps(1,2)]
    have after: "\<forall>r' \<in> set rs. cur_at cur' < ttl_off r'"
      using walk_ordered [OF Record.hyps(3), of msg] Record.hyps(4) by simp
    have "cursor_next cur msg' = Some (Record r, cur')"
    proof (rule cursor_next_Record_cong [OF Record.hyps(1,2) assms(2)])
      fix k assume "cur_at cur \<le> k" "k < rdata_off r" "\<not> (ttl_off r \<le> k \<and> k < ttl_off r + 4)"
      then show "msg' ! k = msg ! k"
        using Record.prems(1) [of k] after b by (fastforce simp: in_ttl_def)
    qed
    moreover have "walk cur' msg' = (rs, ok)"
      using Record.prems b by (intro Record.IH) (auto simp: in_ttl_def)
    ultimately show ?case by (subst walk.simps) simp
  qed
  from this [OF refl refl] assms(3,4) show ?thesis by (cases "walk cur msg") auto
qed

lemma skip_questions_bounds: "skip_questions msg n i = Some j \<Longrightarrow> i \<le> j"
proof (induction n arbitrary: i)
  case (Suc n)
  then obtain m where "skip_name msg i = Some m" "skip_questions msg n (m + 4) = Some j"
    by (auto split: option.splits if_splits)
  then show ?case
    using Suc.IH [of "m + 4"] name_ends_bounds [OF skip_name_name_ends] by fastforce
qed simp

lemma skip_questions_cong:
  "skip_questions msg n i = Some j \<Longrightarrow> length msg' = length msg \<Longrightarrow>
     (\<And>k. i \<le> k \<Longrightarrow> k < j \<Longrightarrow> msg' ! k = msg ! k) \<Longrightarrow> skip_questions msg' n i = Some j"
proof (induction n arbitrary: i)
  case (Suc n)
  from Suc.prems(1) obtain m where m: "skip_name msg i = Some m" "m + 4 \<le> length msg"
      "skip_questions msg n (m + 4) = Some j"
    by (auto split: option.splits if_splits)
  have b: "i < m" "m + 4 \<le> j"
    using name_ends_bounds [OF skip_name_name_ends [OF m(1)]] skip_questions_bounds [OF m(3)]
    by simp_all
  have "name_ends msg' i m"
    using b by (intro name_ends_cong [OF skip_name_name_ends [OF m(1)] Suc.prems(2)])
      (simp add: Suc.prems(3))
  moreover have "skip_questions msg' n (m + 4) = Some j"
    using b by (intro Suc.IH [OF m(3) Suc.prems(2)]) (simp add: Suc.prems(3))
  ultimately show ?case
    using m(2) Suc.prems(2) by (simp add: name_ends_skip_name)
qed simp

lemma cursor_new_bounds: "cursor_new msg = Some (Some cur) \<Longrightarrow> 12 \<le> cur_at cur \<and> 12 \<le> length msg"
  by (auto simp: cursor_new_eq split: if_splits dest!: skip_questions_bounds)

lemma cursor_new_cong:
  assumes "cursor_new msg = Some (Some cur)" and "length msg' = length msg"
    and eq: "\<And>k. k < cur_at cur \<Longrightarrow> msg' ! k = msg ! k"
  shows "cursor_new msg' = Some (Some cur)"
proof -
  have b: "12 \<le> cur_at cur" "12 \<le> length msg" using cursor_new_bounds [OF assms(1)] by simp_all
  have sq: "skip_questions msg (unat (be16 (msg ! 4) (msg ! 5))) 12 = Some (cur_at cur)"
    using assms(1) b by (auto simp: cursor_new_eq)
  then have "skip_questions msg' (unat (be16 (msg ! 4) (msg ! 5))) 12 = Some (cur_at cur)"
    by (rule skip_questions_cong) (simp_all add: assms(2) eq)
  with assms(1,2) b sq show ?thesis
    by (auto simp: cursor_new_eq eq)
qed

lemma records_cong:
  assumes "records msg = Some rs" and "length msg' = length msg"
    and "\<And>k. (\<forall>r \<in> set rs. \<not> in_ttl r k) \<Longrightarrow> msg' ! k = msg ! k"
  shows "records msg' = Some rs"
proof -
  from assms(1) obtain cur where cur: "cursor_new msg = Some (Some cur)" "cursor_ok cur"
      "walk cur msg = (rs, True)" by (rule records_SomeE)
  have "cur_at cur < ttl_off r" if "r \<in> set rs" for r
    using walk_ordered [OF cur(2), of msg] cur(3) that by simp
  then have "cursor_new msg' = Some (Some cur)"
    by (intro cursor_new_cong [OF cur(1) assms(2)] assms(3)) (fastforce simp: in_ttl_def)
  moreover have "walk cur msg' = walk cur msg"
    using cur(2,3) assms(2,3) by (intro walk_cong) simp_all
  ultimately show ?thesis using cur(3) by (simp add: records_def)
qed

text \<open>The TTL a rewrite with \<open>f\<close> leaves in a record; an OPT record is not touched.\<close>

definition new_ttl :: "(u32 \<Rightarrow> u32 option) \<Rightarrow> bytes \<Rightarrow> RecordRef \<Rightarrow> u32 option" where
  "new_ttl f msg r = (if rtype r = TYPE_OPT then None else f (ttl_of msg r))"

lemma copy_ttl:
  assumes "record_in m r"
  shows "\<exists>m'. copy_at m (ttl_off r) (u32_bytes w) = Some m' \<and> length m' = length m \<and>
    ttl_of m' r = w \<and> (\<forall>k. \<not> in_ttl r k \<longrightarrow> m' ! k = m ! k)"
proof -
  obtain m' where m': "copy_at m (ttl_off r) (u32_bytes w) = Some m'"
    using assms by (auto simp: copy_at_def record_in_def)
  have "m' ! (ttl_off r + k) = u32_bytes w ! k" if "k < 4" for k
    using copy_at_nth_in [OF m', of "ttl_off r + k"] that by simp
  from this [of 0] this [of 1] this [of 2] this [of 3] have "ttl_of m' r = w"
    by (simp add: ttl_of_def be32_u32_bytes [simplified])
  with m' show ?thesis
    using copy_at_length [OF m'] copy_at_nth_out [OF m'] by (auto simp: in_ttl_def)
qed

lemma ttl_of_cong: "(\<And>k. in_ttl r k \<Longrightarrow> m' ! k = m ! k) \<Longrightarrow> ttl_of m' r = ttl_of m r"
  by (simp add: ttl_of_def in_ttl_def)

text \<open>One step of the rewrite: the record's own TTL, and nothing else.\<close>

lemma rewrite_ttls_record_step:
  assumes "record_in m r"
  shows "\<exists>m' ch'. rewrite_ttls_record f r (m, ch) = Some (Continue (m', ch')) \<and>
    length m' = length m \<and> (ch' \<longleftrightarrow> ch \<or> new_ttl f m r \<noteq> None) \<and>
    ttl_of m' r = (case new_ttl f m r of None \<Rightarrow> ttl_of m r | Some w \<Rightarrow> w) \<and>
    (\<forall>k. \<not> in_ttl r k \<or> new_ttl f m r = None \<longrightarrow> m' ! k = m ! k)"
proof (cases "new_ttl f m r")
  case None
  then show ?thesis
    using assms by (auto simp: rewrite_ttls_record_def new_ttl_def read_u32_ttl split: if_splits)
next
  case (Some w)
  then have "rtype r \<noteq> TYPE_OPT" "f (ttl_of m r) = Some w"
    by (auto simp: new_ttl_def split: if_splits)
  with copy_ttl [OF assms, of w] show ?thesis
    using assms Some by (auto simp: rewrite_ttls_record_def read_u32_ttl)
qed

text \<open>
  The invariant of the rewriting loop: \<open>pre\<close> are the records already visited, \<open>rest\<close> those
  the cursor still walks; behind the cursor the message is still the original one.
\<close>

definition rewrite_inv :: "(u32 \<Rightarrow> u32 option) \<Rightarrow> bytes \<Rightarrow> RecordRef list \<Rightarrow> RecordCursor \<Rightarrow>
    bytes \<times> bool \<Rightarrow> bool" where
  "rewrite_inv f msg rs cur st \<longleftrightarrow> (\<exists>pre rest. rs = pre @ rest \<and> walk cur msg = (rest, True) \<and>
     length (fst st) = length msg \<and> (\<forall>k \<ge> cur_at cur. fst st ! k = msg ! k) \<and>
     (\<forall>r \<in> set pre. rdata_off r \<le> cur_at cur \<and> rdata_off r = ttl_off r + 6) \<and>
     (\<forall>r \<in> set pre. ttl_of (fst st) r =
        (case new_ttl f msg r of None \<Rightarrow> ttl_of msg r | Some w \<Rightarrow> w)) \<and>
     (\<forall>k. (\<forall>r \<in> set pre. in_ttl r k \<longrightarrow> new_ttl f msg r = None) \<longrightarrow> fst st ! k = msg ! k) \<and>
     (snd st \<longleftrightarrow> (\<exists>r \<in> set pre. new_ttl f msg r \<noteq> None)))"

lemma rewrite_inv_step:
  assumes ok: "cursor_ok cur" and inv: "rewrite_inv f msg rs cur st"
    and nx: "cursor_next cur (fst st) = Some (Record r, cur')"
  shows "\<exists>st'. rewrite_ttls_record f r st = Some (Continue st') \<and> rewrite_inv f msg rs cur' st'"
proof -
  obtain m ch where st: "st = (m, ch)" by (cases st)
  from inv [unfolded rewrite_inv_def st fst_conv snd_conv] obtain pre rest where I: "rs = pre @ rest" "walk cur msg = (rest, True)"
      "length m = length msg" "\<And>k. k \<ge> cur_at cur \<Longrightarrow> m ! k = msg ! k"
      "\<And>q. q \<in> set pre \<Longrightarrow> rdata_off q \<le> cur_at cur \<and> rdata_off q = ttl_off q + 6"
      "\<And>q. q \<in> set pre \<Longrightarrow> ttl_of m q =
        (case new_ttl f msg q of None \<Rightarrow> ttl_of msg q | Some w \<Rightarrow> w)"
      "\<And>k. (\<forall>q \<in> set pre. in_ttl q k \<longrightarrow> new_ttl f msg q = None) \<Longrightarrow> m ! k = msg ! k"
      "ch \<longleftrightarrow> (\<exists>q \<in> set pre. new_ttl f msg q \<noteq> None)"
    by blast
  have nx0: "cursor_next cur msg = Some (Record r, cur')"
    using cursor_next_cong_from [OF ok I(3,4)] nx st by simp
  obtain rest' where rest: "rest = r # rest'" "walk cur' msg = (rest', True)"
    using I(2) by (auto simp: walk.simps [of cur] nx0 split: prod.splits)
  have rin: "record_in m r"
    using cursor_next_record_in [OF ok nx] st by simp
  note b = cursor_next_Record_bounds [OF ok nx0]
  have ttl0: "ttl_of m r = ttl_of msg r"
    using b by (intro ttl_of_cong I(4)) (auto simp: in_ttl_def)
  then have new0: "new_ttl f m r = new_ttl f msg r" by (simp add: new_ttl_def)
  obtain m' ch' where S: "rewrite_ttls_record f r (m, ch) = Some (Continue (m', ch'))"
      "length m' = length m" "ch' \<longleftrightarrow> ch \<or> new_ttl f msg r \<noteq> None"
      "ttl_of m' r = (case new_ttl f msg r of None \<Rightarrow> ttl_of msg r | Some w \<Rightarrow> w)"
      "\<And>k. \<not> in_ttl r k \<or> new_ttl f msg r = None \<Longrightarrow> m' ! k = m ! k"
    using rewrite_ttls_record_step [OF rin, of f ch] unfolding new0 ttl0 by blast
  have old: "ttl_of m' q = ttl_of m q" if "q \<in> set pre" for q
    using I(5) [OF that] b by (intro ttl_of_cong S(5)) (auto simp: in_ttl_def)
  have "rewrite_inv f msg rs cur' (m', ch')"
    unfolding rewrite_inv_def
  proof (rule exI [of _ "pre @ [r]"], rule exI [of _ rest'], intro conjI)
    show "\<forall>k \<ge> cur_at cur'. fst (m', ch') ! k = msg ! k"
      using b S(5) I(4) by (auto simp: in_ttl_def)
    show "\<forall>q \<in> set (pre @ [r]). rdata_off q \<le> cur_at cur' \<and> rdata_off q = ttl_off q + 6"
      using I(5) b by fastforce
    show "\<forall>k. (\<forall>q \<in> set (pre @ [r]). in_ttl q k \<longrightarrow> new_ttl f msg q = None) \<longrightarrow>
        fst (m', ch') ! k = msg ! k"
      using S(5) I(7) by auto
  qed (use I rest S old in auto)
  with S(1) st show ?thesis by blast
qed

lemma rewrite_ttls_malformed: "records msg = None \<Longrightarrow> rewrite_ttls msg f = Some (msg, False)"
  by (simp add: rewrite_ttls_def is_well_formed_eq)

lemma rewrite_ttls_spec:
  assumes "records msg = Some rs"
  shows "\<exists>msg' changed. rewrite_ttls msg f = Some (msg', changed) \<and> length msg' = length msg \<and>
    records msg' = Some rs \<and>
    (\<forall>r \<in> set rs. ttl_of msg' r = (case new_ttl f msg r of None \<Rightarrow> ttl_of msg r | Some w \<Rightarrow> w)) \<and>
    (\<forall>k. (\<forall>r \<in> set rs. in_ttl r k \<longrightarrow> new_ttl f msg r = None) \<longrightarrow> msg' ! k = msg ! k) \<and>
    (changed \<longleftrightarrow> (\<exists>r \<in> set rs. new_ttl f msg r \<noteq> None))"
proof -
  from assms obtain cur where cur: "cursor_new msg = Some (Some cur)" "cursor_ok cur"
      "walk cur msg = (rs, True)" by (rule records_SomeE)
  let ?Q = "\<lambda>st. length (fst st) = length msg \<and>
    (\<forall>r \<in> set rs. ttl_of (fst st) r =
      (case new_ttl f msg r of None \<Rightarrow> ttl_of msg r | Some w \<Rightarrow> w)) \<and>
    (\<forall>k. (\<forall>r \<in> set rs. in_ttl r k \<longrightarrow> new_ttl f msg r = None) \<longrightarrow> fst st ! k = msg ! k) \<and>
    (snd st \<longleftrightarrow> (\<exists>r \<in> set rs. new_ttl f msg r \<noteq> None))"
  have same: "cursor_next c m = cursor_next c msg" if "cursor_ok c" "rewrite_inv f msg rs c (m, ch)"
    for c m ch using that by (intro cursor_next_cong_from) (auto simp: rewrite_inv_def)
  have "\<exists>x. cursor_loop (rewrite_ttls_record f) (\<lambda>st. st) (\<lambda>st. st) cur (msg, False) = Some x \<and> ?Q x"
  proof (rule cursor_loop_rule [where I = "\<lambda>c st. cursor_ok c \<and> rewrite_inv f msg rs c st"])
    show "cursor_ok cur \<and> rewrite_inv f msg rs cur (msg, False)"
      using cur by (auto simp: rewrite_inv_def)
  next
    fix c st r c' assume "cursor_ok c" "cursor_ok c \<and> rewrite_inv f msg rs c st"
      "cursor_next c (fst st) = Some (Record r, c')"
    then show "(\<exists>x. rewrite_ttls_record f r st = Some (Return x) \<and> ?Q x) \<or>
        (\<exists>st'. rewrite_ttls_record f r st = Some (Continue st') \<and>
          cursor_ok c' \<and> rewrite_inv f msg rs c' st')"
      using rewrite_inv_step cursor_next_RecordD(2) by blast
  next
    fix c and st :: "bytes \<times> bool" and c'
    assume I: "cursor_ok c \<and> rewrite_inv f msg rs c st"
      and nx: "cursor_next c (fst st) = Some (End, c') "
    then have "walk c msg = ([], True)"
      using same [of c "fst st" "snd st"] by (simp add: walk.simps)
    with I show "?Q st" by (simp add: rewrite_inv_def)
  next
    fix c and st :: "bytes \<times> bool" and c'
    assume I: "cursor_ok c \<and> rewrite_inv f msg rs c st"
      and nx: "cursor_next c (fst st) = Some (Malformed, c') "
    then have "walk c msg = ([], False)"
      using same [of c "fst st" "snd st"] by (simp add: walk.simps)
    with I show "?Q st" by (simp add: rewrite_inv_def)
  qed (rule cur(2))
  then obtain m ch where L: "cursor_loop (rewrite_ttls_record f) (\<lambda>st. st) (\<lambda>st. st) cur (msg, False)
      = Some (m, ch)" and Q: "?Q (m, ch)" by (metis surj_pair)
  from Q have "records m = Some rs"
    by (intro records_cong [OF assms]) simp_all
  with L Q show ?thesis
    using assms cur(1) by (simp add: rewrite_ttls_def is_well_formed_eq)
qed

end
