(* ===== verification/Wire_Scan.thy ===== *)
theory Wire_Scan
  imports Wire_Walk
begin

unbundle bit_operations_syntax

text \<open>
  The scanning walkers of \<open>Wire\<close>: panic freedom of all of them on arbitrary bytes, and
  what the RCODE, cache-TTL and EDNS scans compute in terms of the list of records.
\<close>

section \<open>No walker panics\<close>

lemma cursor_loop_total:
  fixes f :: "RecordRef \<Rightarrow> bytes \<times> 's \<Rightarrow> (bytes \<times> 's, 'r) flow rs"
  assumes "cursor_ok cur"
    and "\<And>r s. record_in msg r \<Longrightarrow> \<exists>fl. f r (msg, s) = Some fl \<and> (\<forall>st. fl = Continue st \<longrightarrow> fst st = msg)"
  shows "\<exists>x. cursor_loop f e b cur (msg, s) = Some x"
proof -
  have "\<exists>x. cursor_loop f e b cur (msg, s) = Some x \<and> True"
  proof (rule cursor_loop_rule [where I = "\<lambda>c st. fst st = msg" and Q = "\<lambda>_. True"])
    fix c c' r and st :: "bytes \<times> 's"
    assume "cursor_ok c" "fst st = msg" "cursor_next c (fst st) = Some (Record r, c')"
    then have "record_in msg r" by (auto dest: cursor_next_record_in)
    from assms(2) [OF this, of "snd st"] obtain fl where
      fl: "f r (msg, snd st) = Some fl" "\<forall>st. fl = Continue st \<longrightarrow> fst st = msg" by blast
    have "f r st = Some fl" using fl(1) \<open>fst st = msg\<close> by (metis prod.collapse)
    with fl(2) show "(\<exists>x. f r st = Some (Return x) \<and> True) \<or>
        (\<exists>st'. f r st = Some (Continue st') \<and> fst st' = msg)"
      by (cases fl) auto
  qed (use assms(1) in auto)
  then show ?thesis by blast
qed

lemma question_end_total: "question_end msg \<noteq> None"
  by (simp add: question_end_def rs_simps HEADER_LEN_def)

lemma is_well_formed_total: "is_well_formed msg \<noteq> None"
  by (simp add: is_well_formed_eq)

lemma with_cursor_total:
  assumes "\<And>cur. cursor_ok cur \<Longrightarrow> g cur \<noteq> None"
  shows "(cursor_new msg \<bind> (\<lambda>new. case new of None \<Rightarrow> Some x | Some cur \<Rightarrow> g cur)) \<noteq> None"
  using cursor_new_total [of msg] cursor_new_ok [of msg] assms by (auto split: option.splits)

lemma rcode_total: "rcode msg \<noteq> None"
proof -
  have "cursor_loop rcode_record e b cur (msg, s) \<noteq> None" if "cursor_ok cur" for e b cur s
    using cursor_loop_total [OF that, of msg rcode_record e b s]
    by (fastforce simp: rcode_record_def record_in_def rs_simps)
  from with_cursor_total [OF this] show ?thesis
    by (simp add: rcode_def rs_simps HEADER_LEN_def Let_def)
qed

lemma udp_payload_total: "udp_payload msg \<noteq> None"
  unfolding udp_payload_def
  by (rule with_cursor_total) (metis (no_types, lifting) cursor_loop_total udp_payload_record_def
      fst_conv flow.inject(1) option.distinct(1))

lemma rewrite_ttls_total: "rewrite_ttls msg f \<noteq> None"
  using rewrite_ttls_malformed rewrite_ttls_spec by (cases "records msg") force+

lemma cache_ttl_record_eq:
  assumes "record_in msg r"
  shows "cache_ttl_record r (msg, s) = Some (Continue (msg,
    case rr_section r of
      Answer \<Rightarrow> (Some (case fst s of None \<Rightarrow> ttl_of msg r | Some m \<Rightarrow> min m (ttl_of msg r)), snd s)
    | Authority \<Rightarrow> if rtype r = TYPE_SOA \<and> snd s = None \<and> rdata_len r \<ge> SOA_MIN_RDATA
        then (fst s, Some (min (ttl_of msg r) (the (read_u32 msg (rdata_off r + rdata_len r - 4)))))
        else s
    | Additional \<Rightarrow> s))"
proof -
  have "\<exists>m. read_u32 msg (rdata_off r + rdata_len r - 4) = Some m" if "rdata_len r \<ge> SOA_MIN_RDATA"
    using assms that by (simp add: read_u32_in record_in_def SOA_MIN_RDATA_def)
  with assms show ?thesis
    by (cases s; cases "rr_section r") (auto simp: cache_ttl_record_def read_u32_ttl)
qed

lemma cache_ttl_total: "cache_ttl msg \<noteq> None"
  unfolding cache_ttl_def
proof (rule with_cursor_total)
  fix cur assume "cursor_ok cur"
  from cursor_loop_total [OF this, of msg cache_ttl_record cache_ttl_end "\<lambda>st. None" "(None, None)"]
  show "cursor_loop cache_ttl_record cache_ttl_end (\<lambda>st. None) cur (msg, None, None) \<noteq> None"
    by (auto simp: cache_ttl_record_eq)
qed

lemma has_ecs_loop_total: "e \<le> length msg \<Longrightarrow> has_ecs_loop msg i e \<noteq> None"
proof (induction msg i e rule: has_ecs_loop.induct)
  case (1 msg i e)
  then show ?case by (subst has_ecs_loop.simps) (auto simp: rs_simps)
qed

lemma has_ecs_total: "record_in msg r \<Longrightarrow> has_ecs msg (rdata_off r) (rdata_len r) \<noteq> None"
  by (simp only: has_ecs_def) (rule has_ecs_loop_total, simp add: record_in_def)

definition edns_ref :: "bytes \<Rightarrow> RecordRef \<Rightarrow> EdnsRef" where
  "edns_ref msg r = \<lparr>opt_payload_off = ttl_off r - 2, opt_payload = rr_class r,
     opt_ttl_off = ttl_off r, opt_dnssec_ok = (msg ! (ttl_off r + 2) AND 0x80 \<noteq> 0),
     opt_has_ecs = the (has_ecs msg (rdata_off r) (rdata_len r))\<rparr>"

definition is_opt :: "RecordRef \<Rightarrow> bool" where
  "is_opt r \<longleftrightarrow> rtype r = TYPE_OPT \<and> rr_section r = Additional"

lemma edns_record_eq:
  assumes "record_in msg r"
  shows "edns_record r (msg, s) =
    Some (Continue (msg, if is_opt r \<and> s = NoOpt then Opt (edns_ref msg r) else s))"
  using assms has_ecs_total [OF assms]
  by (auto simp: edns_record_def is_opt_def edns_ref_def index_in record_in_def)

lemma edns_total: "edns msg \<noteq> None"
  unfolding edns_def
proof (rule with_cursor_total)
  fix cur assume "cursor_ok cur"
  from cursor_loop_total [OF this, of msg edns_record snd "\<lambda>st. EdnsMalformed" NoOpt]
  show "cursor_loop edns_record snd (\<lambda>st. EdnsMalformed) cur (msg, NoOpt) \<noteq> None"
    by (auto simp: edns_record_eq)
qed

lemma question_end_loop_bounds: "question_end_loop msg i = Some j \<Longrightarrow> i < j"
proof (induction msg i rule: question_end_loop.induct)
  case (1 msg i)
  from "1.prems" consider "j = i + 1"
    | b where "slice_get msg i = Some b" "unat b \<noteq> 0" "\<not> b AND 0xC0 \<noteq> 0"
        "\<not> i + (1 + unat b) > length msg" "question_end_loop msg (i + (1 + unat b)) = Some j"
    by (subst (asm) question_end_loop.simps) (auto split: option.splits if_splits)
  then show ?case
  proof cases
    case 2
    from "1.IH" [OF this] show ?thesis by simp
  qed simp
qed

lemma question_end_bounds: "question_end msg = Some (Some e) \<Longrightarrow> 17 \<le> e \<and> e \<le> length msg"
  by (auto simp: question_end_def bind_eq_Some_conv HEADER_LEN_def
      split: if_splits option.splits dest!: question_end_loop_bounds)

lemma question_total: "question msg \<noteq> None"
  using question_end_total [of msg] question_end_bounds [of msg]
  by (auto simp: question_def rs_simps HEADER_LEN_def split: option.splits)

lemma find_cname_target_total: "find_cname_target msg pred \<noteq> None"
  unfolding find_cname_target_def
proof (rule with_cursor_total)
  fix cur assume "cursor_ok cur"
  from cursor_loop_total [OF this, of msg "find_cname_record pred" "\<lambda>st. C_NoMatch"
      "\<lambda>st. C_NoMatch" "()"]
  show "cursor_loop (find_cname_record pred) (\<lambda>st. C_NoMatch) (\<lambda>st. C_NoMatch) cur (msg, ()) \<noteq> None"
    by (auto simp: find_cname_record_def split: option.splits)
qed

section \<open>What the scans compute\<close>

lemma scan_fold:
  assumes "\<And>r s. record_in msg r \<Longrightarrow> f r (msg, s) = Some (Continue (msg, g r s))"
  shows "(cursor_new msg \<bind> (\<lambda>new. case new of None \<Rightarrow> Some x
      | Some cur \<Rightarrow> cursor_loop f e (\<lambda>st. x) cur (msg, s))) =
    Some (case records msg of None \<Rightarrow> x | Some rs \<Rightarrow> e (msg, fold g rs s))"
proof -
  obtain c where c: "cursor_new msg = Some c" using cursor_new_total by blast
  show ?thesis
  proof (cases c)
    case (Some cur)
    then have "cursor_ok cur" using c cursor_new_ok by simp
    from cursor_loop_fold [where f = f and g = g, OF this assms, where e = e and b = "\<lambda>st. x" and s = s]
    show ?thesis
      using c Some by (auto simp: records_def split: prod.splits)
  qed (simp add: records_def c)
qed

lemma records_header: "records msg = Some rs \<Longrightarrow> 12 \<le> length msg"
  by (erule records_SomeE) (simp add: cursor_new_bounds)

text \<open>The extended RCODE of the last OPT record of the additional section, zero without one.\<close>

definition opt_high :: "bytes \<Rightarrow> RecordRef list \<Rightarrow> u16" where
  "opt_high msg rs = fold (\<lambda>r high. if is_opt r then ucast (msg ! ttl_off r) else high) rs 0"

lemma rcode_eq:
  "rcode msg = Some (map_option
     (\<lambda>rs. rcode_value (opt_high msg rs) (ucast (msg ! 3 AND 0x0F))) (records msg))"
proof (cases "length msg < HEADER_LEN")
  case True
  then show ?thesis
    using records_header [of msg] by (cases "records msg") (auto simp: rcode_def HEADER_LEN_def)
next
  case False
  have "rcode_record r (msg, s) = Some (Continue (msg,
      if is_opt r then ucast (msg ! ttl_off r) else s))"
    if "record_in msg r" for r s
    using that by (simp add: rcode_record_def is_opt_def index_in record_in_def)
  note scan_fold [where f = rcode_record and x = None and s = 0
      and g = "\<lambda>r high. if is_opt r then ucast (msg ! ttl_off r) else high", OF this]
  with False show ?thesis
    by (simp add: rcode_def rs_simps HEADER_LEN_def opt_high_def Let_def split: option.splits)
qed

lemma saturate_0_iff: "ucast (min (x::u16) 255) = (0::u8) \<longleftrightarrow> x = 0"
proof -
  have "unat (min x 255) \<le> 255" by (simp add: min_def word_le_nat_alt)
  then have "unat (ucast (min x 255) :: u8) = unat (min x 255)" by (simp add: unat_ucast_u8)
  then have "ucast (min x 255) = (0::u8) \<longleftrightarrow> unat (min x 255) = 0" by (simp flip: unat_0_iff)
  also have "\<dots> \<longleftrightarrow> x = 0" by (auto simp: min_def unat_0_iff)
  finally show ?thesis .
qed

lemma push_ucast_0_iff: "push_bit 4 (ucast (b :: u8)) = (0 :: u16) \<longleftrightarrow> b = 0"
  by (rule u8_all [of "\<lambda>b. push_bit 4 (ucast b) = (0 :: u16) \<longleftrightarrow> b = 0"]) code_simp

lemma ucast_u8_0_iff: "ucast (b :: u8) = (0 :: u16) \<longleftrightarrow> b = 0"
  by (rule u8_all [of "\<lambda>b. ucast b = (0 :: u16) \<longleftrightarrow> b = 0"]) code_simp

lemma rcode_value_0_iff:
  "rcode_value (ucast (b :: u8)) (ucast (c AND 0x0F :: u8)) = 0 \<longleftrightarrow> b = 0 \<and> c AND 0x0F = 0"
  by (simp only: rcode_value_def saturate_0_iff or_eq_0_iff push_ucast_0_iff ucast_u8_0_iff)

definition answer_ttls :: "bytes \<Rightarrow> RecordRef list \<Rightarrow> u32 list" where
  "answer_ttls msg rs = map (ttl_of msg) (filter (\<lambda>r. rr_section r = Answer) rs)"

definition is_soa :: "RecordRef \<Rightarrow> bool" where
  "is_soa r \<longleftrightarrow> rr_section r = Authority \<and> rtype r = TYPE_SOA \<and> rdata_len r \<ge> SOA_MIN_RDATA"

text \<open>The RFC 2308 negative TTL: the lesser of the SOA's own TTL and its MINIMUM field.\<close>

definition soa_negative :: "bytes \<Rightarrow> RecordRef list \<Rightarrow> u32 option" where
  "soa_negative msg rs = map_option (\<lambda>r. min (ttl_of msg r)
     (the (read_u32 msg (rdata_off r + rdata_len r - 4)))) (find is_soa rs)"

definition bounding_ttl :: "bytes \<Rightarrow> RecordRef list \<Rightarrow> u32 option" where
  "bounding_ttl msg rs = (if answer_ttls msg rs = [] then soa_negative msg rs
     else Some (Min (set (answer_ttls msg rs))))"

definition cache_step :: "bytes \<Rightarrow> RecordRef \<Rightarrow> u32 option \<times> u32 option \<Rightarrow> u32 option \<times> u32 option" where
  "cache_step msg r s = (case rr_section r of
      Answer \<Rightarrow> (Some (case fst s of None \<Rightarrow> ttl_of msg r | Some m \<Rightarrow> min m (ttl_of msg r)), snd s)
    | Authority \<Rightarrow> if rtype r = TYPE_SOA \<and> snd s = None \<and> rdata_len r \<ge> SOA_MIN_RDATA
        then (fst s, Some (min (ttl_of msg r) (the (read_u32 msg (rdata_off r + rdata_len r - 4)))))
        else s
    | Additional \<Rightarrow> s)"

definition min_option :: "u32 \<Rightarrow> u32 option \<Rightarrow> u32 option" where
  "min_option t m = Some (case m of None \<Rightarrow> t | Some m \<Rightarrow> min m t)"

lemma fold_min_option_Some: "fold min_option ts (Some m) = Some (fold min ts m)"
  by (induction ts arbitrary: m) (simp_all add: min_option_def min.commute)

lemma fold_min_option_None:
  "fold min_option ts None = (if ts = [] then None else Some (Min (set ts)))"
  by (cases ts) (simp_all add: min_option_def fold_min_option_Some Min.set_eq_fold del: set_simps)

lemma cache_fold_answer:
  "fst (fold (cache_step msg) rs s) = fold min_option (answer_ttls msg rs) (fst s)"
  by (induction rs arbitrary: s)
    (auto simp: cache_step_def answer_ttls_def min_option_def split: wire_section.splits)

lemma cache_fold_negative:
  "snd (fold (cache_step msg) rs s) = (case snd s of None \<Rightarrow> soa_negative msg rs | Some n \<Rightarrow> Some n)"
  by (induction rs arbitrary: s)
    (auto simp: cache_step_def soa_negative_def is_soa_def split: wire_section.splits option.splits)

lemma cache_ttl_eq:
  "cache_ttl msg = Some (case records msg of
      None \<Rightarrow> None
    | Some rs \<Rightarrow> (case bounding_ttl msg rs of
        None \<Rightarrow> None
      | Some t \<Rightarrow> if t > 0 then Some t else None))"
proof -
  have "cache_ttl_record r (msg, s) = Some (Continue (msg, cache_step msg r s))"
    if "record_in msg r" for r s
    using that by (simp add: cache_ttl_record_eq cache_step_def)
  note scan_fold [where f = cache_ttl_record and g = "cache_step msg" and x = None
      and s = "(None, None)" and e = cache_ttl_end, OF this]
  moreover have "cache_ttl_end (msg, fold (cache_step msg) rs (None, None)) =
      (case bounding_ttl msg rs of None \<Rightarrow> None | Some t \<Rightarrow> if t > 0 then Some t else None)" for rs
    using cache_fold_answer [of msg rs "(None, None)"] cache_fold_negative [of msg rs "(None, None)"]
    by (auto simp: cache_ttl_end_def bounding_ttl_def fold_min_option_None
        split: prod.splits option.splits if_splits)
  ultimately show ?thesis by (simp add: cache_ttl_def cong: option.case_cong)
qed

lemma fold_first: "fold (\<lambda>r s. if P r \<and> s = NoOpt then Opt (h r) else s) rs s =
    (if s = NoOpt then (case find P rs of None \<Rightarrow> NoOpt | Some r \<Rightarrow> Opt (h r)) else s)"
  by (induction rs arbitrary: s) auto

lemma edns_eq:
  "edns msg = Some (case records msg of
      None \<Rightarrow> EdnsMalformed
    | Some rs \<Rightarrow> (case find is_opt rs of None \<Rightarrow> NoOpt | Some r \<Rightarrow> Opt (edns_ref msg r)))"
  using scan_fold [where f = edns_record and x = EdnsMalformed and e = snd and s = NoOpt
      and g = "\<lambda>r s. if is_opt r \<and> s = NoOpt then Opt (edns_ref msg r) else s", OF edns_record_eq]
  by (simp add: edns_def fold_first cong: option.case_cong)

end
