(* ===== verification/Wire_Names.thy ===== *)
theory Wire_Names
  imports Wire_Scan
begin

unbundle bit_operations_syntax

text \<open>
  The readers of domain names of \<open>Wire\<close> against the wire encoding of a list of labels:
  which bytes the question reader accepts, what text it returns for them, and the bounds
  every returned name satisfies, compression pointers included.
\<close>

section \<open>Encoded names\<close>

definition wire_name :: "bytes list \<Rightarrow> bytes" where
  "wire_name ls = concat (map (\<lambda>l. word_of_nat (length l) # l) ls) @ [0]"

definition label_ok :: "bytes \<Rightarrow> bool" where
  "label_ok l \<longleftrightarrow> l \<noteq> [] \<and> length l < 64 \<and> is_plain_label l"

definition label_text :: "bytes \<Rightarrow> string" where
  "label_text l = map (\<lambda>b. byte_char (to_ascii_lowercase b)) l"

fun join_labels :: "string \<Rightarrow> bytes list \<Rightarrow> string" where
  "join_labels out [] = out"
| "join_labels out (l # ls) =
     join_labels ((if out \<noteq> [] then out @ [CHR ''.''] else out) @ label_text l) ls"

abbreviation name_text :: "bytes list \<Rightarrow> string" where
  "name_text ls \<equiv> join_labels [] ls"

lemma length_label_text [simp]: "length (label_text l) = length l"
  by (simp add: label_text_def)

lemma join_labels_length: "length out \<le> length (join_labels out ls)"
  by (induction out ls rule: join_labels.induct) (auto split: if_splits)

lemma wire_name_simps [simp]:
  "wire_name [] = [0]" "wire_name (l # ls) = word_of_nat (length l) # l @ wire_name ls"
  by (simp_all add: wire_name_def)

lemma unat_label_len: "length l < 64 \<Longrightarrow> unat (word_of_nat (length l) :: u8) = length l"
  by (rule unat_of_nat_u8) simp

lemma label_len_byte: "label_ok l \<Longrightarrow> (word_of_nat (length l) :: u8) AND 0xC0 = 0 \<and>
    unat (word_of_nat (length l) :: u8) = length l \<and> length l \<noteq> 0"
  by (auto simp: label_ok_def label_byte unat_label_len)

lemma drop_Cons_nth: "drop i msg = b # xs \<Longrightarrow> i < length msg \<and> msg ! i = b \<and> drop (i + 1) msg = xs"
  by (metis Cons_nth_drop_Suc Suc_eq_plus1 drop_eq_Nil2 leI list.inject list.discI)

section \<open>Reading an encoded name\<close>

lemma read_name_wire_name:
  "list_all label_ok ls \<Longrightarrow> drop i msg = wire_name ls @ rest \<Longrightarrow>
     length (join_labels out ls) \<le> MAX_NAME_LEN \<Longrightarrow>
     read_name_loop msg i jumps out = Some (join_labels out ls)"
proof (induction ls arbitrary: i out)
  case Nil
  then have "i < length msg" "msg ! i = 0" by (auto dest!: drop_Cons_nth)
  then show ?case by (subst read_name_loop.simps) (simp add: rs_simps)
next
  case (Cons l ls)
  then have lk: "label_ok l" and ls: "list_all label_ok ls" by auto
  have d: "i < length msg" "msg ! i = word_of_nat (length l)" "drop (i + 1) msg = l @ wire_name ls @ rest"
    using Cons.prems(2) by (auto dest!: drop_Cons_nth)
  have len: "length (drop (i + 1) msg) = length l + length (wire_name ls @ rest)"
    by (simp only: d(3) length_append)
  then have le: "i + 1 + length l \<le> length msg" by (simp add: wire_name_def)
  have lab: "get_range msg (i + 1) (i + 1 + length l) = Some l"
    using le d(3) by (simp add: get_range_def)
  have dr: "drop (i + (1 + length l)) msg = wire_name ls @ rest"
    using d(3) by (metis add.commute append_eq_conv_conj drop_drop group_cancel.add1)
  let ?out = "(if out \<noteq> [] then out @ [CHR ''.''] else out) @ label_text l"
  have "length out + length l + 1 \<le> MAX_NAME_LEN"
    using join_labels_length [of ?out ls] Cons.prems(3) lk
    by (auto simp: label_ok_def MAX_NAME_LEN_def split: if_splits)
  then show ?case
    using Cons.IH [OF ls dr, of ?out] Cons.prems(3) d lab lk label_len_byte [OF lk]
    by (subst read_name_loop.simps) (simp add: rs_simps label_ok_def label_text_def)
qed

lemma question_end_wire_name:
  "list_all label_ok ls \<Longrightarrow> drop i msg = wire_name ls @ rest \<Longrightarrow>
     question_end_loop msg i = Some (i + length (wire_name ls))"
proof (induction ls arbitrary: i)
  case Nil
  then have "i < length msg" "msg ! i = 0" by (auto dest!: drop_Cons_nth)
  then show ?case by (subst question_end_loop.simps) (simp add: rs_simps)
next
  case (Cons l ls)
  then have lk: "label_ok l" and ls: "list_all label_ok ls" by auto
  have d: "i < length msg" "msg ! i = word_of_nat (length l)" "drop (i + 1) msg = l @ wire_name ls @ rest"
    using Cons.prems(2) by (auto dest!: drop_Cons_nth)
  have len: "length (drop (i + 1) msg) = length l + length (wire_name ls @ rest)"
    by (simp only: d(3) length_append)
  then have le: "\<not> length msg < i + (1 + length l)" by (simp add: wire_name_def)
  have dr: "drop (i + (1 + length l)) msg = wire_name ls @ rest"
    using d(3) by (metis add.commute append_eq_conv_conj drop_drop group_cancel.add1)
  show ?case
    using Cons.IH [OF ls dr] d le label_len_byte [OF lk]
    by (subst question_end_loop.simps) (simp add: rs_simps)
qed

text \<open>
  The other way round: where \<open>question_end\<close> finds the end of the name there is no
  compression pointer in it, so a name that is read there is the text of encoded labels.
\<close>

lemma read_name_question:
  "question_end_loop msg i = Some j \<Longrightarrow> read_name_loop msg i jumps out = Some s \<Longrightarrow>
     \<exists>ls. list_all label_ok ls \<and> s = join_labels out ls \<and>
       drop i msg = wire_name ls @ drop j msg \<and> j = i + length (wire_name ls)"
proof (induction msg i arbitrary: out rule: question_end_loop.induct)
  case (1 msg i)
  from "1.prems"(1) have lt: "i < length msg"
    by (subst (asm) question_end_loop.simps) (auto simp: slice_get_Some split: option.splits)
  then have sg: "slice_get msg i = Some (msg ! i)" by (simp add: rs_simps)
  show ?case
  proof (cases "unat (msg ! i) = 0")
    case True
    then have z: "msg ! i = 0" by (simp add: unat_0_iff)
    with "1.prems" sg have "j = i + 1" "s = out"
      by (auto simp: question_end_loop.simps [of msg i] read_name_loop.simps [of msg i])
    with z lt show ?thesis
      by (intro exI [of _ "[]"]) (simp add: Cons_nth_drop_Suc [symmetric])
  next
    case False
    let ?n = "unat (msg ! i)"
    have q: "msg ! i AND 0xC0 = 0" "\<not> length msg < i + (1 + ?n)"
        "question_end_loop msg (i + (1 + ?n)) = Some j"
      using "1.prems"(1) sg False
      by (auto simp: question_end_loop.simps [of msg i] split: if_splits)
    define l where "l = take ?n (drop (i + 1) msg)"
    have len: "length l = ?n" using q(2) by (simp add: l_def)
    have gr: "get_range msg (i + 1) (i + 1 + ?n) = Some l"
      using q(2) by (simp add: get_range_def l_def)
    let ?out = "(if out \<noteq> [] then out @ [CHR ''.''] else out) @ label_text l"
    have r: "is_plain_label l" "read_name_loop msg (i + (1 + ?n)) jumps ?out = Some s"
      using "1.prems"(2) sg False q(1) gr
      by (auto simp: read_name_loop.simps [of msg i] label_text_def split: if_splits)
    from "1.IH" [OF sg False _ q(2,3) r(2)] q(1) obtain ls where ls: "list_all label_ok ls"
        "s = join_labels ?out ls" "drop (i + (1 + ?n)) msg = wire_name ls @ drop j msg"
        "j = i + (1 + ?n) + length (wire_name ls)"
      by auto
    have "label_ok l"
      using r(1) q(1) False len by (auto simp: label_ok_def label_byte)
    moreover have "drop i msg = word_of_nat (length l) # l @ drop (i + (1 + ?n)) msg"
    proof -
      have "drop (i + 1) msg = l @ drop ?n (drop (i + 1) msg)"
        unfolding l_def by (rule append_take_drop_id [symmetric])
      also have "drop ?n (drop (i + 1) msg) = drop (i + (1 + ?n)) msg"
        by (simp add: add.commute add.left_commute)
      finally have "drop (Suc i) msg = l @ drop (i + (1 + ?n)) msg" by (simp only: Suc_eq_plus1)
      then show ?thesis using Cons_nth_drop_Suc [OF lt] len by simp
    qed
    ultimately show ?thesis
      using ls len by (intro exI [of _ "l # ls"]) simp
  qed
qed

text \<open>Bounds and alphabet of every name that is read, with or without compression.\<close>

lemma read_name_loop_inv:
  assumes "read_name_loop msg i jumps out = Some s" and "I out"
    and step: "\<And>out l. I out \<Longrightarrow> is_plain_label l \<Longrightarrow> length out + length l + 1 \<le> MAX_NAME_LEN \<Longrightarrow>
      I ((if out \<noteq> [] then out @ [CHR ''.''] else out) @ label_text l)"
  shows "I s"
  using assms(1,2)
proof (induction msg i jumps out rule: read_name_loop.induct)
  case (1 msg i jumps out)
  let ?out = "\<lambda>l. (if out \<noteq> [] then out @ [CHR ''.''] else out) @ label_text l"
  from "1.prems"(1) obtain b where b: "slice_get msg i = Some b"
    by (subst (asm) read_name_loop.simps) (auto split: option.splits)
  from "1.prems"(1) b consider "s = out"
    | l where "b AND 0xC0 = 0" "unat b \<noteq> 0" "get_range msg (i + 1) (i + 1 + unat b) = Some l"
        "is_plain_label l" "\<not> length out + unat b + 1 > MAX_NAME_LEN"
        "read_name_loop msg (i + (1 + unat b)) jumps (?out l) = Some s"
    | lo where "b AND 0xC0 \<noteq> 0" "b AND 0xC0 = 0xC0" "\<not> jumps + 1 > MAX_NAME_JUMPS"
        "slice_get msg (i + 1) = Some lo" "\<not> unat (b AND 0x3F) * 256 + unat lo \<ge> i"
        "read_name_loop msg (unat (b AND 0x3F) * 256 + unat lo) (jumps + 1) out = Some s"
    by (subst (asm) read_name_loop.simps)
      (auto simp: Let_def label_text_def split: option.splits if_splits)
  then show ?case
  proof cases
    case 1
    with "1.prems"(2) show ?thesis by simp
  next
    case 2
    then have "length l = unat b" by (auto simp: get_range_Some)
    with 2 have "I (?out l)" using step [OF "1.prems"(2), of l] by simp
    with 2 b show ?thesis using "1.IH"(1) by (simp add: label_text_def)
  next
    case 3
    with b "1.prems"(2) show ?thesis using "1.IH"(2) by blast
  qed
qed

lemma read_name_loop_length:
  assumes "read_name_loop msg i jumps out = Some s" and "length out \<le> MAX_NAME_LEN"
  shows "length s \<le> MAX_NAME_LEN"
  using assms by (rule read_name_loop_inv) auto

text \<open>The characters a name can hold, by code: lower-case letters, digits, and \<open>_ - * .\<close>\<close>

definition name_code :: "nat \<Rightarrow> bool" where
  "name_code n \<longleftrightarrow> (97 \<le> n \<and> n \<le> 122) \<or> (48 \<le> n \<and> n \<le> 57) \<or> n = 95 \<or> n = 45 \<or> n = 42 \<or> n = 46"

definition name_char :: "char \<Rightarrow> bool" where
  "name_char c \<longleftrightarrow> name_code (of_char c)"

lemma label_code: "is_ascii_alphanumeric b \<or> b = 0x5F \<or> b = 0x2D \<or> b = 0x2A \<longrightarrow>
    name_code (unat (to_ascii_lowercase b))"
proof -
  have "unat (b + 32) = unat b + 32" if "b \<le> 90"
    using that by (simp add: unat_word_ariths word_le_nat_alt)
  then show ?thesis
    by (auto simp: is_ascii_alphanumeric_def to_ascii_lowercase_def name_code_def word_le_nat_alt)
qed

lemma label_char: "is_ascii_alphanumeric b \<or> b = 0x5F \<or> b = 0x2D \<or> b = 0x2A \<Longrightarrow>
    name_char (byte_char (to_ascii_lowercase b))"
  using label_code [of b] unat_u8_less [of "to_ascii_lowercase b"]
  by (simp add: name_char_def byte_char_def)

lemma plain_label_chars: "is_plain_label l \<Longrightarrow> list_all name_char (label_text l)"
  by (fastforce simp: is_plain_label_def label_text_def list_all_length nth_enumerate_eq
      intro!: label_char split: if_splits)

lemma name_char_dot: "name_char (CHR ''.'')"
  by (simp add: name_char_def name_code_def)

lemma read_name_loop_chars:
  assumes "read_name_loop msg i jumps out = Some s" and "list_all name_char out"
  shows "list_all name_char s"
  using assms
  by (rule read_name_loop_inv) (simp_all add: name_char_dot plain_label_chars)

end
