(* ===== verification/Wire_Correct.thy ===== *)
theory Wire_Correct
  imports Wire_Names
begin

unbundle bit_operations_syntax

text \<open>
  The contract of \<open>Wire\<close>: the properties the DNS data path relies on when it reads and
  patches messages in place. Each is stated over the abstract list of \<open>records\<close> of a message.
\<close>

section \<open>A sample message\<close>

text \<open>
  A response to \<open>a.example\<close> with one address record of TTL 300 and an OPT record, used as
  the concrete input of the witnesses.
\<close>

definition sample_labels :: "bytes list" where
  "sample_labels = [[0x61], [0x45, 0x78]]"

definition sample_header :: bytes where
  "sample_header = [0x12, 0x34, 0x81, 0x80, 0, 1, 0, 1, 0, 0, 0, 1]"

definition sample_tail :: bytes where
  "sample_tail =
     [0xC0, 0x0C, 0, 1, 0, 1, 0, 0, 1, 0x2C, 0, 4, 10, 0, 0, 1,
      0, 0, 41, 0x10, 0, 0, 0, 0x80, 0, 0, 0]"

definition sample_msg :: bytes where
  "sample_msg = sample_header @ wire_name sample_labels @ [0, 1, 0, 1] @ sample_tail"

lemma sample_msg_eq: "sample_msg = [0x12, 0x34, 0x81, 0x80, 0, 1, 0, 1, 0, 0, 0, 1,
    1, 0x61, 2, 0x45, 0x78, 0, 0, 1, 0, 1,
    0xC0, 0x0C, 0, 1, 0, 1, 0, 0, 1, 0x2C, 0, 4, 10, 0, 0, 1,
    0, 0, 41, 0x10, 0, 0, 0, 0x80, 0, 0, 0]"
  by code_simp

lemma sample_records: "records sample_msg =
    Some [\<lparr>rr_section = Answer, rtype = 1, rr_class = 1, ttl_off = 28, rdata_off = 34, rdata_len = 4\<rparr>,
      \<lparr>rr_section = Additional, rtype = 41, rr_class = 4096, ttl_off = 43, rdata_off = 49, rdata_len = 0\<rparr>]"
  by code_simp

section \<open>Robustness\<close>

text \<open>
  C6. No reader of a DNS message panics, whatever the bytes are: every indexed read and
  every in-place write of the walkers is in range, also on truncated or forged messages.
\<close>

theorem wire_never_panics:
  "question_end msg \<noteq> None \<and> is_well_formed msg \<noteq> None \<and> rcode msg \<noteq> None \<and>
   udp_payload msg \<noteq> None \<and> cap_ttls msg t \<noteq> None \<and> set_ttls msg t \<noteq> None \<and>
   cache_ttl msg \<noteq> None \<and> edns msg \<noteq> None \<and> question msg \<noteq> None \<and>
   find_cname_target msg pred \<noteq> None \<and> set_id msg txid \<noteq> None"
  by (simp add: question_end_total is_well_formed_total rcode_total udp_payload_total
      rewrite_ttls_total [folded not_None_eq] cap_ttls_def set_ttls_def cache_ttl_total edns_total
      question_total find_cname_target_total set_id_def copy_at_def
      del: not_None_eq)

section \<open>In-place TTL rewrites\<close>

text \<open>
  C8. Capping TTLs on a structurally sound message succeeds, keeps its length and its
  records, lowers the TTL of every record except OPT to the cap and changes no other byte;
  the flag it returns says whether some TTL was above the cap.
\<close>

theorem cap_ttls_spec:
  assumes "records msg = Some rs"
  shows "\<exists>msg' changed. cap_ttls msg max_ttl = Some (msg', changed) \<and> length msg' = length msg \<and>
    records msg' = Some rs \<and>
    (\<forall>r \<in> set rs. ttl_of msg' r =
      (if rtype r = TYPE_OPT then ttl_of msg r else min (ttl_of msg r) max_ttl)) \<and>
    (\<forall>k. (\<forall>r \<in> set rs. in_ttl r k \<longrightarrow> rtype r = TYPE_OPT) \<longrightarrow> msg' ! k = msg ! k) \<and>
    (changed \<longleftrightarrow> (\<exists>r \<in> set rs. rtype r \<noteq> TYPE_OPT \<and> max_ttl < ttl_of msg r))"
proof -
  let ?f = "\<lambda>ttl. if ttl > max_ttl then Some max_ttl else None"
  obtain msg' changed where *: "rewrite_ttls msg ?f = Some (msg', changed)" "length msg' = length msg"
      "records msg' = Some rs"
      "\<forall>r \<in> set rs. ttl_of msg' r = (case new_ttl ?f msg r of None \<Rightarrow> ttl_of msg r | Some w \<Rightarrow> w)"
      "\<forall>k. (\<forall>r \<in> set rs. in_ttl r k \<longrightarrow> new_ttl ?f msg r = None) \<longrightarrow> msg' ! k = msg ! k"
      "changed \<longleftrightarrow> (\<exists>r \<in> set rs. new_ttl ?f msg r \<noteq> None)"
    using rewrite_ttls_spec [OF assms, of ?f] by blast
  show ?thesis
  proof (rule exI [of _ msg'], rule exI [of _ changed], intro conjI)
    show "\<forall>r \<in> set rs. ttl_of msg' r =
        (if rtype r = TYPE_OPT then ttl_of msg r else min (ttl_of msg r) max_ttl)"
      using *(4) by (auto simp: new_ttl_def)
    show "\<forall>k. (\<forall>r \<in> set rs. in_ttl r k \<longrightarrow> rtype r = TYPE_OPT) \<longrightarrow> msg' ! k = msg ! k"
      using *(5) by (auto simp: new_ttl_def)
    show "changed \<longleftrightarrow> (\<exists>r \<in> set rs. rtype r \<noteq> TYPE_OPT \<and> max_ttl < ttl_of msg r)"
      using *(6) by (auto simp: new_ttl_def split: if_splits)
  qed (use * in \<open>simp_all add: cap_ttls_def\<close>)
qed

theorem cap_ttls_spec_witness:
  "\<exists>msg' changed. cap_ttls sample_msg 60 = Some (msg', changed) \<and> length msg' = 49 \<and> changed"
  using cap_ttls_spec [OF sample_records, of 60] 
  by (simp add: sample_msg_eq ttl_of_def TYPE_OPT_def) (auto simp: be32_def)

text \<open>
  Setting TTLs, used for answers served past their expiry, gives every record except
  OPT exactly the given TTL and changes no other byte of a structurally sound message.
\<close>

theorem set_ttls_spec:
  assumes "records msg = Some rs"
  shows "\<exists>msg' changed. set_ttls msg ttl = Some (msg', changed) \<and> length msg' = length msg \<and>
    records msg' = Some rs \<and>
    (\<forall>r \<in> set rs. ttl_of msg' r = (if rtype r = TYPE_OPT then ttl_of msg r else ttl)) \<and>
    (\<forall>k. (\<forall>r \<in> set rs. in_ttl r k \<longrightarrow> rtype r = TYPE_OPT) \<longrightarrow> msg' ! k = msg ! k) \<and>
    (changed \<longleftrightarrow> (\<exists>r \<in> set rs. rtype r \<noteq> TYPE_OPT \<and> ttl \<noteq> ttl_of msg r))"
proof -
  let ?f = "\<lambda>current. if current \<noteq> ttl then Some ttl else None"
  obtain msg' changed where *: "rewrite_ttls msg ?f = Some (msg', changed)" "length msg' = length msg"
      "records msg' = Some rs"
      "\<forall>r \<in> set rs. ttl_of msg' r = (case new_ttl ?f msg r of None \<Rightarrow> ttl_of msg r | Some w \<Rightarrow> w)"
      "\<forall>k. (\<forall>r \<in> set rs. in_ttl r k \<longrightarrow> new_ttl ?f msg r = None) \<longrightarrow> msg' ! k = msg ! k"
      "changed \<longleftrightarrow> (\<exists>r \<in> set rs. new_ttl ?f msg r \<noteq> None)"
    using rewrite_ttls_spec [OF assms, of ?f] by blast
  show ?thesis
  proof (rule exI [of _ msg'], rule exI [of _ changed], intro conjI)
    show "\<forall>r \<in> set rs. ttl_of msg' r = (if rtype r = TYPE_OPT then ttl_of msg r else ttl)"
      using *(4) by (auto simp: new_ttl_def)
    show "\<forall>k. (\<forall>r \<in> set rs. in_ttl r k \<longrightarrow> rtype r = TYPE_OPT) \<longrightarrow> msg' ! k = msg ! k"
      using *(5) by (auto simp: new_ttl_def)
    show "changed \<longleftrightarrow> (\<exists>r \<in> set rs. rtype r \<noteq> TYPE_OPT \<and> ttl \<noteq> ttl_of msg r)"
      using *(6) by (auto simp: new_ttl_def split: if_splits)
  qed (use * in \<open>simp_all add: set_ttls_def\<close>)
qed

theorem set_ttls_spec_witness:
  "\<exists>msg' changed. set_ttls sample_msg 30 = Some (msg', changed) \<and> length msg' = 49 \<and> changed"
  using set_ttls_spec [OF sample_records, of 30]
  by (simp add: sample_msg_eq ttl_of_def TYPE_OPT_def) (auto simp: be32_def)

text \<open>
  A message whose record walk breaks off anywhere is never written to: no rewrite can
  stop half-way through.
\<close>

theorem rewrites_leave_malformed:
  assumes "is_well_formed msg = Some False"
  shows "cap_ttls msg t = Some (msg, False) \<and> set_ttls msg t = Some (msg, False)"
  using assms by (simp add: is_well_formed_eq cap_ttls_def set_ttls_def rewrite_ttls_malformed)

theorem rewrites_leave_malformed_witness:
  "cap_ttls (take 45 sample_msg) 1 = Some (take 45 sample_msg, False)"
proof -
  have "is_well_formed (take 45 sample_msg) = Some False" by code_simp
  from rewrites_leave_malformed [OF this, of 1] show ?thesis by simp
qed

section \<open>RCODE and caching time\<close>

lemma opt_high_cong: "(\<And>r. r \<in> set rs \<Longrightarrow> is_opt r \<Longrightarrow> msg' ! ttl_off r = msg ! ttl_off r) \<Longrightarrow>
    opt_high msg' rs = opt_high msg rs"
  unfolding opt_high_def by (rule fold_cong) auto

lemma opt_high_0_iff: "opt_high msg rs = 0 \<longleftrightarrow>
    (case find is_opt (rev rs) of None \<Rightarrow> True | Some r \<Rightarrow> msg ! ttl_off r = 0)"
  by (induction rs rule: rev_induct) (auto simp: opt_high_def ucast_u8_0_iff)

lemma opt_high_ucast: "\<exists>b :: u8. opt_high msg rs = ucast b"
  by (induction rs rule: rev_induct) (auto simp: opt_high_def intro: exI [of _ 0])

text \<open>
  The RCODE is reported exactly for structurally sound messages, and it is NoError
  exactly when the header's RCODE is zero and the last OPT record of the additional section,
  if there is one, carries no extended RCODE: no error of the upstream is taken for success.
\<close>

theorem rcode_noerror_iff:
  "(rcode msg = Some None \<longleftrightarrow> is_well_formed msg = Some False) \<and>
   (rcode msg = Some (Some 0) \<longleftrightarrow>
     (case records msg of
        None \<Rightarrow> False
      | Some rs \<Rightarrow> msg ! 3 AND 0x0F = 0 \<and>
          (case find is_opt (rev rs) of None \<Rightarrow> True | Some r \<Rightarrow> msg ! ttl_off r = 0)))"
proof -
  have "rcode_value (opt_high msg rs) (ucast (msg ! 3 AND 0x0F)) = 0 \<longleftrightarrow>
      msg ! 3 AND 0x0F = 0 \<and>
      (case find is_opt (rev rs) of None \<Rightarrow> True | Some r \<Rightarrow> msg ! ttl_off r = 0)" for rs
  proof -
    obtain b :: u8 where b: "opt_high msg rs = ucast b" using opt_high_ucast by blast
    show ?thesis
      using opt_high_0_iff [of msg rs] unfolding b rcode_value_0_iff ucast_u8_0_iff by blast
  qed
  then show ?thesis
    by (simp add: rcode_eq is_well_formed_eq split: option.splits)
qed

text \<open>Capping the TTLs of an answer does not change the RCODE read from it.\<close>

theorem cap_ttls_keeps_rcode:
  assumes "cap_ttls msg max_ttl = Some (msg', changed)"
  shows "rcode msg' = rcode msg"
proof (cases "records msg")
  case None
  with assms show ?thesis by (simp add: cap_ttls_def rewrite_ttls_malformed)
next
  case (Some rs)
  let ?f = "\<lambda>ttl. if ttl > max_ttl then Some max_ttl else None"
  have *: "records msg' = Some rs"
      "\<forall>k. (\<forall>r \<in> set rs. in_ttl r k \<longrightarrow> new_ttl ?f msg r = None) \<longrightarrow> msg' ! k = msg ! k"
    using rewrite_ttls_spec [OF Some, of ?f] assms by (auto simp: cap_ttls_def)
  have after: "\<forall>r \<in> set rs. 5 \<le> ttl_off r" and ord: "sorted_wrt follows rs"
    using records_ordered [OF Some] by (auto simp: record_in_def)
  have "\<not> in_ttl r 3" if "r \<in> set rs" for r using after that by (fastforce simp: in_ttl_def)
  with *(2) have "msg' ! 3 = msg ! 3" by blast
  moreover have "msg' ! ttl_off r = msg ! ttl_off r" if "r \<in> set rs" "is_opt r" for r
  proof -
    have "r' = r" if "r' \<in> set rs" "in_ttl r' (ttl_off r)" for r'
      using records_ttl_disjoint [OF Some \<open>r \<in> set rs\<close> that(1) _ that(2)] by (simp add: in_ttl_def)
    then show ?thesis using *(2) that by (metis is_opt_def new_ttl_def)
  qed
  ultimately show ?thesis
    using opt_high_cong [of rs msg' msg] by (simp add: rcode_eq *(1) Some)
qed

theorem cap_ttls_keeps_rcode_witness:
  "\<exists>msg'. cap_ttls sample_msg 60 = Some (msg', True) \<and> rcode msg' = rcode sample_msg"
proof -
  have "map_option snd (cap_ttls sample_msg 60) = Some True" by code_simp
  then obtain msg' where "cap_ttls sample_msg 60 = Some (msg', True)" by auto
  with cap_ttls_keeps_rcode show ?thesis by blast
qed

text \<open>
  A caching time is only ever given to a structurally sound message and is never zero.
  With answers it is the least of their TTLs; without, it is the negative TTL of RFC 2308,
  the lesser of the SOA record's own TTL and its MINIMUM field.
\<close>

theorem cache_ttl_spec:
  assumes "cache_ttl msg = Some (Some t)"
  shows "0 < t \<and> (\<exists>rs. records msg = Some rs \<and>
    (if answer_ttls msg rs \<noteq> [] then t \<in> set (answer_ttls msg rs) \<and>
        (\<forall>t' \<in> set (answer_ttls msg rs). t \<le> t')
     else soa_negative msg rs = Some t))"
proof -
  from assms obtain rs where rs: "records msg = Some rs" "bounding_ttl msg rs = Some t" "0 < t"
    by (auto simp: cache_ttl_eq split: option.splits if_splits)
  have "t \<in> set (answer_ttls msg rs) \<and> (\<forall>t' \<in> set (answer_ttls msg rs). t \<le> t')"
    if "answer_ttls msg rs \<noteq> []"
    using rs(2) that Min_in [of "set (answer_ttls msg rs)"] by (auto simp: bounding_ttl_def)
  with rs show ?thesis by (auto simp: bounding_ttl_def)
qed

theorem cache_ttl_spec_witness:
  "\<exists>rs. records sample_msg = Some rs \<and> (300::u32) \<in> set (answer_ttls sample_msg rs)"
proof -
  have "cache_ttl sample_msg = Some (Some 300)" by code_simp
  from cache_ttl_spec [OF this] sample_records show ?thesis
    by (auto simp: answer_ttls_def split: if_splits)
qed

section \<open>EDNS0\<close>

lemma udp_payload_fold:
  "fold (\<lambda>r m. if is_opt r then max m (unat (rr_class r)) else m) rs (m::nat) =
     Max (insert m ((\<lambda>r. unat (rr_class r)) ` set (filter is_opt rs)))"
proof (induction rs arbitrary: m)
  case (Cons r rs)
  then show ?case
    by (cases "((\<lambda>r. unat (rr_class r)) ` {x \<in> set rs. is_opt x}) = {}")
      (auto simp: max.assoc max.left_commute)
qed simp

text \<open>
  The UDP payload size a client may be answered with is never below 512 nor above
  65535 bytes, and on a structurally sound query it is the largest size an OPT record of
  its additional section advertises.
\<close>

theorem udp_payload_spec:
  "\<exists>n. udp_payload query = Some n \<and> MIN_UDP_PAYLOAD \<le> n \<and> n \<le> 65535 \<and>
     (case records query of
        None \<Rightarrow> True
      | Some rs \<Rightarrow> n = Max (insert MIN_UDP_PAYLOAD ((\<lambda>r. unat (rr_class r)) ` set (filter is_opt rs))))"
proof -
  have rec: "udp_payload_record r (msg, s) =
      Some (Continue (msg, if is_opt r then max s (unat (rr_class r)) else s))" for r msg s
    by (simp add: udp_payload_record_def is_opt_def)
  obtain c where c: "cursor_new query = Some c" using cursor_new_total by blast
  show ?thesis
  proof (cases c)
    case (Some cur)
    then have ok: "cursor_ok cur" using c cursor_new_ok by simp
    let ?n = "fold (\<lambda>r m. if is_opt r then max m (unat (rr_class r)) else m)
      (fst (walk cur query)) MIN_UDP_PAYLOAD"
    have "udp_payload query = Some ?n"
      using cursor_loop_fold [OF ok, where f = udp_payload_record and msg = query
          and g = "\<lambda>r m. if is_opt r then max m (unat (rr_class r)) else m"] c Some
      by (simp add: udp_payload_def rec)
    moreover have "unat (rr_class r) \<le> 65535" for r using unat_u16_less [of "rr_class r"] by simp
    ultimately show ?thesis
      using c Some by (auto simp: udp_payload_fold records_def MIN_UDP_PAYLOAD_def
          split: prod.splits option.splits)
  next
    case None
    then show ?thesis
      using c by (auto simp: udp_payload_def records_def MIN_UDP_PAYLOAD_def)
  qed
qed

lemma dnssec_bit: "((b :: u8) OR 0x80) AND 0x80 \<noteq> 0 \<and> (b AND NOT 0x80) AND 0x80 = 0"
  by (rule u8_all [of "\<lambda>b. (b OR 0x80) AND 0x80 \<noteq> 0 \<and> (b AND NOT 0x80) AND 0x80 = 0"]) code_simp

lemma has_ecs_loop_cong:
  "length msg' = length msg \<Longrightarrow> (\<And>k. i \<le> k \<Longrightarrow> k < e \<Longrightarrow> msg' ! k = msg ! k) \<Longrightarrow>
     has_ecs_loop msg' i e = has_ecs_loop msg i e"
proof (induction msg i e rule: has_ecs_loop.induct)
  case (1 msg i e)
  show ?case
  proof (cases "i + 4 \<le> e \<and> i + 3 < length msg")
    case True
    then have "msg' ! i = msg ! i" "msg' ! (i + 1) = msg ! (i + 1)" "msg' ! (i + 2) = msg ! (i + 2)"
        "msg' ! (i + 3) = msg ! (i + 3)" by (simp_all add: "1.prems"(2))
    with True show ?thesis
      using "1.IH" [of "msg ! i" "msg ! (i + 1)" "msg ! (i + 2)" "msg ! (i + 3)"] "1.prems"
      by (simp add: has_ecs_loop.simps [of msg'] has_ecs_loop.simps [of msg] rs_simps)
  next
    case False
    then show ?thesis
      using "1.prems"(1) by (auto simp: has_ecs_loop.simps [of msg'] has_ecs_loop.simps [of msg]
          index_def bind_eq_None_conv)
  qed
qed

text \<open>
  The DO flag the scan located can be set or cleared without a panic; the write keeps
  the length and the records of the query, and a fresh scan finds the same OPT record with
  the requested flag.
\<close>

theorem set_dnssec_ok_edns:
  assumes "edns msg = Some (Opt opt)"
  shows "\<exists>msg'. set_dnssec_ok msg opt want = Some msg' \<and> length msg' = length msg \<and>
    records msg' = records msg \<and> edns msg' = Some (Opt (opt\<lparr>opt_dnssec_ok := want\<rparr>))"
proof -
  from assms obtain rs r where rs: "records msg = Some rs" "find is_opt rs = Some r"
      and opt: "opt = edns_ref msg r"
    by (auto simp: edns_eq split: option.splits)
  from rs(2) have r: "r \<in> set rs" by (auto simp: find_Some_iff)
  then have rin: "record_in msg r" using records_ordered(2) [OF rs(1)] by blast
  let ?i = "ttl_off r + 2"
  let ?b = "if want then msg ! ?i OR 0x80 else msg ! ?i AND NOT 0x80"
  have i: "?i < length msg" using rin by (simp add: record_in_def)
  have "set_dnssec_ok msg opt want = Some (msg[?i := ?b])"
    using i by (simp add: set_dnssec_ok_def opt edns_ref_def rs_simps set_at_def)
  moreover have recs: "records (msg[?i := ?b]) = Some rs"
    using r by (intro records_cong [OF rs(1)]) (auto simp: in_ttl_def nth_list_update_neq)
  moreover have "has_ecs (msg[?i := ?b]) (rdata_off r) (rdata_len r) = has_ecs msg (rdata_off r) (rdata_len r)"
    using rin unfolding has_ecs_def by (intro has_ecs_loop_cong) (auto simp: record_in_def)
  then have "edns_ref (msg[?i := ?b]) r = opt\<lparr>opt_dnssec_ok := want\<rparr>"
    using i dnssec_bit [of "msg ! ?i"] by (simp add: edns_ref_def opt)
  ultimately show ?thesis using rs by (simp add: edns_eq)
qed

theorem set_dnssec_ok_edns_witness:
  "\<exists>opt msg'. edns sample_msg = Some (Opt opt) \<and> set_dnssec_ok sample_msg opt False = Some msg' \<and>
     records msg' = records sample_msg"
proof -
  have "edns sample_msg = Some (Opt \<lparr>opt_payload_off = 41, opt_payload = 4096, opt_ttl_off = 43,
      opt_dnssec_ok = True, opt_has_ecs = False\<rparr>)" by code_simp
  from this set_dnssec_ok_edns [OF this, of False] show ?thesis by blast
qed

section \<open>The question\<close>

text \<open>
  C10. The question reader and the wire encoding are inverse to each other: a question is
  found exactly when the header, with a non-zero question count, is followed by the encoding
  of plain labels, the type and a class, and its name is then the lower-cased dotted text of
  the labels, of at most 255 characters.
\<close>

theorem question_found_iff:
  "question msg = Some (Q_Found name qtype) \<longleftrightarrow>
     (\<exists>hdr ls qclass rest. msg = hdr @ wire_name ls @ u16_bytes qtype @ qclass @ rest \<and>
        length hdr = 12 \<and> be16 (hdr ! 4) (hdr ! 5) \<noteq> 0 \<and> length qclass = 2 \<and>
        list_all label_ok ls \<and> name = name_text ls \<and> length name \<le> MAX_NAME_LEN)"
  (is "?L \<longleftrightarrow> ?R")
proof
  assume ?L
  then obtain j where j: "12 \<le> length msg" "be16 (msg ! 4) (msg ! 5) \<noteq> 0"
      "read_name_loop msg 12 0 [] = Some name" "question_end_loop msg 12 = Some j"
      "j + 4 \<le> length msg" "qtype = be16 (msg ! j) (msg ! (j + 1))"
    by (auto simp: question_def question_end_def read_name_lower_def HEADER_LEN_def rs_simps
        split: option.splits if_splits)
  from read_name_question [OF j(4,3)] obtain ls where ls: "list_all label_ok ls" "name = name_text ls"
      "drop 12 msg = wire_name ls @ drop j msg" by blast
  have "drop j msg = u16_bytes qtype @ [msg ! (j + 2), msg ! (j + 3)] @ drop (j + 4) msg"
    using j(5) by (simp add: j(6) u16_bytes_be16 Cons_nth_drop_Suc flip: Suc_eq_plus1)
      (simp add: Cons_nth_drop_Suc [symmetric] numeral_eq_Suc)
  then have "msg = take 12 msg @ wire_name ls @ u16_bytes qtype @ [msg ! (j + 2), msg ! (j + 3)] @
      drop (j + 4) msg"
    using ls(3) append_take_drop_id [of 12 msg] by simp
  moreover have "length name \<le> MAX_NAME_LEN"
    using read_name_loop_length [OF j(3)] by simp
  ultimately show ?R
    using j(1,2) ls(1,2) by (intro exI [of _ "take 12 msg"] exI [of _ ls]
        exI [of _ "[msg ! (j + 2), msg ! (j + 3)]"] exI [of _ "drop (j + 4) msg"] conjI) simp_all
next
  assume ?R
  then obtain hdr ls qclass rest where *: "msg = hdr @ wire_name ls @ u16_bytes qtype @ qclass @ rest"
      "length hdr = 12" "be16 (hdr ! 4) (hdr ! 5) \<noteq> 0" "length qclass = 2" "list_all label_ok ls"
      "name = name_text ls" "length name \<le> MAX_NAME_LEN" by blast
  let ?j = "12 + length (wire_name ls)"
  have d: "drop 12 msg = wire_name ls @ (u16_bytes qtype @ qclass @ rest)" using *(1,2) by simp
  have "read_name_lower msg 12 = Some name"
    using read_name_wire_name [OF *(5) d, of "[]" 0] *(6,7) by (simp add: read_name_lower_def)
  moreover have "question_end msg = Some (Some (?j + 4))"
    using question_end_wire_name [OF *(5) d] *
    by (simp add: question_end_def HEADER_LEN_def rs_simps nth_append)
  moreover have "msg ! ?j = u16_bytes qtype ! 0" "msg ! (?j + 1) = u16_bytes qtype ! 1"
    using *(1,2) by (simp_all add: nth_append)
  ultimately show ?L
    using * be16_u16_bytes [of qtype]
    by (simp add: question_def HEADER_LEN_def rs_simps nth_append)
qed

text \<open>
  Whatever offset a name is read from and however its compression pointers lead, the
  name has at most 255 characters and holds only lower-case letters, digits and the
  characters underscore, hyphen, asterisk and dot: it is in the form the block lists use.
\<close>

theorem read_name_lower_normal:
  assumes "read_name_lower msg i = Some name"
  shows "length name \<le> MAX_NAME_LEN \<and> list_all name_char name"
  using read_name_loop_length [OF assms [unfolded read_name_lower_def]]
    read_name_loop_chars [OF assms [unfolded read_name_lower_def]] by simp

theorem read_name_lower_normal_witness:
  "read_name_lower sample_msg 22 = Some ''a.ex'' \<and> list_all name_char ''a.ex''"
proof -
  have "read_name_lower sample_msg 22 = Some ''a.ex''" by code_simp
  with read_name_lower_normal [OF this] show ?thesis by simp
qed

section \<open>CNAME targets\<close>

definition cname_targets :: "bytes \<Rightarrow> RecordRef list \<Rightarrow> string option list" where
  "cname_targets msg rs = map (\<lambda>r. read_name_lower msg (rdata_off r))
     (filter (\<lambda>r. rtype r = TYPE_CNAME \<and> rr_section r = Answer) rs)"

definition cname_verdict :: "(string \<Rightarrow> bool) \<Rightarrow> string option list \<Rightarrow> CnameScan" where
  "cname_verdict pred ts = (case find (\<lambda>t. case t of None \<Rightarrow> True | Some s \<Rightarrow> pred s) ts of
      None \<Rightarrow> C_NoMatch
    | Some None \<Rightarrow> C_Unsupported
    | Some (Some s) \<Rightarrow> C_Matched s)"

lemma find_cname_loop:
  "cursor_ok cur \<Longrightarrow> cursor_loop (find_cname_record pred) (\<lambda>st. C_NoMatch) (\<lambda>st. C_NoMatch) cur (msg, ()) =
     Some (cname_verdict pred (cname_targets msg (fst (walk cur msg))))"
proof (induction rule: walk_induct)
  case (Record cur r cur' rs ok)
  then show ?case
    by (subst cursor_loop.simps)
      (auto simp: find_cname_record_def [of pred r] cname_verdict_def cname_targets_def split: option.splits)
qed (subst cursor_loop.simps; simp add: cname_verdict_def cname_targets_def)+

text \<open>
  On a structurally sound response the CNAME scan decides on the first answer CNAME
  whose target the predicate accepts or the reader cannot represent: no earlier target is
  skipped, and no match is reported for a target the predicate rejects.
\<close>

theorem find_cname_target_spec:
  assumes "records msg = Some rs"
  shows "find_cname_target msg pred = Some (cname_verdict pred (cname_targets msg rs))"
  using assms find_cname_loop by (elim records_SomeE) (simp add: find_cname_target_def)

theorem find_cname_target_spec_witness:
  "find_cname_target sample_msg (\<lambda>s. True) = Some C_NoMatch"
  using find_cname_target_spec [OF sample_records, of "\<lambda>s. True"]
  by (simp add: cname_targets_def cname_verdict_def TYPE_CNAME_def)

end
