(* ===== verification/Schedule.thy ===== *)
theory Schedule
  imports Rust_Str
begin

text \<open>
  Weekly time windows of device profiles, \<open>crates/core/src/schedule.rs\<close>. A minute of the week
  is a number below 10080, so no sum the code forms leaves the range of \<open>u32\<close>; minutes are \<open>nat\<close>
  and every subtraction is of a smaller number. The error texts are constructors that carry
  the offending part of the input. Reading the local clock is left out.
\<close>

section \<open>Windows\<close>

definition MINUTES_PER_DAY :: nat where "MINUTES_PER_DAY = 24 * 60"
definition MINUTES_PER_WEEK :: nat where "MINUTES_PER_WEEK = 7 * MINUTES_PER_DAY"

definition DAYS :: "string list" where
  "DAYS = [''mon'', ''tue'', ''wed'', ''thu'', ''fri'', ''sat'', ''sun'']"

record ScheduleWindow =
  win_days :: "string list"
  win_from :: string
  win_to :: string

datatype ScheduleError = BadStart string | BadEnd string | BadDay string | InWindow nat ScheduleError

fun position :: "('a \<Rightarrow> bool) \<Rightarrow> 'a list \<Rightarrow> nat option" where
  "position P [] = None"
| "position P (x # xs) = (if P x then Some 0 else map_option Suc (position P xs))"

definition day_index :: "string \<Rightarrow> nat option" where
  "day_index day = position (\<lambda>d. d = day) DAYS"

definition parse_time :: "string \<Rightarrow> nat option" where
  "parse_time s = do {
     (h, m) \<leftarrow> split_once (CHR '':'') s;
     if h = [] \<or> length h > 2 \<or> length m \<noteq> 2 then None
     else do {
       h \<leftarrow> parse_unsigned 4294967295 h;
       m \<leftarrow> parse_unsigned 4294967295 m;
       if h = 24 \<and> m = 0 then Some MINUTES_PER_DAY
       else if h \<le> 23 \<and> m \<le> 59 then Some (h * 60 + m)
       else None
     }
   }"

text \<open>\<open>sort_by_key\<close> is stable, like \<open>sort_key\<close>; \<open>dedup\<close> drops adjacent duplicates.\<close>

definition window_normalize :: "ScheduleWindow \<Rightarrow> ScheduleWindow" where
  "window_normalize w =
     \<lparr>win_days = remdups_adj (sort_key (\<lambda>d. case day_index d of Some i \<Rightarrow> i | None \<Rightarrow> 4294967295)
        (filter (\<lambda>d. d \<noteq> []) (map (\<lambda>d. lowercase (trim d)) (win_days w)))),
      win_from = trim (win_from w), win_to = trim (win_to w)\<rparr>"

fun collect_days :: "string list \<Rightarrow> ScheduleError + nat list" where
  "collect_days [] = Inr []"
| "collect_days (d # ds) =
     (case day_index d of
        None \<Rightarrow> Inl (BadDay d)
      | Some i \<Rightarrow> (case collect_days ds of Inl e \<Rightarrow> Inl e | Inr js \<Rightarrow> Inr (i # js)))"

definition window_len :: "nat \<Rightarrow> nat \<Rightarrow> nat" where
  "window_len from to = (if to > from then to - from
     else if to < from then MINUTES_PER_DAY - from + to else MINUTES_PER_DAY)"

definition window_spans :: "ScheduleWindow \<Rightarrow> ScheduleError + (nat \<times> nat) list" where
  "window_spans w =
     (case parse_time (win_from w) of
        None \<Rightarrow> Inl (BadStart (win_from w))
      | Some from \<Rightarrow>
          if \<not> from < MINUTES_PER_DAY then Inl (BadStart (win_from w))
          else (case parse_time (win_to w) of
              None \<Rightarrow> Inl (BadEnd (win_to w))
            | Some to \<Rightarrow>
                let len = window_len from to in
                (case (if win_days w = [] then Inr [0..<7] else collect_days (win_days w)) of
                   Inl e \<Rightarrow> Inl e
                 | Inr days \<Rightarrow> Inr (map (\<lambda>d. (d * MINUTES_PER_DAY + from, len)) days))))"

type_synonym Schedule = "(nat \<times> nat) list"

fun compile_from :: "nat \<Rightarrow> ScheduleWindow list \<Rightarrow> Schedule \<Rightarrow> ScheduleError + Schedule" where
  "compile_from i [] spans = Inr spans"
| "compile_from i (w # ws) spans =
     (case window_spans w of
        Inl e \<Rightarrow> Inl (InWindow (i + 1) e)
      | Inr sp \<Rightarrow> compile_from (i + 1) ws (spans @ sp))"

definition schedule_compile :: "ScheduleWindow list \<Rightarrow> ScheduleError + Schedule" where
  "schedule_compile windows = compile_from 0 windows []"

definition schedule_is_active :: "Schedule \<Rightarrow> nat \<Rightarrow> bool" where
  "schedule_is_active spans minute \<longleftrightarrow> spans = [] \<or>
     list_ex (\<lambda>(start, len). (minute + MINUTES_PER_WEEK - start) mod MINUTES_PER_WEEK < len) spans"

definition is_always :: "Schedule \<Rightarrow> bool" where
  "is_always spans \<longleftrightarrow> spans = []"

definition schedule_never :: Schedule where
  "schedule_never = [(0, 0)]"

lemmas minutes = MINUTES_PER_DAY_def MINUTES_PER_WEEK_def

section \<open>Facts\<close>

lemma position_less: "position P xs = Some i \<Longrightarrow> i < length xs"
  by (induction xs arbitrary: i) (auto split: if_splits)

lemma day_index_less: "day_index d = Some i \<Longrightarrow> i < 7"
  using position_less [of "\<lambda>x. x = d" DAYS i] by (simp add: day_index_def DAYS_def)

lemma parse_time_le: "parse_time s = Some t \<Longrightarrow> t \<le> 1440"
  by (auto simp: parse_time_def minutes bind_eq_Some_conv split: if_splits)

lemma collect_days_Inr: "collect_days ds = Inr js \<Longrightarrow>
    length js = length ds \<and> (\<forall>j \<in> set js. j < 7) \<and> (\<forall>j. j \<in> set js \<longleftrightarrow> (\<exists>d \<in> set ds. day_index d = Some j))"
  by (induction ds arbitrary: js) (auto dest: day_index_less split: option.splits sum.splits)

text \<open>One span against the clock: the day of the window, or its overhang into the next day.\<close>

lemma week_offset:
  "n < 10080 \<Longrightarrow> s < 10080 \<Longrightarrow> (n + 10080 - s) mod 10080 = (if s \<le> n then n - s else n + 10080 - s)"
  for n s :: nat
  by (simp add: mod_if)

lemma window_len_le: "f < 1440 \<Longrightarrow> t \<le> 1440 \<Longrightarrow> window_len f t \<le> 1440"
  by (auto simp: window_len_def minutes)

lemma span_active:
  assumes "d < 7" "m < 1440" "e < 7" "f < 1440" "t \<le> 1440"
  shows "(d * 1440 + m + 10080 - (e * 1440 + f)) mod 10080 < window_len f t \<longleftrightarrow>
    (if f < t then d = e \<and> f \<le> m \<and> m < t
     else (d = e \<and> f \<le> m) \<or> (d = (e + 1) mod 7 \<and> m < t))"
proof -
  let ?n = "d * 1440 + m" and ?s = "e * 1440 + f"
  have mod: "(?n + 10080 - ?s) mod 10080 = (if ?s \<le> ?n then ?n - ?s else ?n + 10080 - ?s)"
    using assms by (intro week_offset) simp_all
  note len = window_len_le [OF assms(4,5)]
  consider (same) "d = e" | (after) "d = e + 1" | (wrap) "e = 6" "d = 0"
    | (later) "e + 2 \<le> d" | (earlier) "d < e" "e \<le> d + 5"
    using assms by linarith
  then show ?thesis
  proof cases
    case same
    have "(e + 1) mod 7 \<noteq> e" by (cases "e = 6") (use assms in auto)
    with same show ?thesis
      using assms unfolding mod by (cases "f \<le> m") (auto simp: window_len_def minutes)
  next
    case after
    then have "(e + 1) mod 7 = d" "d \<noteq> e" "?s \<le> ?n" "?n - ?s = 1440 + m - f" using assms by auto
    then show ?thesis using assms unfolding mod by (auto simp: window_len_def minutes)
  next
    case wrap
    then have "\<not> ?s \<le> ?n" "?n + 10080 - ?s = 1440 + m - f" using assms by auto
    then show ?thesis using assms wrap unfolding mod by (auto simp: window_len_def minutes)
  next
    case later
    then have "?s \<le> ?n" "?n - ?s > 1440" "(e + 1) mod 7 \<noteq> d" using assms by auto
    then show ?thesis using len later unfolding mod by auto
  next
    case earlier
    then have "\<not> ?s \<le> ?n" "?n + 10080 - ?s > 1440" using assms by auto
    moreover have "(e + 1) mod 7 \<noteq> d" by (cases "e = 6") (use earlier assms in auto)
    ultimately show ?thesis using len earlier unfolding mod by auto
  qed
qed

lemma window_spans_Inr:
  assumes "window_spans w = Inr sp"
  obtains f t days where "parse_time (win_from w) = Some f" "f < 1440"
    "parse_time (win_to w) = Some t" "t \<le> 1440" "days \<noteq> []" "\<forall>e \<in> set days. e < 7"
    "\<And>e. e \<in> set days \<longleftrightarrow> (if win_days w = [] then e < 7 else \<exists>d \<in> set (win_days w). day_index d = Some e)"
    "sp = map (\<lambda>d. (d * 1440 + f, window_len f t)) days"
proof -
  from assms obtain f t days where *: "parse_time (win_from w) = Some f" "f < 1440"
      "parse_time (win_to w) = Some t"
      "(if win_days w = [] then Inr [0..<7] else collect_days (win_days w)) = Inr days"
      "sp = map (\<lambda>d. (d * 1440 + f, window_len f t)) days"
    by (auto simp: window_spans_def minutes Let_def split: option.splits if_splits sum.splits)
  have days: "days \<noteq> []" "\<forall>e \<in> set days. e < 7" "\<And>e. e \<in> set days \<longleftrightarrow>
      (if win_days w = [] then e < 7 else \<exists>d \<in> set (win_days w). day_index d = Some e)"
    using *(4) collect_days_Inr [of "win_days w" days] by (auto split: if_splits)
  show thesis by (rule that [OF *(1,2,3) parse_time_le [OF *(3)] days *(5)])
qed

section \<open>Properties\<close>

text \<open>
  C26. A window that compiles means what it says. On its days it is on from its start to its
  end; when the end is not after the start it runs past midnight, from the start to the end
  of the day and on to its end time on the day after, across the end of the week too.
\<close>

theorem window_means:
  assumes "window_spans w = Inr sp" and "d < 7" and "m < MINUTES_PER_DAY"
    and "parse_time (win_from w) = Some f" and "parse_time (win_to w) = Some t"
    and "\<And>e. starts e \<longleftrightarrow> (if win_days w = [] then e < 7 else \<exists>x \<in> set (win_days w). day_index x = Some e)"
  shows "schedule_is_active sp (d * MINUTES_PER_DAY + m) \<longleftrightarrow>
    (if f < t then starts d \<and> f \<le> m \<and> m < t
     else (starts d \<and> f \<le> m) \<or> (starts ((d + 6) mod 7) \<and> m < t))"
proof -
  from assms(1) obtain days where days: "f < 1440" "t \<le> 1440" "days \<noteq> []" "\<forall>e \<in> set days. e < 7"
      "\<And>e. e \<in> set days \<longleftrightarrow> starts e" "sp = map (\<lambda>d. (d * 1440 + f, window_len f t)) days"
    by (rule window_spans_Inr) (use assms(4-6) in auto)
  have "schedule_is_active sp (d * 1440 + m) \<longleftrightarrow>
      (\<exists>e \<in> set days. (d * 1440 + m + 10080 - (e * 1440 + f)) mod 10080 < window_len f t)"
    using days(3) by (auto simp: days(6) schedule_is_active_def minutes list_ex_iff)
  also have "\<dots> \<longleftrightarrow> (\<exists>e \<in> set days. if f < t then d = e \<and> f \<le> m \<and> m < t
      else (d = e \<and> f \<le> m) \<or> (d = (e + 1) mod 7 \<and> m < t))"
    using days(1,2,4) assms(2,3) by (intro bex_cong refl span_active) (auto simp: minutes)
  also have "\<dots> \<longleftrightarrow> (if f < t then starts d \<and> f \<le> m \<and> m < t
     else (starts d \<and> f \<le> m) \<or> (starts ((d + 6) mod 7) \<and> m < t))"
  proof -
    have "d = (e + 1) mod 7 \<longleftrightarrow> e = (d + 6) mod 7" if "e < 7" for e
      using that assms(2) by (cases "e = 6"; cases "d = 0") (auto simp: mod_if)
    with days(4,5) show ?thesis by (auto split: if_splits)
  qed
  finally show ?thesis by (simp add: minutes)
qed

theorem window_means_witness:
  "schedule_is_active [(6 * 1440 + 21 * 60, 600)] (0 * MINUTES_PER_DAY + 6 * 60)"
proof -
  let ?w = "\<lparr>win_days = [''sun''], win_from = ''21:00'', win_to = ''07:00''\<rparr>"
  have sp: "window_spans ?w = Inr [(6 * 1440 + 21 * 60, 600)]"
      and ft: "parse_time ''21:00'' = Some 1260" "parse_time ''07:00'' = Some 420"
      and sun: "day_index ''sun'' = Some 6"
    by (simp_all add: window_spans_def parse_time_def parse_unsigned_def digit_def day_index_def
        DAYS_def window_len_def minutes)
  show ?thesis
    using window_means [OF sp, of 0 "6 * 60" 1260 420 "\<lambda>e. e = 6"] ft sun by (simp add: minutes)
qed

text \<open>
  Normalizing a window keeps its meaning: the days come out in calendar order, and a
  window with valid days in any spelling of case and white space has each of them once.
\<close>

lemma sorted_remdups_adj_map: "sorted (map f xs) \<Longrightarrow> sorted (map f (remdups_adj xs))"
  by (induction xs rule: remdups_adj.induct) auto

lemma distinct_remdups_adj:
  "sorted (map f xs) \<Longrightarrow> inj_on f (set xs) \<Longrightarrow> distinct (remdups_adj xs)"
  for f :: "'a \<Rightarrow> 'b :: linorder"
proof (induction xs rule: remdups_adj.induct)
  case (3 x y xs)
  then have "x \<noteq> y \<Longrightarrow> x \<notin> set (y # xs)" by (auto simp: inj_on_def dest: order_antisym)
  with 3 show ?case by auto
qed simp_all

lemma position_eq_inj: "position (\<lambda>x. x = a) xs = Some i \<Longrightarrow> xs ! i = a"
  by (induction xs arbitrary: i) (auto split: if_splits)

theorem window_normalize_days:
  "let ds = win_days (window_normalize w) in
     sorted (map (\<lambda>d. case day_index d of Some i \<Rightarrow> i | None \<Rightarrow> 4294967295) ds) \<and>
     set ds = {lowercase (trim d) |d. d \<in> set (win_days w) \<and> lowercase (trim d) \<noteq> []} \<and>
     (list_all (\<lambda>d. day_index d \<noteq> None) ds \<longrightarrow> distinct ds)"
proof -
  let ?key = "\<lambda>d. case day_index d of Some i \<Rightarrow> i | None \<Rightarrow> (4294967295 :: nat)"
  let ?xs = "sort_key ?key (filter (\<lambda>d. d \<noteq> []) (map (\<lambda>d. lowercase (trim d)) (win_days w)))"
  have ds: "win_days (window_normalize w) = remdups_adj ?xs" by (simp add: window_normalize_def)
  have sorted: "sorted (map ?key ?xs)" by simp
  have "distinct (remdups_adj ?xs)" if "list_all (\<lambda>d. day_index d \<noteq> None) (remdups_adj ?xs)"
  proof (rule distinct_remdups_adj [OF sorted])
    have "\<forall>d \<in> set ?xs. \<exists>i. day_index d = Some i" using that by (auto simp: list_all_iff)
    moreover have inj: "a = b" if "day_index a = Some i" "day_index b = Some i" for a b i
      using position_eq_inj that unfolding day_index_def by metis
    ultimately show "inj_on ?key (set ?xs)"
    proof (intro inj_onI)
      fix a b assume "a \<in> set ?xs" "b \<in> set ?xs" "?key a = ?key b"
      with \<open>\<forall>d \<in> set ?xs. \<exists>i. day_index d = Some i\<close> obtain i
        where "day_index a = Some i" "day_index b = Some i" by (metis option.simps(5))
      then show "a = b" by (rule inj)
    qed
  qed
  with sorted_remdups_adj_map [OF sorted] show ?thesis unfolding ds Let_def by auto
qed

theorem window_normalize_days_witness:
  "distinct (win_days (window_normalize \<lparr>win_days = [''Sun'', ''mon '', ''sun''], win_from = ''9:00'', win_to = ''10:00''\<rparr>))"
proof -
  let ?w = "\<lparr>win_days = [''Sun'', ''mon '', ''sun''], win_from = ''9:00'', win_to = ''10:00''\<rparr>"
  have "lowercase (trim ''Sun'') = ''sun''" "lowercase (trim ''mon '') = ''mon''"
      "lowercase (trim ''sun'') = ''sun''" by code_simp+
  moreover have "day_index ''sun'' = Some 6" "day_index ''mon'' = Some 0"
    by (simp_all add: day_index_def DAYS_def)
  ultimately show ?thesis
    using window_normalize_days [of ?w] by (auto simp: Let_def list_all_iff)
qed

text \<open>
  A time is read more freely than \<open>HH:MM\<close>: the integer parser accepts a plus sign, so
  \<open>+9:+5\<close> is five past nine.
\<close>

theorem parse_time_accepts_signs: "parse_time ''+9:+5'' = Some 545"
  by (simp add: parse_time_def parse_unsigned_def digit_def)

end
