(* ===== verification/Dhcp_Message.thy ===== *)
theory Dhcp_Message
  imports Prelude
begin

unbundle bit_operations_syntax

text \<open>
  DHCPv4 messages on the wire: \<open>crates/dhcp/src/options.rs\<close> (the option area) and
  \<open>crates/dhcp/src/message.rs\<close> (the BOOTP header, the magic cookie and the accessors).
  An \<open>Ipv4Addr\<close> is its 32-bit value, a Rust \<open>String\<close> is the list of its UTF-8 bytes, and
  \<open>String::from_utf8_lossy\<close> is modelled byte for byte.
\<close>

section \<open>Addresses and text\<close>

type_synonym Ipv4Addr = u32
type_synonym mac = "u8 \<times> u8 \<times> u8 \<times> u8 \<times> u8 \<times> u8"

definition UNSPECIFIED :: Ipv4Addr where "UNSPECIFIED = 0"
definition BROADCAST :: Ipv4Addr where "BROADCAST = 0xFFFFFFFF"

definition mac_bytes :: "mac \<Rightarrow> bytes" where
  "mac_bytes m = (case m of (a, b, c, d, e, f) \<Rightarrow> [a, b, c, d, e, f])"

lemma length_mac_bytes [simp]: "length (mac_bytes m) = 6"
  by (cases m) (simp add: mac_bytes_def)

text \<open>
  One step of the lossy decoder: how many bytes it consumes and whether they form a
  character. Out of range it reads a zero, as \<open>safe_get\<close> of the standard library does.
\<close>

definition safe_get :: "bytes \<Rightarrow> nat \<Rightarrow> u8" where
  "safe_get xs i = (if i < length xs then xs ! i else 0)"

definition continuation :: "u8 \<Rightarrow> bool" where
  "continuation b \<longleftrightarrow> b AND 192 = 128"

definition second_of_3 :: "u8 \<Rightarrow> u8 \<Rightarrow> bool" where
  "second_of_3 b c \<longleftrightarrow> (b = 0xE0 \<and> 0xA0 \<le> c \<and> c \<le> 0xBF) \<or> (0xE1 \<le> b \<and> b \<le> 0xEC \<and> 0x80 \<le> c \<and> c \<le> 0xBF) \<or>
     (b = 0xED \<and> 0x80 \<le> c \<and> c \<le> 0x9F) \<or> (0xEE \<le> b \<and> b \<le> 0xEF \<and> 0x80 \<le> c \<and> c \<le> 0xBF)"

definition second_of_4 :: "u8 \<Rightarrow> u8 \<Rightarrow> bool" where
  "second_of_4 b c \<longleftrightarrow> (b = 0xF0 \<and> 0x90 \<le> c \<and> c \<le> 0xBF) \<or> (0xF1 \<le> b \<and> b \<le> 0xF3 \<and> 0x80 \<le> c \<and> c \<le> 0xBF) \<or>
     (b = 0xF4 \<and> 0x80 \<le> c \<and> c \<le> 0x8F)"

definition utf8_char_width :: "u8 \<Rightarrow> nat" where
  "utf8_char_width b = (if b < 0x80 then 1 else if 0xC2 \<le> b \<and> b \<le> 0xDF then 2
     else if 0xE0 \<le> b \<and> b \<le> 0xEF then 3 else if 0xF0 \<le> b \<and> b \<le> 0xF4 then 4 else 0)"

definition utf8_step :: "bytes \<Rightarrow> nat \<times> bool" where
  "utf8_step xs =
     (let b = safe_get xs 0; w = utf8_char_width b in
      if w = 1 then (1, True)
      else if w = 2 then (if continuation (safe_get xs 1) then (2, True) else (1, False))
      else if w = 3 then
        (if \<not> second_of_3 b (safe_get xs 1) then (1, False)
         else if continuation (safe_get xs 2) then (3, True) else (2, False))
      else if w = 4 then
        (if \<not> second_of_4 b (safe_get xs 1) then (1, False)
         else if \<not> continuation (safe_get xs 2) then (2, False)
         else if continuation (safe_get xs 3) then (4, True) else (3, False))
      else (1, False))"

lemma utf8_step_pos: "0 < fst (utf8_step xs)"
  by (simp add: utf8_step_def Let_def)

definition replacement :: bytes where "replacement = [0xEF, 0xBF, 0xBD]"

function from_utf8_lossy :: "bytes \<Rightarrow> bytes" where
  "from_utf8_lossy xs =
     (if xs = [] then []
      else (if snd (utf8_step xs) then take (fst (utf8_step xs)) xs else replacement)
        @ from_utf8_lossy (drop (fst (utf8_step xs)) xs))"
  by pat_completeness auto
termination
  by (relation "measure length") (auto simp: utf8_step_pos)

declare from_utf8_lossy.simps [simp del]

text \<open>The byte lists that are the contents of a \<open>String\<close>: every step finds a character.\<close>

function utf8_valid :: "bytes \<Rightarrow> bool" where
  "utf8_valid xs =
     (if xs = [] then True
      else if snd (utf8_step xs) then utf8_valid (drop (fst (utf8_step xs)) xs)
      else False)"
  by pat_completeness auto
termination
  by (relation "measure length") (auto simp: utf8_step_pos)

declare utf8_valid.simps [simp del]

section \<open>Options\<close>

datatype MessageType = Discover | Offer | Request | Decline | Ack | Nak | Release | Inform

definition MessageType_from_u8 :: "u8 \<Rightarrow> MessageType option" where
  "MessageType_from_u8 v =
     (if v = 1 then Some Discover else if v = 2 then Some Offer else if v = 3 then Some Request
      else if v = 4 then Some Decline else if v = 5 then Some Ack else if v = 6 then Some Nak
      else if v = 7 then Some Release else if v = 8 then Some Inform else None)"

primrec MessageType_to_u8 :: "MessageType \<Rightarrow> u8" where
  "MessageType_to_u8 Discover = 1"
| "MessageType_to_u8 Offer = 2"
| "MessageType_to_u8 Request = 3"
| "MessageType_to_u8 Decline = 4"
| "MessageType_to_u8 Ack = 5"
| "MessageType_to_u8 Nak = 6"
| "MessageType_to_u8 Release = 7"
| "MessageType_to_u8 Inform = 8"

datatype DhcpOption =
    MessageTypeOpt MessageType
  | ServerIdentifier Ipv4Addr
  | RequestedIp Ipv4Addr
  | LeaseTime u32
  | SubnetMask Ipv4Addr
  | Router "Ipv4Addr list"
  | DnsServers "Ipv4Addr list"
  | Hostname bytes
  | DomainName bytes
  | ParameterRequestList bytes
  | ClientIdentifier bytes
  | RenewalTime u32
  | RebindingTime u32
  | Unknown u8 bytes

definition PAD :: u8 where "PAD = 0"
definition END :: u8 where "END = 255"

primrec code :: "DhcpOption \<Rightarrow> u8" where
  "code (SubnetMask _) = 1"
| "code (Router _) = 3"
| "code (DnsServers _) = 6"
| "code (Hostname _) = 12"
| "code (DomainName _) = 15"
| "code (RequestedIp _) = 50"
| "code (LeaseTime _) = 51"
| "code (MessageTypeOpt _) = 53"
| "code (ServerIdentifier _) = 54"
| "code (ParameterRequestList _) = 55"
| "code (RenewalTime _) = 58"
| "code (RebindingTime _) = 59"
| "code (ClientIdentifier _) = 61"
| "code (Unknown c _) = c"

text \<open>The helpers \<open>put\<close> and \<open>ips\<close> of \<open>encode_into\<close>. The length byte is \<open>data.len() as u8\<close>, which truncates.\<close>

definition put :: "bytes \<Rightarrow> u8 \<Rightarrow> bytes \<Rightarrow> bytes" where
  "put out c data = out @ [c, word_of_nat (length data)] @ data"

definition ips :: "Ipv4Addr list \<Rightarrow> bytes" where
  "ips xs = concat (map u32_bytes xs)"

primrec encode_into :: "DhcpOption \<Rightarrow> bytes \<Rightarrow> bytes" where
  "encode_into (MessageTypeOpt t) out = put out 53 [MessageType_to_u8 t]"
| "encode_into (ServerIdentifier ip) out = put out 54 (u32_bytes ip)"
| "encode_into (RequestedIp ip) out = put out 50 (u32_bytes ip)"
| "encode_into (SubnetMask ip) out = put out 1 (u32_bytes ip)"
| "encode_into (LeaseTime secs) out = put out 51 (u32_bytes secs)"
| "encode_into (RenewalTime secs) out = put out 58 (u32_bytes secs)"
| "encode_into (RebindingTime secs) out = put out 59 (u32_bytes secs)"
| "encode_into (Router xs) out = put out 3 (ips xs)"
| "encode_into (DnsServers xs) out = put out 6 (ips xs)"
| "encode_into (Hostname s) out = put out 12 s"
| "encode_into (DomainName s) out = put out 15 s"
| "encode_into (ParameterRequestList codes) out = put out 55 codes"
| "encode_into (ClientIdentifier codes) out = put out 61 codes"
| "encode_into (Unknown c data) out = put out c data"

definition first4 :: "bytes \<Rightarrow> u32 option" where
  "first4 data = (case data of a # b # c # d # _ \<Rightarrow> Some (be32 a b c d) | _ \<Rightarrow> None)"

fun ip_list :: "bytes \<Rightarrow> Ipv4Addr list" where
  "ip_list (a # b # c # d # rest) = be32 a b c d # ip_list rest"
| "ip_list _ = []"

definition or_unknown :: "('a \<Rightarrow> DhcpOption) \<Rightarrow> 'a option \<Rightarrow> u8 \<Rightarrow> bytes \<Rightarrow> DhcpOption" where
  "or_unknown mk v c data = (case v of Some x \<Rightarrow> mk x | None \<Rightarrow> Unknown c data)"

definition decode_one :: "u8 \<Rightarrow> bytes \<Rightarrow> DhcpOption" where
  "decode_one c data =
     (if c = 1 then or_unknown SubnetMask (first4 data) c data
      else if c = 3 then Router (ip_list data)
      else if c = 6 then DnsServers (ip_list data)
      else if c = 12 then Hostname (from_utf8_lossy data)
      else if c = 15 then DomainName (from_utf8_lossy data)
      else if c = 50 then or_unknown RequestedIp (first4 data) c data
      else if c = 51 then or_unknown LeaseTime (first4 data) c data
      else if c = 53 then or_unknown MessageTypeOpt
        (case data of [] \<Rightarrow> None | b # _ \<Rightarrow> MessageType_from_u8 b) c data
      else if c = 54 then or_unknown ServerIdentifier (first4 data) c data
      else if c = 55 then ParameterRequestList data
      else if c = 58 then or_unknown RenewalTime (first4 data) c data
      else if c = 59 then or_unknown RebindingTime (first4 data) c data
      else if c = 61 then ClientIdentifier data
      else Unknown c data)"

datatype DecodeError = TooShort | BadMagicCookie | TruncatedOption

text \<open>The cursor \<open>i\<close> of the source is the remaining suffix of the buffer.\<close>

function options_decode :: "bytes \<Rightarrow> DecodeError + DhcpOption list" where
  "options_decode [] = Inr []"
| "options_decode (c # rest) =
     (if c = PAD then options_decode rest
      else if c = END then Inr []
      else case rest of
        [] \<Rightarrow> Inl TruncatedOption
      | len # rest' \<Rightarrow>
          if unat len > length rest' then Inl TruncatedOption
          else case options_decode (drop (unat len) rest') of
            Inl e \<Rightarrow> Inl e
          | Inr opts \<Rightarrow> Inr (decode_one c (take (unat len) rest') # opts))"
  by pat_completeness auto
termination
  by (relation "measure length") auto

definition options_encode :: "DhcpOption list \<Rightarrow> bytes" where
  "options_encode opts = fold encode_into opts [] @ [END]"

section \<open>Messages\<close>

definition MAGIC_COOKIE :: bytes where "MAGIC_COOKIE = [99, 130, 83, 99]"
definition BOOTP_HEADER_LEN :: nat where "BOOTP_HEADER_LEN = 236"
definition MIN_LEN :: nat where "MIN_LEN = BOOTP_HEADER_LEN + 4"

datatype Op = BootRequest | BootReply

definition Op_from_u8 :: "u8 \<Rightarrow> Op option" where
  "Op_from_u8 v = (if v = 1 then Some BootRequest else if v = 2 then Some BootReply else None)"

primrec Op_to_u8 :: "Op \<Rightarrow> u8" where
  "Op_to_u8 BootRequest = 1"
| "Op_to_u8 BootReply = 2"

record DhcpMessage =
  op :: Op
  xid :: u32
  secs :: u16
  flags :: u16
  ciaddr :: Ipv4Addr
  yiaddr :: Ipv4Addr
  siaddr :: Ipv4Addr
  giaddr :: Ipv4Addr
  chaddr :: mac
  options :: "DhcpOption list"

definition broadcast :: "DhcpMessage \<Rightarrow> bool" where
  "broadcast m \<longleftrightarrow> flags m AND 0x8000 \<noteq> 0"

fun find_map :: "('a \<Rightarrow> 'b option) \<Rightarrow> 'a list \<Rightarrow> 'b option" where
  "find_map f [] = None"
| "find_map f (x # xs) = (case f x of Some y \<Rightarrow> Some y | None \<Rightarrow> find_map f xs)"

definition message_type :: "DhcpMessage \<Rightarrow> MessageType option" where
  "message_type m = find_map (\<lambda>opt. case opt of MessageTypeOpt t \<Rightarrow> Some t | _ \<Rightarrow> None) (options m)"

definition requested_ip :: "DhcpMessage \<Rightarrow> Ipv4Addr option" where
  "requested_ip m = find_map (\<lambda>opt. case opt of RequestedIp ip \<Rightarrow> Some ip | _ \<Rightarrow> None) (options m)"

definition server_identifier :: "DhcpMessage \<Rightarrow> Ipv4Addr option" where
  "server_identifier m = find_map (\<lambda>opt. case opt of ServerIdentifier ip \<Rightarrow> Some ip | _ \<Rightarrow> None) (options m)"

definition hostname :: "DhcpMessage \<Rightarrow> bytes option" where
  "hostname m = find_map (\<lambda>opt. case opt of Hostname h \<Rightarrow> Some h | _ \<Rightarrow> None) (options m)"

definition read_ip :: "bytes \<Rightarrow> nat \<Rightarrow> Ipv4Addr rs" where
  "read_ip buf i = do {
     a \<leftarrow> index buf i; b \<leftarrow> index buf (i + 1); c \<leftarrow> index buf (i + 2); d \<leftarrow> index buf (i + 3);
     Some (be32 a b c d)
   }"

definition read_mac :: "bytes \<Rightarrow> nat \<Rightarrow> mac rs" where
  "read_mac buf i = do {
     a \<leftarrow> index buf i; b \<leftarrow> index buf (i + 1); c \<leftarrow> index buf (i + 2);
     d \<leftarrow> index buf (i + 3); e \<leftarrow> index buf (i + 4); f \<leftarrow> index buf (i + 5);
     Some (a, b, c, d, e, f)
   }"

definition decode :: "bytes \<Rightarrow> (DecodeError + DhcpMessage) rs" where
  "decode buf =
     (if length buf < MIN_LEN then Some (Inl TooShort)
      else do {
        cookie \<leftarrow> get_range buf 236 240;
        if cookie \<noteq> MAGIC_COOKIE then Some (Inl BadMagicCookie)
        else do {
          b0 \<leftarrow> index buf 0;
          (case Op_from_u8 b0 of
             None \<Rightarrow> Some (Inl BadMagicCookie)
           | Some opc \<Rightarrow> do {
               x0 \<leftarrow> index buf 4; x1 \<leftarrow> index buf 5; x2 \<leftarrow> index buf 6; x3 \<leftarrow> index buf 7;
               s0 \<leftarrow> index buf 8; s1 \<leftarrow> index buf 9;
               f0 \<leftarrow> index buf 10; f1 \<leftarrow> index buf 11;
               hw \<leftarrow> read_mac buf 28;
               area \<leftarrow> get_range buf 240 (length buf);
               (case options_decode area of
                  Inl e \<Rightarrow> Some (Inl e)
                | Inr opts \<Rightarrow> do {
                    ci \<leftarrow> read_ip buf 12; yi \<leftarrow> read_ip buf 16;
                    si \<leftarrow> read_ip buf 20; gi \<leftarrow> read_ip buf 24;
                    Some (Inr \<lparr>op = opc, xid = be32 x0 x1 x2 x3, secs = be16 s0 s1, flags = be16 f0 f1,
                      ciaddr = ci, yiaddr = yi, siaddr = si, giaddr = gi, chaddr = hw,
                      options = opts\<rparr>)
                  })
             })
        }
      })"

definition encode :: "DhcpMessage \<Rightarrow> bytes rs" where
  "encode m = do {
     let buf = replicate BOOTP_HEADER_LEN 0;
     buf \<leftarrow> set_at buf 0 (Op_to_u8 (op m));
     buf \<leftarrow> set_at buf 1 1;
     buf \<leftarrow> set_at buf 2 6;
     buf \<leftarrow> copy_at buf 4 (u32_bytes (xid m));
     buf \<leftarrow> copy_at buf 8 (u16_bytes (secs m));
     buf \<leftarrow> copy_at buf 10 (u16_bytes (flags m));
     buf \<leftarrow> copy_at buf 12 (u32_bytes (ciaddr m));
     buf \<leftarrow> copy_at buf 16 (u32_bytes (yiaddr m));
     buf \<leftarrow> copy_at buf 20 (u32_bytes (siaddr m));
     buf \<leftarrow> copy_at buf 24 (u32_bytes (giaddr m));
     buf \<leftarrow> copy_at buf 28 (mac_bytes (chaddr m));
     Some (buf @ MAGIC_COOKIE @ options_encode (options m))
   }"

section \<open>Facts about the option area\<close>

lemma safe_get_prefix: "i < n \<Longrightarrow> n \<le> length xs \<Longrightarrow> safe_get (take n xs @ ys) i = safe_get xs i"
  by (simp add: safe_get_def nth_append)

lemma continuation_in: "continuation (safe_get xs i) \<Longrightarrow> i < length xs"
  by (rule ccontr) (simp add: safe_get_def continuation_def)

lemma utf8_char_width_cases:
  obtains "utf8_char_width b = 0" | "utf8_char_width b = 1" | "utf8_char_width b = 2"
    | "utf8_char_width b = 3" | "utf8_char_width b = 4"
  by (metis utf8_char_width_def)

lemma utf8_step_True:
  "utf8_step xs = (n, True) \<longleftrightarrow> n = utf8_char_width (safe_get xs 0) \<and> n \<noteq> 0 \<and>
     (n = 2 \<longrightarrow> continuation (safe_get xs 1)) \<and>
     (n = 3 \<longrightarrow> second_of_3 (safe_get xs 0) (safe_get xs 1) \<and> continuation (safe_get xs 2)) \<and>
     (n = 4 \<longrightarrow> second_of_4 (safe_get xs 0) (safe_get xs 1) \<and> continuation (safe_get xs 2) \<and>
        continuation (safe_get xs 3))"
  by (rule utf8_char_width_cases [of "safe_get xs 0"]) (auto simp: utf8_step_def)

lemma utf8_step_length: "xs \<noteq> [] \<Longrightarrow> utf8_step xs = (n, True) \<Longrightarrow> n \<le> length xs"
  by (rule utf8_char_width_cases [of "safe_get xs 0"])
    (auto simp: utf8_step_True Suc_le_eq dest!: continuation_in)

lemma utf8_step_take:
  assumes "xs \<noteq> []" and "utf8_step xs = (n, True)"
  shows "utf8_step (take n xs @ ys) = (n, True)"
proof -
  have "n \<le> length xs" using assms by (rule utf8_step_length)
  then have get: "safe_get (take n xs @ ys) i = safe_get xs i" if "i < n" for i
    using that by (rule safe_get_prefix [rotated])
  from assms(2) have "0 < n" by (simp add: utf8_step_True)
  with assms(2) get [of 0] get [of 1] get [of 2] get [of 3] show ?thesis
    by (auto simp: utf8_step_True)
qed

lemma utf8_valid_Nil [simp]: "utf8_valid []"
  by (simp add: utf8_valid.simps)

lemma utf8_valid_append:
  "xs \<noteq> [] \<Longrightarrow> utf8_step xs = (n, True) \<Longrightarrow> utf8_valid ys \<Longrightarrow> utf8_valid (take n xs @ ys)"
  using utf8_step_take [of xs n ys] utf8_step_length [of xs n] utf8_step_pos [of xs]
  by (subst utf8_valid.simps) auto

lemma from_utf8_lossy_Nil [simp]: "from_utf8_lossy [] = []"
  by (simp add: from_utf8_lossy.simps)

lemma from_utf8_lossy_valid: "utf8_valid xs \<Longrightarrow> from_utf8_lossy xs = xs"
proof (induction xs rule: utf8_valid.induct)
  case (1 xs)
  then show ?case
    by (cases "xs = []")
      (auto simp: from_utf8_lossy.simps [of xs] utf8_valid.simps [of xs] split: if_splits)
qed

text \<open>Whatever the bytes are, the lossy reading of them is valid UTF-8: it is a \<open>String\<close>.\<close>

lemma utf8_valid_from_utf8_lossy: "utf8_valid (from_utf8_lossy xs)"
proof (induction xs rule: from_utf8_lossy.induct)
  case (1 xs)
  show ?case
  proof (cases "xs = []")
    case False
    have IH: "utf8_valid (from_utf8_lossy (drop (fst (utf8_step xs)) xs))" by (rule "1.IH" [OF False])
    have "utf8_step replacement = (3, True)" by code_simp
    from utf8_valid_append [OF _ this IH] have "utf8_valid (replacement @ from_utf8_lossy (drop (fst (utf8_step xs)) xs))"
      by (simp add: replacement_def)
    moreover have "utf8_valid (take (fst (utf8_step xs)) xs @ from_utf8_lossy (drop (fst (utf8_step xs)) xs))"
      if "snd (utf8_step xs)"
      using that False IH by (intro utf8_valid_append) (simp_all add: prod_eq_iff)
    ultimately show ?thesis using False by (simp add: from_utf8_lossy.simps [of xs])
  qed simp
qed

lemma MessageType_u8 [simp]: "MessageType_from_u8 (MessageType_to_u8 t) = Some t"
  by (cases t) (simp_all add: MessageType_from_u8_def)

lemma Op_u8 [simp]: "Op_from_u8 (Op_to_u8 t) = Some t"
  by (cases t) (simp_all add: Op_from_u8_def)

lemma u32_bytesE: obtains a b c d where "u32_bytes w = [a, b, c, d]" "be32 a b c d = w"
  using be32_u32_bytes [of w] by (simp add: u32_bytes_def)

lemma first4_u32_bytes [simp]: "first4 (u32_bytes w @ ys) = Some w"
  by (rule u32_bytesE [of w]) (simp add: first4_def)

lemma first4_u32_bytes_only [simp]: "first4 (u32_bytes w) = Some w"
  using first4_u32_bytes [of w "[]"] by simp

lemma ip_list_ips [simp]: "ip_list (ips xs) = xs"
proof (induction xs)
  case (Cons w xs)
  obtain a b c d where "u32_bytes w = [a, b, c, d]" "be32 a b c d = w" by (rule u32_bytesE)
  with Cons show ?case by (simp add: ips_def)
qed (simp add: ips_def)

lemma length_ips [simp]: "length (ips xs) = 4 * length xs"
  by (induction xs) (simp_all add: ips_def)

text \<open>The payload an option is encoded with.\<close>

primrec payload :: "DhcpOption \<Rightarrow> bytes" where
  "payload (MessageTypeOpt t) = [MessageType_to_u8 t]"
| "payload (ServerIdentifier ip) = u32_bytes ip"
| "payload (RequestedIp ip) = u32_bytes ip"
| "payload (SubnetMask ip) = u32_bytes ip"
| "payload (LeaseTime n) = u32_bytes n"
| "payload (RenewalTime n) = u32_bytes n"
| "payload (RebindingTime n) = u32_bytes n"
| "payload (Router xs) = ips xs"
| "payload (DnsServers xs) = ips xs"
| "payload (Hostname s) = s"
| "payload (DomainName s) = s"
| "payload (ParameterRequestList cs) = cs"
| "payload (ClientIdentifier cs) = cs"
| "payload (Unknown c data) = data"

text \<open>
  The options a message can carry: payloads of at most 255 bytes, text that is valid
  UTF-8, and raw options only where the payload has no typed reading.
\<close>

definition typed_codes :: "u8 list" where
  "typed_codes = [1, 3, 6, 12, 15, 50, 51, 53, 54, 55, 58, 59, 61]"

definition raw_ok :: "u8 \<Rightarrow> bytes \<Rightarrow> bool" where
  "raw_ok c data \<longleftrightarrow> c \<noteq> PAD \<and> c \<noteq> END \<and>
     (c \<in> set typed_codes \<longrightarrow> (c \<in> {1, 50, 51, 54, 58, 59} \<and> length data < 4) \<or>
        (c = 53 \<and> (data = [] \<or> MessageType_from_u8 (hd data) = None)))"

definition option_ok :: "DhcpOption \<Rightarrow> bool" where
  "option_ok opt \<longleftrightarrow> length (payload opt) \<le> 255 \<and>
     (case opt of
        Hostname s \<Rightarrow> utf8_valid s
      | DomainName s \<Rightarrow> utf8_valid s
      | Unknown c data \<Rightarrow> raw_ok c data
      | _ \<Rightarrow> True)"

lemma encode_into_payload: "encode_into opt out = out @ [code opt, word_of_nat (length (payload opt))] @ payload opt"
  by (cases opt) (simp_all add: put_def)

lemma first4_None: "first4 data = None \<longleftrightarrow> length data < 4"
  by (simp add: first4_def split: list.split)

lemma decode_one_raw: "raw_ok c data \<Longrightarrow> decode_one c data = Unknown c data"
  by (cases data)
    (auto simp: raw_ok_def decode_one_def or_unknown_def typed_codes_def first4_None [THEN iffD2])

lemma decode_one_payload:
  assumes "option_ok opt"
  shows "decode_one (code opt) (payload opt) = opt"
proof (cases "\<exists>c data. opt = Unknown c data")
  case True
  with assms show ?thesis by (auto simp: option_ok_def decode_one_raw)
next
  case False
  with assms show ?thesis
    by (cases opt) (simp_all add: decode_one_def or_unknown_def option_ok_def from_utf8_lossy_valid)
qed

lemma code_not_mark: "option_ok opt \<Longrightarrow> code opt \<noteq> PAD \<and> code opt \<noteq> END"
  by (cases opt) (simp_all add: option_ok_def raw_ok_def PAD_def END_def)

text \<open>Conversely, what is decoded can be carried again unless lossy decoding made it too long.\<close>

lemma decode_one_ok:
  assumes "c \<noteq> PAD" "c \<noteq> END" and "length (payload (decode_one c data)) \<le> 255"
  shows "option_ok (decode_one c data)"
proof (cases "raw_ok c data")
  case True
  with assms(3) show ?thesis by (simp add: decode_one_raw option_ok_def)
next
  case False
  with assms show ?thesis
    by (cases data) (auto simp: decode_one_def or_unknown_def option_ok_def raw_ok_def typed_codes_def
        first4_None utf8_valid_from_utf8_lossy split: option.splits if_splits)
qed

lemma options_decode_ok:
  "options_decode buf = Inr opts \<Longrightarrow> \<forall>opt \<in> set opts. length (payload opt) \<le> 255 \<Longrightarrow>
     list_all option_ok opts"
proof (induction buf arbitrary: opts rule: options_decode.induct)
  case (2 c rest)
  show ?case
  proof (cases "c = PAD \<or> c = END")
    case True
    with 2 show ?thesis by (auto split: if_splits)
  next
    case False
    with "2.prems"(1) obtain len rest' opts' where "rest = len # rest'" "\<not> unat len > length rest'"
        "options_decode (drop (unat len) rest') = Inr opts'"
        "opts = decode_one c (take (unat len) rest') # opts'"
      by (auto split: list.splits if_splits sum.splits)
    with False "2.prems"(2) "2.IH"(2) show ?thesis by (auto intro: decode_one_ok)
  qed
qed simp

lemma encode_fold: "fold encode_into opts out = out @ concat (map (\<lambda>opt. encode_into opt []) opts)"
  by (induction opts arbitrary: out) (simp_all add: encode_into_payload)

lemma options_round_trip:
  "list_all option_ok opts \<Longrightarrow> options_decode (options_encode opts @ padding) = Inr opts"
proof (induction opts)
  case Nil
  then show ?case by (simp add: options_encode_def END_def PAD_def)
next
  case (Cons opt opts)
  have "length (payload opt) \<le> 255" using Cons.prems by (simp add: option_ok_def)
  then have "unat (word_of_nat (length (payload opt)) :: u8) = length (payload opt)"
    by (intro unat_of_nat_u8) simp
  moreover have "options_encode (opt # opts) @ padding =
      code opt # word_of_nat (length (payload opt)) # payload opt @ options_encode opts @ padding"
    by (simp add: options_encode_def encode_fold encode_into_payload)
  ultimately show ?case
    using Cons code_not_mark [of opt] decode_one_payload [of opt] by simp
qed

section \<open>Facts about messages\<close>

lemma copy_zero:
  "length pre = i \<Longrightarrow> length ys \<le> n \<Longrightarrow>
     copy_at (pre @ replicate n 0) i ys = Some ((pre @ ys) @ replicate (n - length ys) 0)"
  by (auto simp: copy_at_def)

lemma encode_eq: "encode m = Some ([Op_to_u8 (op m), 1, 6, 0] @ u32_bytes (xid m) @ u16_bytes (secs m) @
    u16_bytes (flags m) @ u32_bytes (ciaddr m) @ u32_bytes (yiaddr m) @ u32_bytes (siaddr m) @
    u32_bytes (giaddr m) @ mac_bytes (chaddr m) @ replicate 202 0 @ MAGIC_COOKIE @
    options_encode (options m))"
proof -
  have "set_at (replicate 236 (0::u8)) 0 (Op_to_u8 (op m)) = Some ([Op_to_u8 (op m)] @ replicate 235 0)"
    by (simp add: set_at_def numeral_eq_Suc)
  moreover have "set_at ([x] @ replicate 235 (0::u8)) 1 1 = Some ([x, 1] @ replicate 234 0)" for x
    by (simp add: set_at_def numeral_eq_Suc)
  moreover have "set_at ([x, 1] @ replicate 234 (0::u8)) 2 6 = Some ([x, 1, 6, 0] @ replicate 232 0)" for x
    by (simp add: set_at_def numeral_eq_Suc)
  ultimately show ?thesis
    by (simp add: encode_def BOOTP_HEADER_LEN_def copy_zero del: append_Cons append_Nil append_assoc)
qed

lemma u16_bytesE: obtains a b where "u16_bytes w = [a, b]" "be16 a b = w"
  using be16_u16_bytes [of w] by (simp add: u16_bytes_def)

lemma get_range_append:
  "length pre = i \<Longrightarrow> j = i + length mid \<Longrightarrow> get_range (pre @ mid @ post) i j = Some mid"
  by (simp add: get_range_def)

lemma decode_fields:
  assumes "length buf \<ge> 240" and "get_range buf 236 240 = Some MAGIC_COOKIE"
  shows "decode buf = Some (case Op_from_u8 (buf ! 0) of
      None \<Rightarrow> Inl BadMagicCookie
    | Some opc \<Rightarrow> (case options_decode (drop 240 buf) of
        Inl e \<Rightarrow> Inl e
      | Inr opts \<Rightarrow> Inr \<lparr>op = opc, xid = be32 (buf ! 4) (buf ! 5) (buf ! 6) (buf ! 7),
          secs = be16 (buf ! 8) (buf ! 9), flags = be16 (buf ! 10) (buf ! 11),
          ciaddr = be32 (buf ! 12) (buf ! 13) (buf ! 14) (buf ! 15),
          yiaddr = be32 (buf ! 16) (buf ! 17) (buf ! 18) (buf ! 19),
          siaddr = be32 (buf ! 20) (buf ! 21) (buf ! 22) (buf ! 23),
          giaddr = be32 (buf ! 24) (buf ! 25) (buf ! 26) (buf ! 27),
          chaddr = (buf ! 28, buf ! 29, buf ! 30, buf ! 31, buf ! 32, buf ! 33),
          options = opts\<rparr>))"
proof -
  have "get_range buf 240 (length buf) = Some (drop 240 buf)"
    using assms(1) by (simp add: get_range_def)
  moreover have "index buf 0 = Some (buf ! 0)" using assms(1) by (intro index_in) linarith
  ultimately show ?thesis
    using assms
    by (simp add: decode_def MIN_LEN_def BOOTP_HEADER_LEN_def rs_simps read_ip_def read_mac_def
        split: option.splits sum.splits)
qed

lemma decode_total: "decode buf \<noteq> None"
proof (cases "length buf < 240")
  case False
  then obtain c where c: "get_range buf 236 240 = Some c" by (auto simp: get_range_def)
  show ?thesis
  proof (cases "c = MAGIC_COOKIE")
    case True
    with False c show ?thesis by (simp add: decode_fields)
  next
    case False
    with c show ?thesis by (simp add: decode_def)
  qed
qed (simp add: decode_def MIN_LEN_def BOOTP_HEADER_LEN_def)

text \<open>
  Encoding a message and decoding it again, also when the datagram was padded behind the
  End option, as the server does to reach the minimal length.
\<close>

lemma message_round_trip:
  assumes "list_all option_ok (options m)" and "encode m = Some buf"
  shows "decode (buf @ padding) = Some (Inr m)"
proof -
  obtain x0 x1 x2 x3 where x: "u32_bytes (xid m) = [x0, x1, x2, x3]" "be32 x0 x1 x2 x3 = xid m"
    by (rule u32_bytesE)
  obtain s0 s1 where s: "u16_bytes (secs m) = [s0, s1]" "be16 s0 s1 = secs m" by (rule u16_bytesE)
  obtain f0 f1 where f: "u16_bytes (flags m) = [f0, f1]" "be16 f0 f1 = flags m" by (rule u16_bytesE)
  obtain c0 c1 c2 c3 where c: "u32_bytes (ciaddr m) = [c0, c1, c2, c3]" "be32 c0 c1 c2 c3 = ciaddr m"
    by (rule u32_bytesE)
  obtain y0 y1 y2 y3 where y: "u32_bytes (yiaddr m) = [y0, y1, y2, y3]" "be32 y0 y1 y2 y3 = yiaddr m"
    by (rule u32_bytesE)
  obtain i0 i1 i2 i3 where i: "u32_bytes (siaddr m) = [i0, i1, i2, i3]" "be32 i0 i1 i2 i3 = siaddr m"
    by (rule u32_bytesE)
  obtain g0 g1 g2 g3 where g: "u32_bytes (giaddr m) = [g0, g1, g2, g3]" "be32 g0 g1 g2 g3 = giaddr m"
    by (rule u32_bytesE)
  obtain h0 h1 h2 h3 h4 h5 where h: "chaddr m = (h0, h1, h2, h3, h4, h5)" by (cases "chaddr m")
  let ?hd = "[Op_to_u8 (op m), 1, 6, 0, x0, x1, x2, x3, s0, s1, f0, f1, c0, c1, c2, c3,
    y0, y1, y2, y3, i0, i1, i2, i3, g0, g1, g2, g3, h0, h1, h2, h3, h4, h5]"
  let ?hdr = "?hd @ replicate 202 0"
  have buf: "buf @ padding = ?hdr @ MAGIC_COOKIE @ (options_encode (options m) @ padding)"
    using assms(2) by (simp add: encode_eq x(1) s(1) f(1) c(1) y(1) i(1) g(1) h mac_bytes_def)
  have len: "length ?hdr = 236" "length MAGIC_COOKIE = 4" by (simp_all add: MAGIC_COOKIE_def)
  have "get_range (buf @ padding) 236 240 = Some MAGIC_COOKIE"
    unfolding buf by (rule get_range_append) (simp_all add: MAGIC_COOKIE_def)
  moreover have "length (buf @ padding) \<ge> 240" unfolding buf using len by simp
  moreover have "drop 240 (buf @ padding) = options_encode (options m) @ padding"
    unfolding buf using len by simp
  moreover have "(buf @ padding) ! k = ?hd ! k" if "k < 34" for k
    unfolding buf using that by (simp add: nth_append del: append_Cons)
  ultimately show ?thesis
    using options_round_trip [OF assms(1), of padding]
    by (simp add: decode_fields x(2) s(2) f(2) c(2) y(2) i(2) g(2) h)
qed


section \<open>Properties\<close>

text \<open>
  Encoding a DHCP message never fails, and decoding what was encoded gives the message
  back, field by field and option by option, whatever bytes follow the End option.
\<close>

theorem dhcp_encode_decode:
  assumes "list_all option_ok (options m)"
  shows "\<exists>buf. encode m = Some buf \<and> decode (buf @ padding) = Some (Inr m)"
  using message_round_trip [OF assms encode_eq] encode_eq [of m] by blast

theorem dhcp_encode_decode_witness:
  "\<exists>buf. decode buf = Some (Inr \<lparr>op = BootReply, xid = 9, secs = 0, flags = 0x8000, ciaddr = 0,
     yiaddr = 0xC0A80164, siaddr = 0xC0A80101, giaddr = 0, chaddr = (2, 0, 0, 0, 0, 1),
     options = [MessageTypeOpt Offer, DnsServers [0xC0A80101], Unknown 200 [0xDE, 0xAD]]\<rparr>)"
  using dhcp_encode_decode [of "\<lparr>op = BootReply, xid = 9, secs = 0, flags = 0x8000, ciaddr = 0,
     yiaddr = 0xC0A80164, siaddr = 0xC0A80101, giaddr = 0, chaddr = (2, 0, 0, 0, 0, 1),
     options = [MessageTypeOpt Offer, DnsServers [0xC0A80101], Unknown 200 [0xDE, 0xAD]]\<rparr>" "[]"]
  by (auto simp: option_ok_def raw_ok_def typed_codes_def PAD_def END_def)

text \<open>
  No datagram makes the decoder panic, and the options it reads are stable: encoded and
  decoded again they are unchanged, also the raw ones and the typed ones that were sent with
  a wrong length, as long as no text grew past 255 bytes by replacing invalid UTF-8.
\<close>

theorem dhcp_options_stable:
  assumes "options_decode buf = Inr opts" and "\<forall>opt \<in> set opts. length (payload opt) \<le> 255"
  shows "decode msg \<noteq> None \<and> options_decode (options_encode opts) = Inr opts"
  using options_round_trip [OF options_decode_ok [OF assms], of "[]"] decode_total by simp

theorem dhcp_options_stable_witness:
  "options_decode (options_encode [Unknown 53 [99], Hostname [0xEF, 0xBF, 0xBD, 0x41]]) =
     Inr [Unknown 53 [99], Hostname [0xEF, 0xBF, 0xBD, 0x41]]"
proof -
  have "options_decode [53, 1, 99, 0, 12, 2, 0xFF, 0x41, 255, 1, 2] =
      Inr [Unknown 53 [99], Hostname [0xEF, 0xBF, 0xBD, 0x41]]" by code_simp
  from dhcp_options_stable [OF this] show ?thesis by simp
qed

end
