(* ===== verification/Dhcp_Lease.thy ===== *)
theory Dhcp_Lease
  imports Dhcp_Message "HOL-Library.Finite_Map"
begin

text \<open>
  The lease allocator of \<open>crates/dhcp/src/lease.rs\<close> and the table that the service of
  \<open>crates/app/src/dhcp.rs\<close> builds at a start or on new settings. A \<open>HashMap\<close> is a finite map; where
  the code iterates over one, the order of iteration is an argument of the operation. Stored
  rows are given as parsed. Over any run of the service every lease is filed under its address,
  a client has one lease if its stored rows named one address, and a running lease stays.
\<close>

unbundle bit_operations_syntax

section \<open>State\<close>

record Lease =
  lease_ip :: Ipv4Addr
  lease_mac :: mac
  lease_hostname :: "bytes option"
  expires_at :: u64

definition is_active :: "Lease \<Rightarrow> u64 \<Rightarrow> bool" where
  "is_active l now \<longleftrightarrow> expires_at l > now"

datatype LeaseError = Conflict | OutOfRange

record LeasePool =
  pool_start :: u32
  pool_end :: u32
  reservations :: "(mac, Ipv4Addr) fmap"
  by_ip :: "(Ipv4Addr, Lease) fmap"
  by_mac :: "(mac, Ipv4Addr) fmap"
  held :: "(Ipv4Addr, u64) fmap"
  seen :: "(Ipv4Addr, mac) fmap"

section \<open>Operations\<close>

definition pool_new :: "Ipv4Addr \<Rightarrow> Ipv4Addr \<Rightarrow> LeasePool" where
  "pool_new s e = \<lparr>pool_start = s, pool_end = e, reservations = fmempty, by_ip = fmempty,
     by_mac = fmempty, held = fmempty, seen = fmempty\<rparr>"

definition hold :: "LeasePool \<Rightarrow> Ipv4Addr \<Rightarrow> u64 \<Rightarrow> LeasePool" where
  "hold p ip until = p\<lparr>held := fmupd ip until (held p)\<rparr>"

definition set_seen :: "LeasePool \<Rightarrow> (Ipv4Addr, mac) fmap \<Rightarrow> LeasePool" where
  "set_seen p s = p\<lparr>seen := s\<rparr>"

definition seen_elsewhere :: "LeasePool \<Rightarrow> Ipv4Addr \<Rightarrow> mac \<Rightarrow> bool" where
  "seen_elsewhere p ip mac \<longleftrightarrow> (case fmlookup (seen p) ip of None \<Rightarrow> False | Some m \<Rightarrow> m \<noteq> mac)"

definition reserve :: "LeasePool \<Rightarrow> mac \<Rightarrow> Ipv4Addr \<Rightarrow> LeasePool" where
  "reserve p mac ip = p\<lparr>reservations := fmupd mac ip (reservations p)\<rparr>"

definition in_range :: "LeasePool \<Rightarrow> Ipv4Addr \<Rightarrow> bool" where
  "in_range p ip \<longleftrightarrow> ip \<ge> pool_start p \<and> ip \<le> pool_end p"

definition available_for :: "LeasePool \<Rightarrow> Ipv4Addr \<Rightarrow> mac \<Rightarrow> u64 \<Rightarrow> bool" where
  "available_for p ip mac now =
     (if \<not> fmpred (\<lambda>res_mac res_ip. \<not> (res_ip = ip \<and> res_mac \<noteq> mac)) (reservations p) then False
      else if (case fmlookup (held p) ip of None \<Rightarrow> False | Some until \<Rightarrow> until > now) \<or>
          seen_elsewhere p ip mac then False
      else \<not> (case fmlookup (by_ip p) ip of None \<Rightarrow> False
              | Some l \<Rightarrow> is_active l now \<and> lease_mac l \<noteq> mac))"

definition pool_addrs :: "LeasePool \<Rightarrow> Ipv4Addr list" where
  "pool_addrs p = map word_of_nat [unat (pool_start p)..<Suc (unat (pool_end p))]"

definition offer :: "LeasePool \<Rightarrow> mac \<Rightarrow> Ipv4Addr option \<Rightarrow> u64 \<Rightarrow> Ipv4Addr option" where
  "offer p mac requested now =
     (case fmlookup (reservations p) mac of
        Some ip \<Rightarrow> Some ip
      | None \<Rightarrow>
          let own = (case fmlookup (by_mac p) mac of
              None \<Rightarrow> None
            | Some ip \<Rightarrow> (case fmlookup (by_ip p) ip of
                None \<Rightarrow> None
              | Some l \<Rightarrow> if is_active l now then Some ip else None))
          in (case own of
            Some ip \<Rightarrow> Some ip
          | None \<Rightarrow>
              let wanted = (case requested of
                  None \<Rightarrow> None
                | Some req \<Rightarrow> if in_range p req \<and> available_for p req mac now then Some req else None)
              in (case wanted of
                Some req \<Rightarrow> Some req
              | None \<Rightarrow> find (\<lambda>ip. available_for p ip mac now) (pool_addrs p))))"

definition commit :: "LeasePool \<Rightarrow> mac \<Rightarrow> Ipv4Addr \<Rightarrow> bytes option \<Rightarrow> u64 \<Rightarrow> u64 \<Rightarrow>
    LeaseError + (Lease \<times> LeasePool)" where
  "commit p mac ip host now lease_secs =
     (let reserved_for_mac = (fmlookup (reservations p) mac = Some ip) in
      if \<not> reserved_for_mac \<and> \<not> in_range p ip then Inl OutOfRange
      else if \<not> available_for p ip mac now then Inl Conflict
      else
        let bi = (case fmlookup (by_mac p) mac of
            None \<Rightarrow> by_ip p
          | Some old_ip \<Rightarrow> if old_ip \<noteq> ip then fmdrop old_ip (by_ip p) else by_ip p);
          lease = \<lparr>lease_ip = ip, lease_mac = mac, lease_hostname = host,
            expires_at = saturating_add now lease_secs\<rparr>
        in Inr (lease, p\<lparr>by_ip := fmupd ip lease bi, by_mac := fmupd mac ip (by_mac p)\<rparr>))"

definition restore :: "LeasePool \<Rightarrow> mac \<Rightarrow> Ipv4Addr \<Rightarrow> bytes option \<Rightarrow> u64 \<Rightarrow> u64 \<Rightarrow> LeasePool" where
  "restore p mac ip host expires now =
     (if expires \<le> now then p
      else p\<lparr>by_ip := fmupd ip \<lparr>lease_ip = ip, lease_mac = mac, lease_hostname = host,
          expires_at = expires\<rparr> (by_ip p),
        by_mac := fmupd mac ip (by_mac p)\<rparr>)"

definition release :: "LeasePool \<Rightarrow> mac \<Rightarrow> LeasePool" where
  "release p mac =
     (case fmlookup (by_mac p) mac of
        None \<Rightarrow> p
      | Some ip \<Rightarrow> p\<lparr>by_mac := fmdrop mac (by_mac p), by_ip := fmdrop ip (by_ip p)\<rparr>)"

definition lookup_by_mac :: "LeasePool \<Rightarrow> mac \<Rightarrow> u64 \<Rightarrow> Lease option" where
  "lookup_by_mac p mac now =
     (case fmlookup (by_mac p) mac of
        None \<Rightarrow> None
      | Some ip \<Rightarrow> (case fmlookup (by_ip p) ip of
          None \<Rightarrow> None
        | Some l \<Rightarrow> if is_active l now then Some l else None))"

text \<open>\<open>order\<close> is the order in which the iteration over \<open>by_ip\<close> visits its addresses.\<close>

definition lease_values :: "LeasePool \<Rightarrow> Ipv4Addr list \<Rightarrow> Lease list" where
  "lease_values p order = List.map_filter (fmlookup (by_ip p)) order"

definition prune_one :: "Ipv4Addr \<Rightarrow> LeasePool \<Rightarrow> LeasePool" where
  "prune_one ip p =
     (case fmlookup (by_ip p) ip of
        None \<Rightarrow> p
      | Some l \<Rightarrow> p\<lparr>by_ip := fmdrop ip (by_ip p), by_mac := fmdrop (lease_mac l) (by_mac p)\<rparr>)"

definition prune_expired :: "Ipv4Addr list \<Rightarrow> LeasePool \<Rightarrow> u64 \<Rightarrow> LeasePool \<times> nat" where
  "prune_expired order p now =
     (let p = p\<lparr>held := fmfilter (\<lambda>ip. the (fmlookup (held p) ip) > now) (held p)\<rparr>;
        dead = map lease_ip (filter (\<lambda>l. \<not> is_active l now) (lease_values p order))
      in (fold prune_one dead p, length dead))"

definition active_leases :: "Ipv4Addr list \<Rightarrow> LeasePool \<Rightarrow> u64 \<Rightarrow> Lease list" where
  "active_leases order p now = filter (\<lambda>l. is_active l now) (lease_values p order)"

section \<open>Invariant\<close>

text \<open>
  Every lease is filed under its own address, and the client index knows the address of
  every lease of the clients in \<open>M\<close>: so none of these has two leases. The index may hold
  more than that, see below. For all clients together this is the invariant of a pool.
\<close>

definition clients_ok :: "mac set \<Rightarrow> LeasePool \<Rightarrow> bool" where
  "clients_ok M p \<longleftrightarrow> fmpred (\<lambda>ip l. lease_ip l = ip \<and>
     (lease_mac l \<in> M \<longrightarrow> fmlookup (by_mac p) (lease_mac l) = Some ip)) (by_ip p)"

definition pool_inv :: "LeasePool \<Rightarrow> bool" where
  "pool_inv p \<longleftrightarrow> fmpred (\<lambda>ip l. lease_ip l = ip \<and> fmlookup (by_mac p) (lease_mac l) = Some ip) (by_ip p)"

lemma pool_inv_ok: "pool_inv p \<longleftrightarrow> clients_ok UNIV p"
  by (simp add: pool_inv_def clients_ok_def)

lemma in_lease_values: "l \<in> set (lease_values p order) \<longleftrightarrow> (\<exists>ip \<in> set order. fmlookup (by_ip p) ip = Some l)"
  by (induction order) (auto simp: lease_values_def split: option.splits)

lemma clients_okD:
  assumes "clients_ok M p" and "fmlookup (by_ip p) ip = Some l"
  shows "lease_ip l = ip" and "lease_mac l \<in> M \<Longrightarrow> fmlookup (by_mac p) (lease_mac l) = Some ip"
  using fmpredD [OF assms(1) [unfolded clients_ok_def] assms(2)] by blast+

lemma pool_invD:
  "pool_inv p \<Longrightarrow> fmlookup (by_ip p) ip = Some l \<Longrightarrow>
     lease_ip l = ip \<and> fmlookup (by_mac p) (lease_mac l) = Some ip"
  by (auto simp: pool_inv_def)

lemma clients_ok_empty: "by_ip p = fmempty \<Longrightarrow> clients_ok M p"
  by (simp add: clients_ok_def)

lemma clients_ok_frame:
  "clients_ok M (p\<lparr>held := h\<rparr>) = clients_ok M p" "clients_ok M (p\<lparr>seen := s\<rparr>) = clients_ok M p"
  "clients_ok M (p\<lparr>reservations := r\<rparr>) = clients_ok M p"
  by (simp_all add: clients_ok_def)

lemma leases_unique:
  assumes "clients_ok M p" "fmlookup (by_ip p) ip = Some l" "fmlookup (by_ip p) ip' = Some l'"
    and "lease_mac l = lease_mac l'" "lease_mac l \<in> M"
  shows "ip = ip'"
  using clients_okD(2) [OF assms(1,2)] clients_okD(2) [OF assms(1,3)] assms(4,5) by simp

lemma release_clients_ok: "clients_ok M p \<Longrightarrow> clients_ok M (release p mac)"
  by (auto simp: clients_ok_def release_def fmpred_iff split: option.splits)

lemma commit_clients_ok: "clients_ok M p \<Longrightarrow> commit p mac ip host now n = Inr (l, p') \<Longrightarrow> clients_ok M p'"
  by (auto simp: clients_ok_def commit_def Let_def fmpred_iff split: option.splits if_splits)

lemma restore_clients_ok:
  assumes "clients_ok M p" and "mac \<in> M \<Longrightarrow> e > now \<Longrightarrow> fmlookup (by_mac p) mac \<in> {None, Some ip}"
  shows "clients_ok M (restore p mac ip host e now)"
  using assms unfolding clients_ok_def by (auto simp: restore_def fmpred_iff not_le split: if_splits)

lemma prune_one_ok:
  assumes "clients_ok M p"
  shows "clients_ok M (prune_one ip p)"
proof (cases "fmlookup (by_ip p) ip")
  case (Some l)
  have "lease_mac l' \<noteq> lease_mac l"
    if "fmlookup (by_ip p) ip' = Some l'" "ip' \<noteq> ip" "lease_mac l' \<in> M" for ip' l'
    using leases_unique [OF assms that(1) Some] that(2,3) by auto
  with assms Some show ?thesis by (auto simp: clients_ok_def prune_one_def fmpred_iff)
qed (use assms in \<open>simp add: prune_one_def\<close>)

lemma prune_expired_ok: "clients_ok M p \<Longrightarrow> clients_ok M (fst (prune_expired order p now))"
proof -
  assume "clients_ok M p"
  moreover have "clients_ok M q \<Longrightarrow> clients_ok M (fold prune_one as q)" for as q
    by (induction as arbitrary: q) (simp_all add: prune_one_ok)
  ultimately show ?thesis by (simp add: prune_expired_def Let_def clients_ok_frame)
qed

lemmas pool_inv_rules = pool_inv_ok hold_def set_seen_def reserve_def clients_ok_frame

lemma hold_inv: "pool_inv p \<Longrightarrow> pool_inv (hold p ip until)"
  by (simp add: pool_inv_rules)

lemma set_seen_inv: "pool_inv p \<Longrightarrow> pool_inv (set_seen p s)"
  by (simp add: pool_inv_rules)

lemma reserve_inv: "pool_inv p \<Longrightarrow> pool_inv (reserve p mac ip)"
  by (simp add: pool_inv_rules)

lemma pool_new_inv: "pool_inv (pool_new s e)"
  by (simp add: pool_inv_ok clients_ok_empty pool_new_def)

lemma release_inv: "pool_inv p \<Longrightarrow> pool_inv (release p mac)"
  by (simp add: pool_inv_ok release_clients_ok)

lemma commit_inv: "pool_inv p \<Longrightarrow> commit p mac ip host now n = Inr (l, p') \<Longrightarrow> pool_inv p'"
  unfolding pool_inv_ok by (rule commit_clients_ok)

lemma prune_expired_inv: "pool_inv p \<Longrightarrow> pool_inv (fst (prune_expired order p now))"
  by (simp add: pool_inv_ok prune_expired_ok)

text \<open>The operations of a running pool as events.\<close>

datatype pool_event =
    Hold Ipv4Addr u64
  | Set_Seen "(Ipv4Addr, mac) fmap"
  | Reserve mac Ipv4Addr
  | Commit mac Ipv4Addr "bytes option" u64 u64
  | Release_Lease mac
  | Prune "Ipv4Addr list" u64

primrec pool_step :: "LeasePool \<Rightarrow> pool_event \<Rightarrow> LeasePool" where
  "pool_step p (Hold ip until) = hold p ip until"
| "pool_step p (Set_Seen s) = set_seen p s"
| "pool_step p (Reserve mac ip) = reserve p mac ip"
| "pool_step p (Commit mac ip host now n) =
     (case commit p mac ip host now n of Inl _ \<Rightarrow> p | Inr (_, p') \<Rightarrow> p')"
| "pool_step p (Release_Lease mac) = release p mac"
| "pool_step p (Prune order now) = fst (prune_expired order p now)"

lemma pool_step_ok: "clients_ok M p \<Longrightarrow> clients_ok M (pool_step p e)"
  by (cases e) (auto simp: hold_def set_seen_def reserve_def clients_ok_frame release_clients_ok prune_expired_ok
      split: sum.splits intro: commit_clients_ok)

text \<open>
  A new table, as \<open>start_dhcp\<close> of \<open>crates/app/src/dhcp.rs\<close> builds it whenever the service starts
  or its settings change: the pool with the box, the router and the reservations held out
  of it, and the leases still running, of the table it replaces or, at startup, of the
  database, as far as they are in the subnet.
\<close>

definition HOLD_SERVER :: mac where "HOLD_SERVER = (0xfe, 0xff, 0xff, 0xff, 0xff, 0x00)"
definition HOLD_GATEWAY :: mac where "HOLD_GATEWAY = (0xfe, 0xff, 0xff, 0xff, 0xff, 0x01)"

definition same_subnet :: "Ipv4Addr \<Rightarrow> Ipv4Addr \<Rightarrow> Ipv4Addr \<Rightarrow> bool" where
  "same_subnet a b m \<longleftrightarrow> a AND m = b AND m"

record pool_conf =
  conf_start :: Ipv4Addr
  conf_end :: Ipv4Addr
  conf_server :: Ipv4Addr
  conf_gateway :: "Ipv4Addr option"
  conf_mask :: Ipv4Addr
  conf_reservations :: "(mac \<times> Ipv4Addr) list"

definition empty_table :: "pool_conf \<Rightarrow> LeasePool" where
  "empty_table c =
     (let pool = reserve (pool_new (conf_start c) (conf_end c)) HOLD_SERVER (conf_server c);
        pool = (case conf_gateway c of None \<Rightarrow> pool | Some gw \<Rightarrow> reserve pool HOLD_GATEWAY gw)
      in foldl (\<lambda>pool (mac, ip). reserve pool mac ip) pool (conf_reservations c))"

type_synonym persisted = "mac \<times> Ipv4Addr \<times> bytes option \<times> u64"

definition restore_all :: "LeasePool \<Rightarrow> persisted list \<Rightarrow> u64 \<Rightarrow> LeasePool" where
  "restore_all p ls now = foldl (\<lambda>p (mac, ip, host, e). restore p mac ip host e now) p ls"

definition take_over :: "pool_conf \<Rightarrow> persisted list \<Rightarrow> u64 \<Rightarrow> LeasePool" where
  "take_over c ls now =
     restore_all (empty_table c) (filter (\<lambda>(mac, ip, _). same_subnet ip (conf_server c) (conf_mask c)) ls) now"

definition lease_row :: "Lease \<Rightarrow> persisted" where
  "lease_row l = (lease_mac l, lease_ip l, lease_hostname l, expires_at l)"

definition rebuild :: "pool_conf \<Rightarrow> Ipv4Addr list \<Rightarrow> LeasePool \<Rightarrow> u64 \<Rightarrow> LeasePool" where
  "rebuild c order p now = take_over c (map lease_row (active_leases order p now)) now"

datatype service_event =
    Pool_Event pool_event
  | Rebuild pool_conf "Ipv4Addr list" u64

primrec service_step :: "LeasePool \<Rightarrow> service_event \<Rightarrow> LeasePool" where
  "service_step p (Pool_Event e) = pool_step p e"
| "service_step p (Rebuild c order now) = rebuild c order p now"

lemma restore_all_Cons:
  "restore_all p ((mac, ip, host, e) # ls) now = restore_all (restore p mac ip host e now) ls now"
  by (simp add: restore_all_def)

lemma empty_table_ok:
  shows "by_ip (empty_table c) = fmempty" and "by_mac (empty_table c) = fmempty" and "clients_ok M (empty_table c)"
proof -
  have "by_ip (foldl (\<lambda>pool (mac, ip). reserve pool mac ip) p rs) = by_ip p \<and>
      by_mac (foldl (\<lambda>pool (mac, ip). reserve pool mac ip) p rs) = by_mac p" for p rs
    by (induction rs arbitrary: p) (auto simp: reserve_def)
  then show "by_ip (empty_table c) = fmempty" "by_mac (empty_table c) = fmempty"
    by (auto simp: empty_table_def Let_def reserve_def pool_new_def split: option.split)
  then show "clients_ok M (empty_table c)" by (simp add: clients_ok_empty)
qed

text \<open>
  The rows taken over are harmless for the clients in \<open>M\<close> when those of one client that
  still run name one address only.
\<close>

definition one_address :: "mac set \<Rightarrow> (mac \<Rightarrow> Ipv4Addr) \<Rightarrow> persisted list \<Rightarrow> u64 \<Rightarrow> bool" where
  "one_address M a ls now \<longleftrightarrow> list_all (\<lambda>(mac, ip, host, e). mac \<in> M \<and> e > now \<longrightarrow> ip = a mac) ls"

lemma restore_all_ok:
  assumes "clients_ok M p" and "\<forall>m \<in> M. fmlookup (by_mac p) m \<in> {None, Some (a m)}" and "one_address M a ls now"
  shows "clients_ok M (restore_all p ls now)"
  using assms
proof (induction ls arbitrary: p)
  case (Cons x ls)
  obtain mac ip host e where x: "x = (mac, ip, host, e)" by (cases x)
  let ?p = "restore p mac ip host e now"
  have "clients_ok M ?p" using Cons.prems x by (intro restore_clients_ok) (auto simp: one_address_def)
  moreover have "\<forall>m \<in> M. fmlookup (by_mac ?p) m \<in> {None, Some (a m)}"
    using Cons.prems(2,3) x by (auto simp: restore_def one_address_def not_le)
  ultimately show ?case
    using Cons.IH [of ?p] Cons.prems(3) x by (simp add: restore_all_def one_address_def)
qed (simp add: restore_all_def)

lemma take_over_ok: "one_address M a ls now \<Longrightarrow> clients_ok M (take_over c ls now)"
  unfolding take_over_def
  by (rule restore_all_ok [where a = a]) (auto simp: empty_table_ok one_address_def list_all_iff)

lemma active_rows:
  assumes "clients_ok M p" and "(mac, ip, host, e) \<in> set (map lease_row (active_leases order p now))"
  obtains l where "fmlookup (by_ip p) ip = Some l" "l = \<lparr>lease_ip = ip, lease_mac = mac, lease_hostname = host, expires_at = e\<rparr>"
    "ip \<in> set order" "e > now"
proof -
  from assms(2) obtain l ip' where l: "fmlookup (by_ip p) ip' = Some l" "lease_row l = (mac, ip, host, e)"
      "ip' \<in> set order" "is_active l now"
    by (auto simp: active_leases_def in_lease_values)
  moreover from this have "ip' = ip" using clients_okD(1) [OF assms(1) l(1)] by (simp add: lease_row_def)
  moreover from l have "l = \<lparr>lease_ip = ip, lease_mac = mac, lease_hostname = host, expires_at = e\<rparr>"
    by (simp add: lease_row_def)
  ultimately show thesis using that by (simp add: is_active_def)
qed

lemma rebuild_ok:
  assumes "clients_ok M p"
  shows "clients_ok M (rebuild c order p now)"
proof -
  have "one_address M (\<lambda>m. the (fmlookup (by_mac p) m)) (map lease_row (active_leases order p now)) now"
    unfolding one_address_def list_all_iff
  proof (clarify)
    fix mac ip host e
    assume "mac \<in> M" and row: "(mac, ip, host, e) \<in> set (map lease_row (active_leases order p now))"
    from assms row obtain l where "fmlookup (by_ip p) ip = Some l" "lease_mac l = mac"
      by (rule active_rows) simp
    with clients_okD(2) [OF assms] \<open>mac \<in> M\<close> show "ip = the (fmlookup (by_mac p) mac)" by fastforce
  qed
  then show ?thesis unfolding rebuild_def by (rule take_over_ok)
qed

lemma service_step_ok: "clients_ok M p \<Longrightarrow> clients_ok M (service_step p e)"
  by (cases e) (simp_all add: pool_step_ok rebuild_ok)

interpretation service_machine: state_machine service_step "clients_ok M" for M
  by unfold_locales (rule service_step_ok)

text \<open>The tables the service can be in: a start on the stored rows, then any events.\<close>

definition service_run :: "pool_conf \<Rightarrow> persisted list \<Rightarrow> u64 \<Rightarrow> service_event list \<Rightarrow> LeasePool" where
  "service_run c rows now events = foldl service_step (take_over c rows now) events"

lemma service_run_ok: "one_address M a rows now \<Longrightarrow> clients_ok M (service_run c rows now events)"
  unfolding service_run_def by (rule service_machine.run_inv) (rule take_over_ok)

lemma service_run_filed: "clients_ok {} (service_run c rows now events)"
  by (rule service_run_ok [where a = undefined]) (simp add: one_address_def list_all_iff)

section \<open>What the operations promise\<close>

lemma available_for_iff:
  "available_for p ip mac now \<longleftrightarrow>
     (\<forall>m. fmlookup (reservations p) m = Some ip \<longrightarrow> m = mac) \<and>
     (\<forall>t. fmlookup (held p) ip = Some t \<longrightarrow> t \<le> now) \<and> \<not> seen_elsewhere p ip mac \<and>
     (\<forall>l. fmlookup (by_ip p) ip = Some l \<and> is_active l now \<longrightarrow> lease_mac l = mac)"
  by (auto simp: available_for_def fmpred_iff not_less split: option.splits)

lemma commit_Inr:
  assumes "commit p mac ip host now n = Inr (l, p')"
  shows "available_for p ip mac now"
    and "fmlookup (reservations p) mac = Some ip \<or> in_range p ip"
    and "l = \<lparr>lease_ip = ip, lease_mac = mac, lease_hostname = host,
      expires_at = saturating_add now n\<rparr>"
    and "fmlookup (by_ip p') ip = Some l" and "fmlookup (by_mac p') mac = Some ip"
    and "\<And>ip'. ip' \<noteq> ip \<Longrightarrow> fmlookup (by_mac p) mac \<noteq> Some ip' \<Longrightarrow> fmlookup (by_ip p') ip' = fmlookup (by_ip p) ip'"
    and "\<And>m. m \<noteq> mac \<Longrightarrow> fmlookup (by_mac p') m = fmlookup (by_mac p) m"
    and "reservations p' = reservations p" "held p' = held p" "seen p' = seen p"
      "pool_start p' = pool_start p" "pool_end p' = pool_end p"
  using assms by (auto simp: commit_def Let_def split: if_splits option.splits)

lemma commit_Inl:
  "commit p mac ip host now n = Inl e \<longleftrightarrow>
     (if fmlookup (reservations p) mac \<noteq> Some ip \<and> \<not> in_range p ip then e = OutOfRange
      else \<not> available_for p ip mac now \<and> e = Conflict)"
  by (auto simp: commit_def Let_def)

lemma pool_addrs_set: "set (pool_addrs p) = {ip. in_range p ip}"
proof -
  have "ip \<in> set (pool_addrs p) \<longleftrightarrow> in_range p ip" for ip
  proof
    assume "ip \<in> set (pool_addrs p)"
    then obtain n where "unat (pool_start p) \<le> n" "n \<le> unat (pool_end p)" "ip = word_of_nat n"
      by (auto simp: pool_addrs_def)
    moreover from this have "unat (word_of_nat n :: u32) = n"
      using unat_u32_less [of "pool_end p"] by (intro unat_of_nat_small) simp
    ultimately show "in_range p ip" by (simp add: in_range_def word_le_nat_alt)
  next
    assume "in_range p ip"
    then have "unat ip \<in> set [unat (pool_start p)..<Suc (unat (pool_end p))]"
      by (auto simp: in_range_def word_le_nat_alt)
    then show "ip \<in> set (pool_addrs p)"
      unfolding pool_addrs_def set_map by (rule rev_image_eqI) simp
  qed
  then show ?thesis by blast
qed

lemma offer_cases:
  assumes "offer p mac requested now = Some ip"
  obtains (reserved) "fmlookup (reservations p) mac = Some ip"
    | (own) l where "fmlookup (reservations p) mac = None" "fmlookup (by_mac p) mac = Some ip"
        "fmlookup (by_ip p) ip = Some l" "is_active l now"
    | (free) "fmlookup (reservations p) mac = None" "lookup_by_mac p mac now = None"
        "in_range p ip" "available_for p ip mac now"
  using assms
proof -
  assume *: "fmlookup (reservations p) mac = Some ip \<Longrightarrow> thesis"
    "\<And>l. fmlookup (reservations p) mac = None \<Longrightarrow> fmlookup (by_mac p) mac = Some ip \<Longrightarrow>
        fmlookup (by_ip p) ip = Some l \<Longrightarrow> is_active l now \<Longrightarrow> thesis"
    "fmlookup (reservations p) mac = None \<Longrightarrow> lookup_by_mac p mac now = None \<Longrightarrow>
        in_range p ip \<Longrightarrow> available_for p ip mac now \<Longrightarrow> thesis"
  have "in_range p a \<and> available_for p a mac now"
    if "find (\<lambda>ip. available_for p ip mac now) (pool_addrs p) = Some a" for a
    using that pool_addrs_set [of p] nth_mem [of _ "pool_addrs p"] by (auto simp: find_Some_iff)
  then show thesis
    using assms * by (auto simp: offer_def lookup_by_mac_def Let_def split: option.splits if_splits)
qed


lemma prune_one_lookup:
  "fmlookup (by_ip (prune_one ip p)) ip' = (if ip' = ip then None else fmlookup (by_ip p) ip')"
  by (auto simp: prune_one_def split: option.splits)

lemma fold_prune_lookup:
  "fmlookup (by_ip (fold prune_one as p)) ip = (if ip \<in> set as then None else fmlookup (by_ip p) ip)"
  by (induction as arbitrary: p) (simp_all add: prune_one_lookup)

lemma fold_prune_frame: "held (fold prune_one as p) = held p \<and> reservations (fold prune_one as p) = reservations p"
  by (induction as arbitrary: p) (simp_all add: prune_one_def split: option.splits)

lemma dead_addresses:
  "pool_inv p \<Longrightarrow> map lease_ip (filter P (lease_values p order)) =
     filter (\<lambda>ip. case fmlookup (by_ip p) ip of None \<Rightarrow> False | Some l \<Rightarrow> P l) order"
  by (induction order) (auto simp: lease_values_def map_filter_simps dest: pool_invD split: option.splits)

section \<open>The contract of a lease store\<close>

text \<open>
  What the DHCP handler relies on: an address is only bound when no other client holds it,
  and a bound address stays with its client until the lease expires. So two clients never
  get the same address at the same time.
\<close>

locale lease_store =
  fixes commit_op :: "'p \<Rightarrow> 'm \<Rightarrow> 'a \<Rightarrow> 'h \<Rightarrow> u64 \<Rightarrow> u64 \<Rightarrow> 'e + ('l \<times> 'p)"
    and holder_op :: "'p \<Rightarrow> 'a \<Rightarrow> u64 \<Rightarrow> 'm option"
  assumes commit_free: "commit_op p m a h t n = Inr r \<Longrightarrow> holder_op p a t = None \<or> holder_op p a t = Some m"
    and commit_binds: "commit_op p m a h t n = Inr (l, p') \<Longrightarrow> t' < saturating_add t n \<Longrightarrow>
      holder_op p' a t' = Some m"
begin

lemma commit_refused:
  assumes "holder_op p a t = Some m" and "m' \<noteq> m"
  shows "\<exists>e. commit_op p m' a h t n = Inl e"
  using commit_free [of p m' a h t n] assms by (cases "commit_op p m' a h t n") auto

lemma commit_exclusive:
  assumes "commit_op p m a h t n = Inr (l, p')" and "m' \<noteq> m" and "t' < saturating_add t n"
  shows "\<exists>e. commit_op p' m' a h' t' n' = Inl e"
  using commit_binds [OF assms(1,3)] assms(2) by (rule commit_refused)

end

definition holder :: "LeasePool \<Rightarrow> Ipv4Addr \<Rightarrow> u64 \<Rightarrow> mac option" where
  "holder p ip now = (case fmlookup (by_ip p) ip of
      None \<Rightarrow> None
    | Some l \<Rightarrow> if is_active l now then Some (lease_mac l) else None)"

interpretation pool_store: lease_store commit holder
proof
  fix p m a h t n r
  assume "commit p m a h t n = Inr r"
  then have "available_for p a m t" using commit_Inr(1) by (cases r) blast
  then show "holder p a t = None \<or> holder p a t = Some m"
    by (auto simp: available_for_iff holder_def split: option.splits)
next
  fix p m a h t n l p' t'
  assume "commit p m a h t n = Inr (l, p')" "t' < saturating_add t n"
  then show "holder p' a t' = Some m"
    using commit_Inr(3,4) [of p m a h t n l p'] by (simp add: holder_def is_active_def)
qed

section \<open>A running lease\<close>

text \<open>
  The lease \<open>l\<close> is at its address and the index names the address for no other client. The
  events that leave it alone are those of other clients and of the service before it expires.
\<close>

definition lease_guarded :: "Ipv4Addr \<Rightarrow> Lease \<Rightarrow> LeasePool \<Rightarrow> bool" where
  "lease_guarded ip l p \<longleftrightarrow> clients_ok {} p \<and> fmlookup (by_ip p) ip = Some l \<and>
     (\<forall>m. fmlookup (by_mac p) m = Some ip \<longrightarrow> m = lease_mac l)"

primrec pool_event_leaves :: "Lease \<Rightarrow> pool_event \<Rightarrow> bool" where
  "pool_event_leaves l (Hold ip until) = True"
| "pool_event_leaves l (Set_Seen s) = True"
| "pool_event_leaves l (Reserve mac ip) = True"
| "pool_event_leaves l (Commit mac ip host now n) = (mac \<noteq> lease_mac l \<and> now < expires_at l)"
| "pool_event_leaves l (Release_Lease mac) = (mac \<noteq> lease_mac l)"
| "pool_event_leaves l (Prune order now) = (now < expires_at l)"

primrec leaves_lease :: "Lease \<Rightarrow> service_event \<Rightarrow> bool" where
  "leaves_lease l (Pool_Event e) = pool_event_leaves l e"
| "leaves_lease l (Rebuild c order now) = (now < expires_at l \<and> lease_ip l \<in> set order \<and>
     same_subnet (lease_ip l) (conf_server c) (conf_mask c))"

lemma lease_guardedD:
  assumes "lease_guarded ip l p"
  shows "clients_ok {} p" and "fmlookup (by_ip p) ip = Some l" and "fmlookup (by_mac p) m = Some ip \<Longrightarrow> m = lease_mac l"
  using assms unfolding lease_guarded_def by blast+

lemma lease_guardedI:
  assumes "clients_ok {} p" and "fmlookup (by_ip p) ip = Some l" and "\<And>m. fmlookup (by_mac p) m = Some ip \<Longrightarrow> m = lease_mac l"
  shows "lease_guarded ip l p"
  using assms unfolding lease_guarded_def by blast

lemma lease_guarded_frame:
  "lease_guarded ip l (p\<lparr>held := h\<rparr>) = lease_guarded ip l p" "lease_guarded ip l (p\<lparr>seen := s\<rparr>) = lease_guarded ip l p"
  "lease_guarded ip l (p\<lparr>reservations := r\<rparr>) = lease_guarded ip l p"
  by (simp_all add: lease_guarded_def clients_ok_frame)

lemma commit_guarded:
  assumes "lease_guarded ip l p" and "mac \<noteq> lease_mac l" "now < expires_at l"
    and "commit p mac ip' host now n = Inr (l', p')"
  shows "lease_guarded ip l p'"
proof -
  note g = lease_guardedD [OF assms(1)] and c = commit_Inr [OF assms(4)]
  have ip: "ip' \<noteq> ip" using c(1) g(2) assms(2,3) by (auto simp: available_for_iff is_active_def)
  show ?thesis
  proof (rule lease_guardedI)
    show "clients_ok {} p'" by (rule commit_clients_ok [OF g(1) assms(4)])
    show "fmlookup (by_ip p') ip = Some l" using c(6) [of ip] ip g(2) g(3) [of mac] assms(2) by auto
    show "m = lease_mac l" if "fmlookup (by_mac p') m = Some ip" for m
      using that c(5) c(7) [of m] g(3) [of m] ip by (cases "m = mac") simp_all
  qed
qed

lemma release_guarded:
  assumes "lease_guarded ip l p" and "mac \<noteq> lease_mac l"
  shows "lease_guarded ip l (release p mac)"
proof -
  note g = lease_guardedD [OF assms(1)]
  have "fmlookup (by_mac p) mac \<noteq> Some ip" using g(3) assms(2) by blast
  moreover have "m = lease_mac l" if "fmlookup (by_mac (release p mac)) m = Some ip" for m
    using that by (intro g(3)) (auto simp: release_def split: option.splits if_splits)
  ultimately show ?thesis
    using release_clients_ok [OF g(1), of mac] g(2) by (intro lease_guardedI) (simp_all add: release_def split: option.splits)
qed

lemma fold_prune_by_mac: "fmlookup (by_mac (fold prune_one as p)) m = Some ip \<Longrightarrow> fmlookup (by_mac p) m = Some ip"
proof (induction as arbitrary: p)
  case (Cons x as)
  then have "fmlookup (by_mac (prune_one x p)) m = Some ip" by simp
  then show ?case by (auto simp: prune_one_def split: option.splits if_splits)
qed simp

lemma prune_guarded:
  assumes "lease_guarded ip l p" and "now < expires_at l"
  shows "lease_guarded ip l (fst (prune_expired order p now))"
proof -
  note g = lease_guardedD [OF assms(1)]
  let ?q = "p\<lparr>held := fmfilter (\<lambda>ip. the (fmlookup (held p) ip) > now) (held p)\<rparr>"
  let ?dead = "map lease_ip (filter (\<lambda>l. \<not> is_active l now) (lease_values ?q order))"
  have "ip \<notin> set ?dead"
  proof
    assume "ip \<in> set ?dead"
    then obtain ip' l' where l': "fmlookup (by_ip p) ip' = Some l'" "lease_ip l' = ip" "\<not> is_active l' now"
      by (auto simp: in_lease_values)
    with clients_okD(1) [OF g(1) l'(1)] g(2) have "l' = l" by simp
    with l'(3) assms(2) show False by (simp add: is_active_def)
  qed
  then have "fmlookup (by_ip (fold prune_one ?dead ?q)) ip = Some l"
    using g(2) by (simp add: fold_prune_lookup)
  moreover have "m = lease_mac l" if "fmlookup (by_mac (fold prune_one ?dead ?q)) m = Some ip" for m
    using fold_prune_by_mac [OF that] by (intro g(3)) simp
  moreover have "fst (prune_expired order p now) = fold prune_one ?dead ?q"
    by (simp add: prune_expired_def Let_def)
  ultimately show ?thesis
    using prune_expired_ok [OF g(1), of order now] by (intro lease_guardedI) simp_all
qed

lemma row_lease:
  "lease_row l = (mac, ip, host, e) \<Longrightarrow> \<lparr>lease_ip = ip, lease_mac = mac, lease_hostname = host, expires_at = e\<rparr> = l"
  by (cases l) (simp add: lease_row_def)

lemma restore_all_guarded:
  assumes "\<And>mac host e. (mac, ip, host, e) \<in> set ls \<Longrightarrow> lease_row l = (mac, ip, host, e)"
    and "\<forall>m. fmlookup (by_mac p) m = Some ip \<longrightarrow> m = lease_mac l"
    and "fmlookup (by_ip p) ip = Some l \<or> lease_row l \<in> set ls \<and> lease_ip l = ip \<and> expires_at l > now"
  shows "fmlookup (by_ip (restore_all p ls now)) ip = Some l \<and>
    (\<forall>m. fmlookup (by_mac (restore_all p ls now)) m = Some ip \<longrightarrow> m = lease_mac l)"
  using assms
proof (induction ls arbitrary: p)
  case (Cons x ls)
  obtain mac ip' host e where x: "x = (mac, ip', host, e)" by (cases x)
  let ?p = "restore p mac ip' host e now"
  have "\<forall>m. fmlookup (by_mac ?p) m = Some ip \<longrightarrow> m = lease_mac l"
    using Cons.prems(1) [of mac host e] Cons.prems(2) x
    by (auto simp: restore_def lease_row_def simp del: split_paired_All)
  moreover have "fmlookup (by_ip ?p) ip = Some l \<or> lease_row l \<in> set ls \<and> lease_ip l = ip \<and> expires_at l > now"
  proof (cases "ip' = ip \<and> e > now")
    case True
    then have "lease_row l = (mac, ip, host, e)" using Cons.prems(1) x by simp
    with True show ?thesis by (auto simp: restore_def row_lease)
  next
    case False
    then show ?thesis using Cons.prems(1,3) x by (auto simp: restore_def lease_row_def)
  qed
  moreover have "lease_row l = (mac, ip, host, e)" if "(mac, ip, host, e) \<in> set ls" for mac host e
    using that by (intro Cons.prems(1)) simp
  ultimately show ?case unfolding x restore_all_Cons by (intro Cons.IH)
qed (simp add: restore_all_def)

lemma rebuild_guarded:
  assumes "lease_guarded ip l p" and "leaves_lease l (Rebuild c order now)"
  shows "lease_guarded ip l (rebuild c order p now)"
proof -
  note g = lease_guardedD [OF assms(1)]
  let ?rows = "filter (\<lambda>(mac, ip, _). same_subnet ip (conf_server c) (conf_mask c))
      (map lease_row (active_leases order p now))"
  have ip: "lease_ip l = ip" by (rule clients_okD(1) [OF g(1,2)])
  have "lease_row l = (mac, ip, host, e)" if "(mac, ip, host, e) \<in> set ?rows" for mac host e
  proof -
    from that have "(mac, ip, host, e) \<in> set (map lease_row (active_leases order p now))" by auto
    then obtain l' where "fmlookup (by_ip p) ip = Some l'"
        "l' = \<lparr>lease_ip = ip, lease_mac = mac, lease_hostname = host, expires_at = e\<rparr>"
      by (rule active_rows [OF g(1)])
    with g(2) show ?thesis by (auto simp: lease_row_def)
  qed
  moreover have "l \<in> set (active_leases order p now)"
    using assms(2) g(2) ip by (auto simp: active_leases_def in_lease_values is_active_def)
  then have "lease_row l \<in> set ?rows" using assms(2) by (auto simp: lease_row_def)
  ultimately have "fmlookup (by_ip (rebuild c order p now)) ip = Some l \<and>
      (\<forall>m. fmlookup (by_mac (rebuild c order p now)) m = Some ip \<longrightarrow> m = lease_mac l)"
    unfolding rebuild_def take_over_def using assms(2) ip
    by (intro restore_all_guarded) (auto simp: empty_table_ok)
  with rebuild_ok [OF g(1)] show ?thesis unfolding lease_guarded_def by blast
qed

lemma guarded_step: "lease_guarded ip l p \<Longrightarrow> leaves_lease l e \<Longrightarrow> lease_guarded ip l (service_step p e)"
proof (cases e)
  case (Pool_Event e')
  assume g: "lease_guarded ip l p" "leaves_lease l e"
  show ?thesis
  proof (cases e')
    case (Commit mac ip' host now n)
    with g Pool_Event show ?thesis by (auto split: sum.splits intro: commit_guarded)
  qed (use g Pool_Event in \<open>simp_all add: release_guarded prune_guarded lease_guarded_frame hold_def
      set_seen_def reserve_def\<close>)
qed (simp add: rebuild_guarded)

lemma guarded_run: "lease_guarded ip l p \<Longrightarrow> list_all (leaves_lease l) es \<Longrightarrow> lease_guarded ip l (foldl service_step p es)"
  by (induction es arbitrary: p) (simp_all add: guarded_step)

section \<open>Properties\<close>

definition mac_a :: mac where "mac_a = (2, 0, 0, 0, 0, 1)"
definition mac_b :: mac where "mac_b = (2, 0, 0, 0, 0, 2)"

text \<open>A pool of three addresses in which client A holds the first until time 200.\<close>

definition pool_abc :: LeasePool where
  "pool_abc = restore (pool_new 0xC0A80164 0xC0A80166) mac_a 0xC0A80164 None 200 100"

lemma pool_abc_eq: "pool_abc = \<lparr>pool_start = 0xC0A80164, pool_end = 0xC0A80166, reservations = fmempty,
    by_ip = fmupd 0xC0A80164 \<lparr>lease_ip = 0xC0A80164, lease_mac = mac_a, lease_hostname = None,
      expires_at = 200\<rparr> fmempty,
    by_mac = fmupd mac_a 0xC0A80164 fmempty, held = fmempty, seen = fmempty\<rparr>"
  by (simp add: pool_abc_def restore_def pool_new_def)

lemmas pool_simps = pool_abc_eq commit_def available_for_def seen_elsewhere_def in_range_def
  is_active_def Let_def mac_a_def mac_b_def fmpred_alt_def saturating_add_def

text \<open>
  C27. The table starts on the stored leases and then goes through any sequence of holds,
  reservations, commits, releases, prunes and rebuilds on new settings. Every lease is filed
  under its own address, whatever was stored. A client whose stored rows that still ran named
  one address never holds two; the condition is about this client alone, and the table may
  hold two leases of a client that breaks it.
\<close>

theorem pool_one_lease_per_client:
  assumes "\<forall>(mac, ip, host, e) \<in> set rows. mac = m \<and> e > now \<longrightarrow> ip = a"
    and "p = service_run c rows now events" and "fmlookup (by_ip p) ip = Some l"
  shows "lease_ip l = ip \<and>
    (lease_mac l = m \<longrightarrow> (\<forall>ip' l'. fmlookup (by_ip p) ip' = Some l' \<and> lease_mac l' = m \<longrightarrow> ip' = ip))"
proof -
  have "one_address {m} (\<lambda>_. a) rows now" using assms(1) by (auto simp: one_address_def list_all_iff)
  then have ok: "clients_ok {m} p" unfolding assms(2) by (rule service_run_ok)
  with clients_okD(1) [OF ok assms(3)] show ?thesis
    using leases_unique [OF ok _ assms(3)] by (metis singletonI)
qed

text \<open>A start on two stored rows of B and one of A.\<close>

definition conf_abc :: pool_conf where
  "conf_abc = \<lparr>conf_start = 0xC0A80164, conf_end = 0xC0A80166, conf_server = 0xC0A80101,
     conf_gateway = None, conf_mask = 0xFFFFFF00, conf_reservations = []\<rparr>"

definition rows_abb :: "persisted list" where
  "rows_abb = [(mac_a, 0xC0A80164, None, 200), (mac_b, 0xC0A80165, None, 200), (mac_b, 0xC0A80166, None, 300)]"

lemma run_abb: "by_ip (service_run conf_abc rows_abb 100 []) =
    fmupd 0xC0A80166 \<lparr>lease_ip = 0xC0A80166, lease_mac = mac_b, lease_hostname = None, expires_at = 300\<rparr>
      (fmupd 0xC0A80165 \<lparr>lease_ip = 0xC0A80165, lease_mac = mac_b, lease_hostname = None, expires_at = 200\<rparr>
      (fmupd 0xC0A80164 \<lparr>lease_ip = 0xC0A80164, lease_mac = mac_a, lease_hostname = None, expires_at = 200\<rparr> fmempty))"
  "by_mac (service_run conf_abc rows_abb 100 []) = fmupd mac_b 0xC0A80166 (fmupd mac_b 0xC0A80165 (fmupd mac_a 0xC0A80164 fmempty))"
  by (simp_all add: service_run_def take_over_def restore_all_def restore_def rows_abb_def conf_abc_def
      same_subnet_def empty_table_def reserve_def pool_new_def)

theorem pool_one_lease_per_client_witness:
  "\<exists>l. fmlookup (by_ip (service_run conf_abc rows_abb 100 [])) 0xC0A80164 = Some l \<and> lease_mac l = mac_a \<and>
    (\<forall>ip' l'. fmlookup (by_ip (service_run conf_abc rows_abb 100 [])) ip' = Some l' \<and> lease_mac l' = mac_a \<longrightarrow>
      ip' = 0xC0A80164)"
proof -
  have "\<forall>(mac, ip, host, e) \<in> set rows_abb. mac = mac_a \<and> e > 100 \<longrightarrow> ip = 0xC0A80164"
    by (simp add: rows_abb_def mac_a_def mac_b_def)
  moreover obtain l where l: "fmlookup (by_ip (service_run conf_abc rows_abb 100 [])) 0xC0A80164 = Some l" "lease_mac l = mac_a"
    by (simp add: run_abb)
  ultimately show ?thesis using pool_one_lease_per_client [OF _ refl l(1)] by blast
qed

text \<open>
  Two stored rows of one client, which its move to another address leaves behind until
  the old row expires, become two leases of it.
\<close>

theorem moved_client_restored_twice:
  "\<exists>l l'. fmlookup (by_ip (service_run conf_abc rows_abb 100 [])) 0xC0A80165 = Some l \<and>
     fmlookup (by_ip (service_run conf_abc rows_abb 100 [])) 0xC0A80166 = Some l' \<and>
     lease_mac l = mac_b \<and> lease_mac l' = mac_b \<and> is_active l 150 \<and> is_active l' 150"
  by (simp add: run_abb is_active_def)

text \<open>
  Binding an address succeeds exactly when it is in the pool or reserved for the client,
  reserved for nobody else, not on hold, not in use by another device, and not under an
  active lease of another client; then the client is recorded at the address until the lease
  time, saturating at the largest time, and nothing but the client's own former lease goes.
  Otherwise the error says which check failed and the pool is untouched.
\<close>

theorem commit_spec:
  "case commit p mac ip host now n of
     Inl err \<Rightarrow> err = (if fmlookup (reservations p) mac \<noteq> Some ip \<and> \<not> in_range p ip
       then OutOfRange else Conflict) \<and>
       (err = Conflict \<longrightarrow> \<not> available_for p ip mac now)
   | Inr (l, p') \<Rightarrow>
       (fmlookup (reservations p) mac = Some ip \<or> in_range p ip) \<and> available_for p ip mac now \<and>
       lookup_by_mac p' mac now = (if saturating_add now n > now then Some l else None) \<and>
       lease_ip l = ip \<and> lease_mac l = mac \<and>
       unat (expires_at l) = min (unat now + unat n) 18446744073709551615 \<and>
       (\<forall>ip'. ip' \<noteq> ip \<and> fmlookup (by_mac p) mac \<noteq> Some ip' \<longrightarrow>
         fmlookup (by_ip p') ip' = fmlookup (by_ip p) ip')"
proof (cases "commit p mac ip host now n")
  case (Inl err)
  then show ?thesis
    using commit_Inl [of p mac ip host now n err] by (auto split: if_splits)
next
  case (Inr r)
  obtain l p' where r: "r = (l, p')" by (cases r)
  note c = commit_Inr [OF Inr [unfolded r]]
  have "lookup_by_mac p' mac now = (if saturating_add now n > now then Some l else None)"
    using c(3,4,5) by (simp add: lookup_by_mac_def is_active_def)
  with c show ?thesis by (simp add: Inr r unat_saturating_add)
qed

theorem commit_spec_witness:
  "\<exists>l p'. commit pool_abc mac_a 0xC0A80165 None 100 60 = Inr (l, p') \<and> lookup_by_mac p' mac_a 100 = Some l"
proof -
  obtain l p' where c: "commit pool_abc mac_a 0xC0A80165 None 100 60 = Inr (l, p')"
    by (simp add: pool_simps)
  then show ?thesis
    using commit_spec [where p = pool_abc and mac = mac_a and ip = "0xC0A80165" and host = None and now = 100 and n = 60] by (simp add: saturating_add_def)
qed

text \<open>
  C11. The table of the service holds a lease at an address, and the client index names the
  address for no client but the holder. Then whatever follows before the lease expires, as
  long as the holder itself neither commits nor releases and rebuilds keep its subnet, the
  lease stays as it is and the address can be bound to no other client. The condition on the
  index is needed: see \<open>release_drops_other_lease\<close> below.
\<close>

theorem running_lease_kept:
  assumes "p = service_run c rows start events" and "fmlookup (by_ip p) ip = Some l"
    and "\<forall>m. fmlookup (by_mac p) m = Some ip \<longrightarrow> m = lease_mac l"
    and "list_all (leaves_lease l) later" and "q = foldl service_step p later"
  shows "fmlookup (by_ip q) ip = Some l \<and>
    (\<forall>mac host now n. mac \<noteq> lease_mac l \<and> now < expires_at l \<longrightarrow> (\<exists>err. commit q mac ip host now n = Inl err))"
proof -
  have "lease_guarded ip l p"
    using assms(2,3) service_run_filed by (simp add: lease_guarded_def assms(1))
  then have g: "lease_guarded ip l q" unfolding assms(5) using assms(4) by (rule guarded_run)
  moreover have "\<exists>err. commit q mac ip host now n = Inl err" if "mac \<noteq> lease_mac l" "now < expires_at l" for mac host now n
    using pool_store.commit_refused [of q ip now "lease_mac l" mac host n] g that
    by (simp add: lease_guarded_def holder_def is_active_def)
  ultimately show ?thesis by (simp add: lease_guarded_def)
qed

theorem running_lease_kept_witness:
  "\<exists>l. fmlookup (by_ip (foldl service_step (service_run conf_abc rows_abb 100 [])
      [Pool_Event (Release_Lease mac_b), Pool_Event (Commit mac_b 0xC0A80164 None 150 60),
       Pool_Event (Prune [0xC0A80165, 0xC0A80164] 160), Rebuild conf_abc [0xC0A80165, 0xC0A80164] 170])) 0xC0A80164 = Some l \<and>
    lease_mac l = mac_a"
proof -
  let ?p = "service_run conf_abc rows_abb 100 []"
  obtain l where l: "fmlookup (by_ip ?p) 0xC0A80164 = Some l" "lease_mac l = mac_a" "lease_ip l = 0xC0A80164" "expires_at l = 200"
    by (simp add: run_abb)
  moreover have "\<forall>m. fmlookup (by_mac ?p) m = Some 0xC0A80164 \<longrightarrow> m = lease_mac l"
    using l(2) by (simp add: run_abb)
  moreover have "list_all (leaves_lease l) [Pool_Event (Release_Lease mac_b), Pool_Event (Commit mac_b 0xC0A80164 None 150 60),
       Pool_Event (Prune [0xC0A80165, 0xC0A80164] 160), Rebuild conf_abc [0xC0A80165, 0xC0A80164] 170]"
    using l by (simp add: mac_a_def mac_b_def conf_abc_def same_subnet_def)
  ultimately show ?thesis using running_lease_kept [OF refl l(1) _ _ refl] by blast
qed

text \<open>
  An offer is the client's reservation if it has one; else its current address if that
  is under an active lease; else the address it asks for if that is in the pool and free;
  else the lowest free address of the pool. There is no offer only when no address is free.
\<close>

theorem offer_spec:
  "offer p mac requested now =
     (case fmlookup (reservations p) mac of Some ip \<Rightarrow> Some ip
      | None \<Rightarrow> (case lookup_by_mac p mac now of Some l \<Rightarrow> fmlookup (by_mac p) mac
      | None \<Rightarrow> (case Option.bind requested (\<lambda>ip. if in_range p ip \<and> available_for p ip mac now
            then Some ip else None) of Some ip \<Rightarrow> Some ip
      | None \<Rightarrow> let free = {ip. in_range p ip \<and> available_for p ip mac now} in
          if free = {} then None else Some (Min free))))"
proof -
  let ?P = "\<lambda>ip. available_for p ip mac now"
  have sorted: "sorted (pool_addrs p)"
  proof -
    have "sorted_wrt (\<lambda>m n. (word_of_nat m :: u32) \<le> word_of_nat n) [unat (pool_start p)..<Suc (unat (pool_end p))]"
    proof (rule sorted_wrt_mono_rel [OF _ sorted_wrt_upt])
      fix m n assume "m \<in> set [unat (pool_start p)..<Suc (unat (pool_end p))]"
        "n \<in> set [unat (pool_start p)..<Suc (unat (pool_end p))]" "m < n"
      then have "m < n" "n < 4294967296" using unat_u32_less [of "pool_end p"] by auto
      then show "(word_of_nat m :: u32) \<le> word_of_nat n"
        by (simp add: word_le_nat_alt unat_of_nat_small)
    qed
    then show ?thesis by (simp add: pool_addrs_def sorted_wrt_map)
  qed
  have "find ?P (pool_addrs p) = (let free = {ip. in_range p ip \<and> ?P ip} in
      if free = {} then None else Some (Min free))"
  proof (cases "find ?P (pool_addrs p)")
    case None
    then show ?thesis using pool_addrs_set [of p] by (auto simp: find_None_iff Let_def)
  next
    case (Some ip)
    then have ip: "?P ip" "in_range p ip"
      using pool_addrs_set [of p] nth_mem [of _ "pool_addrs p"] by (auto simp: find_Some_iff)
    have "ip \<le> ip'" if "in_range p ip'" "?P ip'" for ip'
    proof -
      have "ip' \<in> set (pool_addrs p)" using that(1) pool_addrs_set [of p] by blast
      then obtain j where j: "j < length (pool_addrs p)" "pool_addrs p ! j = ip'"
        unfolding in_set_conv_nth by blast
      obtain i where i: "pool_addrs p ! i = ip" "\<forall>k < i. \<not> ?P (pool_addrs p ! k)"
        using Some unfolding find_Some_iff by blast
      have "i \<le> j" using i(2) j(2) that(2) by (meson not_le_imp_less)
      with sorted_nth_mono [OF sorted this j(1)] i(1) j(2) show ?thesis by simp
    qed
    with ip have "Min {ip. in_range p ip \<and> ?P ip} = ip" by (intro Min_eqI) auto
    with ip Some show ?thesis by (auto simp: Let_def)
  qed
  then show ?thesis
    by (auto simp: offer_def lookup_by_mac_def Let_def split: option.splits)
qed

text \<open>
  The offer a new client gets can be committed: when the client has no reservation and
  no active lease, a REQUEST for the offered address at the same time is granted.
\<close>

theorem offer_then_commit:
  assumes "offer p mac requested now = Some ip"
    and "fmlookup (reservations p) mac = None" and "lookup_by_mac p mac now = None"
  shows "\<exists>l p'. commit p mac ip host now n = Inr (l, p') \<and> lease_ip l = ip \<and> lease_mac l = mac"
  using assms(1)
proof (cases rule: offer_cases)
  case free
  then show ?thesis by (simp add: commit_def Let_def)
qed (use assms in \<open>auto simp: lookup_by_mac_def\<close>)

theorem offer_then_commit_witness:
  "offer pool_abc mac_b (Some 0xC0A80165) 100 = Some 0xC0A80165 \<and>
   (\<exists>l p'. commit pool_abc mac_b 0xC0A80165 None 100 60 = Inr (l, p') \<and> lease_ip l = 0xC0A80165)"
proof -
  have "offer pool_abc mac_b (Some 0xC0A80165) 100 = Some 0xC0A80165"
    by (simp add: offer_def pool_simps)
  moreover have "fmlookup (reservations pool_abc) mac_b = None" "lookup_by_mac pool_abc mac_b 100 = None"
    by (simp_all add: lookup_by_mac_def pool_simps)
  ultimately show ?thesis using offer_then_commit [of pool_abc mac_b] by blast
qed

text \<open>
  Pruning removes exactly the expired leases and holds and counts the leases, whatever
  order the table is visited in; reservations and all active leases stay, and what a client
  lookup returns at that time does not change.
\<close>

theorem prune_expired_spec:
  assumes "pool_inv p" and "distinct order" and "set order = fmdom' (by_ip p)"
    and "prune_expired order p now = (p', n)"
  shows "(\<forall>ip l. fmlookup (by_ip p') ip = Some l \<longleftrightarrow> fmlookup (by_ip p) ip = Some l \<and> is_active l now) \<and>
    (\<forall>ip t. fmlookup (held p') ip = Some t \<longleftrightarrow> fmlookup (held p) ip = Some t \<and> t > now) \<and>
    n = card {ip. \<exists>l. fmlookup (by_ip p) ip = Some l \<and> \<not> is_active l now} \<and>
    reservations p' = reservations p"
proof -
  let ?q = "p\<lparr>held := fmfilter (\<lambda>ip. the (fmlookup (held p) ip) > now) (held p)\<rparr>"
  let ?dead = "filter (\<lambda>ip. case fmlookup (by_ip p) ip of None \<Rightarrow> False | Some l \<Rightarrow> \<not> is_active l now) order"
  have "pool_inv ?q" using assms(1) by (simp add: pool_inv_def)
  from dead_addresses [OF this, of "\<lambda>l. \<not> is_active l now" order]
  have eq: "?dead = map lease_ip (filter (\<lambda>l. \<not> is_active l now) (lease_values ?q order))" by simp
  have p': "p' = fold prune_one ?dead ?q" and n: "n = length ?dead"
    using assms(4) unfolding eq by (auto simp: prune_expired_def Let_def)
  have dead: "set ?dead = {ip. \<exists>l. fmlookup (by_ip p) ip = Some l \<and> \<not> is_active l now}"
    using assms(3) by (auto simp: fmlookup_dom'_iff split: option.splits)
  have "n = card (set ?dead)"
    using distinct_card [OF distinct_filter [OF assms(2)], symmetric] n by (simp only:)
  moreover have "fmlookup (by_ip p') ip = Some l \<longleftrightarrow> fmlookup (by_ip p) ip = Some l \<and> is_active l now" for ip l
    unfolding p' fold_prune_lookup dead by auto
  moreover have "fmlookup (held p') ip = Some t \<longleftrightarrow> fmlookup (held p) ip = Some t \<and> t > now" for ip t
    using fold_prune_frame [of ?dead ?q] by (auto simp: p')
  ultimately show ?thesis
    using fold_prune_frame [of ?dead ?q] unfolding dead by (simp add: p')
qed

theorem prune_expired_spec_witness:
  "snd (prune_expired [0xC0A80164] pool_abc 200) =
     card {ip. \<exists>l. fmlookup (by_ip pool_abc) ip = Some l \<and> \<not> is_active l 200}"
proof -
  have "pool_inv pool_abc" by (simp add: pool_abc_eq pool_inv_def fmpred_alt_def)
  moreover have "set [0xC0A80164] = fmdom' (by_ip pool_abc)" by (simp add: pool_abc_eq)
  ultimately show ?thesis
    using prune_expired_spec [of pool_abc "[0xC0A80164]" 200 "fst (prune_expired [0xC0A80164] pool_abc 200)"
        "snd (prune_expired [0xC0A80164] pool_abc 200)"] by simp
qed


section \<open>The client index\<close>

text \<open>
  The index \<open>by_mac\<close> is exact when the address it gives for a client is under that client's
  lease. In a pool without expired leases the operations keep it so; otherwise it can go
  stale, because a new lease at an address does not remove the index entry of the client
  whose lease there has expired.
\<close>

definition index_exact :: "LeasePool \<Rightarrow> bool" where
  "index_exact p \<longleftrightarrow> fmpred (\<lambda>mac ip. case fmlookup (by_ip p) ip of
      None \<Rightarrow> False | Some l \<Rightarrow> lease_mac l = mac) (by_mac p)"

lemma index_exactD:
  assumes "index_exact p" and "fmlookup (by_mac p) m = Some ip"
  obtains l where "fmlookup (by_ip p) ip = Some l" and "lease_mac l = m"
  using fmpredD [OF assms(1) [unfolded index_exact_def] assms(2)] by (auto split: option.splits)

lemma index_exactI:
  assumes "\<And>m ip. fmlookup (by_mac p) m = Some ip \<Longrightarrow>
    \<exists>l. fmlookup (by_ip p) ip = Some l \<and> lease_mac l = m"
  shows "index_exact p"
  unfolding index_exact_def by (rule fmpredI) (use assms in fastforce)

definition all_active :: "LeasePool \<Rightarrow> u64 \<Rightarrow> bool" where
  "all_active p now \<longleftrightarrow> fmpred (\<lambda>ip l. is_active l now) (by_ip p)"

text \<open>A step that leaves the index entry and the lease of each other client alone.\<close>

definition keeps_others :: "mac \<Rightarrow> LeasePool \<Rightarrow> LeasePool \<Rightarrow> bool" where
  "keeps_others mac p p' \<longleftrightarrow> (\<forall>m. m \<noteq> mac \<longrightarrow> fmlookup (by_mac p') m = fmlookup (by_mac p) m \<and>
     (\<forall>ip. fmlookup (by_mac p) m = Some ip \<longrightarrow> fmlookup (by_ip p') ip = fmlookup (by_ip p) ip))"

lemma keeps_othersD:
  assumes "keeps_others mac p p'" and "m \<noteq> mac"
  shows "fmlookup (by_mac p') m = fmlookup (by_mac p) m"
    and "fmlookup (by_mac p) m = Some ip \<Longrightarrow> fmlookup (by_ip p') ip = fmlookup (by_ip p) ip"
  using assms unfolding keeps_others_def by blast+

lemma keeps_others_lookup: "keeps_others mac p p' \<Longrightarrow> m \<noteq> mac \<Longrightarrow> lookup_by_mac p' m now = lookup_by_mac p m now"
  by (cases "fmlookup (by_mac p) m") (simp_all add: keeps_othersD lookup_by_mac_def)

lemma release_keeps_others:
  assumes "index_exact p"
  shows "keeps_others mac p (release p mac)"
proof -
  have "ip' \<noteq> ip" if "fmlookup (by_mac p) mac = Some ip" "fmlookup (by_mac p) m = Some ip'" "m \<noteq> mac" for ip ip' m
    using index_exactD [OF assms that(1)] index_exactD [OF assms that(2)] that(3) by (metis option.inject)
  then show ?thesis by (simp add: keeps_others_def release_def split: option.split)
qed

lemma commit_keeps_others:
  assumes "index_exact p" and "all_active p now" and "commit p mac ip host now n = Inr (l, p')"
  shows "keeps_others mac p p'"
  unfolding keeps_others_def
proof (intro allI impI conjI)
  fix m assume m: "m \<noteq> mac"
  note c = commit_Inr [OF assms(3)]
  show "fmlookup (by_mac p') m = fmlookup (by_mac p) m" using m by (rule c(7))
  fix ip' assume ip': "fmlookup (by_mac p) m = Some ip'"
  from assms(1) this obtain l' where l': "fmlookup (by_ip p) ip' = Some l'" "lease_mac l' = m"
    by (rule index_exactD)
  have "is_active l' now" using assms(2) l'(1) unfolding all_active_def by (rule fmpredD)
  with c(1) l' m have "ip' \<noteq> ip" by (auto simp: available_for_iff)
  moreover have "fmlookup (by_mac p) mac \<noteq> Some ip'"
    using index_exactD [OF assms(1), of mac ip'] l' m by (metis option.inject)
  ultimately show "fmlookup (by_ip p') ip' = fmlookup (by_ip p) ip'" by (rule c(6))
qed

lemma keeps_others_exact:
  assumes "index_exact p" and "keeps_others mac p p'"
    and "\<And>ip. fmlookup (by_mac p') mac = Some ip \<Longrightarrow> \<exists>l. fmlookup (by_ip p') ip = Some l \<and> lease_mac l = mac"
  shows "index_exact p'"
proof (rule index_exactI)
  fix m ip assume ip: "fmlookup (by_mac p') m = Some ip"
  show "\<exists>l. fmlookup (by_ip p') ip = Some l \<and> lease_mac l = m"
  proof (cases "m = mac")
    case False
    with ip keeps_othersD [OF assms(2), of m]
    have "fmlookup (by_mac p) m = Some ip" "fmlookup (by_ip p') ip = fmlookup (by_ip p) ip" by simp_all
    with assms(1) show ?thesis by (metis index_exactD)
  qed (use assms(3) ip in blast)
qed

text \<open>
  In a pool whose expired leases have been pruned and whose client index is exact, a
  client's REQUEST or RELEASE never touches another client: every other client keeps the
  lease it had, and the index stays exact.
\<close>

theorem pruned_pool_isolates_clients:
  assumes "index_exact p" and "all_active p now"
    and "commit p mac ip host now n = Inr (l, p')" and "m \<noteq> mac"
  shows "lookup_by_mac p' m now = lookup_by_mac p m now \<and>
    lookup_by_mac (release p mac) m now = lookup_by_mac p m now \<and>
    index_exact p' \<and> index_exact (release p mac)"
proof -
  note k = commit_keeps_others [OF assms(1-3)] release_keeps_others [OF assms(1), of mac]
  have "index_exact p'"
    using commit_Inr(3-5) [OF assms(3)] by (intro keeps_others_exact [OF assms(1) k(1)]) simp
  moreover have "index_exact (release p mac)"
    by (intro keeps_others_exact [OF assms(1) k(2)]) (simp add: release_def split: option.splits)
  ultimately show ?thesis using k assms(4) by (simp add: keeps_others_lookup)
qed

theorem pruned_pool_isolates_clients_witness:
  "\<exists>l p'. commit pool_abc mac_b 0xC0A80165 None 100 60 = Inr (l, p') \<and>
     lookup_by_mac p' mac_a 100 = lookup_by_mac pool_abc mac_a 100"
proof -
  obtain l p' where c: "commit pool_abc mac_b 0xC0A80165 None 100 60 = Inr (l, p')"
    by (simp add: pool_simps)
  have "index_exact pool_abc" "all_active pool_abc 100" "mac_a \<noteq> mac_b"
    by (simp_all add: index_exact_def all_active_def pool_simps)
  with c pruned_pool_isolates_clients [OF _ _ c] show ?thesis by blast
qed

text \<open>
  Without pruning the index goes stale. Client A's lease at the first address expires, B is
  given the address, and A's index entry still points there: a lookup for A returns B's
  lease, and a RELEASE from A removes B's active lease.
\<close>

theorem release_drops_other_lease:
  "\<exists>l p'. commit pool_abc mac_b 0xC0A80164 None 250 3600 = Inr (l, p') \<and>
     holder p' 0xC0A80164 300 = Some mac_b \<and> lookup_by_mac p' mac_a 300 = Some l \<and>
     holder (release p' mac_a) 0xC0A80164 300 = None"
  by (simp add: holder_def release_def lookup_by_mac_def pool_simps)

end
