(* ===== verification/Dhcp_Server.thy ===== *)
theory Dhcp_Server
  imports Dhcp_Lease
begin

unbundle bit_operations_syntax

text \<open>
  The DHCP server: the decision logic of \<open>crates/dhcp/src/handler.rs\<close>, one iteration of the
  socket loop of \<open>crates/dhcp/src/server.rs\<close>, and the pure parts of the rival-server probe
  (\<open>crates/dhcp/src/probe.rs\<close>). The clock and the datagram are arguments; the datagram that
  would be sent and the lease events are results.
\<close>

section \<open>The handler\<close>

record ServerConfig =
  server_ip :: Ipv4Addr
  subnet_mask :: Ipv4Addr
  gateway :: "Ipv4Addr option"
  dns_servers :: "Ipv4Addr list"
  domain :: "bytes option"
  lease_secs :: u32

definition option_list :: "('a \<Rightarrow> 'b) \<Rightarrow> 'a option \<Rightarrow> 'b list" where
  "option_list f x = (case x of None \<Rightarrow> [] | Some y \<Rightarrow> [f y])"

definition config_options :: "ServerConfig \<Rightarrow> DhcpOption list" where
  "config_options cfg =
     [LeaseTime (lease_secs cfg), RenewalTime (lease_secs cfg div 2),
      RebindingTime (lease_secs cfg div 8 * 7), SubnetMask (subnet_mask cfg)]
     @ option_list (\<lambda>gw. Router [gw]) (gateway cfg)
     @ (if dns_servers cfg \<noteq> [] then [DnsServers (dns_servers cfg)] else [])
     @ option_list DomainName (domain cfg)"

definition DECLINE_HOLD_SECS :: u64 where "DECLINE_HOLD_SECS = 30 * 60"

definition reply :: "ServerConfig \<Rightarrow> DhcpMessage \<Rightarrow> Ipv4Addr \<Rightarrow> DhcpOption list \<Rightarrow> DhcpMessage" where
  "reply cfg req yi opts = \<lparr>op = BootReply, xid = xid req, secs = 0, flags = flags req,
     ciaddr = UNSPECIFIED, yiaddr = yi, siaddr = server_ip cfg, giaddr = giaddr req,
     chaddr = chaddr req, options = opts\<rparr>"

definition nak :: "ServerConfig \<Rightarrow> DhcpMessage \<Rightarrow> DhcpMessage" where
  "nak cfg req = reply cfg req UNSPECIFIED [MessageTypeOpt Nak, ServerIdentifier (server_ip cfg)]"

definition handle_discover :: "ServerConfig \<Rightarrow> LeasePool \<Rightarrow> DhcpMessage \<Rightarrow> u64 \<Rightarrow> DhcpMessage option" where
  "handle_discover cfg pool req now = do {
     ip \<leftarrow> offer pool (chaddr req) (requested_ip req) now;
     Some (reply cfg req ip
       ([MessageTypeOpt Offer, ServerIdentifier (server_ip cfg)] @ config_options cfg))
   }"

definition handle_request :: "ServerConfig \<Rightarrow> LeasePool \<Rightarrow> DhcpMessage \<Rightarrow> u64 \<Rightarrow>
    LeasePool \<times> DhcpMessage option" where
  "handle_request cfg pool req now =
     (if (case server_identifier req of None \<Rightarrow> False | Some sid \<Rightarrow> sid \<noteq> server_ip cfg)
      then (pool, None)
      else
        let wanted = (case requested_ip req of Some ip \<Rightarrow> ip | None \<Rightarrow> ciaddr req) in
        if wanted = UNSPECIFIED then (pool, Some (nak cfg req))
        else (case commit pool (chaddr req) wanted (hostname req) now (ucast (lease_secs cfg)) of
            Inr (lease, pool') \<Rightarrow>
              (pool', Some (reply cfg req (lease_ip lease)
                ([MessageTypeOpt Ack, ServerIdentifier (server_ip cfg)] @ config_options cfg)))
          | Inl _ \<Rightarrow> (pool, Some (nak cfg req))))"

definition handle_inform :: "ServerConfig \<Rightarrow> DhcpMessage \<Rightarrow> DhcpMessage" where
  "handle_inform cfg req = reply cfg req UNSPECIFIED
     ([MessageTypeOpt Ack, ServerIdentifier (server_ip cfg), SubnetMask (subnet_mask cfg)]
      @ option_list (\<lambda>gw. Router [gw]) (gateway cfg)
      @ (if dns_servers cfg \<noteq> [] then [DnsServers (dns_servers cfg)] else [])
      @ option_list DomainName (domain cfg))"

definition handle :: "ServerConfig \<Rightarrow> LeasePool \<Rightarrow> DhcpMessage \<Rightarrow> u64 \<Rightarrow>
    LeasePool \<times> DhcpMessage option" where
  "handle cfg pool req now =
     (if op req \<noteq> BootRequest then (pool, None)
      else case message_type req of
        None \<Rightarrow> (pool, None)
      | Some Discover \<Rightarrow> (pool, handle_discover cfg pool req now)
      | Some Request \<Rightarrow> handle_request cfg pool req now
      | Some Release \<Rightarrow> (release pool (chaddr req), None)
      | Some Decline \<Rightarrow>
          (let pool = (case requested_ip req of
              None \<Rightarrow> pool
            | Some ip \<Rightarrow> hold pool ip (saturating_add now DECLINE_HOLD_SECS))
           in (release pool (chaddr req), None))
      | Some Inform \<Rightarrow> (pool, Some (handle_inform cfg req))
      | Some Offer \<Rightarrow> (pool, None)
      | Some Ack \<Rightarrow> (pool, None)
      | Some Nak \<Rightarrow> (pool, None))"

section \<open>The socket loop\<close>

datatype LeaseEvent = Committed mac Ipv4Addr "bytes option" u64 | Released Ipv4Addr

definition SERVER_PORT :: u16 where "SERVER_PORT = 67"
definition CLIENT_PORT :: u16 where "CLIENT_PORT = 68"
definition MIN_REPLY_LEN :: nat where "MIN_REPLY_LEN = 300"

datatype ReplyDest = Relay Ipv4Addr | Unicast Ipv4Addr | Broadcast

primrec socket_addr :: "ReplyDest \<Rightarrow> Ipv4Addr \<times> u16" where
  "socket_addr (Relay ip) = (ip, SERVER_PORT)"
| "socket_addr (Unicast ip) = (ip, CLIENT_PORT)"
| "socket_addr Broadcast = (BROADCAST, CLIENT_PORT)"

definition reply_destination :: "DhcpMessage \<Rightarrow> bool \<Rightarrow> ReplyDest" where
  "reply_destination req is_nak =
     (if giaddr req \<noteq> UNSPECIFIED then Relay (giaddr req)
      else if is_nak then Broadcast
      else if ciaddr req \<noteq> UNSPECIFIED then Unicast (ciaddr req)
      else Broadcast)"

definition lease_events :: "ServerConfig \<Rightarrow> DhcpMessage \<Rightarrow> DhcpMessage option \<Rightarrow> u64 \<Rightarrow> LeaseEvent list" where
  "lease_events cfg req rep now =
     (if message_type req = Some Release \<and> ciaddr req \<noteq> UNSPECIFIED then [Released (ciaddr req)] else [])
     @ (case rep of
          None \<Rightarrow> []
        | Some r \<Rightarrow>
            if message_type r = Some Ack \<and> yiaddr r \<noteq> UNSPECIFIED
            then [Committed (chaddr req) (yiaddr r) (hostname req)
              (saturating_add now (ucast (lease_secs cfg)))]
            else [])"

definition pad_reply :: "bytes \<Rightarrow> bytes" where
  "pad_reply bs = (if length bs < MIN_REPLY_LEN then bs @ replicate (MIN_REPLY_LEN - length bs) 0 else bs)"

text \<open>One datagram through the loop: the new pool, the events and the datagram sent, if any.\<close>

definition serve_datagram :: "ServerConfig \<Rightarrow> LeasePool \<Rightarrow> bytes \<Rightarrow> u64 \<Rightarrow>
    (LeasePool \<times> LeaseEvent list \<times> (bytes \<times> Ipv4Addr \<times> u16) option) rs" where
  "serve_datagram cfg pool buf now = do {
     r \<leftarrow> decode buf;
     (case r of
        Inl e \<Rightarrow> Some (pool, [], None)
      | Inr req \<Rightarrow>
          (case handle cfg pool req now of (pool', rep) \<Rightarrow>
             let events = lease_events cfg req rep now in
             (case rep of
                None \<Rightarrow> Some (pool', events, None)
              | Some m \<Rightarrow> do {
                  out \<leftarrow> encode m;
                  Some (pool', events, Some (pad_reply out,
                    socket_addr (reply_destination req (message_type m = Some Nak))))
                })))
   }"

section \<open>The probe for other servers\<close>

record Rival =
  rival_server :: Ipv4Addr
  rival_offered :: Ipv4Addr
  rival_dns :: "Ipv4Addr list"

definition probe_discover :: "u32 \<Rightarrow> mac \<Rightarrow> DhcpMessage" where
  "probe_discover x m = \<lparr>op = BootRequest, xid = x, secs = 0, flags = 0x8000, ciaddr = UNSPECIFIED,
     yiaddr = UNSPECIFIED, siaddr = UNSPECIFIED, giaddr = UNSPECIFIED, chaddr = m,
     options = [MessageTypeOpt Discover, ParameterRequestList [1, 3, 6]]\<rparr>"

definition rival :: "DhcpMessage \<Rightarrow> u32 \<Rightarrow> Ipv4Addr list \<Rightarrow> Rival option" where
  "rival msg x ours =
     (if op msg \<noteq> BootReply \<or> xid msg \<noteq> x \<or> message_type msg \<noteq> Some Offer then None
      else do {
        server \<leftarrow> server_identifier msg;
        if server \<in> set ours then None
        else Some \<lparr>rival_server = server, rival_offered = yiaddr msg,
          rival_dns = (case find_map (\<lambda>opt. case opt of DnsServers d \<Rightarrow> Some d | _ \<Rightarrow> None) (options msg) of
            Some d \<Rightarrow> d | None \<Rightarrow> [])\<rparr>
      })"

section \<open>Facts about the handler\<close>

lemma handle_inv: "pool_inv pool \<Longrightarrow> pool_inv (fst (handle cfg pool req now))"
  by (auto simp: handle_def handle_request_def Let_def hold_inv release_inv
      split: option.splits MessageType.splits sum.splits intro: commit_inv)

text \<open>The server as a state machine: a datagram and the time it arrives at are one step.\<close>

definition serve_step :: "ServerConfig \<Rightarrow> LeasePool \<Rightarrow> bytes \<times> u64 \<Rightarrow> LeasePool" where
  "serve_step cfg pool d = (case serve_datagram cfg pool (fst d) (snd d) of
     None \<Rightarrow> pool | Some (pool', _) \<Rightarrow> pool')"

lemma encode_total: "encode m \<noteq> None"
  by (simp add: encode_eq)

lemma serve_datagram_eq:
  "serve_datagram cfg pool buf now = Some
     (case the (decode buf) of
        Inl e \<Rightarrow> (pool, [], None)
      | Inr req \<Rightarrow> (fst (handle cfg pool req now),
          lease_events cfg req (snd (handle cfg pool req now)) now,
          map_option (\<lambda>m. (pad_reply (the (encode m)),
            socket_addr (reply_destination req (message_type m = Some Nak))))
            (snd (handle cfg pool req now))))"
proof -
  obtain r where r: "decode buf = Some r" using decode_total by blast
  show ?thesis
  proof (cases r)
    case (Inr req)
    obtain pool' rep where h: "handle cfg pool req now = (pool', rep)" by (cases "handle cfg pool req now")
    show ?thesis
      using r Inr h encode_total by (cases rep) (auto simp: serve_datagram_def Let_def encode_eq)
  qed (simp add: serve_datagram_def r)
qed

lemma serve_step_inv: "pool_inv pool \<Longrightarrow> pool_inv (serve_step cfg pool d)"
  by (simp add: serve_step_def serve_datagram_eq handle_inv split: sum.splits)

interpretation server_machine: state_machine "serve_step cfg" pool_inv for cfg
  by unfold_locales (rule serve_step_inv)

lemma message_type_reply [simp]:
  "message_type (reply cfg req yi (MessageTypeOpt t # opts)) = Some t"
  by (simp add: reply_def message_type_def)

lemma reply_fields [simp]:
  "yiaddr (reply cfg req yi opts) = yi" "xid (reply cfg req yi opts) = xid req"
  "chaddr (reply cfg req yi opts) = chaddr req" "op (reply cfg req yi opts) = BootReply"
  by (simp_all add: reply_def)

lemma server_id_reply [simp]:
  "server_identifier (reply cfg req yi (MessageTypeOpt t # ServerIdentifier ip # opts)) = Some ip"
  by (simp add: reply_def server_identifier_def)

text \<open>A configuration whose options all fit: at most 63 resolvers and a domain of 255 bytes.\<close>

definition config_ok :: "ServerConfig \<Rightarrow> bool" where
  "config_ok cfg \<longleftrightarrow> length (dns_servers cfg) \<le> 63 \<and>
     (case domain cfg of None \<Rightarrow> True | Some d \<Rightarrow> utf8_valid d \<and> length d \<le> 255)"

lemma config_options_ok: "config_ok cfg \<Longrightarrow> list_all option_ok (config_options cfg)"
  by (auto simp: config_options_def config_ok_def option_ok_def option_list_def split: option.splits)

lemma handle_reply_ok:
  assumes "config_ok cfg" and "handle cfg pool req now = (pool', Some m)"
  shows "list_all option_ok (options m)"
proof -
  have "list_all option_ok (options (handle_inform cfg req))"
    using assms(1) by (auto simp: handle_inform_def reply_def config_ok_def option_ok_def
        option_list_def split: option.splits)
  then show ?thesis
    using assms(2) config_options_ok [OF assms(1)]
    by (auto simp: handle_def handle_request_def handle_discover_def reply_def nak_def option_ok_def
        Let_def bind_eq_Some_conv split: option.splits MessageType.splits sum.splits if_splits)
qed


section \<open>Properties\<close>

definition sample_cfg :: ServerConfig where
  "sample_cfg = \<lparr>server_ip = 0xC0A80101, subnet_mask = 0xFFFFFF00, gateway = Some 0xC0A80101,
     dns_servers = [0xC0A80101], domain = None, lease_secs = 3600\<rparr>"

definition sample_req :: "MessageType \<Rightarrow> mac \<Rightarrow> Ipv4Addr \<Rightarrow> DhcpMessage" where
  "sample_req t m ip = \<lparr>op = BootRequest, xid = 7, secs = 0, flags = 0, ciaddr = UNSPECIFIED,
     yiaddr = UNSPECIFIED, siaddr = UNSPECIFIED, giaddr = UNSPECIFIED, chaddr = m,
     options = [MessageTypeOpt t, RequestedIp ip]\<rparr>"

lemmas sample_simps = sample_req_def sample_cfg_def message_type_def requested_ip_def
  server_identifier_def hostname_def

text \<open>
  C9. A REQUEST meant for this server is always answered. It is acknowledged exactly when the
  address asked for (option 50, else the client's own address) is specified, in the pool or
  reserved for the client, and available to it; the reply then carries that address and the
  pool records the client there for the lease time. Otherwise the client is told to start
  over and the pool does not change.
\<close>

theorem request_decision:
  assumes "op req = BootRequest" and "message_type req = Some Request"
    and "server_identifier req = None \<or> server_identifier req = Some (server_ip cfg)"
    and "wanted = (case requested_ip req of Some ip \<Rightarrow> ip | None \<Rightarrow> ciaddr req)"
    and "grant \<longleftrightarrow> wanted \<noteq> UNSPECIFIED \<and> available_for pool wanted (chaddr req) now \<and>
      (fmlookup (reservations pool) (chaddr req) = Some wanted \<or> in_range pool wanted)"
  shows "\<exists>pool' m. handle cfg pool req now = (pool', Some m) \<and>
    xid m = xid req \<and> chaddr m = chaddr req \<and> op m = BootReply \<and>
    (if grant
     then message_type m = Some Ack \<and> yiaddr m = wanted \<and>
       fmlookup (by_ip pool') wanted = Some \<lparr>lease_ip = wanted, lease_mac = chaddr req,
         lease_hostname = hostname req, expires_at = saturating_add now (ucast (lease_secs cfg))\<rparr>
     else message_type m = Some Nak \<and> yiaddr m = UNSPECIFIED \<and> pool' = pool)"
proof -
  let ?c = "commit pool (chaddr req) wanted (hostname req) now (ucast (lease_secs cfg))"
  have h: "handle cfg pool req now = (if wanted = UNSPECIFIED then (pool, Some (nak cfg req))
      else case ?c of
        Inr (lease, pool') \<Rightarrow> (pool', Some (reply cfg req (lease_ip lease)
          ([MessageTypeOpt Ack, ServerIdentifier (server_ip cfg)] @ config_options cfg)))
      | Inl _ \<Rightarrow> (pool, Some (nak cfg req)))"
    using assms(1-4) by (auto simp: handle_def handle_request_def split: option.splits)
  show ?thesis
  proof (cases "grant")
    case True
    with assms(5) have "\<exists>r. ?c = Inr r" by (auto simp: commit_def Let_def)
    then obtain l pool' where c: "?c = Inr (l, pool')" by auto
    with True assms(5) commit_Inr(3,4) [OF c] show ?thesis by (simp add: h)
  next
    case False
    have "wanted = UNSPECIFIED \<or> (\<exists>e. ?c = Inl e)"
    proof (cases ?c)
      case (Inr r)
      then have "?c = Inr (fst r, snd r)" by simp
      from commit_Inr(1,2) [OF this] assms(5) False show ?thesis by blast
    qed simp
    with False show ?thesis by (auto simp: h nak_def)
  qed
qed

theorem request_decision_witness:
  "\<exists>pool' m. handle sample_cfg pool_abc (sample_req Request mac_b 0xC0A80165) 100 = (pool', Some m) \<and>
     message_type m = Some Ack \<and> yiaddr m = 0xC0A80165"
proof -
  let ?req = "sample_req Request mac_b 0xC0A80165"
  have "op ?req = BootRequest" "message_type ?req = Some Request"
      "server_identifier ?req = None \<or> server_identifier ?req = Some (server_ip sample_cfg)"
      "0xC0A80165 = (case requested_ip ?req of Some ip \<Rightarrow> ip | None \<Rightarrow> ciaddr ?req)"
    by (simp_all add: sample_simps)
  moreover have "True \<longleftrightarrow> (0xC0A80165 :: u32) \<noteq> UNSPECIFIED \<and> available_for pool_abc 0xC0A80165 (chaddr ?req) 100 \<and>
      (fmlookup (reservations pool_abc) (chaddr ?req) = Some 0xC0A80165 \<or> in_range pool_abc 0xC0A80165)"
    by (simp add: sample_simps UNSPECIFIED_def pool_simps)
  ultimately show ?thesis
    using request_decision [of ?req sample_cfg "0xC0A80165" True pool_abc 100] by auto
qed

text \<open>
  A declined address is off limits for half an hour: until then no client can commit it,
  and a client with neither a reservation nor an active lease is not offered it.
\<close>

theorem declined_address_held:
  assumes "op req = BootRequest" and "message_type req = Some Decline" and "requested_ip req = Some ip"
    and "handle cfg pool req now = (pool', rep)" and "now' < saturating_add now DECLINE_HOLD_SECS"
  shows "rep = None \<and> (\<exists>err. commit pool' mac ip host now' n = Inl err) \<and>
    (fmlookup (reservations pool') mac = None \<and> lookup_by_mac pool' mac now' = None \<longrightarrow>
      offer pool' mac requested now' \<noteq> Some ip)"
proof -
  have p': "pool' = release (hold pool ip (saturating_add now DECLINE_HOLD_SECS)) (chaddr req)" "rep = None"
    using assms(1-4) by (auto simp: handle_def)
  then have "fmlookup (held pool') ip = Some (saturating_add now DECLINE_HOLD_SECS)"
    by (simp add: release_def hold_def split: option.splits)
  then have unavail: "\<not> available_for pool' ip m now'" for m
    using assms(5) by (auto simp: available_for_iff)
  then have "\<exists>err. commit pool' mac ip host now' n = Inl err" by (simp add: commit_def Let_def)
  moreover have "offer pool' mac requested now' \<noteq> Some ip"
    if "fmlookup (reservations pool') mac = None" "lookup_by_mac pool' mac now' = None"
    using that unavail [of mac] by (auto simp: lookup_by_mac_def elim!: offer_cases)
  ultimately show ?thesis using p'(2) by blast
qed

theorem declined_address_held_witness:
  "\<exists>pool' rep err. handle sample_cfg pool_abc (sample_req Decline mac_b 0xC0A80165) 100 = (pool', rep) \<and>
     commit pool' mac_b 0xC0A80165 None 1899 60 = Inl err"
proof -
  obtain pool' rep where h: "handle sample_cfg pool_abc (sample_req Decline mac_b 0xC0A80165) 100 = (pool', rep)"
    by (cases "handle sample_cfg pool_abc (sample_req Decline mac_b 0xC0A80165) 100")
  have "(1899 :: u64) < saturating_add 100 DECLINE_HOLD_SECS"
    by (simp add: saturating_add_def DECLINE_HOLD_SECS_def)
  with h declined_address_held [OF _ _ _ h] show ?thesis by (simp add: sample_simps)
qed

text \<open>
  C28. The server loop never panics on a datagram, and over any sequence of datagrams, at
  whatever times, no client ever holds two leases.
\<close>

theorem server_safe:
  assumes "pool_inv pool"
  shows "serve_datagram cfg pool buf now \<noteq> None \<and> pool_inv (foldl (serve_step cfg) pool datagrams)"
  using server_machine.run_inv [OF assms] by (simp add: serve_datagram_eq)

theorem server_safe_witness:
  "pool_inv (foldl (serve_step sample_cfg) (pool_new 1 9) [([1, 2, 3], 5), ([], 6)])"
  using server_safe [OF pool_new_inv, of sample_cfg 1 9 "[]" 0] by blast

text \<open>
  C12. What the server puts on the wire is what it decided: the padded datagram has at least
  300 bytes and decodes to the reply of the handler, provided the configured options fit.
\<close>

theorem reply_on_the_wire:
  assumes "config_ok cfg" and "decode buf = Some (Inr req)" and "handle cfg pool req now = (pool', Some m)"
  shows "\<exists>out dest events. serve_datagram cfg pool buf now = Some (pool', events, Some (out, dest)) \<and>
    MIN_REPLY_LEN \<le> length out \<and> decode out = Some (Inr m) \<and>
    dest = socket_addr (reply_destination req (message_type m = Some Nak))"
proof -
  obtain raw where raw: "encode m = Some raw" using encode_total by blast
  have "\<exists>padding. pad_reply raw = raw @ padding" by (simp add: pad_reply_def)
  then have "decode (pad_reply raw) = Some (Inr m)"
    using message_round_trip [OF handle_reply_ok [OF assms(1,3)] raw] by auto
  moreover have "MIN_REPLY_LEN \<le> length (pad_reply raw)" by (simp add: pad_reply_def)
  ultimately show ?thesis using assms(2,3) raw by (simp add: serve_datagram_eq)
qed

theorem reply_on_the_wire_witness:
  "\<exists>buf pool' m out dest events. encode (sample_req Inform mac_b 0xC0A80165) = Some buf \<and>
     serve_datagram sample_cfg pool_abc buf 100 = Some (pool', events, Some (out, dest)) \<and>
     decode out = Some (Inr m) \<and> message_type m = Some Ack"
proof -
  let ?req = "sample_req Inform mac_b 0xC0A80165"
  obtain buf where buf: "encode ?req = Some buf" using encode_total by blast
  have "list_all option_ok (options ?req)" by (simp add: sample_req_def option_ok_def)
  from message_round_trip [OF this buf, of "[]"] have d: "decode buf = Some (Inr ?req)" by simp
  have c: "config_ok sample_cfg" by (simp add: config_ok_def sample_cfg_def)
  have h: "handle sample_cfg pool_abc ?req 100 = (pool_abc, Some (handle_inform sample_cfg ?req))"
    by (simp add: handle_def message_type_def) (simp add: sample_req_def)
  have "message_type (handle_inform sample_cfg ?req) = Some Ack" by (simp add: handle_inform_def)
  with buf reply_on_the_wire [OF c d h] show ?thesis by blast
qed

text \<open>
  A commit event is published exactly for what the pool recorded: the lease of the
  client at the address, with its host name and expiry.
\<close>

theorem committed_event_in_pool:
  assumes "handle cfg pool req now = (pool', rep)"
    and "Committed mac ip host e \<in> set (lease_events cfg req rep now)"
  shows "fmlookup (by_ip pool') ip =
    Some \<lparr>lease_ip = ip, lease_mac = mac, lease_hostname = host, expires_at = e\<rparr>"
proof -
  from assms(2) obtain m where m: "rep = Some m" "message_type m = Some Ack" "yiaddr m \<noteq> UNSPECIFIED"
      "mac = chaddr req" "ip = yiaddr m" "host = hostname req"
      "e = saturating_add now (ucast (lease_secs cfg))"
    by (auto simp: lease_events_def split: if_splits option.splits)
  from assms(1) m(1-3) have "handle_request cfg pool req now = (pool', Some m)"
    by (auto simp: handle_def handle_inform_def handle_discover_def bind_eq_Some_conv Let_def
        split: if_splits option.splits MessageType.splits)
  then obtain l wanted where "commit pool (chaddr req) wanted (hostname req) now (ucast (lease_secs cfg)) = Inr (l, pool')"
      "yiaddr m = lease_ip l"
    using m(2) by (auto simp: handle_request_def nak_def Let_def split: if_splits sum.splits)
  with commit_Inr(3,4) [OF this(1)] m(4-7) show ?thesis by simp
qed

theorem committed_event_in_pool_witness:
  "\<exists>pool' rep. handle sample_cfg pool_abc (sample_req Request mac_b 0xC0A80165) 100 = (pool', rep) \<and>
     fmlookup (by_ip pool') 0xC0A80165 = Some \<lparr>lease_ip = 0xC0A80165, lease_mac = mac_b,
       lease_hostname = None, expires_at = 3700\<rparr>"
proof -
  let ?req = "sample_req Request mac_b 0xC0A80165"
  obtain pool' rep where h: "handle sample_cfg pool_abc ?req 100 = (pool', rep)"
    by (cases "handle sample_cfg pool_abc ?req 100")
  have "message_type ?req = Some Request" by (simp add: sample_simps)
  with h have "Committed mac_b 0xC0A80165 None 3700 \<in> set (lease_events sample_cfg ?req rep 100)"
    by (auto simp: handle_def handle_request_def lease_events_def UNSPECIFIED_def pool_simps
        sample_req_def requested_ip_def hostname_def server_identifier_def)
      (simp_all add: sample_cfg_def)
  with h committed_event_in_pool [OF h] show ?thesis by blast
qed

text \<open>
  A RELEASE publishes the address in the client's \<open>ciaddr\<close> field as released, without looking
  at whose lease it is: here B names A's address, the pool keeps A's lease, and the event
  makes the host drop the persisted lease of A.
\<close>

theorem released_event_of_other_client:
  "let req = (sample_req Release mac_b 0xC0A80164)\<lparr>ciaddr := 0xC0A80164\<rparr>;
     r = handle sample_cfg pool_abc req 100
   in lease_events sample_cfg req (snd r) 100 = [Released 0xC0A80164] \<and>
      holder (fst r) 0xC0A80164 100 = Some mac_a"
  by (simp add: handle_def lease_events_def release_def holder_def UNSPECIFIED_def sample_simps pool_simps)

end
