(* ===== verification/Names.thy ===== *)
theory Names
  imports Rust_Str
begin

text \<open>
  Domain-name helpers of \<open>crates/blocklist/src/names.rs\<close> and the manual allow and block
  entries of \<open>crates/blocklist/src/manual.rs\<close>.

  Two third-party crates are parameters. \<open>psl\<close> is the public-suffix list: the suffix of a
  name, if it has one. \<open>rx\<close> is the regular-expression engine: the two constructors the code
  calls, the escaping function and the matcher. A \<open>HashSet\<close> is a set.
\<close>

section \<open>Parameters\<close>

type_synonym psl = "string \<Rightarrow> string option"

record 'r regex_lib =
  rx_new :: "string \<Rightarrow> 'r option"
  rx_build :: "string \<Rightarrow> 'r option"
  rx_escape :: "string \<Rightarrow> string"
  rx_is_match :: "'r \<Rightarrow> string \<Rightarrow> bool"

section \<open>Names\<close>

definition is_registrable_or_deeper :: "psl \<Rightarrow> string \<Rightarrow> bool" where
  "is_registrable_or_deeper psl name =
     (case psl name of Some sfx \<Rightarrow> length name > length sfx | None \<Rightarrow> True)"

function matched_walk :: "psl \<Rightarrow> (string \<Rightarrow> bool) \<Rightarrow> string \<Rightarrow> string option" where
  "matched_walk psl contains rest =
     (case split_once (CHR ''.'') rest of
        None \<Rightarrow> None
      | Some (_, rest') \<Rightarrow>
          if contains rest' \<and> is_registrable_or_deeper psl rest' then Some rest'
          else matched_walk psl contains rest')"
  by pat_completeness auto
termination
  by (relation "measure (\<lambda>(_, _, rest). length rest)") (auto simp: split_once_Some)

definition matched_key :: "psl \<Rightarrow> string \<Rightarrow> (string \<Rightarrow> bool) \<Rightarrow> string option" where
  "matched_key psl domain contains =
     (if contains domain then Some domain else matched_walk psl contains domain)"

function domain_walk :: "psl \<Rightarrow> string set \<Rightarrow> string \<Rightarrow> bool" where
  "domain_walk psl s rest =
     (case split_once (CHR ''.'') rest of
        None \<Rightarrow> False
      | Some (_, rest') \<Rightarrow>
          if rest' \<in> s \<and> is_registrable_or_deeper psl rest' then True
          else domain_walk psl s rest')"
  by pat_completeness auto
termination
  by (relation "measure (\<lambda>(_, _, rest). length rest)") (auto simp: split_once_Some)

declare matched_walk.simps [simp del] domain_walk.simps [simp del]

definition domain_in_set :: "psl \<Rightarrow> string \<Rightarrow> string set \<Rightarrow> bool" where
  "domain_in_set psl domain s \<longleftrightarrow> (if domain \<in> s then True else domain_walk psl s domain)"

definition regex_body :: "string \<Rightarrow> string option" where
  "regex_body entry =
     (let e = trim entry in
      if length e > 2 \<and> starts_with e ''/'' \<and> ends_with e ''/''
      then Some (take (length e - 2) (drop 1 e)) else None)"

definition normalise :: "string \<Rightarrow> string" where
  "normalise domain =
     (if regex_body domain \<noteq> None then trim domain
      else trim_end_char (\<lambda>c. c = CHR ''.'') (lowercase domain))"

definition normalise_domain :: "string \<Rightarrow> string" where
  "normalise_domain domain = normalise domain"

definition is_pattern :: "string \<Rightarrow> bool" where
  "is_pattern entry \<longleftrightarrow> CHR ''*'' \<in> set entry \<or> regex_body entry \<noteq> None"

definition has_suffix :: "string \<Rightarrow> string \<Rightarrow> bool" where
  "has_suffix name sfx \<longleftrightarrow> name = sfx \<or>
     (length name > length sfx \<and> ends_with name sfx \<and>
      name ! (length name - length sfx - 1) = CHR ''.'')"

section \<open>Patterns\<close>

datatype PatternError = InvalidRegex string | MatchesEverything string | InvalidWildcard string

definition UNRELATED_NAMES :: "string list" where
  "UNRELATED_NAMES = [''example.com'', ''a.b.c.d.example.org'', ''zz9-ferrite-probe.invalid'', ''x.y'']"

text \<open>\<open>str::replace\<close> of the two characters \<open>\*\<close> by \<open>.*\<close>.\<close>

fun replace_star :: "string \<Rightarrow> string" where
  "replace_star (a # b # cs) =
     (if a = CHR 0x5C \<and> b = CHR ''*'' then CHR ''.'' # CHR ''*'' # replace_star cs
      else a # replace_star (b # cs))"
| "replace_star cs = cs"

definition wildcard_to_regex :: "'r regex_lib \<Rightarrow> string \<Rightarrow> PatternError + 'r" where
  "wildcard_to_regex rx pattern =
     (if pattern = ''*'' \<or> trim_end_char (\<lambda>c. c = CHR ''*'') (trim_start_char (\<lambda>c. c = CHR ''*'') pattern) = []
      then Inl (MatchesEverything pattern)
      else case rx_new rx (''^'' @ replace_star (rx_escape rx pattern) @ ''$'') of
        None \<Rightarrow> Inl (InvalidWildcard pattern)
      | Some re \<Rightarrow> Inr re)"

definition pattern_to_regex :: "'r regex_lib \<Rightarrow> string \<Rightarrow> PatternError + 'r" where
  "pattern_to_regex rx entry =
     (case regex_body entry of
        None \<Rightarrow> wildcard_to_regex rx entry
      | Some body \<Rightarrow>
          (case rx_build rx body of
             None \<Rightarrow> Inl (InvalidRegex entry)
           | Some re \<Rightarrow>
               if rx_is_match rx re [] \<or> list_all (rx_is_match rx re) UNRELATED_NAMES
               then Inl (MatchesEverything entry) else Inr re))"

definition validate_entry :: "'r regex_lib \<Rightarrow> string \<Rightarrow> PatternError + unit" where
  "validate_entry rx entry =
     (let norm = normalise entry in
      if is_pattern norm then (case pattern_to_regex rx norm of Inl e \<Rightarrow> Inl e | Inr _ \<Rightarrow> Inr ())
      else Inr ())"

section \<open>Manual entries\<close>

record 'r ManualList =
  exact :: "string set"
  wildcards :: "(string \<times> 'r) list"

definition from_entry :: "'r regex_lib \<Rightarrow> string \<Rightarrow> 'r ManualList \<Rightarrow> 'r ManualList" where
  "from_entry rx entry ml =
     (let norm = normalise entry in
      if is_pattern norm then
        (case pattern_to_regex rx norm of
           Inr re \<Rightarrow> ml\<lparr>wildcards := wildcards ml @ [(norm, re)]\<rparr>
         | Inl _ \<Rightarrow> ml)
      else ml\<lparr>exact := insert norm (exact ml)\<rparr>)"

definition from_entries :: "'r regex_lib \<Rightarrow> string list \<Rightarrow> 'r ManualList" where
  "from_entries rx entries = fold (from_entry rx) entries \<lparr>exact = {}, wildcards = []\<rparr>"

definition ml_contains :: "psl \<Rightarrow> 'r regex_lib \<Rightarrow> 'r ManualList \<Rightarrow> string \<Rightarrow> bool" where
  "ml_contains psl rx ml domain \<longleftrightarrow> domain_in_set psl domain (exact ml) \<or>
     list_ex (\<lambda>(_, re). rx_is_match rx re domain) (wildcards ml)"

definition exact_match :: "psl \<Rightarrow> 'r ManualList \<Rightarrow> string \<Rightarrow> string option" where
  "exact_match psl ml domain = matched_key psl domain (\<lambda>k. k \<in> exact ml)"

definition matching_patterns :: "'r regex_lib \<Rightarrow> 'r ManualList \<Rightarrow> string \<Rightarrow> string list" where
  "matching_patterns rx ml domain =
     map fst (filter (\<lambda>(_, re). rx_is_match rx re domain) (wildcards ml))"

definition ml_add :: "'r regex_lib \<Rightarrow> 'r ManualList \<Rightarrow> string \<Rightarrow> PatternError + 'r ManualList" where
  "ml_add rx ml domain =
     (let d = normalise domain in
      if is_pattern d then
        (case pattern_to_regex rx d of
           Inl e \<Rightarrow> Inl e
         | Inr re \<Rightarrow>
             Inr (if \<not> list_ex (\<lambda>(p, _). p = d) (wildcards ml)
                  then ml\<lparr>wildcards := wildcards ml @ [(d, re)]\<rparr> else ml))
      else Inr (ml\<lparr>exact := insert d (exact ml)\<rparr>))"

definition ml_remove :: "'r ManualList \<Rightarrow> string \<Rightarrow> 'r ManualList" where
  "ml_remove ml domain =
     (let d = normalise domain in
      if is_pattern d then ml\<lparr>wildcards := filter (\<lambda>(pat, _). pat \<noteq> d) (wildcards ml)\<rparr>
      else ml\<lparr>exact := exact ml - {d}\<rparr>)"

text \<open>\<open>order\<close> is the order in which the iteration over the exact entries visits them.\<close>

definition ml_entries :: "string list \<Rightarrow> 'r ManualList \<Rightarrow> string list" where
  "ml_entries order ml = order @ map fst (wildcards ml)"

section \<open>Facts about the hierarchy walk\<close>

lemma domain_walk_matched: "domain_walk psl s rest \<longleftrightarrow> matched_walk psl (\<lambda>k. k \<in> s) rest \<noteq> None"
proof (induction psl s rest rule: domain_walk.induct)
  case (1 psl s rest)
  then show ?case
    by (simp add: domain_walk.simps [of psl s rest] matched_walk.simps [of psl _ rest] split: option.splits prod.splits)
qed

text \<open>The suffixes of a name at its label boundaries, the name itself apart.\<close>

definition parent :: "string \<Rightarrow> string \<Rightarrow> bool" where
  "parent name p \<longleftrightarrow> (\<exists>q. name = q @ CHR ''.'' # p)"

lemma parent_step: "split_once (CHR ''.'') name = Some (a, b) \<Longrightarrow> parent name p \<longleftrightarrow> p = b \<or> parent b p"
proof -
  assume "split_once (CHR ''.'') name = Some (a, b)"
  then have name: "name = a @ CHR ''.'' # b" and a: "CHR ''.'' \<notin> set a" by (simp_all add: split_once_Some)
  show ?thesis
  proof
    assume "parent name p"
    then obtain q where "a @ CHR ''.'' # b = q @ CHR ''.'' # p" by (auto simp: parent_def name)
    then obtain us where "a = q @ us \<and> us @ CHR ''.'' # b = CHR ''.'' # p \<or>
        a @ us = q \<and> CHR ''.'' # b = us @ CHR ''.'' # p"
      unfolding append_eq_append_conv2 by blast
    then show "p = b \<or> parent b p" using a by (cases us) (auto simp: parent_def)
  next
    assume "p = b \<or> parent b p"
    then show "parent name p"
    proof
      assume "parent b p"
      then obtain q where "b = q @ CHR ''.'' # p" by (auto simp: parent_def)
      then have "name = (a @ CHR ''.'' # q) @ CHR ''.'' # p" by (simp add: name)
      then show ?thesis unfolding parent_def by blast
    qed (auto simp: parent_def name)
  qed
qed

lemma parent_length: "parent name p \<Longrightarrow> length p < length name"
  by (auto simp: parent_def)

lemma no_parent: "split_once (CHR ''.'') name = None \<Longrightarrow> \<not> parent name p"
  by (auto simp: parent_def split_once_None)

lemma matched_walk_None:
  "matched_walk psl contains rest = None \<longleftrightarrow>
     (\<forall>p. parent rest p \<longrightarrow> \<not> (contains p \<and> is_registrable_or_deeper psl p))"
proof (induction psl contains rest rule: matched_walk.induct)
  case (1 psl contains rest)
  note m = matched_walk.simps [of psl contains rest]
  show ?case
  proof (cases "split_once (CHR ''.'') rest")
    case None
    then show ?thesis by (simp add: m no_parent)
  next
    case (Some ab)
    then obtain a b where ab: "split_once (CHR ''.'') rest = Some (a, b)" by (cases ab) auto
    show ?thesis
    proof (cases "contains b \<and> is_registrable_or_deeper psl b")
      case True
      then show ?thesis using parent_step [OF ab] by (auto simp: m ab)
    next
      case False
      then show ?thesis using "1.IH" [OF ab refl False] parent_step [OF ab] by (auto simp: m ab)
    qed
  qed
qed

lemma matched_walk_Some:
  "matched_walk psl contains rest = Some p \<Longrightarrow>
     parent rest p \<and> contains p \<and> is_registrable_or_deeper psl p \<and>
     (\<forall>p'. parent rest p' \<and> length p < length p' \<longrightarrow> \<not> (contains p' \<and> is_registrable_or_deeper psl p'))"
proof (induction psl contains rest rule: matched_walk.induct)
  case (1 psl contains rest)
  then obtain a b where ab: "split_once (CHR ''.'') rest = Some (a, b)"
    by (cases "split_once (CHR ''.'') rest") (auto simp: matched_walk.simps [of psl contains rest])
  note m = matched_walk.simps [of psl contains rest]
  show ?case
  proof (cases "contains b \<and> is_registrable_or_deeper psl b")
    case True
    with "1.prems" have p: "p = b" by (simp add: m ab)
    moreover have "\<not> length b < length p'" if "parent rest p'" for p'
      using that parent_step [OF ab] parent_length [of b p'] by auto
    moreover have "parent rest b" using parent_step [OF ab] by simp
    ultimately show ?thesis unfolding p using True by blast
  next
    case False
    with "1.prems" have "matched_walk psl contains b = Some p" by (simp add: m ab)
    from "1.IH" [OF ab refl False this] False show ?thesis by (auto simp: parent_step [OF ab])
  qed
qed

lemma has_suffix_parent: "has_suffix name p \<longleftrightarrow> name = p \<or> parent name p"
proof -
  have "parent name p \<longleftrightarrow> length name > length p \<and> suffix p name \<and> name ! (length name - length p - 1) = CHR ''.''"
  proof
    assume "length name > length p \<and> suffix p name \<and> name ! (length name - length p - 1) = CHR ''.''"
    then obtain q where q: "name = q @ p" "q \<noteq> []" "q ! (length q - 1) = CHR ''.''"
      by (auto simp: suffix_def nth_append split: if_splits)
    then have "last q = CHR ''.''" by (simp add: last_conv_nth)
    with q(2) have "q = butlast q @ [CHR ''.'']" by (metis append_butlast_last_id)
    with q(1) show "parent name p" unfolding parent_def by (metis append.assoc append_Cons append_Nil)
  qed (auto simp: parent_def suffix_def nth_append)
  then show ?thesis by (auto simp: has_suffix_def ends_with_suffix)
qed


lemma domain_walk_iff:
  "domain_walk psl s domain \<longleftrightarrow> (\<exists>p \<in> s. parent domain p \<and> is_registrable_or_deeper psl p)"
  unfolding domain_walk_matched matched_walk_None by auto

lemma domain_in_set_iff:
  "domain_in_set psl domain s \<longleftrightarrow> domain \<in> s \<or>
     (\<exists>p \<in> s. p \<noteq> domain \<and> has_suffix domain p \<and> is_registrable_or_deeper psl p)"
proof -
  have "parent domain p \<Longrightarrow> p \<noteq> domain" for p using parent_length [of domain p] by auto
  then show ?thesis by (auto simp: domain_in_set_def domain_walk_iff has_suffix_parent)
qed

lemma domain_in_set_mono: "domain_in_set psl domain s \<Longrightarrow> s \<subseteq> s' \<Longrightarrow> domain_in_set psl domain s'"
  by (auto simp: domain_in_set_iff)

lemma matched_key_domain_in_set: "matched_key psl domain (\<lambda>k. k \<in> s) \<noteq> None \<longleftrightarrow> domain_in_set psl domain s"
  by (simp add: domain_in_set_def matched_key_def domain_walk_matched)

section \<open>Properties\<close>

text \<open>
  The hierarchy walk behind the allow and block entries covers exactly the name itself
  and its parents at label boundaries that extend beyond a public suffix: an entry for a
  public suffix never covers the names below it, and no entry covers half a label. The set
  lookup and the variant that reports the matching key agree, and the key reported is the
  most specific one.
\<close>

theorem domain_in_set_spec:
  "(domain_in_set psl domain s \<longleftrightarrow> domain \<in> s \<or>
      (\<exists>p \<in> s. p \<noteq> domain \<and> has_suffix domain p \<and> is_registrable_or_deeper psl p)) \<and>
   (domain_in_set psl domain s \<longleftrightarrow> matched_key psl domain (\<lambda>k. k \<in> s) \<noteq> None) \<and>
   (case matched_key psl domain (\<lambda>k. k \<in> s) of
      None \<Rightarrow> True
    | Some k \<Rightarrow> k \<in> s \<and> has_suffix domain k \<and>
        (\<forall>p \<in> s. has_suffix domain p \<and> (p = domain \<or> is_registrable_or_deeper psl p) \<longrightarrow> length p \<le> length k))"
proof (intro conjI)
  show "domain_in_set psl domain s \<longleftrightarrow> domain \<in> s \<or>
      (\<exists>p \<in> s. p \<noteq> domain \<and> has_suffix domain p \<and> is_registrable_or_deeper psl p)"
    by (rule domain_in_set_iff)
  show "domain_in_set psl domain s \<longleftrightarrow> matched_key psl domain (\<lambda>k. k \<in> s) \<noteq> None"
    by (simp only: matched_key_domain_in_set)
  show "case matched_key psl domain (\<lambda>k. k \<in> s) of None \<Rightarrow> True
    | Some k \<Rightarrow> k \<in> s \<and> has_suffix domain k \<and>
        (\<forall>p \<in> s. has_suffix domain p \<and> (p = domain \<or> is_registrable_or_deeper psl p) \<longrightarrow> length p \<le> length k)"
  proof (cases "domain \<in> s")
    case True
    then show ?thesis
      using parent_length [of domain] by (fastforce simp: matched_key_def has_suffix_parent)
  next
    case False
    show ?thesis
    proof (cases "matched_walk psl (\<lambda>k. k \<in> s) domain")
      case (Some k)
      from matched_walk_Some [OF this] False show ?thesis
        by (auto simp: matched_key_def Some has_suffix_parent not_less [symmetric])
    qed (use False in \<open>simp add: matched_key_def\<close>)
  qed
qed

definition sample_psl :: psl where
  "sample_psl name = (if has_suffix name ''co.uk'' then Some ''co.uk''
     else if has_suffix name ''com'' then Some ''com'' else None)"

theorem domain_in_set_spec_witness:
  "matched_key sample_psl ''www.evil.co.uk'' (\<lambda>k. k \<in> {''evil.co.uk'', ''co.uk''}) = Some ''evil.co.uk'' \<and>
   domain_in_set sample_psl ''www.evil.co.uk'' {''evil.co.uk'', ''co.uk''}"
proof -
  have "matched_key sample_psl ''www.evil.co.uk'' (\<lambda>k. k \<in> {''evil.co.uk'', ''co.uk''}) = Some ''evil.co.uk''"
    by code_simp
  with domain_in_set_spec [of sample_psl "''www.evil.co.uk''" "{''evil.co.uk'', ''co.uk''}"] show ?thesis
    by (metis option.distinct(1))
qed

text \<open>
  A plain manual entry takes effect for its name and, unless it is a public suffix, for
  every name below it, and takes nothing away from what the list covered; removing it again
  leaves exactly the other plain entries.
\<close>

theorem manual_add_remove:
  assumes "d = normalise entry" and "\<not> is_pattern d"
  shows "\<exists>ml'. ml_add rx ml entry = Inr ml' \<and>
    (\<forall>sub. ml_contains psl rx ml' sub \<longleftrightarrow> ml_contains psl rx ml sub \<or> sub = d \<or>
      (has_suffix sub d \<and> is_registrable_or_deeper psl d)) \<and>
    exact (ml_remove ml' entry) = exact ml - {d} \<and> wildcards (ml_remove ml' entry) = wildcards ml"
proof -
  let ?ml' = "ml\<lparr>exact := insert d (exact ml)\<rparr>"
  have "ml_add rx ml entry = Inr ?ml'" using assms by (simp add: ml_add_def Let_def)
  moreover have "ml_contains psl rx ?ml' sub \<longleftrightarrow> ml_contains psl rx ml sub \<or> sub = d \<or>
      (has_suffix sub d \<and> is_registrable_or_deeper psl d)" for sub
    by (auto simp: ml_contains_def domain_in_set_iff)
  moreover have "exact (ml_remove ?ml' entry) = exact ml - {d}" "wildcards (ml_remove ?ml' entry) = wildcards ml"
    using assms by (simp_all add: ml_remove_def Let_def)
  ultimately show ?thesis by blast
qed

text \<open>An engine for the witnesses: a pattern is its own compiled form and matches literally.\<close>

definition literal_rx :: "string regex_lib" where
  "literal_rx = \<lparr>rx_new = Some, rx_build = Some, rx_escape = (\<lambda>s. s), rx_is_match = (\<lambda>r s. r = s)\<rparr>"

theorem manual_add_remove_witness:
  "\<exists>ml'. ml_add literal_rx \<lparr>exact = {}, wildcards = []\<rparr> ''Ads.Example.COM.'' = Inr ml' \<and>
     ml_contains sample_psl literal_rx ml' ''x.ads.example.com''"
proof -
  have n: "''ads.example.com'' = normalise ''Ads.Example.COM.''" "\<not> is_pattern ''ads.example.com''"
      "has_suffix ''x.ads.example.com'' ''ads.example.com''"
      "is_registrable_or_deeper sample_psl ''ads.example.com''" by code_simp+
  from manual_add_remove [OF n(1,2), of literal_rx "\<lparr>exact = {}, wildcards = []\<rparr>" sample_psl] n(3,4)
  show ?thesis by blast
qed

text \<open>
  The key an entry is stored under is not always a fixed point of the normalisation: the
  trailing dot hides a regular expression the first time, and the white space in front of
  it goes the second time.
\<close>

theorem normalise_not_idempotent: "normalise (normalise '' /a/.'') \<noteq> normalise '' /a/.''"
  by code_simp

lemma lowercase_trim_end: "lowercase (trim_end_char P (lowercase s)) = trim_end_char P (lowercase s)"
  unfolding trim_end_char_def lowercase_def
  by (intro map_idI) (auto dest!: set_dropWhileD)

text \<open>
  On plain names it is: a name as listed finds its own row again.
\<close>

lemma normalise_plain:
  assumes "regex_body s = None" and "regex_body (normalise s) = None"
  shows "normalise (normalise s) = normalise s \<and> lowercase (normalise s) = normalise s \<and>
    (normalise s = [] \<or> last (normalise s) \<noteq> CHR ''.'')"
proof -
  let ?P = "\<lambda>c. c = CHR ''.''"
  have n: "normalise s = trim_end_char ?P (lowercase s)" using assms(1) by (simp add: normalise_def)
  have "trim_end_char ?P (trim_end_char ?P t) = trim_end_char ?P t" for t
    by (simp add: trim_end_char_def)
  then show ?thesis
    using assms(2) trim_end_char_last [of ?P "lowercase s"]
    by (simp add: n lowercase_trim_end) (simp add: normalise_def n lowercase_trim_end)
qed

end
