(* ===== verification/Net.thy ===== *)
theory Net
  imports Rust_Str Dhcp_Message
begin

unbundle bit_operations_syntax

text \<open>
  Addresses and client keys of \<open>crates/core/src/net.rs\<close>: MAC addresses, IP addresses as text,
  the normal form of the keys that name a device, address ranges, and the readers of the
  kernel's routing table (the file's text is an argument). The parser and the printer of
  IP addresses are those of the standard library. An IPv4 address is a 32-bit word and an
  IPv6 address a 128-bit word. Transliteration of device names is left out: it rests on the
  Unicode case tables.
\<close>

section \<open>Numbers in a radix\<close>

definition hex_digits :: "(char \<times> nat) list" where
  "hex_digits = zip ''0123456789abcdefABCDEF'' [0, 1, 2, 3, 4, 5, 6, 7, 8, 9, 10, 11, 12, 13, 14, 15, 10, 11, 12, 13, 14, 15]"

definition radix_digit :: "nat \<Rightarrow> char \<Rightarrow> nat option" where
  "radix_digit radix c = (case map_of hex_digits c of
     None \<Rightarrow> None | Some d \<Rightarrow> if d < radix then Some d else None)"

fun radix_value :: "nat \<Rightarrow> nat \<Rightarrow> string \<Rightarrow> nat option" where
  "radix_value radix acc [] = Some acc"
| "radix_value radix acc (c # cs) = (case radix_digit radix c of
     None \<Rightarrow> None | Some d \<Rightarrow> radix_value radix (acc * radix + d) cs)"

text \<open>\<open>from_str_radix\<close> of an unsigned type with largest value \<open>m\<close>.\<close>

definition from_str_radix :: "nat \<Rightarrow> nat \<Rightarrow> string \<Rightarrow> nat option" where
  "from_str_radix m radix s =
     (let body = (case s of c # cs \<Rightarrow> if c = CHR ''+'' then cs else s | [] \<Rightarrow> []) in
      if body = [] then None
      else case radix_value radix 0 body of None \<Rightarrow> None | Some n \<Rightarrow> if n \<le> m then Some n else None)"

definition hex_char :: "nat \<Rightarrow> char" where
  "hex_char d = ''0123456789abcdef'' ! d"

section \<open>MAC addresses\<close>

fun sequence_options :: "'a option list \<Rightarrow> 'a list option" where
  "sequence_options [] = Some []"
| "sequence_options (x # xs) = (case x of None \<Rightarrow> None
     | Some y \<Rightarrow> map_option (\<lambda>ys. y # ys) (sequence_options xs))"

definition parse_mac :: "string \<Rightarrow> mac option" where
  "parse_mac s =
     (let parts = split_on (CHR '':'') (map (\<lambda>c. if c = CHR ''-'' then CHR '':'' else c) s) in
      if length parts \<noteq> 6 then None
      else case sequence_options (map (from_str_radix 255 16) parts) of
        Some [a, b, c, d, e, f] \<Rightarrow> Some (word_of_nat a, word_of_nat b, word_of_nat c,
          word_of_nat d, word_of_nat e, word_of_nat f)
      | _ \<Rightarrow> None)"

definition byte_hex :: "u8 \<Rightarrow> string" where
  "byte_hex b = [hex_char (unat b div 16), hex_char (unat b mod 16)]"

definition format_mac :: "mac \<Rightarrow> string" where
  "format_mac m = (case m of (a, b, c, d, e, f) \<Rightarrow>
     byte_hex a @ '':'' @ byte_hex b @ '':'' @ byte_hex c @ '':'' @ byte_hex d @ '':'' @ byte_hex e @ '':''
       @ byte_hex f)"

section \<open>IP addresses\<close>

type_synonym Ipv6Addr = "128 word"

datatype IpAddr = V4 Ipv4Addr | V6 Ipv6Addr

text \<open>The recursive-descent parser of the standard library: a value and the rest of the input.\<close>

fun take_digits :: "nat \<Rightarrow> string \<Rightarrow> string" where
  "take_digits radix [] = []"
| "take_digits radix (c # cs) = (if radix_digit radix c = None then [] else c # take_digits radix cs)"

definition read_number :: "nat \<Rightarrow> nat \<Rightarrow> bool \<Rightarrow> nat \<Rightarrow> string \<Rightarrow> (nat \<times> string) option" where
  "read_number radix max_digits allow_zero_prefix m s =
     (let ds = take_digits radix s; rest = drop (length ds) s in
      if ds = [] \<or> length ds > max_digits then None
      else if \<not> allow_zero_prefix \<and> hd ds = CHR ''0'' \<and> length ds > 1 then None
      else case radix_value radix 0 ds of
        None \<Rightarrow> None
      | Some n \<Rightarrow> if n \<le> m then Some (n, rest) else None)"

definition read_given_char :: "char \<Rightarrow> string \<Rightarrow> string option" where
  "read_given_char c s = (case s of x # xs \<Rightarrow> if x = c then Some xs else None | [] \<Rightarrow> None)"

definition read_separator :: "char \<Rightarrow> nat \<Rightarrow> (string \<Rightarrow> ('a \<times> string) option) \<Rightarrow> string \<Rightarrow> ('a \<times> string) option" where
  "read_separator sep i inner s =
     (if i > 0 then (case read_given_char sep s of None \<Rightarrow> None | Some r \<Rightarrow> inner r) else inner s)"

definition read_ipv4_addr :: "string \<Rightarrow> (Ipv4Addr \<times> string) option" where
  "read_ipv4_addr s = do {
     (a, s) \<leftarrow> read_separator (CHR ''.'') 0 (read_number 10 3 False 255) s;
     (b, s) \<leftarrow> read_separator (CHR ''.'') 1 (read_number 10 3 False 255) s;
     (c, s) \<leftarrow> read_separator (CHR ''.'') 2 (read_number 10 3 False 255) s;
     (d, s) \<leftarrow> read_separator (CHR ''.'') 3 (read_number 10 3 False 255) s;
     Some (be32 (word_of_nat a) (word_of_nat b) (word_of_nat c) (word_of_nat d), s)
   }"

text \<open>The groups read so far, whether they end in an embedded IPv4 address, and the rest.\<close>

function read_groups :: "nat \<Rightarrow> nat \<Rightarrow> nat list \<Rightarrow> string \<Rightarrow> nat list \<times> bool \<times> string" where
  "read_groups limit i acc s =
     (if i \<ge> limit then (acc, False, s)
      else case (if i < limit - 1 then read_separator (CHR '':'') i read_ipv4_addr s else None) of
        Some (v4, r) \<Rightarrow> (acc @ [unat v4 div 65536, unat v4 mod 65536], True, r)
      | None \<Rightarrow>
          (case read_separator (CHR '':'') i (read_number 16 4 True 65535) s of
             None \<Rightarrow> (acc, False, s)
           | Some (g, r) \<Rightarrow> read_groups limit (i + 1) (acc @ [g]) r))"
  by pat_completeness auto
termination
  by (relation "measure (\<lambda>(limit, i, acc, s). limit - i)") auto

declare read_groups.simps [simp del]

definition groups_value :: "nat list \<Rightarrow> nat" where
  "groups_value gs = fold (\<lambda>g acc. acc * 65536 + g) gs 0"

definition read_ipv6_addr :: "string \<Rightarrow> (Ipv6Addr \<times> string) option" where
  "read_ipv6_addr s =
     (case read_groups 8 0 [] s of (head, head_ipv4, r) \<Rightarrow>
        if length head = 8 then Some (word_of_nat (groups_value head), r)
        else if head_ipv4 then None
        else do {
          r \<leftarrow> read_given_char (CHR '':'') r;
          r \<leftarrow> read_given_char (CHR '':'') r;
          (case read_groups (8 - (length head + 1)) 0 [] r of (tail, _, r') \<Rightarrow>
             Some (word_of_nat (groups_value (head @ replicate (8 - length head - length tail) 0 @ tail)), r'))
        })"

definition ip_from_str :: "string \<Rightarrow> IpAddr option" where
  "ip_from_str s =
     (case read_ipv4_addr s of
        Some (v4, r) \<Rightarrow> if r = [] then Some (V4 v4) else None
      | None \<Rightarrow> (case read_ipv6_addr s of
          Some (v6, r) \<Rightarrow> if r = [] then Some (V6 v6) else None
        | None \<Rightarrow> None))"

definition octet_text :: "u8 \<Rightarrow> string" where
  "octet_text b =
     (let n = unat b in
      (if n \<ge> 100 then [hex_char (n div 100)] else []) @
      (if n \<ge> 10 then [hex_char (n div 10 mod 10)] else []) @ [hex_char (n mod 10)])"

definition ipv4_text :: "Ipv4Addr \<Rightarrow> string" where
  "ipv4_text a = (case u32_bytes a of [w, x, y, z] \<Rightarrow>
     octet_text w @ ''.'' @ octet_text x @ ''.'' @ octet_text y @ ''.'' @ octet_text z | _ \<Rightarrow> [])"

definition to_ipv4_mapped :: "Ipv6Addr \<Rightarrow> Ipv4Addr option" where
  "to_ipv4_mapped a = (if drop_bit 32 a = 0xFFFF then Some (ucast a) else None)"

definition segments :: "Ipv6Addr \<Rightarrow> nat list" where
  "segments a = map (\<lambda>i. unat (ucast (drop_bit (16 * (7 - i)) a) :: u16)) [0, 1, 2, 3, 4, 5, 6, 7]"

definition v6_octets :: "Ipv6Addr \<Rightarrow> bytes" where
  "v6_octets a = concat (map (\<lambda>s. u16_bytes (word_of_nat s)) (segments a))"

lemma length_v6_octets [simp]: "length (v6_octets a) = 16"
  by (simp add: v6_octets_def segments_def)

text \<open>The text of a group: hexadecimal without leading zeros.\<close>

definition group_text :: "nat \<Rightarrow> string" where
  "group_text g =
     (if g \<ge> 4096 then [hex_char (g div 4096)] else []) @
     (if g \<ge> 256 then [hex_char (g div 256 mod 16)] else []) @
     (if g \<ge> 16 then [hex_char (g div 16 mod 16)] else []) @ [hex_char (g mod 16)]"

fun subslice_text :: "nat list \<Rightarrow> string" where
  "subslice_text [] = []"
| "subslice_text [g] = group_text g"
| "subslice_text (g # gs) = group_text g @ '':'' @ subslice_text gs"

fun zero_span :: "nat \<Rightarrow> nat list \<Rightarrow> nat \<times> nat \<Rightarrow> nat \<times> nat \<Rightarrow> nat \<times> nat" where
  "zero_span i [] cur longest = longest"
| "zero_span i (g # gs) cur longest =
     (if g = 0 then
        (let cur = (if snd cur = 0 then (i, 1) else (fst cur, snd cur + 1)) in
         zero_span (i + 1) gs cur (if snd cur > snd longest then cur else longest))
      else zero_span (i + 1) gs (0, 0) longest)"

definition ipv6_text :: "Ipv6Addr \<Rightarrow> string" where
  "ipv6_text a =
     (case to_ipv4_mapped a of
        Some v4 \<Rightarrow> ''::ffff:'' @ ipv4_text v4
      | None \<Rightarrow>
          (let segs = segments a in
           case zero_span 0 segs (0, 0) (0, 0) of (start, len) \<Rightarrow>
             if len > 1 then subslice_text (take start segs) @ ''::'' @ subslice_text (drop (start + len) segs)
             else subslice_text segs))"

definition ip_to_string :: "IpAddr \<Rightarrow> string" where
  "ip_to_string addr = (case addr of V4 v4 \<Rightarrow> ipv4_text v4 | V6 v6 \<Rightarrow> ipv6_text v6)"

definition parse_ip :: "string \<Rightarrow> IpAddr option" where
  "parse_ip s = ip_from_str (hd (split_on (CHR ''%'') s))"

definition unmap_v4 :: "IpAddr \<Rightarrow> IpAddr" where
  "unmap_v4 ip = (case ip of
     V6 v6 \<Rightarrow> (case to_ipv4_mapped v6 of Some v4 \<Rightarrow> V4 v4 | None \<Rightarrow> ip)
   | V4 _ \<Rightarrow> ip)"

section \<open>Client keys\<close>

definition is_label_char :: "char \<Rightarrow> bool" where
  "is_label_char c \<longleftrightarrow> c \<in> set ''abcdefghijklmnopqrstuvwxyz0123456789''"

definition normalize_client_id :: "string \<Rightarrow> string option" where
  "normalize_client_id s =
     (let ident = lowercase (trim s) in
      if 1 \<le> length ident \<and> length ident \<le> 63 \<and> \<not> starts_with ident ''-'' \<and> \<not> ends_with ident ''-'' \<and>
         list_all (\<lambda>c. is_label_char c \<or> c = CHR ''-'') ident
      then Some ident else None)"

definition normalize_client_key :: "string \<Rightarrow> string option" where
  "normalize_client_key s =
     (let s = trim s in
      if s = [] then None
      else case (case strip_prefix s ''id:'' of Some x \<Rightarrow> Some x | None \<Rightarrow> strip_prefix s ''ID:'') of
        Some ident \<Rightarrow> map_option (\<lambda>x. ''id:'' @ x) (normalize_client_id ident)
      | None \<Rightarrow>
          (case parse_ip s of
             Some ip \<Rightarrow> Some (ip_to_string (unmap_v4 ip))
           | None \<Rightarrow> map_option format_mac (parse_mac s)))"

definition labelled_device :: "string list \<Rightarrow> string \<Rightarrow> string option" where
  "labelled_device devices label =
     find (\<lambda>d. d = label \<or>
       (case strip_prefix d label of
          None \<Rightarrow> False
        | Some rest \<Rightarrow> (case strip_prefix rest ''-'' of
            None \<Rightarrow> False
          | Some tail \<Rightarrow> length tail = 4 \<and> list_all is_label_char tail))) devices"

section \<open>Ranges\<close>

record IpNetwork =
  net_addr :: IpAddr
  net_prefix :: nat

definition network_parse :: "string \<Rightarrow> IpNetwork option" where
  "network_parse s =
     (let s = trim s in
      case (case split_once (CHR ''/'') s of
              Some (a, p) \<Rightarrow> map_option (\<lambda>n. (trim a, Some n)) (parse_unsigned 255 (trim p))
            | None \<Rightarrow> Some (s, None)) of
        None \<Rightarrow> None
      | Some (addr, pre) \<Rightarrow> do {
          ip \<leftarrow> parse_ip addr;
          let ip = unmap_v4 ip;
          let m = (case ip of V4 _ \<Rightarrow> 32 | V6 _ \<Rightarrow> 128);
          let p = (case pre of Some n \<Rightarrow> n | None \<Rightarrow> m);
          if p \<le> m then Some \<lparr>net_addr = ip, net_prefix = p\<rparr> else None
        })"

text \<open>\<open>checked_shl\<close> of all ones: nothing when the shift is the width or more.\<close>

definition ones_shl :: "nat \<Rightarrow> 'a::len word" where
  "ones_shl n = (if n < LENGTH('a) then push_bit n (- 1) else 0)"

definition network_contains :: "IpNetwork \<Rightarrow> IpAddr \<Rightarrow> bool" where
  "network_contains net ip =
     (case (net_addr net, unmap_v4 ip) of
        (V4 n, V4 a) \<Rightarrow> n AND ones_shl (32 - net_prefix net) = a AND ones_shl (32 - net_prefix net)
      | (V6 n, V6 a) \<Rightarrow> n AND ones_shl (128 - net_prefix net) = a AND ones_shl (128 - net_prefix net)
      | _ \<Rightarrow> False)"

definition network_text :: "IpNetwork \<Rightarrow> string" where
  "network_text net =
     (let m = (case net_addr net of V4 _ \<Rightarrow> 32 | V6 _ \<Rightarrow> 128) in
      if net_prefix net = m then ip_to_string (net_addr net)
      else ip_to_string (net_addr net) @ ''/'' @ octet_text (word_of_nat (net_prefix net)))"

definition is_local :: "IpAddr \<Rightarrow> bool" where
  "is_local ip =
     (case unmap_v4 ip of
        V4 a \<Rightarrow>
          drop_bit 24 a = 10 \<or> drop_bit 20 a = 0xAC1 \<or> drop_bit 16 a = 0xC0A8 \<or>
          drop_bit 24 a = 127 \<or> drop_bit 16 a = 0xA9FE \<or> a = 0 \<or>
          (drop_bit 24 a = 100 \<and> drop_bit 16 a AND 0xC0 = 64)
      | V6 a \<Rightarrow> a = 1 \<or> a = 0 \<or> drop_bit 121 a = 0x7E \<or> drop_bit 118 a = 0x3FA)"

section \<open>The routing table\<close>

text \<open>\<open>lines\<close> and \<open>split_whitespace\<close> of the standard library.\<close>

definition str_lines :: "string \<Rightarrow> string list" where
  "str_lines s =
     (let ls = split_on (CHR 0x0A) s in
      map (\<lambda>l. case strip_suffix l [CHR 0x0D] of Some m \<Rightarrow> m | None \<Rightarrow> l) (butlast ls) @
      (if last ls = [] then [] else [last ls]))"

function split_ws :: "string \<Rightarrow> string \<Rightarrow> string list" where
  "split_ws word s =
     (case white_prefix s of
        Some n \<Rightarrow> (if word = [] then [] else [word]) @ split_ws [] (drop n s)
      | None \<Rightarrow> (case s of [] \<Rightarrow> if word = [] then [] else [word] | c # cs \<Rightarrow> split_ws (word @ [c]) cs))"
  by pat_completeness auto
termination
  by (relation "measure (\<lambda>(w, s). length s)") (auto dest: white_prefix_pos)

declare split_ws.simps [simp del]

definition split_whitespace :: "string \<Rightarrow> string list" where
  "split_whitespace s = split_ws [] s"

text \<open>The bytes of a table entry are in little-endian order.\<close>

definition le_addr :: "nat \<Rightarrow> Ipv4Addr" where
  "le_addr n = (case u32_bytes (word_of_nat n) of [a, b, c, d] \<Rightarrow> be32 d c b a | _ \<Rightarrow> 0)"

definition default_gateway_line :: "string \<Rightarrow> Ipv4Addr option" where
  "default_gateway_line line = do {
     let cols = split_whitespace line;
     dest \<leftarrow> slice_get cols 1; gw \<leftarrow> slice_get cols 2; flags \<leftarrow> slice_get cols 3;
     f \<leftarrow> from_str_radix 4294967295 16 flags;
     if dest \<noteq> ''00000000'' \<or> \<not> f mod 4 = 3 then None
     else do {
       g \<leftarrow> from_str_radix 4294967295 16 gw;
       if g \<noteq> 0 then Some (le_addr g) else None
     }
   }"

definition parse_default_gateway :: "string \<Rightarrow> Ipv4Addr option" where
  "parse_default_gateway table = find_map default_gateway_line (drop 1 (str_lines table))"

definition default_interface_line :: "string \<Rightarrow> string option" where
  "default_interface_line line = do {
     let cols = split_whitespace line;
     iface \<leftarrow> slice_get cols 0; dest \<leftarrow> slice_get cols 1; flags \<leftarrow> slice_get cols 3;
     f \<leftarrow> from_str_radix 4294967295 16 flags;
     if dest = ''00000000'' \<and> f mod 2 = 1 then Some iface else None
   }"

definition parse_default_interface :: "string \<Rightarrow> string option" where
  "parse_default_interface table = find_map default_interface_line (drop 1 (str_lines table))"

definition subnet_mask_line :: "Ipv4Addr \<Rightarrow> string \<Rightarrow> Ipv4Addr option" where
  "subnet_mask_line ip line = do {
     let cols = split_whitespace line;
     d \<leftarrow> slice_get cols 1; d \<leftarrow> map_option le_addr (from_str_radix 4294967295 16 d);
     g \<leftarrow> slice_get cols 2; g \<leftarrow> map_option le_addr (from_str_radix 4294967295 16 g);
     m \<leftarrow> slice_get cols 7; m \<leftarrow> map_option le_addr (from_str_radix 4294967295 16 m);
     if g = UNSPECIFIED \<and> m \<noteq> 0 \<and> ip AND m = d then Some m else None
   }"

definition parse_subnet_mask :: "string \<Rightarrow> Ipv4Addr \<Rightarrow> Ipv4Addr option" where
  "parse_subnet_mask table ip = find_map (subnet_mask_line ip) (drop 1 (str_lines table))"


definition if_inet6_line :: "string \<Rightarrow> string \<Rightarrow> Ipv6Addr option rs" where
  "if_inet6_line iface line =
     (let cols = split_whitespace line in
      if length cols < 6 then Some None
      else do {
        name \<leftarrow> index cols 5;
        if name \<noteq> iface then Some None
        else do {
          sc \<leftarrow> index cols 3; fl \<leftarrow> index cols 4; ad \<leftarrow> index cols 0;
          Some (do {
            scope \<leftarrow> from_str_radix 4294967295 16 sc;
            flags \<leftarrow> from_str_radix 4294967295 16 fl;
            if scope \<noteq> 0 \<or> (word_of_nat flags :: u32) AND (0x01 OR 0x20 OR 0x40) \<noteq> 0 then None
            else map_option word_of_nat (from_str_radix (2 ^ 128 - 1) 16 ad)
          })
        }
      })"

fun filter_map_rs :: "('a \<Rightarrow> 'b option rs) \<Rightarrow> 'a list \<Rightarrow> 'b list rs" where
  "filter_map_rs f [] = Some []"
| "filter_map_rs f (x # xs) = do {
     y \<leftarrow> f x;
     ys \<leftarrow> filter_map_rs f xs;
     Some (case y of None \<Rightarrow> ys | Some z \<Rightarrow> z # ys)
   }"

definition parse_if_inet6 :: "string \<Rightarrow> string \<Rightarrow> Ipv6Addr list rs" where
  "parse_if_inet6 table iface =
     map_option (sort_key (\<lambda>a. (ucast (drop_bit 112 a) :: u16) AND 0xFE00 \<noteq> 0xFC00))
       (filter_map_rs (if_inet6_line iface) (str_lines table))"

section \<open>Facts\<close>

lemma split_on_append: "c \<notin> set p \<Longrightarrow> split_on c (p @ c # rest) = p # split_on c rest"
  by (induction p) (auto split: list.split)

lemma split_on_none: "c \<notin> set p \<Longrightarrow> split_on c p = [p]"
  by (induction p) (auto split: list.split)

lemma radix_digit_hex_all: "list_all (\<lambda>d. radix_digit 16 (hex_char d) = Some d) [0..<16]"
  by code_simp

lemma radix_digit_hex: "d < 16 \<Longrightarrow> radix_digit 16 (hex_char d) = Some d"
  using list_all_iff [of "\<lambda>d. radix_digit 16 (hex_char d) = Some d" "[0..<16]"]
  by (metis (mono_tags, lifting) atLeastLessThan_iff le0 radix_digit_hex_all set_upt)

lemma radix_digit_dec: "d < 10 \<Longrightarrow> radix_digit 10 (hex_char d) = Some d"
  using radix_digit_hex [of d] by (auto simp: radix_digit_def split: option.splits if_splits)

lemma hex_char_plain: "d < 16 \<Longrightarrow> hex_char d \<in> set ''0123456789abcdef''"
  unfolding hex_char_def by (rule nth_mem) simp

lemma hex_char_zero: "d < 16 \<Longrightarrow> hex_char d = CHR ''0'' \<longleftrightarrow> d = 0"
proof -
  assume d: "d < 16"
  have "radix_digit 16 (CHR ''0'') = Some 0" by code_simp
  then show ?thesis using radix_digit_hex [OF d] radix_digit_hex [of 0] by (auto simp: hex_char_def)
qed

lemma byte_halves: "unat (b :: u8) div 16 < 16" "unat b mod 16 < 16"
  using unat_u8_less [of b] by auto

lemma hex_char_other: "d < 16 \<Longrightarrow> c \<notin> set ''0123456789abcdef'' \<Longrightarrow> c \<noteq> hex_char d"
  using hex_char_plain by metis

lemma hex_char_not_sign: "d < 16 \<Longrightarrow> hex_char d \<noteq> CHR ''+''"
  using hex_char_other [of d "CHR ''+''"] by simp

lemma byte_hex_parse: "from_str_radix 255 16 (byte_hex b) = Some (unat b)"
  using byte_halves [of b] unat_u8_less [of b]
  by (simp add: from_str_radix_def byte_hex_def hex_char_not_sign radix_digit_hex)

lemma byte_hex_plain: "CHR '':'' \<notin> set (byte_hex b) \<and> CHR ''-'' \<notin> set (byte_hex b)"
  using byte_halves [of b] hex_char_other [of _ "CHR '':''"] hex_char_other [of _ "CHR ''-''"]
  by (simp add: byte_hex_def)

lemma byte_hex_no_dash: "map (\<lambda>c. if c = CHR ''-'' then CHR '':'' else c) (byte_hex b) = byte_hex b"
  using byte_hex_plain [of b] by (intro map_idI) auto

lemma octet_digits: "unat (b :: u8) div 100 < 10" "unat b div 10 mod 10 < 10" "unat b mod 10 < 10"
  using unat_u8_less [of b] by auto

lemma octet_text_length: "octet_text b \<noteq> []" "length (octet_text b) \<le> 3"
  by (auto simp: octet_text_def Let_def)

lemma octet_text_digits: "list_all (\<lambda>c. radix_digit 10 c \<noteq> None) (octet_text b)"
  using octet_digits [of b] by (simp add: octet_text_def Let_def radix_digit_dec)

lemma octet_text_lead: "hd (octet_text b) = CHR ''0'' \<Longrightarrow> \<not> 1 < length (octet_text b)"
  using octet_digits [of b] by (auto simp: octet_text_def Let_def hex_char_zero split: if_splits)

lemma octet_text_value: "radix_value 10 0 (octet_text b) = Some (unat b)"
proof -
  have "100 * (n div 100) + n div 10 mod 10 * 10 + n mod 10 = n" for n :: nat
  proof -
    obtain q where q: "n div 10 = q" by simp
    have "n div 100 = q div 10" using div_mult2_eq [of n 10 10] q by simp
    moreover have "n = 10 * q + n mod 10" using mult_div_mod_eq [of 10 n] q by simp
    moreover have "q = 10 * (q div 10) + q mod 10" by simp
    ultimately show ?thesis unfolding q by linarith
  qed
  then show ?thesis using octet_digits [of b] by (simp add: octet_text_def Let_def radix_digit_dec)
qed

lemma octet_text_scope: "CHR ''%'' \<notin> set (octet_text b)"
  using octet_digits [of b] hex_char_other [of _ "CHR ''%''"] by (simp add: octet_text_def Let_def)

lemmas octet_text_facts = octet_text_length octet_text_digits octet_text_lead octet_text_value octet_text_scope

lemma take_digits_append:
  "list_all (\<lambda>c. radix_digit radix c \<noteq> None) ds \<Longrightarrow>
     (rest = [] \<or> radix_digit radix (hd rest) = None) \<Longrightarrow> take_digits radix (ds @ rest) = ds"
  by (induction ds) (cases rest; auto)+

lemma read_octet:
  assumes "rest = [] \<or> radix_digit 10 (hd rest) = None"
  shows "read_number 10 3 False 255 (octet_text b @ rest) = Some (unat b, rest)"
  using octet_text_facts [of b] take_digits_append [OF _ assms, of "octet_text b"] unat_u8_less [of b]
  by (simp add: read_number_def Let_def less_Suc_eq_le)

lemma read_ipv4_text:
  assumes "rest = [] \<or> radix_digit 10 (hd rest) = None"
  shows "read_ipv4_addr (ipv4_text a @ rest) = Some (a, rest)"
proof -
  obtain w x y z where b: "u32_bytes a = [w, x, y, z]" "be32 w x y z = a" by (rule u32_bytesE)
  have dot: "radix_digit 10 (CHR ''.'') = None" by code_simp
  show ?thesis
    using assms b dot
    by (simp add: read_ipv4_addr_def ipv4_text_def read_separator_def read_given_char_def read_octet)
qed

lemma ipv4_text_no_scope: "CHR ''%'' \<notin> set (ipv4_text a)"
  using octet_text_facts by (auto simp: ipv4_text_def split: list.splits)

lemma parse_ipv4_text: "parse_ip (ipv4_text a) = Some (V4 a)"
  using read_ipv4_text [of "[]" a] ipv4_text_no_scope [of a]
  by (simp add: parse_ip_def split_on_none ip_from_str_def)

lemma parse_format_mac: "parse_mac (format_mac m) = Some m"
proof -
  obtain a b c d e f where m: "m = (a, b, c, d, e, f)" by (cases m)
  let ?sub = "map (\<lambda>c. if c = CHR ''-'' then CHR '':'' else c)"
  have "?sub (format_mac m) = format_mac m"
    by (simp add: m format_mac_def byte_hex_no_dash)
  moreover have "split_on (CHR '':'') (format_mac m) =
      [byte_hex a, byte_hex b, byte_hex c, byte_hex d, byte_hex e, byte_hex f]"
    using byte_hex_plain by (simp add: m format_mac_def split_on_append split_on_none)
  ultimately show ?thesis by (simp add: parse_mac_def byte_hex_parse m)
qed

section \<open>Ranges hold what their prefix says\<close>

lemma bit_ones_shl: "bit (ones_shl n :: 'a::len word) i \<longleftrightarrow> n \<le> i \<and> i < LENGTH('a)"
  by (auto simp: ones_shl_def bit_not_iff bit_mask_iff dest: bit_imp_le_length)

lemma bit_word_bound: "bit (w :: 'a::len word) i \<Longrightarrow> i < LENGTH('a)"
  using bit_imp_le_length by blast

lemma mask_eq_iff_drop_bit:
  fixes a b :: "'a::len word"
  shows "a AND ones_shl n = b AND ones_shl n \<longleftrightarrow> drop_bit n a = drop_bit n b"
proof
  assume eq: "a AND ones_shl n = b AND ones_shl n"
  show "drop_bit n a = drop_bit n b"
  proof (rule bit_word_eqI)
    fix i assume "i < LENGTH('a)"
    have "bit (a AND ones_shl n) (n + i) = bit (b AND ones_shl n) (n + i)" using eq by simp
    then show "bit (drop_bit n a) i = bit (drop_bit n b) i"
      by (auto simp: bit_and_iff bit_ones_shl bit_drop_bit_eq dest: bit_word_bound)
  qed
next
  assume eq: "drop_bit n a = drop_bit n b"
  show "a AND ones_shl n = b AND ones_shl n"
  proof (rule bit_word_eqI)
    fix i assume "i < LENGTH('a)"
    have "n \<le> i \<Longrightarrow> bit (drop_bit n a) (i - n) = bit (drop_bit n b) (i - n)" using eq by simp
    then show "bit (a AND ones_shl n) i = bit (b AND ones_shl n) i"
      by (auto simp: bit_and_iff bit_ones_shl bit_drop_bit_eq)
  qed
qed

definition network_wf :: "IpNetwork \<Rightarrow> bool" where
  "network_wf net \<longleftrightarrow> net_prefix net \<le> (case net_addr net of V4 _ \<Rightarrow> 32 | V6 _ \<Rightarrow> 128) \<and>
     unmap_v4 (net_addr net) = net_addr net"

lemma unmap_v4_idem: "unmap_v4 (unmap_v4 ip) = unmap_v4 ip"
  by (auto simp: unmap_v4_def split: IpAddr.splits option.splits)

lemma network_parse_step:
  assumes "(case x of None \<Rightarrow> None | Some (addr, pre) \<Rightarrow> parse_ip addr \<bind> (\<lambda>ip. if P pre ip then Some (f pre ip) else None)) = Some net"
  shows "\<exists>pre ip. P pre ip \<and> net = f pre ip"
  using assms by (cases x) (auto split: prod.splits if_splits simp: bind_eq_Some_conv)

lemma network_parse_wf: "network_parse s = Some net \<Longrightarrow> network_wf net"
  unfolding network_parse_def Let_def
  by (drule network_parse_step) (auto simp: network_wf_def unmap_v4_idem)

lemma network_contains_bits:
  "network_contains net ip \<longleftrightarrow> (case (net_addr net, unmap_v4 ip) of
     (V4 n, V4 a) \<Rightarrow> drop_bit (32 - net_prefix net) n = drop_bit (32 - net_prefix net) a
   | (V6 n, V6 a) \<Rightarrow> drop_bit (128 - net_prefix net) n = drop_bit (128 - net_prefix net) a
   | _ \<Rightarrow> False)"
  by (auto simp: network_contains_def mask_eq_iff_drop_bit split: IpAddr.splits)

lemma network_parse_facts:
  assumes "network_parse s = Some net"
  shows "net_prefix net \<le> (case net_addr net of V4 _ \<Rightarrow> 32 | V6 _ \<Rightarrow> 128)"
    and "network_contains net (net_addr net)"
    and "network_contains net ip \<longleftrightarrow> (case (net_addr net, unmap_v4 ip) of
       (V4 n, V4 a) \<Rightarrow> drop_bit (32 - net_prefix net) n = drop_bit (32 - net_prefix net) a
     | (V6 n, V6 a) \<Rightarrow> drop_bit (128 - net_prefix net) n = drop_bit (128 - net_prefix net) a
     | _ \<Rightarrow> False)"
  using network_parse_wf [OF assms]
  by (auto simp: network_wf_def network_contains_bits split: IpAddr.splits)

text \<open>An address range read from the configuration has a prefix within the width of its
  address, holds that address itself, and holds another address exactly when both are of the
  same family, an IPv4-mapped IPv6 address counting as IPv4, and agree in the leading bits the
  prefix names.\<close>

theorem network_parse_contains:
  assumes "network_parse s = Some net"
  shows "net_prefix net \<le> (case net_addr net of V4 _ \<Rightarrow> 32 | V6 _ \<Rightarrow> 128) \<and>
    network_contains net (net_addr net) \<and>
    (network_contains net ip \<longleftrightarrow> (case (net_addr net, unmap_v4 ip) of
       (V4 n, V4 a) \<Rightarrow> drop_bit (32 - net_prefix net) n = drop_bit (32 - net_prefix net) a
     | (V6 n, V6 a) \<Rightarrow> drop_bit (128 - net_prefix net) n = drop_bit (128 - net_prefix net) a
     | _ \<Rightarrow> False))"
  by (intro conjI network_parse_facts [OF assms])

lemma sample_ip_text: "ipv4_text 0x0A010707 = ''10.1.7.7''"
  by (simp add: ipv4_text_def u32_bytes_def octet_text_def hex_char_def)

lemma sample_network: "network_parse ''10.1.7.7/16'' = Some \<lparr>net_addr = V4 0x0A010707, net_prefix = 16\<rparr>"
proof -
  have t: "trim ''10.1.7.7/16'' = ''10.1.7.7/16''" "split_once (CHR ''/'') ''10.1.7.7/16'' = Some (''10.1.7.7'', ''16'')"
    "trim ''10.1.7.7'' = ''10.1.7.7''" "trim ''16'' = ''16''" by code_simp+
  have p: "parse_unsigned 255 ''16'' = Some 16" by code_simp
  have "unmap_v4 (V4 0x0A010707) = V4 0x0A010707" by (simp add: unmap_v4_def)
  with t p parse_ipv4_text [of "0x0A010707"] show ?thesis by (simp add: network_parse_def sample_ip_text)
qed

theorem network_parse_contains_witness:
  "network_contains \<lparr>net_addr = V4 0x0A010707, net_prefix = 16\<rparr> (V4 0x0A010707) \<and>
   network_contains \<lparr>net_addr = V4 0x0A010707, net_prefix = 16\<rparr> (V6 0xFFFF0A01FFFF)"
proof -
  have "unmap_v4 (V6 0xFFFF0A01FFFF) = V4 0x0A01FFFF" by code_simp
  then show ?thesis
    using network_parse_contains [OF sample_network, of "V6 0xFFFF0A01FFFF"] by simp
qed

text \<open>A MAC address and an IPv4 address survive being printed and read back.\<close>

theorem address_text_roundtrip:
  "parse_mac (format_mac m) = Some m \<and> parse_ip (ip_to_string (V4 a)) = Some (V4 a)"
  by (simp add: parse_format_mac ip_to_string_def parse_ipv4_text)

text \<open>Finding columns by index cannot panic: the length is checked first.\<close>

lemma if_inet6_line_total: "if_inet6_line iface line \<noteq> None"
  by (auto simp: if_inet6_line_def Let_def index_def)

lemma filter_map_rs_total: "(\<And>x. f x \<noteq> None) \<Longrightarrow> filter_map_rs f xs \<noteq> None"
proof (induction xs)
  case (Cons x xs)
  then obtain y where "f x = Some y" by blast
  with Cons show ?case by auto
qed simp

lemma parse_if_inet6_total: "parse_if_inet6 table iface \<noteq> None"
  using filter_map_rs_total [OF if_inet6_line_total] by (auto simp: parse_if_inet6_def)

end
