(* ===== verification/Pause.thy ===== *)
theory Pause
  imports Net "HOL-Library.Finite_Map" "HOL-Library.Char_ord" "HOL-Library.List_Lexorder"
begin

text \<open>
  Temporary pauses of filtering, \<open>crates/blocklist/src/pause.rs\<close>. The two atomic flags the hot
  path reads and the locked state behind them are one record; each operation takes the lock
  for its whole effect. Times are unix seconds, as \<open>int\<close>.
\<close>

section \<open>Operations\<close>

record Pauses =
  global :: bool
  any_clients :: bool
  global_until :: "int option"
  pclients :: "(string, int) fmap"

definition pauses_default :: Pauses where
  "pauses_default = \<lparr>global = False, any_clients = False, global_until = None, pclients = fmempty\<rparr>"

definition global_active :: "Pauses \<Rightarrow> bool" where
  "global_active p = global p"

definition client_paused :: "Pauses \<Rightarrow> string \<Rightarrow> string option \<Rightarrow> bool" where
  "client_paused p client_ip mac =
     (if \<not> any_clients p then False
      else client_ip |\<in>| fmdom (pclients p) \<or>
        (case mac of None \<Rightarrow> False | Some m \<Rightarrow> m |\<in>| fmdom (pclients p)))"

definition pause_global :: "Pauses \<Rightarrow> int \<Rightarrow> Pauses" where
  "pause_global p until = p\<lparr>global_until := Some until, global := True\<rparr>"

definition accepted_keys :: "string list \<Rightarrow> string list" where
  "accepted_keys keys = List.map_filter normalize_client_key keys"

definition pause_clients :: "Pauses \<Rightarrow> string list \<Rightarrow> int \<Rightarrow> string list \<times> Pauses" where
  "pause_clients p keys until =
     (let keys = accepted_keys keys in
      if keys = [] then (keys, p)
      else (keys, p\<lparr>pclients := fold (\<lambda>key m. fmupd key until m) keys (pclients p), any_clients := True\<rparr>))"

definition resume_global :: "Pauses \<Rightarrow> Pauses" where
  "resume_global p = p\<lparr>global_until := None, global := False\<rparr>"

definition resume_clients :: "Pauses \<Rightarrow> string list \<Rightarrow> Pauses" where
  "resume_clients p keys =
     (let m = fold fmdrop (accepted_keys keys) (pclients p) in
      p\<lparr>pclients := m, any_clients := fmdom m \<noteq> {||}\<rparr>)"

definition fm_retain :: "('v \<Rightarrow> bool) \<Rightarrow> ('k, 'v) fmap \<Rightarrow> ('k, 'v) fmap" where
  "fm_retain keep m = fmfilter (\<lambda>k. case fmlookup m k of Some v \<Rightarrow> keep v | None \<Rightarrow> False) m"

definition expire :: "Pauses \<Rightarrow> int \<Rightarrow> bool \<times> Pauses" where
  "expire p now =
     (if \<not> global_active p \<and> \<not> any_clients p then (False, p)
      else
        (let lapsed = (case global_until p of Some until \<Rightarrow> until \<le> now | None \<Rightarrow> False);
             p = (if lapsed then p\<lparr>global_until := None, global := False\<rparr> else p);
             m = fm_retain (\<lambda>until. until > now) (pclients p) in
         (lapsed \<or> fcard (fmdom m) \<noteq> fcard (fmdom (pclients p)),
          p\<lparr>pclients := m, any_clients := fmdom m \<noteq> {||}\<rparr>)))"

definition snapshot :: "Pauses \<Rightarrow> int option \<times> (string \<times> int) list" where
  "snapshot p = (global_until p,
     map (\<lambda>key. (key, the (fmlookup (pclients p) key))) (sorted_list_of_fset (fmdom (pclients p))))"

section \<open>The flags agree with the state\<close>

definition pauses_ok :: "Pauses \<Rightarrow> bool" where
  "pauses_ok p \<longleftrightarrow> (global p \<longleftrightarrow> global_until p \<noteq> None) \<and> (any_clients p \<longleftrightarrow> fmdom (pclients p) \<noteq> {||})"

datatype pause_op =
    PauseGlobal int | PauseClients "string list" int | ResumeGlobal | ResumeClients "string list" | Expire int

fun pause_step :: "Pauses \<Rightarrow> pause_op \<Rightarrow> Pauses" where
  "pause_step p (PauseGlobal until) = pause_global p until"
| "pause_step p (PauseClients keys until) = snd (pause_clients p keys until)"
| "pause_step p ResumeGlobal = resume_global p"
| "pause_step p (ResumeClients keys) = resume_clients p keys"
| "pause_step p (Expire now) = snd (expire p now)"

lemma fold_fmupd_dom: "fmdom (fold (\<lambda>key m. fmupd key v m) ks m) = fset_of_list ks |\<union>| fmdom m"
  by (induction ks arbitrary: m) auto

lemma fold_fmupd_lookup:
  "fmlookup (fold (\<lambda>key m. fmupd key v m) ks m) k = (if k \<in> set ks then Some v else fmlookup m k)"
  by (induction ks arbitrary: m) auto

lemma fold_fmdrop_lookup: "fmlookup (fold fmdrop ks m) k = (if k \<in> set ks then None else fmlookup m k)"
  by (induction ks arbitrary: m) auto

lemma fm_retain_lookup:
  "fmlookup (fm_retain keep m) k = (case fmlookup m k of Some v \<Rightarrow> if keep v then Some v else None | None \<Rightarrow> None)"
  by (auto simp: fm_retain_def split: option.splits)

lemma fset_of_list_empty: "fset_of_list xs = {||} \<longleftrightarrow> xs = []"
  by (cases xs) auto

lemma fmdom_empty_lookup: "fmdom m = {||} \<Longrightarrow> fmlookup m k = None"
  by (simp add: fmdom_notD)

interpretation pause_machine: state_machine pause_step pauses_ok
proof
  fix p e
  assume "pauses_ok p"
  then show "pauses_ok (pause_step p e)"
    by (cases e)
      (auto simp: pauses_ok_def pause_global_def pause_clients_def resume_global_def resume_clients_def
        expire_def Let_def fold_fmupd_dom fset_of_list_empty global_active_def split: option.splits)
qed

lemma client_paused_ok:
  "pauses_ok p \<Longrightarrow> client_paused p ip mac \<longleftrightarrow>
     fmlookup (pclients p) ip \<noteq> None \<or> (\<exists>m. mac = Some m \<and> fmlookup (pclients p) m \<noteq> None)"
  by (auto simp: client_paused_def pauses_ok_def fmdom_notI split: option.splits) (auto simp: fmdomI)

lemma fm_retain_id: "fcard (fmdom (fm_retain keep m)) = fcard (fmdom m) \<Longrightarrow> fm_retain keep m = m"
proof -
  assume eq: "fcard (fmdom (fm_retain keep m)) = fcard (fmdom m)"
  have "fmdom (fm_retain keep m) |\<subseteq>| fmdom m" by (auto simp: fm_retain_def)
  then have "fmdom (fm_retain keep m) = fmdom m" using eq by (simp add: fcard_seteq)
  then have same: "fmlookup (fm_retain keep m) k = None \<longleftrightarrow> fmlookup m k = None" for k
    by (metis fmdom_notD fmdom_notI)
  have "fmlookup (fm_retain keep m) k = fmlookup m k" for k
    using same [of k] by (auto simp: fm_retain_lookup split: option.splits if_splits)
  then show ?thesis by (rule fmap_ext)
qed

lemma pauses_expire_facts:
  assumes "p = foldl pause_step pauses_default ops" and "expire p now = (lapsed, p')"
  shows "client_paused p ip mac \<longleftrightarrow> fmlookup (pclients p) ip \<noteq> None \<or>
      (\<exists>m. mac = Some m \<and> fmlookup (pclients p) m \<noteq> None)"
    and "global_active p' \<longleftrightarrow> (\<exists>until. global_until p = Some until \<and> until > now)"
    and "fmlookup (pclients p') k = (case fmlookup (pclients p) k of
      Some until \<Rightarrow> if until > now then Some until else None | None \<Rightarrow> None)"
    and "lapsed \<longleftrightarrow> p' \<noteq> p"
proof -
  have ok: "pauses_ok p" unfolding assms(1)
    by (rule pause_machine.run_inv) (simp add: pauses_ok_def pauses_default_def)
  show "client_paused p ip mac \<longleftrightarrow> fmlookup (pclients p) ip \<noteq> None \<or>
      (\<exists>m. mac = Some m \<and> fmlookup (pclients p) m \<noteq> None)" by (rule client_paused_ok [OF ok])
  show "global_active p' \<longleftrightarrow> (\<exists>until. global_until p = Some until \<and> until > now)"
    using assms(2) ok by (auto simp: expire_def Let_def global_active_def pauses_ok_def split: option.splits if_splits)
  show "fmlookup (pclients p') k = (case fmlookup (pclients p) k of
      Some until \<Rightarrow> if until > now then Some until else None | None \<Rightarrow> None)"
    using assms(2) ok fmdom_empty_lookup [of "pclients p" k]
    by (auto simp: expire_def Let_def fm_retain_lookup global_active_def pauses_ok_def
        split: option.splits if_splits)
  show "lapsed \<longleftrightarrow> p' \<noteq> p"
  proof (cases "\<not> global_active p \<and> \<not> any_clients p")
    case False
    let ?m = "fm_retain (\<lambda>until. until > now) (pclients p)"
    let ?l = "case global_until p of Some until \<Rightarrow> until \<le> now | None \<Rightarrow> False"
    from assms(2) False have run: "lapsed \<longleftrightarrow> ?l \<or> fcard (fmdom ?m) \<noteq> fcard (fmdom (pclients p))"
      "p' = (if ?l then p\<lparr>global_until := None, global := False\<rparr> else p)\<lparr>pclients := ?m, any_clients := fmdom ?m \<noteq> {||}\<rparr>"
      by (auto simp: expire_def Let_def)
    have "p' = p" if "\<not> lapsed"
    proof -
      have "?m = pclients p" "\<not> ?l" using that run(1) fm_retain_id by blast+
      then show ?thesis using ok run(2) by (simp add: pauses_ok_def)
    qed
    moreover have "p' \<noteq> p" if lapsed
    proof -
      have "global_until p' = None \<and> global_until p \<noteq> None \<or> pclients p' \<noteq> pclients p"
        using that run by (auto split: option.splits if_splits)
      then show ?thesis by auto
    qed
    ultimately show ?thesis by blast
  qed (use assms(2) in \<open>simp add: expire_def\<close>)
qed

text \<open>
  Over any sequence of pauses, resumptions and expiry ticks the atomic flags agree with
  the pauses recorded: a client is let through exactly when its address or its MAC address
  has a pause. After an expiry tick no pause that has run out is left, every other pause is
  untouched, and the tick reports whether something lapsed.
\<close>

theorem pauses_expire:
  assumes "p = foldl pause_step pauses_default ops" and "expire p now = (lapsed, p')"
  shows "(client_paused p ip mac \<longleftrightarrow> fmlookup (pclients p) ip \<noteq> None \<or>
      (\<exists>m. mac = Some m \<and> fmlookup (pclients p) m \<noteq> None)) \<and>
    (global_active p' \<longleftrightarrow> (\<exists>until. global_until p = Some until \<and> until > now)) \<and>
    fmlookup (pclients p') k = (case fmlookup (pclients p) k of
      Some until \<Rightarrow> if until > now then Some until else None | None \<Rightarrow> None) \<and>
    (lapsed \<longleftrightarrow> p' \<noteq> p)"
  by (intro conjI pauses_expire_facts [OF assms])

theorem pauses_expire_witness:
  "\<exists>p'. expire (pause_global pauses_default 100) 100 = (True, p') \<and> \<not> global_active p'"
proof -
  let ?p = "foldl pause_step pauses_default [PauseGlobal 100]"
  obtain l p' where run: "expire ?p 100 = (l, p')" by (cases "expire ?p 100")
  from pauses_expire [OF refl run] run show ?thesis
    by (auto simp: pause_global_def global_active_def)
qed

end
