(* ===== verification/Lru.thy ===== *)
theory Lru
  imports Prelude "HOL-Library.Multiset"
begin

text \<open>
  The interface of the \<open>lru\<close> crate that the DNS cache and the decision caches use. The crate is
  not part of the repository: its operations are a parameter, and what its documentation
  promises of them is the predicate \<open>lru_laws\<close>, a hypothesis of the properties that need it.
  The contents of a cache are the pairs its iterator yields. A list kept in order of use
  satisfies the laws, so that they can be met.
\<close>

section \<open>The interface\<close>

record ('v, 'c) lru_lib =
  lru_new :: "nat \<Rightarrow> 'c"
  lru_cap :: "'c \<Rightarrow> nat"
  lru_iter :: "'c \<Rightarrow> (string \<times> 'v) list"
  lru_peek :: "'c \<Rightarrow> string \<Rightarrow> 'v option"
  lru_get :: "'c \<Rightarrow> string \<Rightarrow> 'v option \<times> 'c"
  lru_push :: "'c \<Rightarrow> string \<Rightarrow> 'v \<Rightarrow> (string \<times> 'v) option \<times> 'c"
  lru_pop :: "'c \<Rightarrow> string \<Rightarrow> 'v option \<times> 'c"
  lru_pop_lru :: "'c \<Rightarrow> (string \<times> 'v) option \<times> 'c"
  lru_clear :: "'c \<Rightarrow> 'c"
  lru_resize :: "'c \<Rightarrow> nat \<Rightarrow> 'c"

definition lru_len :: "('v, 'c) lru_lib \<Rightarrow> 'c \<Rightarrow> nat" where
  "lru_len L c = length (lru_iter L c)"

text \<open>
  \<open>put\<close> is \<open>push\<close> without the displaced pair. Every state the crate can reach satisfies
  \<open>lru_wf\<close>: the keys are distinct and there are at most as many as the capacity.
\<close>

definition lru_put :: "('v, 'c) lru_lib \<Rightarrow> 'c \<Rightarrow> string \<Rightarrow> 'v \<Rightarrow> 'c" where
  "lru_put L c k v = snd (lru_push L c k v)"

definition lru_wf :: "('v, 'c) lru_lib \<Rightarrow> 'c \<Rightarrow> bool" where
  "lru_wf L c \<longleftrightarrow> distinct (map fst (lru_iter L c)) \<and> lru_len L c \<le> lru_cap L c"

abbreviation lru_mset :: "('v, 'c) lru_lib \<Rightarrow> 'c \<Rightarrow> (string \<times> 'v) multiset" where
  "lru_mset L c \<equiv> mset (lru_iter L c)"

definition new_law :: "('v, 'c) lru_lib \<Rightarrow> bool" where
  "new_law L \<longleftrightarrow> (\<forall>n. lru_iter L (lru_new L n) = [] \<and> lru_cap L (lru_new L n) = n)"

definition peek_law :: "('v, 'c) lru_lib \<Rightarrow> bool" where
  "peek_law L \<longleftrightarrow> (\<forall>c k. lru_wf L c \<longrightarrow> lru_peek L c k = map_of (lru_iter L c) k)"

definition get_law :: "('v, 'c) lru_lib \<Rightarrow> bool" where
  "get_law L \<longleftrightarrow> (\<forall>c k. lru_wf L c \<longrightarrow> fst (lru_get L c k) = lru_peek L c k \<and>
     lru_mset L (snd (lru_get L c k)) = lru_mset L c \<and> lru_cap L (snd (lru_get L c k)) = lru_cap L c)"

definition pop_law :: "('v, 'c) lru_lib \<Rightarrow> bool" where
  "pop_law L \<longleftrightarrow> (\<forall>c k. lru_wf L c \<longrightarrow> fst (lru_pop L c k) = lru_peek L c k \<and>
     lru_mset L (snd (lru_pop L c k)) = filter_mset (\<lambda>(k', _). k' \<noteq> k) (lru_mset L c) \<and>
     lru_cap L (snd (lru_pop L c k)) = lru_cap L c)"

text \<open>
  \<open>push\<close> returns the pair it replaced, or the least recently used one it evicted because the
  cache was full, and leaves the new pair as the most recently used, the first the iterator
  yields; \<open>pop_lru\<close> takes the last.
\<close>

definition push_law :: "('v, 'c) lru_lib \<Rightarrow> bool" where
  "push_law L \<longleftrightarrow> (\<forall>c k v. lru_wf L c \<longrightarrow> 0 < lru_cap L c \<longrightarrow>
     (let (out, c') = lru_push L c k v in lru_cap L c' = lru_cap L c \<and>
       (\<exists>xs. lru_iter L c' = (k, v) # xs) \<and>
       (case lru_peek L c k of
          Some old \<Rightarrow> out = Some (k, old) \<and> add_mset (k, old) (lru_mset L c') = add_mset (k, v) (lru_mset L c)
        | None \<Rightarrow>
            if lru_len L c < lru_cap L c
            then out = None \<and> lru_mset L c' = add_mset (k, v) (lru_mset L c)
            else \<exists>p. out = Some p \<and> p \<in># lru_mset L c \<and> add_mset p (lru_mset L c') = add_mset (k, v) (lru_mset L c))))"

definition pop_lru_law :: "('v, 'c) lru_lib \<Rightarrow> bool" where
  "pop_lru_law L \<longleftrightarrow> (\<forall>c. lru_wf L c \<longrightarrow> (let (out, c') = lru_pop_lru L c in lru_cap L c' = lru_cap L c \<and>
     (case out of None \<Rightarrow> lru_iter L c = [] \<and> lru_iter L c' = []
      | Some p \<Rightarrow> lru_iter L c = lru_iter L c' @ [p])))"

definition clear_law :: "('v, 'c) lru_lib \<Rightarrow> bool" where
  "clear_law L \<longleftrightarrow> (\<forall>c. lru_iter L (lru_clear L c) = [] \<and> lru_cap L (lru_clear L c) = lru_cap L c)"

definition resize_law :: "('v, 'c) lru_lib \<Rightarrow> bool" where
  "resize_law L \<longleftrightarrow> (\<forall>c n. lru_wf L c \<longrightarrow> lru_wf L (lru_resize L c n) \<and> lru_cap L (lru_resize L c n) = n \<and>
     lru_mset L (lru_resize L c n) \<subseteq># lru_mset L c \<and>
     (lru_len L c \<le> n \<longrightarrow> lru_mset L (lru_resize L c n) = lru_mset L c))"

definition lru_laws :: "('v, 'c) lru_lib \<Rightarrow> bool" where
  "lru_laws L \<longleftrightarrow> new_law L \<and> peek_law L \<and> get_law L \<and> pop_law L \<and> push_law L \<and> pop_lru_law L \<and>
     clear_law L \<and> resize_law L"

section \<open>What follows from the laws\<close>

lemma distinct_submset: "mset xs \<subseteq># mset ys \<Longrightarrow> distinct ys \<Longrightarrow> distinct xs"
proof -
  assume sub: "mset xs \<subseteq># mset ys" and ys: "distinct ys"
  obtain zs where "mset zs = mset ys - mset xs" using ex_mset by blast
  then have "mset (xs @ zs) = mset ys" using sub by (simp add: subset_mset.add_diff_inverse)
  with ys have "distinct (xs @ zs)" by (metis mset_eq_imp_distinct_iff)
  then show ?thesis by simp
qed

lemma lru_wf_mset:
  assumes "lru_wf L c" and "lru_mset L c' = lru_mset L c" and "lru_cap L c' = lru_cap L c"
  shows "lru_wf L c'"
  using assms mset_eq_imp_distinct_iff [of "map fst (lru_iter L c')" "map fst (lru_iter L c)"]
    mset_eq_length [of "lru_iter L c'" "lru_iter L c"]
  by (simp add: lru_wf_def lru_len_def)

lemma lru_wf_submset:
  assumes "lru_wf L c" and "lru_mset L c' \<subseteq># lru_mset L c" and "lru_cap L c' = lru_cap L c"
  shows "lru_wf L c'"
proof -
  have "mset (map fst (lru_iter L c')) \<subseteq># mset (map fst (lru_iter L c))"
    using image_mset_subseteq_mono [OF assms(2), of fst] by simp
  moreover have "distinct (map fst (lru_iter L c))" using assms(1) by (simp add: lru_wf_def)
  ultimately have "distinct (map fst (lru_iter L c'))" by (rule distinct_submset)
  moreover have "size (lru_mset L c') \<le> size (lru_mset L c)" using size_mset_mono [OF assms(2)] .
  ultimately show ?thesis using assms(1,3) by (simp add: lru_wf_def lru_len_def)
qed

lemma lru_new_ok: "lru_laws L \<Longrightarrow> lru_wf L (lru_new L n) \<and> lru_iter L (lru_new L n) = [] \<and> lru_cap L (lru_new L n) = n"
  by (simp add: lru_laws_def new_law_def lru_wf_def lru_len_def)

lemma lru_peek_iff: "lru_laws L \<Longrightarrow> lru_wf L c \<Longrightarrow> lru_peek L c k = Some v \<longleftrightarrow> (k, v) \<in># lru_mset L c"
  by (simp add: lru_laws_def peek_law_def lru_wf_def)

lemma lru_peek_None: "lru_laws L \<Longrightarrow> lru_wf L c \<Longrightarrow> lru_peek L c k = None \<longleftrightarrow> k \<notin> fst ` set (lru_iter L c)"
  by (simp add: lru_laws_def peek_law_def map_of_eq_None_iff)

lemma lru_get_ok:
  assumes "lru_laws L" and "lru_wf L c" and "lru_get L c k = (out, c')"
  shows "out = lru_peek L c k \<and> lru_wf L c' \<and> lru_mset L c' = lru_mset L c \<and> lru_cap L c' = lru_cap L c"
proof -
  have "get_law L" using assms(1) by (simp add: lru_laws_def)
  from this [unfolded get_law_def, rule_format, OF assms(2), of k] assms(3)
  have "out = lru_peek L c k" "lru_mset L c' = lru_mset L c" "lru_cap L c' = lru_cap L c" by simp_all
  with lru_wf_mset [OF assms(2)] show ?thesis by metis
qed

lemma lru_pop_ok:
  assumes "lru_laws L" and "lru_wf L c" and "lru_pop L c k = (out, c')"
  shows "out = lru_peek L c k \<and> lru_wf L c' \<and> lru_cap L c' = lru_cap L c \<and>
    lru_mset L c' = filter_mset (\<lambda>(k', _). k' \<noteq> k) (lru_mset L c)"
proof -
  have "pop_law L" using assms(1) by (simp add: lru_laws_def)
  from this [unfolded pop_law_def, rule_format, OF assms(2), of k] assms(3)
  have *: "out = lru_peek L c k" "lru_cap L c' = lru_cap L c"
    "lru_mset L c' = filter_mset (\<lambda>(k', _). k' \<noteq> k) (lru_mset L c)" by simp_all
  then have "lru_mset L c' \<subseteq># lru_mset L c" using multiset_filter_subset [of "\<lambda>(k', _). k' \<noteq> k" "lru_mset L c"] by simp
  with lru_wf_submset [OF assms(2)] * show ?thesis by metis
qed

lemma lru_clear_ok: "lru_laws L \<Longrightarrow> lru_wf L (lru_clear L c) \<and> lru_iter L (lru_clear L c) = [] \<and>
    lru_cap L (lru_clear L c) = lru_cap L c"
  by (simp add: lru_laws_def clear_law_def lru_wf_def lru_len_def)

lemma lru_resize_ok:
  assumes "lru_laws L" and "lru_wf L c"
  shows "lru_wf L (lru_resize L c n) \<and> lru_cap L (lru_resize L c n) = n \<and>
     lru_mset L (lru_resize L c n) \<subseteq># lru_mset L c \<and>
     (lru_len L c \<le> n \<longrightarrow> lru_mset L (lru_resize L c n) = lru_mset L c)"
proof -
  have "resize_law L" using assms(1) by (simp add: lru_laws_def)
  from this [unfolded resize_law_def, rule_format, OF assms(2), of n] show ?thesis .
qed

lemma lru_pop_lru_ok:
  assumes "lru_laws L" and "lru_wf L c" and "lru_pop_lru L c = (out, c')"
  shows "lru_wf L c' \<and> lru_cap L c' = lru_cap L c \<and>
    (case out of None \<Rightarrow> lru_iter L c = [] \<and> lru_iter L c' = [] | Some p \<Rightarrow> lru_iter L c = lru_iter L c' @ [p])"
proof -
  have "pop_lru_law L" using assms(1) by (simp add: lru_laws_def)
  from this [unfolded pop_lru_law_def, rule_format, OF assms(2)] assms(3)
  have *: "lru_cap L c' = lru_cap L c"
    "case out of None \<Rightarrow> lru_iter L c = [] \<and> lru_iter L c' = [] | Some p \<Rightarrow> lru_iter L c = lru_iter L c' @ [p]" by simp_all
  then have "lru_mset L c' \<subseteq># lru_mset L c" by (cases out) auto
  with lru_wf_submset [OF assms(2)] * show ?thesis by blast
qed

lemma lru_push_ok:
  assumes laws: "lru_laws L" and wf: "lru_wf L c" and cap: "0 < lru_cap L c" and run: "lru_push L c k v = (out, c')"
  shows "lru_wf L c' \<and> lru_cap L c' = lru_cap L c \<and> lru_peek L c' k = Some v \<and> (\<exists>xs. lru_iter L c' = (k, v) # xs) \<and>
    (case out of None \<Rightarrow> lru_mset L c' = add_mset (k, v) (lru_mset L c)
     | Some p \<Rightarrow> p \<in># lru_mset L c \<and> add_mset p (lru_mset L c') = add_mset (k, v) (lru_mset L c))"
proof -
  have "push_law L" using laws by (simp add: lru_laws_def)
  from this [unfolded push_law_def, rule_format, OF wf cap, of k v] run
  have law: "lru_cap L c' = lru_cap L c \<and> (\<exists>xs. lru_iter L c' = (k, v) # xs) \<and> (case lru_peek L c k of
      Some old \<Rightarrow> out = Some (k, old) \<and> add_mset (k, old) (lru_mset L c') = add_mset (k, v) (lru_mset L c)
    | None \<Rightarrow> if lru_len L c < lru_cap L c then out = None \<and> lru_mset L c' = add_mset (k, v) (lru_mset L c)
        else \<exists>p. out = Some p \<and> p \<in># lru_mset L c \<and> add_mset p (lru_mset L c') = add_mset (k, v) (lru_mset L c))"
    by simp
  let ?keys = "\<lambda>c. mset (map fst (lru_iter L c))"
  have dist: "distinct (map fst (lru_iter L c))" and len: "length (lru_iter L c) \<le> lru_cap L c"
    using wf by (simp_all add: lru_wf_def lru_len_def)
  have keys: "add_mset (fst p) (?keys c') = add_mset k (?keys c)"
    if "add_mset p (lru_mset L c') = add_mset (k, v) (lru_mset L c)" for p
    using arg_cong [OF that, of "image_mset fst"] by simp
  have size: "length (lru_iter L c') = length (lru_iter L c)"
    if "add_mset p (lru_mset L c') = add_mset (k, v) (lru_mset L c)" for p
    using arg_cong [OF that, of size] by simp
  show ?thesis
  proof (cases "lru_peek L c k")
    case (Some old)
    with law have out: "out = Some (k, old)" and eq: "add_mset (k, old) (lru_mset L c') = add_mset (k, v) (lru_mset L c)"
      and "lru_cap L c' = lru_cap L c" by simp_all
    have "?keys c' = ?keys c" using keys [OF eq] by simp
    then have "distinct (map fst (lru_iter L c'))" using dist by (metis mset_eq_imp_distinct_iff)
    then have wf': "lru_wf L c'" using size [OF eq] len law by (simp add: lru_wf_def lru_len_def)
    have old: "(k, old) \<in># lru_mset L c" using Some lru_peek_iff [OF laws wf] by simp
    have "(k, v) \<in># lru_mset L c'"
    proof (cases "old = v")
      case True then show ?thesis using eq old by simp
    next
      case False
      have "(k, v) \<in># add_mset (k, old) (lru_mset L c')" unfolding eq by simp
      then show ?thesis using False by auto
    qed
    then show ?thesis using wf' law old out eq lru_peek_iff [OF laws wf'] by simp
  next
    case None
    then have fresh: "k \<notin> set (map fst (lru_iter L c))" using lru_peek_None [OF laws wf] by simp
    show ?thesis
    proof (cases "lru_len L c < lru_cap L c")
      case True
      with None law have out: "out = None" and eq: "lru_mset L c' = add_mset (k, v) (lru_mset L c)" by simp_all
      have "?keys c' = mset (k # map fst (lru_iter L c))" using arg_cong [OF eq, of "image_mset fst"] by simp
      then have "distinct (map fst (lru_iter L c'))" 
        using dist fresh mset_eq_imp_distinct_iff [of "map fst (lru_iter L c')" "k # map fst (lru_iter L c)"] by simp
      moreover have "length (lru_iter L c') = Suc (length (lru_iter L c))" using arg_cong [OF eq, of size] by simp
      ultimately have wf': "lru_wf L c'" using True law by (simp add: lru_wf_def lru_len_def)
      then show ?thesis using law out eq lru_peek_iff [OF laws wf', of k v] by simp
    next
      case False
      with None law obtain p where out: "out = Some p" and p: "p \<in># lru_mset L c"
        and eq: "add_mset p (lru_mset L c') = add_mset (k, v) (lru_mset L c)" by auto
      have "?keys c' \<subseteq># mset (k # map fst (lru_iter L c))" 

      proof -
        have "?keys c' \<subseteq># add_mset (fst p) (?keys c')" by (rule subset_mset.less_imp_le) simp
        then show ?thesis unfolding keys [OF eq] by simp
      qed
      then have "distinct (map fst (lru_iter L c'))" by (rule distinct_submset) (use dist fresh in simp)
      then have wf': "lru_wf L c'" using size [OF eq] len law by (simp add: lru_wf_def lru_len_def)
      have "p \<noteq> (k, v)" using p fresh by force
      moreover have "(k, v) \<in># add_mset p (lru_mset L c')" unfolding eq by simp
      ultimately have "(k, v) \<in># lru_mset L c'" by auto
      then show ?thesis using wf' law out p eq lru_peek_iff [OF laws wf', of k v] by simp
    qed
  qed
qed

lemma lru_push_set:
  assumes "lru_laws L" and "lru_wf L c" and "0 < lru_cap L c" and "lru_push L c k v = (out, c')"
  shows "set (lru_iter L c') \<subseteq> insert (k, v) (set (lru_iter L c))"
proof (cases out)
  case None
  then have "lru_mset L c' = add_mset (k, v) (lru_mset L c)" using lru_push_ok [OF assms] by simp
  from arg_cong [OF this, of set_mset] show ?thesis by simp
next
  case (Some p)
  then have "add_mset p (lru_mset L c') = add_mset (k, v) (lru_mset L c)" using lru_push_ok [OF assms] by simp
  from arg_cong [OF this, of set_mset] have "insert p (set (lru_iter L c')) = insert (k, v) (set (lru_iter L c))" by simp
  then show ?thesis by blast
qed

lemma lru_get_set:
  assumes "lru_laws L" and "lru_wf L c" and "lru_get L c k = (out, c')"
  shows "set (lru_iter L c') = set (lru_iter L c)"
  using lru_get_ok [OF assms] mset_eq_setD by blast

lemma lru_pop_set:
  assumes "lru_laws L" and "lru_wf L c" and "lru_pop L c k = (out, c')"
  shows "set (lru_iter L c') = {(k', v). (k', v) \<in> set (lru_iter L c) \<and> k' \<noteq> k}"
proof -
  have "lru_mset L c' = filter_mset (\<lambda>(k', _). k' \<noteq> k) (lru_mset L c)" using lru_pop_ok [OF assms] by simp
  from arg_cong [OF this, of set_mset] show ?thesis by auto
qed

lemma lru_resize_set:
  "lru_laws L \<Longrightarrow> lru_wf L c \<Longrightarrow> set (lru_iter L (lru_resize L c n)) \<subseteq> set (lru_iter L c)"
  using lru_resize_ok [of L c n] set_mset_mono [of "lru_mset L (lru_resize L c n)" "lru_mset L c"] by simp

section \<open>A list in order of use\<close>

definition move_front :: "string \<Rightarrow> (string \<times> 'v) list \<Rightarrow> (string \<times> 'v) list" where
  "move_front k xs = (case map_of xs k of None \<Rightarrow> xs | Some v \<Rightarrow> (k, v) # filter (\<lambda>(k', _). k' \<noteq> k) xs)"

definition list_push :: "nat \<times> (string \<times> 'v) list \<Rightarrow> string \<Rightarrow> 'v \<Rightarrow> (string \<times> 'v) option \<times> nat \<times> (string \<times> 'v) list" where
  "list_push c k v = (case c of (n, xs) \<Rightarrow>
     (case map_of xs k of
        Some old \<Rightarrow> (Some (k, old), n, (k, v) # filter (\<lambda>(k', _). k' \<noteq> k) xs)
      | None \<Rightarrow> if length xs < n then (None, n, (k, v) # xs) else (Some (last xs), n, (k, v) # butlast xs)))"

definition list_lru :: "('v, nat \<times> (string \<times> 'v) list) lru_lib" where
  "list_lru = \<lparr>lru_new = (\<lambda>n. (n, [])), lru_cap = fst, lru_iter = snd, lru_peek = (\<lambda>c. map_of (snd c)),
     lru_get = (\<lambda>c k. (map_of (snd c) k, fst c, move_front k (snd c))), lru_push = list_push,
     lru_pop = (\<lambda>c k. (map_of (snd c) k, fst c, filter (\<lambda>(k', _). k' \<noteq> k) (snd c))),
     lru_pop_lru = (\<lambda>c. if snd c = [] then (None, c) else (Some (last (snd c)), fst c, butlast (snd c))),
     lru_clear = (\<lambda>c. (fst c, [])), lru_resize = (\<lambda>c n. (n, take n (snd c)))\<rparr>"

lemma filter_key_mset:
  "distinct (map fst xs) \<Longrightarrow> map_of xs k = Some v \<Longrightarrow> mset xs = add_mset (k, v) (mset (filter (\<lambda>(k', _). k' \<noteq> k) xs))"
proof (induction xs)
  case (Cons x xs)
  obtain a b where x: "x = (a, b)" by (cases x)
  show ?case
  proof (cases "a = k")
    case True
    then have "filter (\<lambda>(k', _). k' \<noteq> k) xs = xs" using Cons.prems(1) by (intro filter_True) (force simp: x)
    then show ?thesis using True Cons.prems(2) by (simp add: x)
  next
    case False
    then show ?thesis using Cons by (simp add: x)
  qed
qed simp

lemma mset_butlast_last: "xs \<noteq> [] \<Longrightarrow> mset xs = add_mset (last xs) (mset (butlast xs))"
  by (induction xs rule: rev_induct) simp_all

lemma filter_key_add:
  "distinct (map fst xs) \<Longrightarrow> map_of xs k = Some v \<Longrightarrow> add_mset (k, v) (filter_mset (\<lambda>(k', _). k' \<noteq> k) (mset xs)) = mset xs"
  using filter_key_mset [of xs k v] by simp

lemma mset_take_le: "mset (take n xs) \<subseteq># mset xs"
  by (metis append_take_drop_id mset_append mset_subset_eq_add_left)

lemma list_push_law: "push_law (list_lru :: ('v, nat \<times> (string \<times> 'v) list) lru_lib)"
  unfolding push_law_def
proof (intro allI impI)
  fix c :: "nat \<times> (string \<times> 'v) list" and k v
  assume wf: "lru_wf list_lru c" and cap: "0 < lru_cap list_lru c"
  obtain n xs where c: "c = (n, xs)" by (cases c)
  have d: "distinct (map fst xs)" and len: "length xs \<le> n" and n: "0 < n"
    using wf cap by (simp_all add: lru_wf_def lru_len_def list_lru_def c)
  have full: "xs \<noteq> [] \<and> mset xs = add_mset (last xs) (mset (butlast xs))" if "\<not> length xs < n"
  proof -
    have "xs \<noteq> []" using that n by auto
    with mset_butlast_last show ?thesis by blast
  qed
  show "let (out, c') = lru_push list_lru c k v in lru_cap list_lru c' = lru_cap list_lru c \<and>
     (\<exists>xs. lru_iter list_lru c' = (k, v) # xs) \<and>
     (case lru_peek list_lru c k of
        Some old \<Rightarrow> out = Some (k, old) \<and> add_mset (k, old) (lru_mset list_lru c') = add_mset (k, v) (lru_mset list_lru c)
      | None \<Rightarrow>
          if lru_len list_lru c < lru_cap list_lru c
          then out = None \<and> lru_mset list_lru c' = add_mset (k, v) (lru_mset list_lru c)
          else \<exists>p. out = Some p \<and> p \<in># lru_mset list_lru c \<and> add_mset p (lru_mset list_lru c') = add_mset (k, v) (lru_mset list_lru c))"
  proof (cases "map_of xs k")
    case (Some old)
    then show ?thesis using filter_key_mset [OF d Some]
      by (simp add: list_lru_def list_push_def c add_mset_commute)
  next
    case None
    obtain a b where "last xs = (a, b)" by (cases "last xs")
    with None show ?thesis using full
      by (auto simp: list_lru_def list_push_def c lru_len_def add_mset_commute)
  qed
qed

lemma list_lru_laws: "lru_laws (list_lru :: ('v, nat \<times> (string \<times> 'v) list) lru_lib)"
  unfolding lru_laws_def
proof (intro conjI)
  show "get_law (list_lru :: ('v, nat \<times> (string \<times> 'v) list) lru_lib)"
    by (auto simp: get_law_def list_lru_def lru_wf_def move_front_def filter_key_add split: option.splits)
  show "pop_lru_law (list_lru :: ('v, nat \<times> (string \<times> 'v) list) lru_lib)"
    by (auto simp: pop_lru_law_def list_lru_def lru_wf_def mset_butlast_last)
  show "resize_law (list_lru :: ('v, nat \<times> (string \<times> 'v) list) lru_lib)"
    by (auto simp: resize_law_def list_lru_def lru_wf_def lru_len_def mset_take_le take_map [symmetric] distinct_take)
qed (simp_all add: new_law_def peek_law_def pop_law_def clear_law_def list_lru_def list_push_law [unfolded list_lru_def])

end
