(* ===== verification/Blocklist.thy ===== *)
theory Blocklist
  imports Names Pause Schedule Lru
begin

unbundle bit_operations_syntax

text \<open>
  The block decision: the decision cache (\<open>cache.rs\<close>), the service catalog
  (\<open>core/src/services.rs\<close>, \<open>services.rs\<close>), SafeSearch (\<open>safesearch.rs\<close>), compiled profiles
  (\<open>profiles.rs\<close>), the subscribed lists as far as decisions read them (\<open>subscriptions.rs\<close>) and
  the engine (\<open>engine.rs\<close>), all of \<open>crates/blocklist/src\<close> but the catalog.

  Third-party code is the record \<open>blk_env\<close>: the public-suffix list, the regular expressions,
  the finite-state maps of the \<open>fst\<close> crate (a map type \<open>'f\<close> with its membership test and its
  number of keys), the LRU cache, and the catalog the build compiles in. An \<open>Instant\<close> is a
  number of nanoseconds. Atomics are read and written in the order of the code; a profile,
  which the code shares by reference, is named by its position in the list of profiles.
\<close>

section \<open>Parameters\<close>

type_synonym Instant = nat

definition from_secs :: "nat \<Rightarrow> nat" where
  "from_secs s = s * 1000000000"

record BlockCacheEntry =
  e_blocked :: bool
  e_expires_at :: Instant

record Service =
  svc_id :: string
  svc_name :: string
  svc_category :: string
  svc_routable :: bool
  svc_domains :: "string list"

record ('r, 'f, 'c) blk_env =
  b_psl :: psl
  b_icann :: "string \<Rightarrow> bool"
  b_rx :: "'r regex_lib"
  b_fst_empty :: 'f
  b_fst_contains :: "'f \<Rightarrow> string \<Rightarrow> bool"
  b_fst_len :: "'f \<Rightarrow> nat"
  b_lru :: "(BlockCacheEntry, 'c) lru_lib"
  b_catalog :: "Service list"

section \<open>The decision cache\<close>

definition ALLOWED_TTL :: nat where "ALLOWED_TTL = 300"
definition BLOCKED_TTL :: nat where "BLOCKED_TTL = 3600"

definition cache_new :: "(BlockCacheEntry, 'c) lru_lib \<Rightarrow> nat \<Rightarrow> 'c" where
  "cache_new L capacity = lru_new L (max capacity 1)"

definition cache_entries :: "(BlockCacheEntry, 'c) lru_lib \<Rightarrow> 'c \<Rightarrow> nat" where
  "cache_entries L c = lru_len L c"

definition cache_get :: "(BlockCacheEntry, 'c) lru_lib \<Rightarrow> Instant \<Rightarrow> 'c \<Rightarrow> string \<Rightarrow> bool option \<times> 'c" where
  "cache_get L now c domain =
     (case lru_get L c domain of
        (Some e, c') \<Rightarrow> if now < e_expires_at e then (Some (e_blocked e), c') else (None, snd (lru_pop L c' domain))
      | (None, c') \<Rightarrow> (None, c'))"

definition cache_insert :: "(BlockCacheEntry, 'c) lru_lib \<Rightarrow> Instant \<Rightarrow> 'c \<Rightarrow> string \<Rightarrow> bool \<Rightarrow> 'c" where
  "cache_insert L now c domain b =
     (let ttl = (if b then BLOCKED_TTL else ALLOWED_TTL) in
      lru_put L c domain \<lparr>e_blocked = b, e_expires_at = now + from_secs ttl\<rparr>)"

definition cache_invalidate :: "(BlockCacheEntry, 'c) lru_lib \<Rightarrow> 'c \<Rightarrow> string \<Rightarrow> 'c" where
  "cache_invalidate L c domain = snd (lru_pop L c domain)"

definition cache_clear :: "(BlockCacheEntry, 'c) lru_lib \<Rightarrow> 'c \<Rightarrow> 'c" where
  "cache_clear L c = lru_clear L c"

definition cache_resize :: "(BlockCacheEntry, 'c) lru_lib \<Rightarrow> 'c \<Rightarrow> nat \<Rightarrow> 'c" where
  "cache_resize L c capacity = lru_resize L c (max capacity 1)"

section \<open>The service catalog\<close>

definition find_service :: "Service list \<Rightarrow> string \<Rightarrow> Service option" where
  "find_service catalog i = find (\<lambda>s. svc_id s = i) catalog"

text \<open>Collecting into a hash map: of two services with the same domain the later one stays.\<close>

definition owners :: "Service list \<Rightarrow> string \<rightharpoonup> Service" where
  "owners catalog = map_of (rev (concat (map (\<lambda>s. map (\<lambda>d. (d, s)) (svc_domains s)) catalog)))"

function owner_walk :: "(string \<rightharpoonup> Service) \<Rightarrow> string \<Rightarrow> Service option" where
  "owner_walk own rest =
     (case own rest of
        Some s \<Rightarrow> Some s
      | None \<Rightarrow> (case split_once (CHR ''.'') rest of None \<Rightarrow> None | Some (_, rest') \<Rightarrow> owner_walk own rest'))"
  by pat_completeness auto
termination
  by (relation "measure (\<lambda>(_, rest). length rest)") (auto simp: split_once_Some)

declare owner_walk.simps [simp del]

definition owner_of :: "Service list \<Rightarrow> string \<Rightarrow> Service option" where
  "owner_of catalog domain = owner_walk (owners catalog) (trim_end_char (\<lambda>c. c = CHR ''.'') domain)"

fun normalize_ids_loop :: "Service list \<Rightarrow> string list \<Rightarrow> string set \<Rightarrow> string list \<Rightarrow> string list \<Rightarrow> string list \<times> string list" where
  "normalize_ids_loop catalog [] seen known unknown = (known, unknown)"
| "normalize_ids_loop catalog (raw # rest) seen known unknown =
     (let i = lowercase (trim raw) in
      if i = [] \<or> i \<in> seen then normalize_ids_loop catalog rest seen known unknown
      else if find_service catalog i \<noteq> None
      then normalize_ids_loop catalog rest (insert i seen) (known @ [i]) unknown
      else normalize_ids_loop catalog rest (insert i seen) known (unknown @ [i]))"

definition normalize_ids :: "Service list \<Rightarrow> string list \<Rightarrow> string list \<times> string list" where
  "normalize_ids catalog is = normalize_ids_loop catalog is {} [] []"

definition domains_of :: "Service list \<Rightarrow> string list \<Rightarrow> string list" where
  "domains_of catalog is = concat (map svc_domains (List.map_filter (find_service catalog) is))"

record ServiceBlock =
  sb_ids :: "string list"
  sb_domains :: "string set"

definition sb_new :: "Service list \<Rightarrow> string list \<Rightarrow> ServiceBlock" where
  "sb_new catalog is =
     (let known = fst (normalize_ids catalog is) in
      \<lparr>sb_ids = known, sb_domains = set (domains_of catalog known)\<rparr>)"

definition sb_contains :: "psl \<Rightarrow> ServiceBlock \<Rightarrow> string \<Rightarrow> bool" where
  "sb_contains psl sb domain \<longleftrightarrow> sb_domains sb \<noteq> {} \<and> domain_in_set psl domain (sb_domains sb)"

definition sb_matches :: "psl \<Rightarrow> Service list \<Rightarrow> ServiceBlock \<Rightarrow> string \<Rightarrow> (Service \<times> string) list" where
  "sb_matches psl catalog sb domain =
     List.map_filter (\<lambda>svc. map_option (\<lambda>key. (svc, key)) (matched_key psl domain (\<lambda>k. k \<in> set (svc_domains svc))))
       (List.map_filter (find_service catalog) (sb_ids sb))"

section \<open>SafeSearch\<close>

datatype YoutubeRestrict = Off | Moderate | Strict

text \<open>The derived order: the stricter setting is the greater one.\<close>

instantiation YoutubeRestrict :: linorder
begin

fun rank_youtube :: "YoutubeRestrict \<Rightarrow> nat" where
  "rank_youtube Off = 0"
| "rank_youtube Moderate = 1"
| "rank_youtube Strict = 2"

definition less_eq_YoutubeRestrict :: "YoutubeRestrict \<Rightarrow> YoutubeRestrict \<Rightarrow> bool" where
  "less_eq_YoutubeRestrict a b \<longleftrightarrow> rank_youtube a \<le> rank_youtube b"

definition less_YoutubeRestrict :: "YoutubeRestrict \<Rightarrow> YoutubeRestrict \<Rightarrow> bool" where
  "less_YoutubeRestrict a b \<longleftrightarrow> rank_youtube a < rank_youtube b"

instance
proof
  fix x y z :: YoutubeRestrict
  have inj: "rank_youtube x = rank_youtube y \<Longrightarrow> x = y" by (cases x; cases y) auto
  show "x < y \<longleftrightarrow> x \<le> y \<and> \<not> y \<le> x" by (auto simp: less_eq_YoutubeRestrict_def less_YoutubeRestrict_def)
  show "x \<le> x" by (simp add: less_eq_YoutubeRestrict_def)
  show "x \<le> y \<Longrightarrow> y \<le> z \<Longrightarrow> x \<le> z" by (simp add: less_eq_YoutubeRestrict_def)
  show "x \<le> y \<Longrightarrow> y \<le> x \<Longrightarrow> x = y" by (rule inj) (simp add: less_eq_YoutubeRestrict_def)
  show "x \<le> y \<or> y \<le> x" by (auto simp: less_eq_YoutubeRestrict_def)
qed

end

record SafeSearch =
  search :: bool
  youtube :: YoutubeRestrict

definition YOUTUBE_HOSTS :: "string list" where
  "YOUTUBE_HOSTS = [''www.youtube.com'', ''m.youtube.com'', ''youtubei.googleapis.com'',
     ''youtube.googleapis.com'', ''www.youtube-nocookie.com'']"

definition BING_HOSTS :: "string list" where
  "BING_HOSTS = [''bing.com'', ''www.bing.com'']"

definition DUCKDUCKGO_HOSTS :: "string list" where
  "DUCKDUCKGO_HOSTS = [''duckduckgo.com'', ''www.duckduckgo.com'', ''start.duckduckgo.com'']"

definition is_google_search_host :: "psl \<Rightarrow> (string \<Rightarrow> bool) \<Rightarrow> string \<Rightarrow> bool" where
  "is_google_search_host psl icann name =
     (let rest = (case strip_prefix name ''www.'' of Some r \<Rightarrow> r | None \<Rightarrow> name) in
      case strip_prefix rest ''google.'' of
        None \<Rightarrow> False
      | Some sfx \<Rightarrow> (case psl sfx of Some s \<Rightarrow> s = sfx \<and> icann s | None \<Rightarrow> False))"

definition safe_is_off :: "SafeSearch \<Rightarrow> bool" where
  "safe_is_off s \<longleftrightarrow> \<not> search s \<and> youtube s = Off"

definition safe_max :: "SafeSearch \<Rightarrow> SafeSearch \<Rightarrow> SafeSearch" where
  "safe_max a b = \<lparr>search = (search a \<or> search b), youtube = max (youtube a) (youtube b)\<rparr>"

definition safe_target :: "psl \<Rightarrow> (string \<Rightarrow> bool) \<Rightarrow> SafeSearch \<Rightarrow> string \<Rightarrow> string option" where
  "safe_target psl icann s name =
     (if youtube s \<noteq> Off \<and> name \<in> set YOUTUBE_HOSTS
      then Some (case youtube s of Strict \<Rightarrow> ''restrict.youtube.com'' | _ \<Rightarrow> ''restrictmoderate.youtube.com'')
      else if \<not> search s then None
      else if name \<in> set BING_HOSTS then Some ''strict.bing.com''
      else if name \<in> set DUCKDUCKGO_HOSTS then Some ''safe.duckduckgo.com''
      else if is_google_search_host psl icann name then Some ''forcesafesearch.google.com'' else None)"

definition pack_safe :: "SafeSearch \<Rightarrow> u8" where
  "pack_safe s = (let yt = (case youtube s of Off \<Rightarrow> 0 | Moderate \<Rightarrow> 1 | Strict \<Rightarrow> 2) in
     (if search s then 1 else 0) OR push_bit 1 yt)"

definition unpack_safe :: "u8 \<Rightarrow> SafeSearch" where
  "unpack_safe bits = \<lparr>search = (bits AND 1 = 1),
     youtube = (if drop_bit 1 bits = 0 then Off else if drop_bit 1 bits = 1 then Moderate else Strict)\<rparr>"

section \<open>Profiles\<close>

record ('r, 'f, 'c) CompiledProfile =
  p_id :: string
  p_schedule :: Schedule
  p_safe :: SafeSearch
  p_clients :: "string set"
  p_fst :: 'f
  p_cache :: 'c
  p_allow_exact :: "string set"
  p_allow_wild :: "'r list"
  p_block_exact :: "string set"
  p_block_wild :: "'r list"
  p_allow_fst :: "'f option"
  p_default_deny :: bool

definition matches_client :: "('r, 'f, 'c) CompiledProfile \<Rightarrow> string \<Rightarrow> string option \<Rightarrow> bool" where
  "matches_client p client_ip mac \<longleftrightarrow> client_ip \<in> p_clients p \<or>
     (case mac of None \<Rightarrow> False | Some m \<Rightarrow> m \<in> p_clients p)"

definition active_at :: "('r, 'f, 'c) CompiledProfile \<Rightarrow> nat \<Rightarrow> bool" where
  "active_at p minute = schedule_is_active (p_schedule p) minute"

definition p_allows :: "('r, 'f, 'c) blk_env \<Rightarrow> ('r, 'f, 'c) CompiledProfile \<Rightarrow> string \<Rightarrow> bool" where
  "p_allows E p domain \<longleftrightarrow> domain_in_set (b_psl E) domain (p_allow_exact p) \<or>
     list_ex (\<lambda>re. rx_is_match (b_rx E) re domain) (p_allow_wild p)"

definition p_blocks :: "('r, 'f, 'c) blk_env \<Rightarrow> ('r, 'f, 'c) CompiledProfile \<Rightarrow> string \<Rightarrow> bool" where
  "p_blocks E p domain \<longleftrightarrow> domain_in_set (b_psl E) domain (p_block_exact p) \<or>
     list_ex (\<lambda>re. rx_is_match (b_rx E) re domain) (p_block_wild p)"

fun split_patterns :: "'r regex_lib \<Rightarrow> string list \<Rightarrow> string set \<times> 'r list \<Rightarrow> string set \<times> 'r list" where
  "split_patterns rx [] acc = acc"
| "split_patterns rx (p # ps) (ex, wild) =
     (let norm = normalise p in
      if norm = [] then split_patterns rx ps (ex, wild)
      else if is_pattern norm then
        (case pattern_to_regex rx norm of
           Inr re \<Rightarrow> split_patterns rx ps (ex, wild @ [re])
         | Inl _ \<Rightarrow> split_patterns rx ps (ex, wild))
      else split_patterns rx ps (insert norm ex, wild))"

section \<open>Subscribed lists\<close>

text \<open>\<open>disk\<close> is the map of a list's own file, when the file can be opened.\<close>

record 'f Subscriptions =
  s_lists :: "(string \<times> bool) list"
  s_fst :: 'f

definition attribute :: "('r, 'f, 'c) blk_env \<Rightarrow> (string \<Rightarrow> 'f option) \<Rightarrow> 'f Subscriptions \<Rightarrow> string \<Rightarrow> (string \<times> string) list" where
  "attribute E disk subs domain =
     List.map_filter (\<lambda>(name, _). do {
       m \<leftarrow> disk name;
       key \<leftarrow> matched_key (b_psl E) domain (b_fst_contains E m);
       Some (name, key)
     }) (filter snd (s_lists subs))"

definition merged_match :: "('r, 'f, 'c) blk_env \<Rightarrow> 'f Subscriptions \<Rightarrow> string \<Rightarrow> string option" where
  "merged_match E subs domain = matched_key (b_psl E) domain (b_fst_contains E (s_fst subs))"

datatype 'e subs_error = AlreadyExists 'e

definition subs_add :: "'f Subscriptions \<Rightarrow> string \<times> bool \<Rightarrow> string subs_error + 'f Subscriptions" where
  "subs_add subs cfg =
     (if list_ex (\<lambda>l. fst l = fst cfg) (s_lists subs) then Inl (AlreadyExists (fst cfg))
      else Inr (subs\<lparr>s_lists := s_lists subs @ [cfg]\<rparr>))"

definition subs_remove :: "'f Subscriptions \<Rightarrow> string \<Rightarrow> bool \<times> 'f Subscriptions" where
  "subs_remove subs name =
     (let ls = filter (\<lambda>l. fst l \<noteq> name) (s_lists subs) in
      (length ls < length (s_lists subs), subs\<lparr>s_lists := ls\<rparr>))"

fun set_first_enabled :: "string \<Rightarrow> bool \<Rightarrow> (string \<times> bool) list \<Rightarrow> (string \<times> bool) list option" where
  "set_first_enabled name en [] = None"
| "set_first_enabled name en (l # ls) =
     (if fst l = name then Some ((fst l, en) # ls) else map_option (\<lambda>r. l # r) (set_first_enabled name en ls))"

definition subs_set_enabled :: "'f Subscriptions \<Rightarrow> string \<Rightarrow> bool \<Rightarrow> bool \<times> 'f Subscriptions" where
  "subs_set_enabled subs name en =
     (case set_first_enabled name en (s_lists subs) of
        Some ls \<Rightarrow> (True, subs\<lparr>s_lists := ls\<rparr>)
      | None \<Rightarrow> (False, subs))"

section \<open>The engine\<close>

record ('r, 'f, 'c) Blocklist =
  enabled :: bool
  pauses :: Pauses
  has_client_bypass :: bool
  has_profiles :: bool
  block :: "'f Subscriptions"
  allow :: "'f Subscriptions"
  profiles :: "('r, 'f, 'c) CompiledProfile list"
  client_bypass :: "string set"
  whitelist :: "'r ManualList"
  blacklist :: "'r ManualList"
  blocked_services :: ServiceBlock
  cache :: 'c
  local_zones :: "string list"
  profiles_stale :: bool
  safe_search_bits :: u8
  clock :: nat

definition blocking_enabled :: "('r, 'f, 'c) Blocklist \<Rightarrow> bool" where
  "blocking_enabled b \<longleftrightarrow> enabled b \<and> \<not> global_active (pauses b)"

definition set_blocking_enabled :: "('r, 'f, 'c) Blocklist \<Rightarrow> bool \<Rightarrow> ('r, 'f, 'c) Blocklist" where
  "set_blocking_enabled b on = b\<lparr>enabled := on\<rparr>"

definition has_client_exceptions :: "('r, 'f, 'c) Blocklist \<Rightarrow> bool" where
  "has_client_exceptions b \<longleftrightarrow> has_client_bypass b \<or> any_clients (pauses b)"

definition client_bypasses_blocking_normalized :: "('r, 'f, 'c) Blocklist \<Rightarrow> string \<Rightarrow> string option \<Rightarrow> bool" where
  "client_bypasses_blocking_normalized b client_ip mac =
     (if \<not> has_client_bypass b then False
      else client_ip \<in> client_bypass b \<or> (case mac of None \<Rightarrow> False | Some key \<Rightarrow> key \<in> client_bypass b))"

definition client_bypasses_blocking :: "('r, 'f, 'c) Blocklist \<Rightarrow> string \<Rightarrow> string option \<Rightarrow> bool" where
  "client_bypasses_blocking b client_ip mac =
     (if \<not> has_client_bypass b then False
      else (case normalize_client_key client_ip of None \<Rightarrow> False | Some key \<Rightarrow> key \<in> client_bypass b) \<or>
        (case Option.bind mac normalize_client_key of None \<Rightarrow> False | Some key \<Rightarrow> key \<in> client_bypass b))"

definition client_filtering_off_normalized :: "('r, 'f, 'c) Blocklist \<Rightarrow> string \<Rightarrow> string option \<Rightarrow> bool" where
  "client_filtering_off_normalized b client_ip mac \<longleftrightarrow>
     client_bypasses_blocking_normalized b client_ip mac \<or> client_paused (pauses b) client_ip mac"

definition normalize_client_keys :: "string list \<Rightarrow> string list" where
  "normalize_client_keys entries = sorted_list_of_set (set (List.map_filter normalize_client_key entries))"

definition set_client_bypass :: "('r, 'f, 'c) Blocklist \<Rightarrow> string list \<Rightarrow> ('r, 'f, 'c) Blocklist" where
  "set_client_bypass b entries =
     (let normalized = set (normalize_client_keys entries) in
      b\<lparr>client_bypass := normalized, has_client_bypass := normalized \<noteq> {}\<rparr>)"

text \<open>The walk over the parents of a name in a map.\<close>

function fst_walk :: "('r, 'f, 'c) blk_env \<Rightarrow> 'f \<Rightarrow> string \<Rightarrow> bool" where
  "fst_walk E m rest =
     (case split_once (CHR ''.'') rest of
        None \<Rightarrow> False
      | Some (_, rest') \<Rightarrow>
          if b_fst_contains E m rest' \<and> is_registrable_or_deeper (b_psl E) rest' then True else fst_walk E m rest')"
  by pat_completeness auto
termination
  by (relation "measure (\<lambda>(_, _, rest). length rest)") (auto simp: split_once_Some)

declare fst_walk.simps [simp del]

definition check_blocked_in :: "('r, 'f, 'c) blk_env \<Rightarrow> ('r, 'f, 'c) Blocklist \<Rightarrow> string \<Rightarrow> 'f \<Rightarrow> bool" where
  "check_blocked_in E b domain m =
     (if ml_contains (b_psl E) (b_rx E) (blacklist b) domain \<or> sb_contains (b_psl E) (blocked_services b) domain
      then True
      else if b_fst_contains E m domain then True
      else fst_walk E m domain)"

definition is_blocked_normalized :: "('r, 'f, 'c) blk_env \<Rightarrow> Instant \<Rightarrow> ('r, 'f, 'c) Blocklist \<Rightarrow> string \<Rightarrow> bool \<times> ('r, 'f, 'c) Blocklist" where
  "is_blocked_normalized E now b domain =
     (case cache_get (b_lru E) now (cache b) domain of
        (Some cached, c) \<Rightarrow> (cached, b\<lparr>cache := c\<rparr>)
      | (None, c) \<Rightarrow>
          (let result = check_blocked_in E b domain (s_fst (block b)) in
           (result, b\<lparr>cache := cache_insert (b_lru E) now c domain result\<rparr>)))"

definition is_blocked_for_normalized :: "('r, 'f, 'c) blk_env \<Rightarrow> Instant \<Rightarrow> ('r, 'f, 'c) Blocklist \<Rightarrow> string \<Rightarrow> nat option \<Rightarrow> bool \<times> ('r, 'f, 'c) Blocklist" where
  "is_blocked_for_normalized E now b domain profile =
     (case profile of
        None \<Rightarrow> is_blocked_normalized E now b domain
      | Some i \<Rightarrow>
          (let p = profiles b ! i; put = (\<lambda>c. b\<lparr>profiles := (profiles b)[i := p\<lparr>p_cache := c\<rparr>]\<rparr>) in
           case cache_get (b_lru E) now (p_cache p) domain of
             (Some cached, c) \<Rightarrow> (cached, put c)
           | (None, c) \<Rightarrow>
               (let result = check_blocked_in E b domain (p_fst p) in
                (result, put (cache_insert (b_lru E) now c domain result)))))"

definition is_whitelisted_for_normalized :: "('r, 'f, 'c) blk_env \<Rightarrow> ('r, 'f, 'c) Blocklist \<Rightarrow> string \<Rightarrow> nat option \<Rightarrow> bool" where
  "is_whitelisted_for_normalized E b domain profile =
     (if ml_contains (b_psl E) (b_rx E) (whitelist b) domain then True
      else case Option.bind profile (\<lambda>i. p_allow_fst (profiles b ! i)) of
        Some m \<Rightarrow> matched_key (b_psl E) domain (b_fst_contains E m) \<noteq> None
      | None \<Rightarrow>
          (let m = s_fst (allow b) in
           b_fst_len E m \<noteq> 0 \<and> matched_key (b_psl E) domain (b_fst_contains E m) \<noteq> None))"

definition is_allowed_for :: "('r, 'f, 'c) blk_env \<Rightarrow> ('r, 'f, 'c) Blocklist \<Rightarrow> string \<Rightarrow> nat option \<Rightarrow> bool" where
  "is_allowed_for E b domain profile =
     (if (case profile of Some i \<Rightarrow> p_allows E (profiles b ! i) domain | None \<Rightarrow> False) then True
      else is_whitelisted_for_normalized E b domain profile)"

definition LOCAL_SUFFIXES :: "string list" where
  "LOCAL_SUFFIXES = [''arpa'', ''local'', ''localhost'', ''localdomain'', ''internal'', ''lan'', ''home'']"

definition is_local_infra :: "('r, 'f, 'c) Blocklist \<Rightarrow> string \<Rightarrow> bool" where
  "is_local_infra b domain =
     (if CHR ''.'' \<notin> set domain then True
      else if list_ex (has_suffix domain) LOCAL_SUFFIXES then True
      else list_ex (has_suffix domain) (local_zones b))"

definition set_local_zones :: "('r, 'f, 'c) Blocklist \<Rightarrow> string list \<Rightarrow> ('r, 'f, 'c) Blocklist" where
  "set_local_zones b zones = b\<lparr>local_zones := map normalise zones\<rparr>"

definition should_block_for :: "('r, 'f, 'c) blk_env \<Rightarrow> Instant \<Rightarrow> ('r, 'f, 'c) Blocklist \<Rightarrow> string \<Rightarrow> nat option \<Rightarrow> bool \<times> ('r, 'f, 'c) Blocklist" where
  "should_block_for E now b domain profile =
     (if (case profile of Some i \<Rightarrow> p_allows E (profiles b ! i) domain | None \<Rightarrow> False) then (False, b)
      else if (case profile of Some i \<Rightarrow> p_blocks E (profiles b ! i) domain | None \<Rightarrow> False) then (True, b)
      else if is_whitelisted_for_normalized E b domain profile then (False, b)
      else if (case profile of Some i \<Rightarrow> p_default_deny (profiles b ! i) \<and> \<not> is_local_infra b domain | None \<Rightarrow> False)
      then (True, b)
      else is_blocked_for_normalized E now b domain profile)"

definition profile_for :: "('r, 'f, 'c) Blocklist \<Rightarrow> string \<Rightarrow> string option \<Rightarrow> nat option" where
  "profile_for b client_ip mac =
     (if \<not> has_profiles b then None
      else position (\<lambda>p. matches_client p client_ip mac \<and> active_at p (clock b)) (profiles b))"

definition set_clock :: "('r, 'f, 'c) Blocklist \<Rightarrow> nat \<Rightarrow> ('r, 'f, 'c) Blocklist" where
  "set_clock b minute_of_week = b\<lparr>clock := minute_of_week mod MINUTES_PER_WEEK\<rparr>"

definition set_safe_search :: "('r, 'f, 'c) Blocklist \<Rightarrow> SafeSearch \<Rightarrow> ('r, 'f, 'c) Blocklist" where
  "set_safe_search b safe = b\<lparr>safe_search_bits := pack_safe safe\<rparr>"

definition safe_search :: "('r, 'f, 'c) Blocklist \<Rightarrow> SafeSearch" where
  "safe_search b = unpack_safe (safe_search_bits b)"

definition safe_search_target :: "('r, 'f, 'c) blk_env \<Rightarrow> ('r, 'f, 'c) Blocklist \<Rightarrow> string \<Rightarrow> nat option \<Rightarrow> string option" where
  "safe_search_target E b name profile =
     (let safe = (case profile of Some i \<Rightarrow> safe_max (safe_search b) (p_safe (profiles b ! i)) | None \<Rightarrow> safe_search b) in
      if safe_is_off safe then None else safe_target (b_psl E) (b_icann E) safe name)"

definition profile_activity :: "('r, 'f, 'c) Blocklist \<Rightarrow> (string \<times> bool) list" where
  "profile_activity b = map (\<lambda>p. (p_id p, active_at p (clock b))) (profiles b)"

text \<open>The parts of the two configuration sections the engine is built from.\<close>

record BlkConfig =
  c_enabled :: bool
  c_client_bypass :: "string list"
  c_whitelist :: "string list"
  c_allow_domains :: "string list"
  c_domains :: "string list"
  c_wildcard_block :: "string list"
  c_lists :: "(string \<times> bool) list"
  c_allow_lists :: "(string \<times> bool) list"
  c_has_profiles :: bool
  c_services :: "string list"
  c_decision_cache_size :: nat
  c_safe_search :: bool
  c_youtube_restricted :: YoutubeRestrict

definition blocklist_new :: "('r, 'f, 'c) blk_env \<Rightarrow> BlkConfig \<Rightarrow> nat \<Rightarrow> ('r, 'f, 'c) Blocklist" where
  "blocklist_new E cfg minute =
     (let bypass = set (normalize_client_keys (c_client_bypass cfg)) in
      \<lparr>enabled = c_enabled cfg, pauses = pauses_default, has_client_bypass = (bypass \<noteq> {}),
       has_profiles = c_has_profiles cfg,
       block = \<lparr>s_lists = c_lists cfg, s_fst = b_fst_empty E\<rparr>,
       allow = \<lparr>s_lists = c_allow_lists cfg, s_fst = b_fst_empty E\<rparr>,
       profiles = [], client_bypass = bypass,
       whitelist = from_entries (b_rx E) (c_whitelist cfg @ c_allow_domains cfg),
       blacklist = from_entries (b_rx E) (c_domains cfg @ c_wildcard_block cfg),
       blocked_services = sb_new (b_catalog E) (c_services cfg),
       cache = cache_new (b_lru E) (c_decision_cache_size cfg), local_zones = [], profiles_stale = False,
       safe_search_bits = pack_safe \<lparr>search = c_safe_search cfg, youtube = c_youtube_restricted cfg\<rparr>,
       clock = minute\<rparr>)"

section \<open>Explanations\<close>

record MatchInfo =
  m_entry :: string
  m_matched :: string
  m_list :: "string option"

record BlockSource =
  src_kind :: string
  src_name :: string
  src_matched :: string

record BlockExplanation =
  ex_domain :: string
  ex_blocked :: bool
  ex_whitelisted :: bool
  ex_whitelist_match :: "MatchInfo option"
  ex_sources :: "BlockSource list"

definition whitelist_match :: "('r, 'f, 'c) blk_env \<Rightarrow> (string \<Rightarrow> 'f option) \<Rightarrow> ('r, 'f, 'c) Blocklist \<Rightarrow> string \<Rightarrow> MatchInfo option" where
  "whitelist_match E disk b domain =
     (case exact_match (b_psl E) (whitelist b) domain of
        Some key \<Rightarrow> Some \<lparr>m_entry = key, m_matched = key, m_list = None\<rparr>
      | None \<Rightarrow>
     (case matching_patterns (b_rx E) (whitelist b) domain of
        pat # _ \<Rightarrow> Some \<lparr>m_entry = pat, m_matched = domain, m_list = None\<rparr>
      | [] \<Rightarrow>
     (case attribute E disk (allow b) domain of
        (name, key) # _ \<Rightarrow> Some \<lparr>m_entry = key, m_matched = key, m_list = Some name\<rparr>
      | [] \<Rightarrow>
     (case merged_match E (allow b) domain of
        Some key \<Rightarrow> Some \<lparr>m_entry = key, m_matched = key,
          m_list = Some ''allowlist subscription (source file unavailable)''\<rparr>
      | None \<Rightarrow> None))))"

definition block_sources :: "('r, 'f, 'c) blk_env \<Rightarrow> (string \<Rightarrow> 'f option) \<Rightarrow> ('r, 'f, 'c) Blocklist \<Rightarrow> string \<Rightarrow> BlockSource list" where
  "block_sources E disk b domain =
     (let lists = attribute E disk (block b) domain in
      (case exact_match (b_psl E) (blacklist b) domain of
         Some key \<Rightarrow> [\<lparr>src_kind = ''blacklist'', src_name = ''manual blacklist'', src_matched = key\<rparr>]
       | None \<Rightarrow> []) @
      map (\<lambda>pat. \<lparr>src_kind = (if regex_body pat \<noteq> None then ''regex'' else ''wildcard''), src_name = pat,
          src_matched = domain\<rparr>) (matching_patterns (b_rx E) (blacklist b) domain) @
      map (\<lambda>(svc, key). \<lparr>src_kind = ''service'', src_name = svc_name svc, src_matched = key\<rparr>)
        (sb_matches (b_psl E) (b_catalog E) (blocked_services b) domain) @
      map (\<lambda>(name, key). \<lparr>src_kind = ''list'', src_name = name, src_matched = key\<rparr>) lists @
      (if lists = [] then
         (case merged_match E (block b) domain of
            Some key \<Rightarrow> [\<lparr>src_kind = ''list'', src_name = ''subscription (source file unavailable)'', src_matched = key\<rparr>]
          | None \<Rightarrow> [])
       else []))"

definition explain :: "('r, 'f, 'c) blk_env \<Rightarrow> (string \<Rightarrow> 'f option) \<Rightarrow> (string \<Rightarrow> 'f option) \<Rightarrow> ('r, 'f, 'c) Blocklist \<Rightarrow> string \<Rightarrow> BlockExplanation" where
  "explain E disk allow_disk b raw =
     (let domain = normalise raw;
          wm = whitelist_match E allow_disk b domain;
          sources = block_sources E disk b domain in
      \<lparr>ex_domain = domain, ex_blocked = (wm = None \<and> sources \<noteq> []), ex_whitelisted = (wm \<noteq> None),
       ex_whitelist_match = wm, ex_sources = sources\<rparr>)"

section \<open>Changes\<close>

definition clear_decision_caches :: "('r, 'f, 'c) blk_env \<Rightarrow> ('r, 'f, 'c) Blocklist \<Rightarrow> ('r, 'f, 'c) Blocklist" where
  "clear_decision_caches E b = b\<lparr>cache := cache_clear (b_lru E) (cache b),
     profiles := map (\<lambda>p. p\<lparr>p_cache := cache_clear (b_lru E) (p_cache p)\<rparr>) (profiles b)\<rparr>"

definition add_whitelist :: "('r, 'f, 'c) blk_env \<Rightarrow> ('r, 'f, 'c) Blocklist \<Rightarrow> string \<Rightarrow> PatternError + ('r, 'f, 'c) Blocklist" where
  "add_whitelist E b domain =
     (case ml_add (b_rx E) (whitelist b) domain of
        Inl e \<Rightarrow> Inl e
      | Inr ml \<Rightarrow> Inr (clear_decision_caches E (b\<lparr>whitelist := ml\<rparr>)))"

definition remove_whitelist :: "('r, 'f, 'c) blk_env \<Rightarrow> ('r, 'f, 'c) Blocklist \<Rightarrow> string \<Rightarrow> ('r, 'f, 'c) Blocklist" where
  "remove_whitelist E b domain = clear_decision_caches E (b\<lparr>whitelist := ml_remove (whitelist b) domain\<rparr>)"

definition add_blacklist :: "('r, 'f, 'c) blk_env \<Rightarrow> ('r, 'f, 'c) Blocklist \<Rightarrow> string \<Rightarrow> PatternError + ('r, 'f, 'c) Blocklist" where
  "add_blacklist E b domain =
     (case ml_add (b_rx E) (blacklist b) domain of
        Inl e \<Rightarrow> Inl e
      | Inr ml \<Rightarrow> Inr (clear_decision_caches E (b\<lparr>blacklist := ml\<rparr>)))"

definition remove_blacklist :: "('r, 'f, 'c) blk_env \<Rightarrow> ('r, 'f, 'c) Blocklist \<Rightarrow> string \<Rightarrow> ('r, 'f, 'c) Blocklist" where
  "remove_blacklist E b domain = clear_decision_caches E (b\<lparr>blacklist := ml_remove (blacklist b) domain\<rparr>)"

definition set_blocked_services :: "('r, 'f, 'c) blk_env \<Rightarrow> ('r, 'f, 'c) Blocklist \<Rightarrow> string list \<Rightarrow> ('r, 'f, 'c) Blocklist" where
  "set_blocked_services E b is = clear_decision_caches E (b\<lparr>blocked_services := sb_new (b_catalog E) is\<rparr>)"

definition set_decision_cache_size :: "('r, 'f, 'c) blk_env \<Rightarrow> ('r, 'f, 'c) Blocklist \<Rightarrow> nat \<Rightarrow> ('r, 'f, 'c) Blocklist" where
  "set_decision_cache_size E b n = b\<lparr>cache := cache_resize (b_lru E) (cache b) n\<rparr>"

definition invalidate :: "('r, 'f, 'c) blk_env \<Rightarrow> ('r, 'f, 'c) Blocklist \<Rightarrow> string \<Rightarrow> ('r, 'f, 'c) Blocklist" where
  "invalidate E b domain = b\<lparr>cache := cache_invalidate (b_lru E) (cache b) domain\<rparr>"

text \<open>
  A refresh: \<open>got\<close> is what the refresh of the blocklists returned (the map, the number of
  unique names, whether it moved), or nothing on failure; \<open>allow_got\<close> likewise for the
  allowlists; \<open>compiled\<close> is the outcome of compiling the profiles off the new maps, nothing
  when that task failed.
\<close>

definition rebuild_profiles_off_thread :: "('r, 'f, 'c) Blocklist \<Rightarrow> ('r, 'f, 'c) CompiledProfile list option \<Rightarrow> ('r, 'f, 'c) Blocklist" where
  "rebuild_profiles_off_thread b compiled =
     (case compiled of Some ps \<Rightarrow> b\<lparr>profiles := ps, profiles_stale := False\<rparr> | None \<Rightarrow> b)"

definition refresh_allowlists :: "('r, 'f, 'c) Blocklist \<Rightarrow> bool \<Rightarrow> ('f \<times> nat \<times> bool) option \<Rightarrow> bool \<times> ('r, 'f, 'c) Blocklist" where
  "refresh_allowlists b merged_exists allow_got =
     (if \<not> list_ex snd (s_lists (allow b)) \<and> \<not> merged_exists then (False, b)
      else case allow_got of
        Some (m, _, changed) \<Rightarrow> (changed, b\<lparr>allow := (allow b)\<lparr>s_fst := m\<rparr>\<rparr>)
      | None \<Rightarrow> (False, b))"

definition refresh :: "('r, 'f, 'c) blk_env \<Rightarrow> ('r, 'f, 'c) Blocklist \<Rightarrow> ('f \<times> nat \<times> bool) option \<Rightarrow> bool \<Rightarrow>
    ('f \<times> nat \<times> bool) option \<Rightarrow> ('r, 'f, 'c) CompiledProfile list option \<Rightarrow> nat option \<times> ('r, 'f, 'c) Blocklist" where
  "refresh E b got merged_exists allow_got compiled =
     (case got of
        None \<Rightarrow> (None, b)
      | Some (m, unique_count, changed) \<Rightarrow>
          (let b = b\<lparr>block := (block b)\<lparr>s_fst := m\<rparr>\<rparr>;
               (allow_changed, b) = refresh_allowlists b merged_exists allow_got in
           (Some unique_count,
            if changed \<or> allow_changed \<or> profiles_stale b
            then rebuild_profiles_off_thread (b\<lparr>cache := cache_clear (b_lru E) (cache b)\<rparr>) compiled
            else b)))"

text \<open>
  Installing compiled profiles, and loading what the previous run left on disk: \<open>loaded\<close> is the
  outcome of opening the merged map (an error, no file, or the map).
\<close>

definition store_profiles :: "('r, 'f, 'c) Blocklist \<Rightarrow> ('r, 'f, 'c) CompiledProfile list \<times> bool \<Rightarrow> ('r, 'f, 'c) Blocklist" where
  "store_profiles b compiled = b\<lparr>profiles := fst compiled, profiles_stale := snd compiled\<rparr>"

definition set_profiles :: "('r, 'f, 'c) Blocklist \<Rightarrow> bool \<Rightarrow> ('r, 'f, 'c) CompiledProfile list \<times> bool \<Rightarrow> ('r, 'f, 'c) Blocklist" where
  "set_profiles b any compiled = store_profiles (b\<lparr>has_profiles := any\<rparr>) compiled"

definition load_merged :: "'f Subscriptions \<Rightarrow> unit + 'f option \<Rightarrow> 'f Subscriptions" where
  "load_merged subs loaded = (case loaded of Inr (Some m) \<Rightarrow> subs\<lparr>s_fst := m\<rparr> | _ \<Rightarrow> subs)"

definition load_allow_from_disk :: "('r, 'f, 'c) Blocklist \<Rightarrow> unit + 'f option \<Rightarrow> bool \<times> ('r, 'f, 'c) Blocklist" where
  "load_allow_from_disk b loaded =
     (let configured = s_lists (allow b) \<noteq> [] in
      (case loaded of Inr (Some _) \<Rightarrow> True | _ \<Rightarrow> \<not> configured, b\<lparr>allow := load_merged (allow b) loaded\<rparr>))"

definition load_from_disk :: "('r, 'f, 'c) blk_env \<Rightarrow> ('r, 'f, 'c) Blocklist \<Rightarrow> unit + 'f option \<Rightarrow> unit + 'f option \<Rightarrow>
    ('r, 'f, 'c) CompiledProfile list \<times> bool \<Rightarrow> bool \<times> ('r, 'f, 'c) Blocklist" where
  "load_from_disk E b loaded allow_loaded compiled =
     (let b = b\<lparr>block := load_merged (block b) loaded\<rparr> in
      case loaded of
        Inr (Some _) \<Rightarrow>
          (let b = b\<lparr>cache := cache_clear (b_lru E) (cache b)\<rparr>;
               (allow_ok, b) = load_allow_from_disk b allow_loaded in
           (allow_ok, store_profiles b compiled))
      | _ \<Rightarrow> (False, b))"

definition PROFILE_DECISION_CACHE :: nat where "PROFILE_DECISION_CACHE = 8192"

end
