(* ===== verification/Blocklist_Correct.thy ===== *)
theory Blocklist_Correct
  imports Blocklist
begin

unbundle bit_operations_syntax

text \<open>
  Correctness of the block decision. The reference is \<open>decide\<close>, the decision without any
  cache in the documented order of precedence. The engine reaches its states by the steps
  of \<open>engine_step\<close>; in each of them every cached decision is the one the lists give now
  (\<open>coherent\<close>), so the cached decision is the reference decision. The last section shows
  what an interleaving of a query with a change does.
\<close>

section \<open>One cache\<close>

definition cache_ok :: "(BlockCacheEntry, 'c) lru_lib \<Rightarrow> 'c \<Rightarrow> (string \<Rightarrow> bool) \<Rightarrow> bool" where
  "cache_ok L c P \<longleftrightarrow> lru_wf L c \<and> 0 < lru_cap L c \<and> (\<forall>(k, e) \<in> set (lru_iter L c). e_blocked e = P k)"

lemma cache_ok_sub:
  "cache_ok L c P \<Longrightarrow> lru_wf L c' \<Longrightarrow> 0 < lru_cap L c' \<Longrightarrow> set (lru_iter L c') \<subseteq> set (lru_iter L c) \<Longrightarrow> cache_ok L c' P"
  by (auto simp: cache_ok_def)

lemma cache_pop_ok:
  assumes laws: "lru_laws L" and ok: "cache_ok L c P" and run: "lru_pop L c d = (x, c')"
  shows "cache_ok L c' P"
proof -
  have wf: "lru_wf L c" using ok by (simp add: cache_ok_def)
  show ?thesis using lru_pop_ok [OF laws wf run] lru_pop_set [OF laws wf run] ok
    by (intro cache_ok_sub [OF ok]) (auto simp: cache_ok_def)
qed

lemma cache_get_ok:
  assumes laws: "lru_laws L" and ok: "cache_ok L c P" and run: "cache_get L now c d = (out, c')"
  shows "cache_ok L c' P \<and> (\<forall>r. out = Some r \<longrightarrow> r = P d)"
proof -
  have wf: "lru_wf L c" using ok by (simp add: cache_ok_def)
  obtain e c1 where g: "lru_get L c d = (e, c1)" by (cases "lru_get L c d")
  note get = lru_get_ok [OF laws wf g]
  then have ok1: "cache_ok L c1 P"
    using ok lru_get_set [OF laws wf g] by (simp add: cache_ok_def)
  obtain x c2 where p: "lru_pop L c1 d = (x, c2)" by (cases "lru_pop L c1 d")
  note ok2 = cache_pop_ok [OF laws ok1 p]
  show ?thesis
  proof (cases e)
    case None
    then show ?thesis using run ok1 by (auto simp: cache_get_def g)
  next
    case (Some en)
    then have "(d, en) \<in> set (lru_iter L c)" using get lru_peek_iff [OF laws wf, of d en] by simp
    then have "e_blocked en = P d" using ok by (auto simp: cache_ok_def)
    then show ?thesis using run ok1 ok2 Some by (auto simp: cache_get_def g p split: if_splits)
  qed
qed

lemma cache_insert_ok:
  assumes laws: "lru_laws L" and ok: "cache_ok L c P"
  shows "cache_ok L (cache_insert L now c d (P d)) P"
proof -
  obtain en where en: "en = \<lparr>e_blocked = P d, e_expires_at = now + from_secs (if P d then BLOCKED_TTL else ALLOWED_TTL)\<rparr>" by simp
  obtain out c' where p: "lru_push L c d en = (out, c')" by (cases "lru_push L c d en")
  have wf: "lru_wf L c" "0 < lru_cap L c" using ok by (simp_all add: cache_ok_def)
  have "cache_ok L c' P"
    using lru_push_ok [OF laws wf p] lru_push_set [OF laws wf p] ok wf en by (auto simp: cache_ok_def)
  then show ?thesis using p en by (simp add: cache_insert_def lru_put_def)
qed

lemma cache_clear_ok: "lru_laws L \<Longrightarrow> cache_ok L c P \<Longrightarrow> cache_ok L (cache_clear L c) Q"
  using lru_clear_ok [of L c] by (simp add: cache_ok_def cache_clear_def)

lemma cache_new_ok: "lru_laws L \<Longrightarrow> cache_ok L (cache_new L n) P"
  using lru_new_ok [of L "max n 1"] by (simp add: cache_ok_def cache_new_def)

lemma cache_resize_ok:
  assumes "lru_laws L" and "cache_ok L c P"
  shows "cache_ok L (cache_resize L c n) P"
proof -
  have wf: "lru_wf L c" using assms(2) by (simp add: cache_ok_def)
  show ?thesis unfolding cache_resize_def
    using lru_resize_ok [OF assms(1) wf, of "max n 1"] lru_resize_set [OF assms(1) wf, of "max n 1"]
    by (intro cache_ok_sub [OF assms(2)]) auto
qed

lemma cache_invalidate_ok: "lru_laws L \<Longrightarrow> cache_ok L c P \<Longrightarrow> cache_ok L (cache_invalidate L c d) P"
  unfolding cache_invalidate_def by (rule cache_pop_ok [of L c P d "fst (lru_pop L c d)"]) simp_all

section \<open>The reference decision\<close>

definition map_covers :: "('r, 'f, 'c) blk_env \<Rightarrow> 'f \<Rightarrow> string \<Rightarrow> bool" where
  "map_covers E m domain \<longleftrightarrow> matched_key (b_psl E) domain (b_fst_contains E m) \<noteq> None"

lemma fst_walk_matched: "fst_walk E m d \<longleftrightarrow> matched_walk (b_psl E) (b_fst_contains E m) d \<noteq> None"
proof (induction E m d rule: fst_walk.induct)
  case (1 E m d)
  then show ?case
    by (simp add: fst_walk.simps [of E m d] matched_walk.simps [of _ _ d] split: option.splits prod.splits)
qed

lemma check_blocked_in_iff:
  "check_blocked_in E b d m \<longleftrightarrow> ml_contains (b_psl E) (b_rx E) (blacklist b) d \<or>
     sb_contains (b_psl E) (blocked_services b) d \<or> map_covers E m d"
  by (simp add: check_blocked_in_def map_covers_def matched_key_def fst_walk_matched)

definition profile_fst :: "('r, 'f, 'c) Blocklist \<Rightarrow> nat option \<Rightarrow> 'f" where
  "profile_fst b profile = (case profile of Some i \<Rightarrow> p_fst (profiles b ! i) | None \<Rightarrow> s_fst (block b))"

definition decide :: "('r, 'f, 'c) blk_env \<Rightarrow> ('r, 'f, 'c) Blocklist \<Rightarrow> string \<Rightarrow> nat option \<Rightarrow> bool" where
  "decide E b d profile =
     (if (\<exists>i. profile = Some i \<and> p_allows E (profiles b ! i) d) then False
      else if (\<exists>i. profile = Some i \<and> p_blocks E (profiles b ! i) d) then True
      else if is_whitelisted_for_normalized E b d profile then False
      else if (\<exists>i. profile = Some i \<and> p_default_deny (profiles b ! i)) \<and> \<not> is_local_infra b d then True
      else ml_contains (b_psl E) (b_rx E) (blacklist b) d \<or> sb_contains (b_psl E) (blocked_services b) d \<or>
        map_covers E (profile_fst b profile) d)"

section \<open>Coherence\<close>

definition coherent :: "('r, 'f, 'c) blk_env \<Rightarrow> ('r, 'f, 'c) Blocklist \<Rightarrow> bool" where
  "coherent E b \<longleftrightarrow> cache_ok (b_lru E) (cache b) (\<lambda>d. check_blocked_in E b d (s_fst (block b))) \<and>
     (\<forall>p \<in> set (profiles b). cache_ok (b_lru E) (p_cache p) (\<lambda>d. check_blocked_in E b d (p_fst p)))"

definition valid_profile :: "('r, 'f, 'c) Blocklist \<Rightarrow> nat option \<Rightarrow> bool" where
  "valid_profile b profile \<longleftrightarrow> (case profile of Some i \<Rightarrow> i < length (profiles b) | None \<Rightarrow> True)"

lemma check_blocked_in_cong:
  "blacklist b' = blacklist b \<Longrightarrow> blocked_services b' = blocked_services b \<Longrightarrow>
     check_blocked_in E b' = check_blocked_in E b"
  by (intro ext) (simp add: check_blocked_in_def)

lemma coherent_cache:
  assumes "coherent E b" and "cache_ok (b_lru E) c (\<lambda>d. check_blocked_in E b d (s_fst (block b)))"
  shows "coherent E (b\<lparr>cache := c\<rparr>)"
  using assms check_blocked_in_cong [of "b\<lparr>cache := c\<rparr>" b E] by (simp add: coherent_def)

lemma is_blocked_for_coherent:
  assumes laws: "lru_laws (b_lru E)" and ok: "coherent E b" and v: "valid_profile b profile"
    and run: "is_blocked_for_normalized E now b d profile = (r, b')"
  shows "r = check_blocked_in E b d (profile_fst b profile) \<and> coherent E b'"
proof (cases profile)
  case None
  let ?P = "\<lambda>d. check_blocked_in E b d (s_fst (block b))"
  obtain out c where g: "cache_get (b_lru E) now (cache b) d = (out, c)" by (cases "cache_get (b_lru E) now (cache b) d")
  have "cache_ok (b_lru E) (cache b) ?P" using ok by (simp add: coherent_def)
  note get = cache_get_ok [OF laws this g]
  note up = coherent_cache [OF ok]
  show ?thesis
  proof (cases out)
    case (Some x)
    then show ?thesis using run get up by (auto simp: is_blocked_for_normalized_def is_blocked_normalized_def g None profile_fst_def)
  next
    case None': None
    have "cache_ok (b_lru E) (cache_insert (b_lru E) now c d (?P d)) ?P"
      using cache_insert_ok [OF laws, of c ?P] get by blast
    then show ?thesis using run up
      by (auto simp: is_blocked_for_normalized_def is_blocked_normalized_def Let_def g None None' profile_fst_def)
  qed
next
  case (Some i)
  let ?p = "profiles b ! i"
  let ?P = "\<lambda>d. check_blocked_in E b d (p_fst ?p)"
  have i: "i < length (profiles b)" using v Some by (simp add: valid_profile_def)
  obtain out c where g: "cache_get (b_lru E) now (p_cache ?p) d = (out, c)" by (cases "cache_get (b_lru E) now (p_cache ?p) d")
  have "cache_ok (b_lru E) (p_cache ?p) ?P" using ok i by (simp add: coherent_def)
  note get = cache_get_ok [OF laws this g]
  have up: "coherent E (b\<lparr>profiles := (profiles b)[i := ?p\<lparr>p_cache := c'\<rparr>]\<rparr>)" if "cache_ok (b_lru E) c' ?P" for c'
    using that ok check_blocked_in_cong [of "b\<lparr>profiles := (profiles b)[i := ?p\<lparr>p_cache := c'\<rparr>]\<rparr>" b E]
    by (auto simp: coherent_def dest!: set_update_subset_insert [THEN subsetD])
  show ?thesis
  proof (cases out)
    case (Some x)
    then show ?thesis using run get up \<open>profile = Some i\<close>
      by (auto simp: is_blocked_for_normalized_def g Let_def profile_fst_def)
  next
    case None
    have "cache_ok (b_lru E) (cache_insert (b_lru E) now c d (?P d)) ?P"
      using cache_insert_ok [OF laws, of c ?P] get by blast
    then show ?thesis using run up None \<open>profile = Some i\<close>
      by (auto simp: is_blocked_for_normalized_def g Let_def profile_fst_def)
  qed
qed


section \<open>The states the engine reaches\<close>

text \<open>A compiled profile starts with an empty cache.\<close>

definition fresh_profiles :: "('r, 'f, 'c) blk_env \<Rightarrow> ('r, 'f, 'c) CompiledProfile list \<Rightarrow> bool" where
  "fresh_profiles E ps \<longleftrightarrow> (\<forall>p \<in> set ps. p_cache p = cache_new (b_lru E) PROFILE_DECISION_CACHE)"

definition same_keys :: "('r, 'f, 'c) blk_env \<Rightarrow> 'f \<Rightarrow> 'f \<Rightarrow> bool" where
  "same_keys E m m' \<longleftrightarrow> (\<forall>k. b_fst_contains E m k = b_fst_contains E m' k)"

inductive engine_step :: "('r, 'f, 'c) blk_env \<Rightarrow> ('r, 'f, 'c) Blocklist \<Rightarrow> ('r, 'f, 'c) Blocklist \<Rightarrow> bool" for E where
  Query: "valid_profile b profile \<Longrightarrow> should_block_for E now b d profile = (r, b') \<Longrightarrow> engine_step E b b'"
| AddWhitelist: "add_whitelist E b d = Inr b' \<Longrightarrow> engine_step E b b'"
| RemoveWhitelist: "engine_step E b (remove_whitelist E b d)"
| AddBlacklist: "add_blacklist E b d = Inr b' \<Longrightarrow> engine_step E b b'"
| RemoveBlacklist: "engine_step E b (remove_blacklist E b d)"
| SetServices: "engine_step E b (set_blocked_services E b is)"
| SetEnabled: "engine_step E b (set_blocking_enabled b on)"
| SetBypass: "engine_step E b (set_client_bypass b keys)"
| SetZones: "engine_step E b (set_local_zones b zones)"
| SetClock: "engine_step E b (set_clock b minute)"
| SetSafe: "engine_step E b (set_safe_search b safe)"
| Pausing: "engine_step E b (b\<lparr>pauses := pause_step (pauses b) pop\<rparr>)"
| Resize: "engine_step E b (set_decision_cache_size E b n)"
| Invalidate: "engine_step E b (invalidate E b d)"
| AddList: "subs_add (block b) cfg = Inr subs \<Longrightarrow> engine_step E b (b\<lparr>block := subs\<rparr>)"
| RemoveList: "engine_step E b (b\<lparr>block := snd (subs_remove (block b) name)\<rparr>)"
| EnableList: "engine_step E b (b\<lparr>block := snd (subs_set_enabled (block b) name on)\<rparr>)"
| AddAllow: "subs_add (allow b) cfg = Inr subs \<Longrightarrow> engine_step E b (b\<lparr>allow := subs\<rparr>)"
| RemoveAllow: "engine_step E b (b\<lparr>allow := snd (subs_remove (allow b) name)\<rparr>)"
| EnableAllow: "engine_step E b (b\<lparr>allow := snd (subs_set_enabled (allow b) name on)\<rparr>)"
| SetProfiles: "fresh_profiles E (fst compiled) \<Longrightarrow> engine_step E b (set_profiles b any compiled)"
| Load: "fresh_profiles E (fst compiled) \<Longrightarrow> load_from_disk E b loaded allow_loaded compiled = (okay, b') \<Longrightarrow> engine_step E b b'"
| Refresh: "(\<And>m n. got = Some (m, n, False) \<Longrightarrow> same_keys E m (s_fst (block b))) \<Longrightarrow>
    (\<And>ps. compiled = Some ps \<Longrightarrow> fresh_profiles E ps) \<Longrightarrow>
    refresh E b got merged_exists allow_got compiled = (cnt, b') \<Longrightarrow> engine_step E b b'"

inductive engine_reach :: "('r, 'f, 'c) blk_env \<Rightarrow> ('r, 'f, 'c) Blocklist \<Rightarrow> bool" for E where
  Start: "engine_reach E (blocklist_new E cfg minute)"
| Step: "engine_reach E b \<Longrightarrow> engine_step E b b' \<Longrightarrow> engine_reach E b'"

lemma fresh_profiles_ok:
  "lru_laws (b_lru E) \<Longrightarrow> fresh_profiles E ps \<Longrightarrow> p \<in> set ps \<Longrightarrow> cache_ok (b_lru E) (p_cache p) P"
  by (simp add: fresh_profiles_def cache_new_ok)

lemma map_covers_cong: "same_keys E m m' \<Longrightarrow> map_covers E m = map_covers E m'"
proof -
  assume "same_keys E m m'"
  then have "b_fst_contains E m = b_fst_contains E m'" by (auto simp: same_keys_def)
  then show ?thesis by (auto simp: map_covers_def)
qed

lemma coherent_cong:
  assumes "coherent E b" and "cache b' = cache b" and "profiles b' = profiles b" and "blacklist b' = blacklist b"
    and "blocked_services b' = blocked_services b" and "same_keys E (s_fst (block b')) (s_fst (block b))"
  shows "coherent E b'"
proof -
  have "check_blocked_in E b' d (s_fst (block b')) = check_blocked_in E b d (s_fst (block b))" for d
    using map_covers_cong [OF assms(6)] assms(4,5) by (simp add: check_blocked_in_iff)
  then show ?thesis using assms check_blocked_in_cong [OF assms(4,5), of E] by (simp add: coherent_def)
qed

lemma same_keys_refl [simp]: "same_keys E m m"
  by (simp add: same_keys_def)

lemma coherent_clear:
  assumes "lru_laws (b_lru E)" and "coherent E b" and "cache b' = cache b" and "profiles b' = profiles b"
  shows "coherent E (clear_decision_caches E b')"
  using assms by (auto simp: coherent_def clear_decision_caches_def intro: cache_clear_ok)

lemma coherent_refresh:
  assumes laws: "lru_laws (b_lru E)" and ok: "coherent E b"
    and same: "\<And>m n. got = Some (m, n, False) \<Longrightarrow> same_keys E m (s_fst (block b))"
    and fresh: "\<And>ps. compiled = Some ps \<Longrightarrow> fresh_profiles E ps"
    and run: "refresh E b got merged_exists allow_got compiled = (cnt, b')"
  shows "coherent E b'"
proof (cases got)
  case None
  then show ?thesis using run ok by (simp add: refresh_def)
next
  case (Some g)
  then obtain m n changed where g: "got = Some (m, n, changed)" by (cases g) auto
  let ?b1 = "b\<lparr>block := (block b)\<lparr>s_fst := m\<rparr>\<rparr>"
  obtain ac b2 where r: "refresh_allowlists ?b1 merged_exists allow_got = (ac, b2)"
    by (cases "refresh_allowlists ?b1 merged_exists allow_got")
  have b2: "cache b2 = cache b \<and> profiles b2 = profiles b \<and> blacklist b2 = blacklist b \<and>
      blocked_services b2 = blocked_services b \<and> s_fst (block b2) = m"
    using r by (auto simp: refresh_allowlists_def split: if_splits option.splits prod.splits)
  let ?b3 = "b2\<lparr>cache := cache_clear (b_lru E) (cache b2)\<rparr>"
  have cl: "check_blocked_in E ?b3 = check_blocked_in E b" using b2 by (intro check_blocked_in_cong) simp_all
  have c3: "coherent E (?b3\<lparr>profiles := ps, profiles_stale := st\<rparr>)"
    if "\<forall>p \<in> set ps. cache_ok (b_lru E) (p_cache p) (\<lambda>d. check_blocked_in E b d (p_fst p))" for ps st
  proof -
    have "check_blocked_in E (?b3\<lparr>profiles := ps, profiles_stale := st\<rparr>) = check_blocked_in E b"
      using b2 by (intro check_blocked_in_cong) simp_all
    moreover have "cache_ok (b_lru E) (cache_clear (b_lru E) (cache b2)) Q" for Q
      using cache_clear_ok [OF laws] ok b2 by (auto simp: coherent_def)
    ultimately show ?thesis using that by (simp add: coherent_def)
  qed
  have "coherent E (rebuild_profiles_off_thread ?b3 compiled)"
  proof (cases compiled)
    case None
    have "coherent E (?b3\<lparr>profiles := profiles b2, profiles_stale := profiles_stale b2\<rparr>)"
      using ok b2 by (intro c3) (simp add: coherent_def)
    then show ?thesis by (simp add: None rebuild_profiles_off_thread_def)
  next
    case (Some ps)
    then show ?thesis using c3 [of ps False] fresh_profiles_ok [OF laws fresh [OF Some]]
      by (simp add: rebuild_profiles_off_thread_def)
  qed
  moreover have "coherent E b2" if "\<not> changed"
    using b2 same [of m n] g that by (intro coherent_cong [OF ok]) simp_all
  ultimately show ?thesis using run g r by (auto simp: refresh_def split: if_splits)
qed

lemma coherent_load:
  assumes laws: "lru_laws (b_lru E)" and ok: "coherent E b" and fresh: "fresh_profiles E (fst compiled)"
    and run: "load_from_disk E b loaded allow_loaded compiled = (okay, b')"
  shows "coherent E b'"
proof (cases "\<exists>m. loaded = Inr (Some m)")
  case True
  then obtain m where m: "loaded = Inr (Some m)" by blast
  have "cache b' = cache_clear (b_lru E) (cache b)" "profiles b' = fst compiled"
    using run m by (auto simp: load_from_disk_def load_allow_from_disk_def store_profiles_def Let_def)
  moreover have "cache_ok (b_lru E) (cache_clear (b_lru E) (cache b)) Q" for Q
    using cache_clear_ok [OF laws] ok by (auto simp: coherent_def)
  ultimately show ?thesis using fresh_profiles_ok [OF laws fresh] by (simp add: coherent_def)
next
  case False
  then have "b' = b" using run by (auto simp: load_from_disk_def load_merged_def split: sum.splits option.splits)
  then show ?thesis using ok by simp
qed

lemma coherent_profiles:
  assumes "lru_laws (b_lru E)" and "coherent E b" and "fresh_profiles E (fst compiled)"
  shows "coherent E (set_profiles b any compiled)"
  using assms fresh_profiles_ok [OF assms(1,3)] check_blocked_in_cong [of "set_profiles b any compiled" b E]
  by (simp add: coherent_def set_profiles_def store_profiles_def)

lemma should_block_for_coherent:
  assumes laws: "lru_laws (b_lru E)" and ok: "coherent E b" and v: "valid_profile b profile"
    and run: "should_block_for E now b d profile = (r, b')"
  shows "r = decide E b d profile \<and> coherent E b'"
proof -
  obtain q b1 where f: "is_blocked_for_normalized E now b d profile = (q, b1)"
    by (cases "is_blocked_for_normalized E now b d profile")
  from is_blocked_for_coherent [OF laws ok v f] have q: "q = check_blocked_in E b d (profile_fst b profile)" "coherent E b1"
    by simp_all
  show ?thesis
    using run ok q unfolding should_block_for_def decide_def f check_blocked_in_iff
    by (cases profile) (auto split: if_splits)
qed

lemmas engine_cong = set_blocking_enabled_def set_client_bypass_def set_local_zones_def set_clock_def set_safe_search_def

lemma engine_step_coherent:
  assumes "engine_step E b b'" and "lru_laws (b_lru E)" and "coherent E b"
  shows "coherent E b'"
  using assms
proof (induction rule: engine_step.induct)
  case (Query b profile now d r b')
  then show ?case using should_block_for_coherent by blast
next
  case (AddWhitelist b d b')
  then show ?case by (auto simp: add_whitelist_def coherent_clear split: sum.splits)
next
  case (AddBlacklist b d b')
  then show ?case by (auto simp: add_blacklist_def coherent_clear split: sum.splits)
next
  case (Resize b n)
  then have "cache_ok (b_lru E) (cache b) (\<lambda>d. check_blocked_in E b d (s_fst (block b)))" by (simp add: coherent_def)
  from coherent_cache [OF Resize(2) cache_resize_ok [OF Resize(1) this]] show ?case
    by (simp add: set_decision_cache_size_def)
next
  case (Invalidate b d)
  then have "cache_ok (b_lru E) (cache b) (\<lambda>d. check_blocked_in E b d (s_fst (block b)))" by (simp add: coherent_def)
  from coherent_cache [OF Invalidate(2) cache_invalidate_ok [OF Invalidate(1) this]] show ?case
    by (simp add: invalidate_def)
next
  case (AddList b cfg subs)
  then show ?case by (intro coherent_cong [OF AddList(3)]) (auto simp: subs_add_def split: if_splits)
next
  case (EnableList b name on)
  then show ?case by (intro coherent_cong [OF EnableList(2)]) (auto simp: subs_set_enabled_def split: option.splits)
next
  case (RemoveList b name)
  then show ?case by (intro coherent_cong [OF RemoveList(2)]) (auto simp: subs_remove_def Let_def)
next
  case (SetProfiles compiled b any)
  show ?case by (rule coherent_profiles [OF SetProfiles(2,3,1)])
next
  case (Load compiled b loaded allow_loaded okay b')
  show ?case by (rule coherent_load [OF Load(3,4,1,2)])
next
  case (Refresh got b compiled merged_exists allow_got cnt b')
  show ?case by (rule coherent_refresh [OF Refresh(4,5) _ _ Refresh(3)]) (fact Refresh(1) Refresh(2))+
next
  case (RemoveWhitelist b d)
  then show ?case unfolding remove_whitelist_def by (rule coherent_clear) simp_all
next
  case (RemoveBlacklist b d)
  then show ?case unfolding remove_blacklist_def by (rule coherent_clear) simp_all
next
  case (SetServices b "is")
  then show ?case unfolding set_blocked_services_def by (rule coherent_clear) simp_all
qed (auto simp: engine_cong Let_def elim!: coherent_cong)

lemma engine_reach_coherent: "engine_reach E b \<Longrightarrow> lru_laws (b_lru E) \<Longrightarrow> coherent E b"
proof (induction rule: engine_reach.induct)
  case (Start cfg minute)
  then show ?case by (simp add: coherent_def blocklist_new_def Let_def cache_new_ok)
qed (rule engine_step_coherent)

section \<open>The decision\<close>

text \<open>
  C7. In every state the engine can reach, whatever queries, edits, refreshes and cache
  resizings came before, the decision with its caches is the decision without them: a
  profile's allow entries win over everything, then its block entries, then the allow tier,
  then default-deny outside local names, then the block entries, services and lists. The
  query leaves a state of the same kind. The law assumed of the LRU crate is that it returns
  what was put under a key or nothing.
\<close>

theorem should_block_for_decides:
  assumes "lru_laws (b_lru E)" and "engine_reach E b" and "valid_profile b profile"
  shows "\<exists>b'. should_block_for E now b d profile = (decide E b d profile, b') \<and> engine_reach E b'"
proof -
  obtain r b' where run: "should_block_for E now b d profile = (r, b')"
    by (cases "should_block_for E now b d profile")
  from should_block_for_coherent [OF assms(1) engine_reach_coherent [OF assms(2,1)] assms(3) run]
  have "r = decide E b d profile" by simp
  moreover have "engine_reach E b'" using assms(2,3) run by (blast intro: engine_reach.Step engine_step.Query)
  ultimately show ?thesis using run by blast
qed

text \<open>An instance of the parameters for the witnesses: maps are lists of keys.\<close>

definition sample_env :: "(string, string list, nat \<times> (string \<times> BlockCacheEntry) list) blk_env" where
  "sample_env = \<lparr>b_psl = sample_psl, b_icann = (\<lambda>_. True), b_rx = literal_rx, b_fst_empty = [],
     b_fst_contains = (\<lambda>m k. k \<in> set m), b_fst_len = length, b_lru = list_lru, b_catalog = []\<rparr>"

lemma sample_env_simps [simp]:
  "b_psl sample_env = sample_psl" "b_rx sample_env = literal_rx" "b_fst_empty sample_env = []"
  "b_fst_contains sample_env = (\<lambda>m k. k \<in> set m)" "b_fst_len sample_env = length" "b_lru sample_env = list_lru"
  "b_catalog sample_env = []"
  by (simp_all add: sample_env_def)

definition sample_cfg :: BlkConfig where
  "sample_cfg = \<lparr>c_enabled = True, c_client_bypass = [], c_whitelist = [], c_allow_domains = [''ok.evil.com''],
     c_domains = [''evil.com''], c_wildcard_block = [], c_lists = [], c_allow_lists = [], c_has_profiles = False,
     c_services = [], c_decision_cache_size = 100, c_safe_search = False, c_youtube_restricted = Off\<rparr>"

definition sample_list :: "string \<Rightarrow> string ManualList" where
  "sample_list d = \<lparr>exact = {d}, wildcards = []\<rparr>"

lemma sample_lists:
  "whitelist (blocklist_new sample_env sample_cfg 0) = sample_list ''ok.evil.com''"
  "blacklist (blocklist_new sample_env sample_cfg 0) = sample_list ''evil.com''"
proof -
  have n: "normalise ''ok.evil.com'' = ''ok.evil.com''" "\<not> is_pattern ''ok.evil.com''"
    "normalise ''evil.com'' = ''evil.com''" "\<not> is_pattern ''evil.com''" by code_simp+
  show "whitelist (blocklist_new sample_env sample_cfg 0) = sample_list ''ok.evil.com''"
    "blacklist (blocklist_new sample_env sample_cfg 0) = sample_list ''evil.com''"
    by (simp_all add: blocklist_new_def Let_def sample_cfg_def from_entries_def from_entry_def n sample_list_def)
qed

theorem should_block_for_decides_witness:
  "(\<exists>b'. should_block_for sample_env 5 (blocklist_new sample_env sample_cfg 0) ''www.evil.com'' None = (True, b')) \<and>
   (\<exists>b'. should_block_for sample_env 5 (blocklist_new sample_env sample_cfg 0) ''ok.evil.com'' None = (False, b'))"
proof -
  let ?b = "blocklist_new sample_env sample_cfg 0"
  have laws: "lru_laws (b_lru sample_env)" by (simp add: list_lru_laws)
  have c: "\<not> ml_contains sample_psl literal_rx (sample_list ''ok.evil.com'') ''www.evil.com''"
    "ml_contains sample_psl literal_rx (sample_list ''evil.com'') ''www.evil.com''"
    "ml_contains sample_psl literal_rx (sample_list ''ok.evil.com'') ''ok.evil.com''" by code_simp+
  have "s_fst (allow ?b) = []" by (simp add: blocklist_new_def Let_def)
  with c have "decide sample_env ?b ''www.evil.com'' None" "\<not> decide sample_env ?b ''ok.evil.com'' None"
    by (simp_all add: decide_def is_whitelisted_for_normalized_def sample_lists)
  with should_block_for_decides [OF laws engine_reach.Start [of _ sample_cfg 0], of None 5 "''www.evil.com''"]
    should_block_for_decides [OF laws engine_reach.Start [of _ sample_cfg 0], of None 5 "''ok.evil.com''"]
  show ?thesis by (auto simp: valid_profile_def)
qed

section \<open>Explanations\<close>

text \<open>
  What the explanation relies on of the map library: a map with a key has a positive length.
  The explanation looks into the own file of each enabled list, the decision into the merged
  map in use, and the two can differ: the file of a list that was enabled or downloaded is
  there before the next merge.
\<close>

definition fst_laws :: "('r, 'f, 'c) blk_env \<Rightarrow> bool" where
  "fst_laws E \<longleftrightarrow> (\<forall>m k. b_fst_contains E m k \<longrightarrow> b_fst_len E m \<noteq> 0)"

definition list_ahead :: "('r, 'f, 'c) blk_env \<Rightarrow> (string \<Rightarrow> 'f option) \<Rightarrow> 'f Subscriptions \<Rightarrow> string \<Rightarrow> bool" where
  "list_ahead E disk subs d \<longleftrightarrow> attribute E disk subs d \<noteq> [] \<and> merged_match E subs d = None"

lemma exact_match_covers:
  "exact_match psl ml d \<noteq> None \<or> matching_patterns rx ml d \<noteq> [] \<longleftrightarrow> ml_contains psl rx ml d"
  by (auto simp: exact_match_def matching_patterns_def ml_contains_def matched_key_domain_in_set filter_empty_conv
      list_ex_iff matched_key_domain_in_set [symmetric])

lemma map_filter_nonempty: "List.map_filter f xs \<noteq> [] \<longleftrightarrow> (\<exists>x \<in> set xs. f x \<noteq> None)"
  by (induction xs) (auto simp: List.map_filter_simps split: option.splits)

lemma whitelist_match_covers:
  assumes "fst_laws E"
  shows "whitelist_match E disk b d \<noteq> None \<longleftrightarrow>
    is_whitelisted_for_normalized E b d None \<or> list_ahead E disk (allow b) d"
proof -
  have "merged_match E (allow b) d \<noteq> None \<Longrightarrow> b_fst_len E (s_fst (allow b)) \<noteq> 0"
    using assms unfolding merged_match_def fst_laws_def
    by (metis matched_key_def matched_walk_None)
  then show ?thesis
    using exact_match_covers [of "b_psl E" "whitelist b" d "b_rx E"]
    by (auto simp: whitelist_match_def is_whitelisted_for_normalized_def list_ahead_def merged_match_def
        split: option.splits list.splits)
qed

definition services_ok :: "('r, 'f, 'c) blk_env \<Rightarrow> ('r, 'f, 'c) Blocklist \<Rightarrow> bool" where
  "services_ok E b \<longleftrightarrow> (\<exists>is. blocked_services b = sb_new (b_catalog E) is)"

lemma sb_matches_covers:
  "sb_matches psl catalog (sb_new catalog is) d \<noteq> [] \<longleftrightarrow> sb_contains psl (sb_new catalog is) d"
proof -
  obtain known where known: "known = fst (normalize_ids catalog is)" by simp
  let ?svcs = "List.map_filter (find_service catalog) known"
  have dom: "set (domains_of catalog known) = (\<Union>s \<in> set ?svcs. set (svc_domains s))" by (simp add: domains_of_def)
  have "sb_matches psl catalog (sb_new catalog is) d \<noteq> [] \<longleftrightarrow>
      (\<exists>s \<in> set ?svcs. domain_in_set psl d (set (svc_domains s)))"
    by (simp add: sb_matches_def sb_new_def Let_def known [symmetric] map_filter_nonempty
        matched_key_domain_in_set [symmetric])
  also have "\<dots> \<longleftrightarrow> domain_in_set psl d (set (domains_of catalog known))"
    unfolding dom domain_in_set_iff by auto
  also have "\<dots> \<longleftrightarrow> sb_contains psl (sb_new catalog is) d"
    by (auto simp: sb_contains_def sb_new_def Let_def known [symmetric] domain_in_set_iff)
  finally show ?thesis .
qed

lemma block_sources_covers:
  assumes "services_ok E b"
  shows "block_sources E disk b d \<noteq> [] \<longleftrightarrow>
    check_blocked_in E b d (s_fst (block b)) \<or> list_ahead E disk (block b) d"
proof -
  have "sb_matches (b_psl E) (b_catalog E) (blocked_services b) d \<noteq> [] \<longleftrightarrow> sb_contains (b_psl E) (blocked_services b) d"
    using assms sb_matches_covers [of "b_psl E" "b_catalog E" _ d] unfolding services_ok_def by metis
  then show ?thesis
    using exact_match_covers [of "b_psl E" "blacklist b" d "b_rx E"]
    by (auto simp: block_sources_def Let_def check_blocked_in_iff map_covers_def list_ahead_def merged_match_def
        split: option.splits)
qed

lemma engine_step_services: "engine_step E b b' \<Longrightarrow> services_ok E b \<Longrightarrow> services_ok E b'"
proof (induction rule: engine_step.induct)
  case (Query b profile now d r b')
  then show ?case
    by (auto simp: services_ok_def should_block_for_def is_blocked_for_normalized_def is_blocked_normalized_def Let_def
        split: if_splits option.splits prod.splits)
next
  case (Refresh got b compiled merged_exists allow_got cnt b')
  then show ?case
    by (auto simp: services_ok_def refresh_def refresh_allowlists_def rebuild_profiles_off_thread_def Let_def
        split: if_splits option.splits prod.splits)
next
  case (Load compiled b loaded allow_loaded okay b')
  then show ?case
    by (auto simp: services_ok_def load_from_disk_def load_allow_from_disk_def store_profiles_def Let_def
        split: sum.splits option.splits prod.splits)
qed (auto simp: services_ok_def add_whitelist_def add_blacklist_def remove_whitelist_def remove_blacklist_def
    set_blocked_services_def clear_decision_caches_def engine_cong set_decision_cache_size_def invalidate_def
    set_profiles_def store_profiles_def Let_def split: sum.splits)

lemma engine_reach_services: "engine_reach E b \<Longrightarrow> services_ok E b"
proof (induction rule: engine_reach.induct)
  case (Start cfg minute)
  then show ?case by (auto simp: services_ok_def blocklist_new_def Let_def)
qed (rule engine_step_services)

text \<open>
  C29. The explanation shown to the user against the decision a query of a device without a
  profile gets at that moment, in every reachable state and whatever the files of the lists
  hold. The two agree unless a file is ahead of the merged map in use: a name that is blocked
  but not reported as blocked is in the file of an enabled allowlist and not in the merged
  allowlist; a name that is reported as blocked but not blocked is in the file of an enabled
  blocklist and not in the merged one. A blocked name always comes with a source.
\<close>

theorem explain_agrees:
  assumes "lru_laws (b_lru E)" and "engine_reach E b" and "fst_laws E"
    and "should_block_for E now b (normalise raw) None = (blocked, b')" and "x = explain E disk allow_disk b raw"
  shows "(blocked \<longrightarrow> ex_sources x \<noteq> []) \<and>
    (blocked \<and> \<not> ex_blocked x \<longrightarrow> list_ahead E allow_disk (allow b) (normalise raw)) \<and>
    (\<not> blocked \<and> ex_blocked x \<longrightarrow> list_ahead E disk (block b) (normalise raw))"
proof -
  have "blocked = decide E b (normalise raw) None"
    using should_block_for_coherent [OF assms(1) engine_reach_coherent [OF assms(2,1)] _ assms(4)]
    by (simp add: valid_profile_def)
  then show ?thesis
    using whitelist_match_covers [OF assms(3), of allow_disk b "normalise raw"]
      block_sources_covers [OF engine_reach_services [OF assms(2)], of disk "normalise raw"]
    by (auto simp: assms(5) explain_def Let_def decide_def check_blocked_in_iff profile_fst_def)
qed

text \<open>A list was subscribed to and its file is on disk; the merged map is still empty.\<close>

definition list_cfg :: BlkConfig where
  "list_cfg = sample_cfg\<lparr>c_lists := [(''ads'', True)]\<rparr>"

abbreviation "ads_file \<equiv> (\<lambda>name. if name = ''ads'' then Some [''ads.net'', ''evil.com''] else None)"

theorem explain_agrees_witness:
  "(\<exists>b'. should_block_for sample_env 5 (blocklist_new sample_env list_cfg 0) ''www.evil.com'' None = (True, b')) \<and>
   ex_blocked (explain sample_env ads_file (\<lambda>_. None) (blocklist_new sample_env list_cfg 0) ''WWW.Evil.com.'') \<and>
   (\<exists>b'. should_block_for sample_env 5 (blocklist_new sample_env list_cfg 0) ''ads.net'' None = (False, b')) \<and>
   ex_blocked (explain sample_env ads_file (\<lambda>_. None) (blocklist_new sample_env list_cfg 0) ''ads.net'') \<and>
   list_ahead sample_env ads_file (block (blocklist_new sample_env list_cfg 0)) ''ads.net''"
proof -
  let ?b = "blocklist_new sample_env list_cfg 0"
  have lists: "whitelist ?b = sample_list ''ok.evil.com''" "blacklist ?b = sample_list ''evil.com''"
    "s_fst (allow ?b) = []" "s_fst (block ?b) = []" "s_lists (allow ?b) = []" "s_lists (block ?b) = [(''ads'', True)]"
    "blocked_services ?b = sb_new [] []"
    using sample_lists by (simp_all add: blocklist_new_def Let_def list_cfg_def sample_cfg_def)
  have n: "normalise ''WWW.Evil.com.'' = ''www.evil.com''" "normalise ''ads.net'' = ''ads.net''"
    "\<not> ml_contains sample_psl literal_rx (sample_list ''ok.evil.com'') ''www.evil.com''"
    "\<not> ml_contains sample_psl literal_rx (sample_list ''ok.evil.com'') ''ads.net''"
    "ml_contains sample_psl literal_rx (sample_list ''evil.com'') ''www.evil.com''"
    "\<not> ml_contains sample_psl literal_rx (sample_list ''evil.com'') ''ads.net''"
    "\<not> sb_contains sample_psl (sb_new [] []) ''ads.net''" "\<not> map_covers sample_env [] ''ads.net''"
    "matched_key sample_psl ''ads.net'' (\<lambda>k. k \<in> set [''ads.net'', ''evil.com'']) = Some ''ads.net''"
    by code_simp+
  have d: "decide sample_env ?b ''www.evil.com'' None" "\<not> decide sample_env ?b ''ads.net'' None"
    using n by (simp_all add: decide_def is_whitelisted_for_normalized_def lists profile_fst_def)
  have laws: "lru_laws (b_lru sample_env)" "fst_laws sample_env" by (auto simp: list_lru_laws fst_laws_def)
  note reach = engine_reach.Start [of sample_env list_cfg 0]
  have run: "\<exists>b'. should_block_for sample_env 5 ?b d None = (decide sample_env ?b d None, b')" for d
    using should_block_for_coherent [OF laws(1) engine_reach_coherent [OF reach laws(1)], of None 5 d]
    by (cases "should_block_for sample_env 5 ?b d None") (auto simp: valid_profile_def)
  obtain b1 b2 where v: "should_block_for sample_env 5 ?b (normalise ''WWW.Evil.com.'') None = (True, b1)"
    "should_block_for sample_env 5 ?b (normalise ''ads.net'') None = (False, b2)"
    using run [of "''www.evil.com''"] run [of "''ads.net''"] d unfolding n(1,2) by auto
  have open_allow: "\<not> list_ahead sample_env (\<lambda>_. None) (allow ?b) d" for d
    by (simp add: list_ahead_def attribute_def lists map_filter_simps)
  have ahead: "list_ahead sample_env ads_file (block ?b) ''ads.net''"
    using n(8,9) by (simp add: list_ahead_def attribute_def lists map_filter_simps map_covers_def merged_match_def)
  have "ex_blocked (explain sample_env ads_file (\<lambda>_. None) ?b ''ads.net'')"
    using whitelist_match_covers [OF laws(2), of "\<lambda>_. None" ?b "''ads.net''"] open_allow n(2,4)
      block_sources_covers [OF engine_reach_services [OF reach], of ads_file "''ads.net''"] ahead
    by (simp add: explain_def Let_def is_whitelisted_for_normalized_def lists)
  then show ?thesis
    using explain_agrees [OF laws(1) reach laws(2) v(1) refl, of ads_file "\<lambda>_. None"]
      explain_agrees [OF laws(1) reach laws(2) v(2) refl, of ads_file "\<lambda>_. None"] v open_allow
    unfolding n(1,2) by blast
qed

section \<open>SafeSearch\<close>

lemma unpack_pack: "unpack_safe (pack_safe s) = s"
proof (cases s)
  case (fields a y)
  have "unpack_safe (pack_safe \<lparr>search = a, youtube = y\<rparr>) = \<lparr>search = a, youtube = y\<rparr>"
    by (cases a; cases y) (simp_all only:, code_simp+)
  then show ?thesis by (simp only: fields)
qed

lemma youtube_max_off: "max a b = Off \<longleftrightarrow> a = Off \<and> b = Off"
  by (cases a; cases b) (auto simp: max_def less_eq_YoutubeRestrict_def)

lemma safe_search_facts:
  "safe_search (set_safe_search b s) = s"
  "safe_search_target E b name None \<noteq> None \<Longrightarrow> safe_search_target E b name profile \<noteq> None"
  "youtube (safe_search b) = Strict \<Longrightarrow> name \<in> set YOUTUBE_HOSTS \<Longrightarrow>
     safe_search_target E b name profile = Some ''restrict.youtube.com''"
proof -
  show "safe_search (set_safe_search b s) = s" by (simp add: safe_search_def set_safe_search_def unpack_pack)
  show "safe_search_target E b name None \<noteq> None \<Longrightarrow> safe_search_target E b name profile \<noteq> None"
    by (cases profile) (auto simp: safe_search_target_def safe_target_def safe_is_off_def safe_max_def youtube_max_off
        Let_def split: if_splits)
  have "max Strict y = Strict" for y by (cases y) (auto simp: max_def less_eq_YoutubeRestrict_def)
  then show "youtube (safe_search b) = Strict \<Longrightarrow> name \<in> set YOUTUBE_HOSTS \<Longrightarrow>
     safe_search_target E b name profile = Some ''restrict.youtube.com''"
    by (cases profile) (auto simp: safe_search_target_def safe_target_def safe_is_off_def safe_max_def Let_def)
qed

text \<open>
  The network-wide SafeSearch setting survives being packed into one byte, and a profile
  can tighten it but never lift it: a name that must resolve to a safe host for everybody
  does so for every device, and a YouTube name under the strict setting keeps the strict
  host.
\<close>

theorem safe_search_holds:
  "safe_search (set_safe_search b s) = s \<and>
   (safe_search_target E b name None \<noteq> None \<longrightarrow> safe_search_target E b name profile \<noteq> None) \<and>
   (youtube (safe_search b) = Strict \<and> name \<in> set YOUTUBE_HOSTS \<longrightarrow>
      safe_search_target E b name profile = Some ''restrict.youtube.com'')"
  using safe_search_facts by blast

theorem safe_search_holds_witness:
  "safe_search_target sample_env (set_safe_search (blocklist_new sample_env sample_cfg 0)
     \<lparr>search = False, youtube = Strict\<rparr>) ''m.youtube.com'' None = Some ''restrict.youtube.com''"
proof -
  let ?s = "\<lparr>search = False, youtube = Strict\<rparr>"
  let ?b = "set_safe_search (blocklist_new sample_env sample_cfg 0) ?s"
  have "safe_search ?b = ?s" "''m.youtube.com'' \<in> set YOUTUBE_HOSTS"
    by (simp_all add: safe_search_facts(1) YOUTUBE_HOSTS_def)
  with safe_search_holds [of "blocklist_new sample_env sample_cfg 0" ?s sample_env "''m.youtube.com''" None]
    safe_search_holds [of ?b ?s sample_env "''m.youtube.com''" None]
  show ?thesis by simp
qed

section \<open>An edit in the middle of a query\<close>

text \<open>
  A query that misses the cache reads the lists and only then writes its decision into the
  cache; another thread may edit the lists and clear the caches in between. The second half
  of such a query is \<open>finish_lookup\<close>.
\<close>

definition finish_lookup :: "('r, 'f, 'c) blk_env \<Rightarrow> Instant \<Rightarrow> ('r, 'f, 'c) Blocklist \<Rightarrow> string \<Rightarrow> bool \<Rightarrow> ('r, 'f, 'c) Blocklist" where
  "finish_lookup E now b domain result = b\<lparr>cache := cache_insert (b_lru E) now (cache b) domain result\<rparr>"

lemma is_blocked_in_halves:
  assumes "cache_get (b_lru E) now (cache b) d = (None, c)"
  shows "is_blocked_normalized E now b d =
    (let result = check_blocked_in E b d (s_fst (block b)) in (result, finish_lookup E now (b\<lparr>cache := c\<rparr>) d result))"
  using assms by (simp add: is_blocked_normalized_def finish_lookup_def Let_def)

lemma cache_insert_get:
  assumes laws: "lru_laws L" and wf: "lru_wf L c" and cap: "0 < lru_cap L c"
    and later: "later < now + from_secs (if r then BLOCKED_TTL else ALLOWED_TTL)"
  shows "fst (cache_get L later (cache_insert L now c d r) d) = Some r"
proof -
  obtain en where en: "en = \<lparr>e_blocked = r, e_expires_at = now + from_secs (if r then BLOCKED_TTL else ALLOWED_TTL)\<rparr>" by simp
  obtain out c' where p: "lru_push L c d en = (out, c')" by (cases "lru_push L c d en")
  note push = lru_push_ok [OF laws wf cap p]
  then have wf': "lru_wf L c'" and peek: "lru_peek L c' d = Some en" by simp_all
  obtain x c2 where g: "lru_get L c' d = (x, c2)" by (cases "lru_get L c' d")
  have "cache_insert L now c d r = c'" using p en by (simp add: cache_insert_def lru_put_def)
  then show ?thesis using lru_get_ok [OF laws wf' g] peek later by (simp add: cache_get_def g en)
qed

text \<open>
  An entry added to the manual blocklist while a query for the same name is between its
  two halves does not take effect for that name: the decision the query stores after the
  caches were cleared lets the name through for the next 300 seconds, although the lists
  block it.
\<close>

theorem stale_decision_survives_edit:
  assumes laws: "lru_laws (b_lru E)" and reach: "engine_reach E b"
    and entry: "normalise d = d" "\<not> is_pattern d"
    and allowed: "\<not> check_blocked_in E b d (s_fst (block b))"
    and edit: "add_blacklist E b d = Inr b1"
    and later: "later < now + from_secs 300"
  shows "check_blocked_in E b1 d (s_fst (block b1)) \<and>
    fst (is_blocked_normalized E later
      (finish_lookup E now b1 d (check_blocked_in E b d (s_fst (block b)))) d) = False"
proof -
  have "coherent E b1"
    using engine_step_coherent [OF engine_step.AddBlacklist [OF edit] laws engine_reach_coherent [OF reach laws]] .
  then have ok: "lru_wf (b_lru E) (cache b1)" "0 < lru_cap (b_lru E) (cache b1)"
    by (simp_all add: coherent_def cache_ok_def)
  have "exact (blacklist b1) = insert d (exact (blacklist b))"
    using edit entry by (auto simp: add_blacklist_def ml_add_def clear_decision_caches_def Let_def split: sum.splits)
  then have "check_blocked_in E b1 d (s_fst (block b1))"
    by (simp add: check_blocked_in_iff ml_contains_def domain_in_set_iff)
  moreover have "fst (cache_get (b_lru E) later (cache_insert (b_lru E) now (cache b1) d False) d) = Some False"
    using later by (intro cache_insert_get [OF laws ok]) (simp add: ALLOWED_TTL_def)
  ultimately show ?thesis using allowed
    by (auto simp: finish_lookup_def is_blocked_normalized_def split: prod.splits option.splits)
qed

theorem stale_decision_survives_edit_witness:
  "\<exists>b1. add_blacklist sample_env (blocklist_new sample_env sample_cfg 0) ''ads.example.com'' = Inr b1 \<and>
     fst (is_blocked_normalized sample_env 7 (finish_lookup sample_env 5 b1 ''ads.example.com'' False) ''ads.example.com'') = False"
proof -
  let ?b = "blocklist_new sample_env sample_cfg 0"
  have n: "normalise ''ads.example.com'' = ''ads.example.com''" "\<not> is_pattern ''ads.example.com''"
    "\<not> ml_contains sample_psl literal_rx (sample_list ''evil.com'') ''ads.example.com''" by code_simp+
  then obtain b1 where b1: "add_blacklist sample_env ?b ''ads.example.com'' = Inr b1"
    by (simp add: add_blacklist_def ml_add_def Let_def)
  have "s_fst (block ?b) = []" "sb_domains (blocked_services ?b) = {}"
    by (simp_all add: blocklist_new_def Let_def sb_new_def sample_cfg_def normalize_ids_def domains_of_def map_filter_def)
  then have "\<not> check_blocked_in sample_env ?b ''ads.example.com'' (s_fst (block ?b))"
    using n(3) matched_walk_None [of sample_psl "\<lambda>k. False"]
    by (simp add: check_blocked_in_iff sample_lists sb_contains_def map_covers_def matched_key_def)
  from stale_decision_survives_edit [OF _ engine_reach.Start n(1,2) this b1, of 7 5] this b1 show ?thesis
    by (auto simp: list_lru_laws from_secs_def)
qed

end
