(* ===== verification/Domain_Set.thy ===== *)
theory Domain_Set
  imports Rust_Str "HOL-Library.Char_ord" "HOL-Library.List_Lexorder" "HOL-Library.Multiset"
begin

text \<open>
  The domains of one list, \<open>crates/blocklist/src/domains.rs\<close>: the text of all domains in
  fixed-size chunks and one 32-bit span per domain. The refinement shows that the buffer
  with its spans behaves as the plain list of domains it stands for, that no index is out of
  range and that no offset is truncated. Sorting compares byte strings, which is the order of
  \<open>str\<close>.
\<close>

section \<open>The set and its operations\<close>

record DomainSet =
  chunks :: "string list"
  chunk_bytes :: nat
  spans :: "(u32 \<times> u32) list"

definition CHUNK_BYTES :: nat where
  "CHUNK_BYTES = 4 * 2 ^ 20"

definition MAX_TEXT_BYTES :: nat where
  "MAX_TEXT_BYTES = 4294967295"

definition domain_set_new :: DomainSet where
  "domain_set_new = \<lparr>chunks = [], chunk_bytes = CHUNK_BYTES, spans = []\<rparr>"

text \<open>The spans of the lines, from the offset of the first.\<close>

fun line_spans :: "nat \<Rightarrow> string list \<Rightarrow> (u32 \<times> u32) list" where
  "line_spans offset [] = []"
| "line_spans offset (line # rest) =
     (let start = offset; line' = (case strip_suffix line [CHR 0x0D] of Some l \<Rightarrow> l | None \<Rightarrow> line) in
      (if line' \<noteq> [] \<and> start + length line' \<le> MAX_TEXT_BYTES
       then [(word_of_nat start, word_of_nat (start + length line'))] else []) @
      line_spans (offset + (length line + 1)) rest)"

definition from_lines :: "string \<Rightarrow> DomainSet" where
  "from_lines txt = \<lparr>chunks = [txt], chunk_bytes = max (length txt) 1,
     spans = line_spans 0 (split_on (CHR 0x0A) txt)\<rparr>"

definition has_room :: "DomainSet \<Rightarrow> string \<Rightarrow> bool" where
  "has_room s domain \<longleftrightarrow> chunks s \<noteq> [] \<and> length (last (chunks s)) + length domain \<le> chunk_bytes s"

definition push_lowercase_if :: "DomainSet \<Rightarrow> string \<Rightarrow> (string \<Rightarrow> bool) \<Rightarrow> (bool \<times> DomainSet) rs" where
  "push_lowercase_if s domain accept =
     (if domain = [] \<or> length domain > chunk_bytes s then Some (False, s)
      else if \<not> has_room s domain \<and> (length (chunks s) + 1) * chunk_bytes s > MAX_TEXT_BYTES
      then Some (False, s)
      else
        (let s = (if has_room s domain then s else s\<lparr>chunks := chunks s @ [[]]\<rparr>);
             chunk_index = length (chunks s) - 1 in
         do {
           chunk \<leftarrow> index (chunks s) chunk_index;
           let start = length chunk;
           let chunk = chunk @ lowercase domain;
           if \<not> accept (drop start chunk)
           then Some (False, s\<lparr>chunks := (chunks s)[chunk_index := take start chunk]\<rparr>)
           else
             (let base = chunk_index * chunk_bytes s in
              Some (True, s\<lparr>chunks := (chunks s)[chunk_index := chunk],
                 spans := spans s @ [(word_of_nat (base + start), word_of_nat (base + length chunk))]\<rparr>))
         }))"

definition domain_set_push :: "DomainSet \<Rightarrow> string \<Rightarrow> DomainSet rs" where
  "domain_set_push s domain = map_option snd (push_lowercase_if s domain (\<lambda>_. True))"

definition domain_set_len :: "DomainSet \<Rightarrow> nat" where
  "domain_set_len s = length (spans s)"

text \<open>The division by \<open>chunk_bytes\<close> panics when it is zero, the indexes when they are out of range.\<close>

definition span_slice :: "DomainSet \<Rightarrow> u32 \<times> u32 \<Rightarrow> string rs" where
  "span_slice s span =
     (if chunk_bytes s = 0 then None
      else do {
        let start = unat (fst span);
        chunk \<leftarrow> index (chunks s) (start div chunk_bytes s);
        let offset = start mod chunk_bytes s;
        get_range chunk offset (offset + unat (snd span - fst span))
      })"

fun map_rs :: "('a \<Rightarrow> 'b rs) \<Rightarrow> 'a list \<Rightarrow> 'b list rs" where
  "map_rs f [] = Some []"
| "map_rs f (x # xs) = do { y \<leftarrow> f x; ys \<leftarrow> map_rs f xs; Some (y # ys) }"

definition domain_set_iter :: "DomainSet \<Rightarrow> string list rs" where
  "domain_set_iter s = map_rs (span_slice s) (spans s)"

definition domain_set_retain :: "DomainSet \<Rightarrow> (string \<Rightarrow> bool) \<Rightarrow> DomainSet rs" where
  "domain_set_retain s keep = do {
     kept \<leftarrow> map_rs (\<lambda>span. map_option (\<lambda>t. (keep t, span)) (span_slice s span)) (spans s);
     Some (s\<lparr>spans := map snd (filter fst kept)\<rparr>)
   }"

text \<open>The loop that moves the end of a span in front of trailing dots.\<close>

function cut_dots :: "DomainSet \<Rightarrow> u32 \<times> u32 \<Rightarrow> (u32 \<times> u32) rs" where
  "cut_dots s (a, b) =
     (if b > a then
        (if chunk_bytes s = 0 then None
         else do {
           let start = unat a;
           chunk \<leftarrow> index (chunks s) (start div chunk_bytes s);
           c \<leftarrow> index chunk (start mod chunk_bytes s + unat (b - a) - 1);
           if c \<noteq> CHR ''.'' then Some (a, b) else cut_dots s (a, b - 1)
         })
      else Some (a, b))"
  by pat_completeness auto
termination
proof (relation "measure (\<lambda>(s, a, b). unat b)")
  fix a b :: u32 and s :: DomainSet
  assume "b > a"
  then have "b \<noteq> 0" by auto
  then show "\<And>c x. ((s, a, b - 1), s, a, b) \<in> measure (\<lambda>(s, a, b). unat b)"
    by (simp add: unat_minus_one unat_gt_0)
qed auto

declare cut_dots.simps [simp del]

text \<open>\<open>dedup_by\<close>: an element equal to the one kept last is dropped.\<close>

fun dedup_by :: "('a \<Rightarrow> 'a \<Rightarrow> bool) \<Rightarrow> 'a list \<Rightarrow> 'a list" where
  "dedup_by same (x # y # ys) = (if same y x then dedup_by same (x # ys) else x # dedup_by same (y # ys))"
| "dedup_by same xs = xs"

definition sort_dedup :: "DomainSet \<Rightarrow> (u32 \<times> u32) list \<Rightarrow> (u32 \<times> u32) list rs" where
  "sort_dedup s sps =
     (if length sps \<le> 1 then Some sps
      else do {
        keyed \<leftarrow> map_rs (\<lambda>span. map_option (\<lambda>t. (t, span)) (span_slice s span)) sps;
        Some (map snd (dedup_by (\<lambda>a b. fst a = fst b) (sort_key fst keyed)))
      })"

definition prepare_keys :: "DomainSet \<Rightarrow> DomainSet rs" where
  "prepare_keys s = do {
     cut \<leftarrow> map_rs (cut_dots s) (spans s);
     sps \<leftarrow> sort_dedup s cut;
     Some (s\<lparr>spans := sps\<rparr>)
   }"

definition domain_set_eq :: "DomainSet \<Rightarrow> DomainSet \<Rightarrow> bool rs" where
  "domain_set_eq s t =
     (if domain_set_len s \<noteq> domain_set_len t then Some False
      else do { xs \<leftarrow> domain_set_iter s; ys \<leftarrow> domain_set_iter t; Some (xs = ys) })"

fun push_all :: "DomainSet \<Rightarrow> string list \<Rightarrow> DomainSet rs" where
  "push_all s [] = Some s"
| "push_all s (d # ds) = do { s \<leftarrow> domain_set_push s d; push_all s ds }"

definition from_iter :: "string list \<Rightarrow> DomainSet rs" where
  "from_iter domains = push_all domain_set_new domains"

section \<open>The abstraction\<close>

definition span_text :: "DomainSet \<Rightarrow> u32 \<times> u32 \<Rightarrow> string" where
  "span_text s span = take (unat (snd span - fst span))
     (drop (unat (fst span) mod chunk_bytes s) (chunks s ! (unat (fst span) div chunk_bytes s)))"

definition domain_list :: "DomainSet \<Rightarrow> string list" where
  "domain_list s = map (span_text s) (spans s)"

definition span_ok :: "DomainSet \<Rightarrow> u32 \<times> u32 \<Rightarrow> bool" where
  "span_ok s span \<longleftrightarrow> fst span \<le> snd span \<and> unat (fst span) div chunk_bytes s < length (chunks s) \<and>
     unat (fst span) mod chunk_bytes s + unat (snd span - fst span) \<le>
       length (chunks s ! (unat (fst span) div chunk_bytes s))"

definition domain_set_ok :: "DomainSet \<Rightarrow> bool" where
  "domain_set_ok s \<longleftrightarrow> 0 < chunk_bytes s \<and>
     (chunks s = [] \<or> length (chunks s) * chunk_bytes s \<le> MAX_TEXT_BYTES \<or>
      length (last (chunks s)) = chunk_bytes s) \<and>
     list_all (span_ok s) (spans s)"

lemma map_rs_Some: "(\<And>x. x \<in> set xs \<Longrightarrow> f x = Some (g x)) \<Longrightarrow> map_rs f xs = Some (map g xs)"
  by (induction xs) auto

lemma span_slice_ok: "0 < chunk_bytes s \<Longrightarrow> span_ok s span \<Longrightarrow> span_slice s span = Some (span_text s span)"
  by (auto simp: span_slice_def span_ok_def span_text_def index_def get_range_def Let_def)

lemma domain_set_iter_ok: "domain_set_ok s \<Longrightarrow> domain_set_iter s = Some (domain_list s)"
  unfolding domain_set_iter_def domain_list_def
  by (rule map_rs_Some) (auto simp: domain_set_ok_def list_all_iff span_slice_ok)

lemma domain_set_new_ok: "domain_set_ok domain_set_new \<and> domain_list domain_set_new = []"
  by (simp add: domain_set_new_def domain_set_ok_def domain_list_def CHUNK_BYTES_def)

subsection \<open>Appending\<close>

text \<open>A set whose chunks only grew at their ends keeps the text of every span.\<close>

lemma span_grown:
  assumes "span_ok s span" and "chunk_bytes t = chunk_bytes s" and "length (chunks s) \<le> length (chunks t)"
    and "\<And>i. i < length (chunks s) \<Longrightarrow> prefix (chunks s ! i) (chunks t ! i)"
  shows "span_ok t span \<and> span_text t span = span_text s span"
proof -
  let ?i = "unat (fst span) div chunk_bytes s"
  have i: "?i < length (chunks s)" using assms(1) by (simp add: span_ok_def)
  then obtain r where "chunks t ! ?i = chunks s ! ?i @ r" using assms(4) by (auto simp: prefix_def)
  then show ?thesis using assms(1-3) i by (auto simp: span_ok_def span_text_def)
qed

lemma spans_grown:
  assumes "list_all (span_ok s) sps" and "chunk_bytes t = chunk_bytes s" and "length (chunks s) \<le> length (chunks t)"
    and "\<And>i. i < length (chunks s) \<Longrightarrow> prefix (chunks s ! i) (chunks t ! i)"
  shows "list_all (span_ok t) sps \<and> map (span_text t) sps = map (span_text s) sps"
  using assms(1) span_grown [OF _ assms(2-4)] by (simp add: list_all_iff)

text \<open>The span pushed last: no offset is truncated and it reads back what was written.\<close>

lemma new_span:
  assumes cb: "0 < chunk_bytes t" and ci: "chunks t \<noteq> []" and last: "last (chunks t) = old @ d" and d: "d \<noteq> []"
    and fits: "length old + length d \<le> chunk_bytes t" and max: "length (chunks t) * chunk_bytes t \<le> MAX_TEXT_BYTES"
    and base: "base = (length (chunks t) - 1) * chunk_bytes t"
  shows "span_ok t (word_of_nat (base + length old), word_of_nat (base + length (old @ d))) \<and>
    span_text t (word_of_nat (base + length old), word_of_nat (base + length (old @ d))) = d"
proof -
  let ?n = "length (chunks t)" and ?a = "word_of_nat (base + length old) :: u32"
  let ?b = "word_of_nat (base + length (old @ d)) :: u32"
  have "base + chunk_bytes t = ?n * chunk_bytes t"
    using ci by (cases ?n) (simp_all add: base)
  then have le: "base + length (old @ d) \<le> 4294967295" using fits max by (simp add: MAX_TEXT_BYTES_def)
  have a: "unat ?a = base + length old" using le by (intro unat_of_nat_small) simp
  have b: "unat ?b = base + length (old @ d)" using le by (intro unat_of_nat_small) simp
  have ab: "?a \<le> ?b" using a b by (simp add: word_le_nat_alt)
  have "unat (?b - ?a) = base + length (old @ d) - (base + length old)" using unat_sub [OF ab] unfolding a b .
  also have "\<dots> = length d" by simp
  finally have ba: "unat (?b - ?a) = length d" .
  have lt: "length old < chunk_bytes t" using fits d by (cases d) auto
  then have dv: "unat ?a div chunk_bytes t = ?n - 1" and md: "unat ?a mod chunk_bytes t = length old"
    unfolding a unfolding base using cb by simp_all
  have "chunks t ! (?n - 1) = old @ d" using last ci by (simp add: last_conv_nth)
  with ab ba dv md ci show ?thesis by (simp add: span_ok_def span_text_def)
qed


text \<open>The two ways the buffer is prepared for a candidate.\<close>

definition with_room :: "DomainSet \<Rightarrow> string \<Rightarrow> DomainSet" where
  "with_room s domain = (if has_room s domain then s else s\<lparr>chunks := chunks s @ [[]]\<rparr>)"

lemma with_room_ok:
  assumes "domain_set_ok s" and "domain \<noteq> []" and "length domain \<le> chunk_bytes s"
    and "has_room s domain \<or> (length (chunks s) + 1) * chunk_bytes s \<le> MAX_TEXT_BYTES"
  shows "chunks (with_room s domain) \<noteq> []"
    and "length (last (chunks (with_room s domain))) + length domain \<le> chunk_bytes s"
    and "length (chunks (with_room s domain)) * chunk_bytes s \<le> MAX_TEXT_BYTES"
    and "chunk_bytes (with_room s domain) = chunk_bytes s" and "spans (with_room s domain) = spans s"
    and "length (chunks s) \<le> length (chunks (with_room s domain))"
    and "i < length (chunks s) \<Longrightarrow> chunks (with_room s domain) ! i = chunks s ! i"
  using assms by (auto simp: with_room_def has_room_def domain_set_ok_def nth_append)

lemma list_update_last: "xs \<noteq> [] \<Longrightarrow> last (xs[length xs - Suc 0 := y]) = y"
  by (simp add: last_list_update)

lemma push_lowercase_if_ok:
  assumes ok: "domain_set_ok s"
  obtains b t where "push_lowercase_if s domain accept = Some (b, t)" and "domain_set_ok t"
    and "domain_list t = domain_list s @ (if b then [lowercase domain] else [])"
    and "b \<longleftrightarrow> domain \<noteq> [] \<and> length domain \<le> chunk_bytes s \<and>
      (has_room s domain \<or> (length (chunks s) + 1) * chunk_bytes s \<le> MAX_TEXT_BYTES) \<and> accept (lowercase domain)"
proof (cases "domain = [] \<or> length domain > chunk_bytes s \<or>
    (\<not> has_room s domain \<and> (length (chunks s) + 1) * chunk_bytes s > MAX_TEXT_BYTES)")
  case True
  with ok show thesis by (intro that [of False s]) (auto simp: push_lowercase_if_def)
next
  case False
  let ?r = "with_room s domain"
  let ?i = "length (chunks ?r) - 1"
  let ?old = "last (chunks ?r)"
  let ?base = "?i * chunk_bytes s"
  from False have pre: "domain \<noteq> []" "length domain \<le> chunk_bytes s"
    "has_room s domain \<or> (length (chunks s) + 1) * chunk_bytes s \<le> MAX_TEXT_BYTES" by auto
  note r = with_room_ok [OF ok pre]
  have cb: "0 < chunk_bytes s" using ok by (simp add: domain_set_ok_def)
  have idx: "index (chunks ?r) ?i = Some ?old" using r(1) by (simp add: index_def last_conv_nth)
  have upd: "prefix (chunks ?r ! j) ((chunks ?r)[?i := ?old @ x] ! j)" if "j < length (chunks ?r)" for j x
    using that r(1) by (cases "j = ?i") (auto simp: last_conv_nth)
  let ?t = "?r\<lparr>chunks := (chunks ?r)[?i := ?old @ lowercase domain],
     spans := spans s @ [(word_of_nat (?base + length ?old), word_of_nat (?base + length (?old @ lowercase domain)))]\<rparr>"
  have run: "push_lowercase_if s domain accept =
      (if accept (lowercase domain) then Some (True, ?t) else Some (False, ?r))"
    using pre idx r(1) by (auto simp: push_lowercase_if_def with_room_def [symmetric] Let_def r(4,5) last_conv_nth)
  have keep: "list_all (span_ok u) (spans s) \<and> map (span_text u) (spans s) = map (span_text s) (spans s)"
    if "u = ?t \<or> u = ?r" for u
  proof (rule spans_grown)
    show "list_all (span_ok s) (spans s)" using ok by (simp add: domain_set_ok_def)
    show "chunk_bytes u = chunk_bytes s" using that r(4) by auto
    show "length (chunks s) \<le> length (chunks u)" using that r(6) by auto
    fix i assume "i < length (chunks s)"
    then show "prefix (chunks s ! i) (chunks u ! i)" using that r(6) r(7) [of i] upd [of i] by auto
  qed
  show thesis
  proof (cases "accept (lowercase domain)")
    case True
    have "span_ok ?t (word_of_nat (?base + length ?old), word_of_nat (?base + length (?old @ lowercase domain))) \<and>
      span_text ?t (word_of_nat (?base + length ?old), word_of_nat (?base + length (?old @ lowercase domain))) = lowercase domain"
      using cb r pre(1) by (intro new_span) (simp_all add: list_update_last)
    with keep [of ?t] r cb True pre run show thesis
      by (intro that [of True ?t]) (simp_all add: domain_set_ok_def domain_list_def)
  next
    case False
    with keep [of ?r] r cb pre run show thesis
      by (intro that [of False ?r]) (simp_all add: domain_set_ok_def domain_list_def)
  qed
qed


subsection \<open>Capacity\<close>

text \<open>
  Names have at most 253 bytes, so a chunk is only left when it is almost full, and the set
  takes every name until it holds over four gigabytes of text.
\<close>

definition text_bytes :: "DomainSet \<Rightarrow> nat" where
  "text_bytes s = sum_list (map length (chunks s))"

definition TEXT_ROOM :: nat where
  "TEXT_ROOM = 1022 * (CHUNK_BYTES - 253)"

definition packed :: "DomainSet \<Rightarrow> bool" where
  "packed s \<longleftrightarrow> domain_set_ok s \<and> chunk_bytes s = CHUNK_BYTES \<and>
     (\<forall>c \<in> set (butlast (chunks s)). CHUNK_BYTES - 253 \<le> length c)"

lemma sum_list_lower: "(\<And>x. x \<in> set xs \<Longrightarrow> k \<le> f x) \<Longrightarrow> length xs * k \<le> sum_list (map f xs)"
  by (induction xs) (auto simp: add_mono)

lemma full_chunks:
  assumes "packed s" and "length d \<le> 253" and "\<not> has_room s d" and "c \<in> set (chunks s)"
  shows "CHUNK_BYTES - 253 \<le> length c"
proof (cases "c \<in> set (butlast (chunks s))")
  case True
  then show ?thesis using assms(1) by (simp add: packed_def)
next
  case False
  have ne: "chunks s \<noteq> []" using assms(4) by auto
  then have "set (chunks s) = insert (last (chunks s)) (set (butlast (chunks s)))"
    by (metis append_butlast_last_id insert_is_Un list.set(1,2) set_append sup_commute)
  with False assms(4) have "c = last (chunks s)" by auto
  then show ?thesis using assms(1-3) ne by (auto simp: packed_def has_room_def)
qed

lemma packed_room:
  assumes "packed s" and "length d \<le> 253" and "text_bytes s < TEXT_ROOM"
  shows "has_room s d \<or> (length (chunks s) + 1) * chunk_bytes s \<le> MAX_TEXT_BYTES"
proof (rule disjCI)
  assume full: "\<not> (length (chunks s) + 1) * chunk_bytes s \<le> MAX_TEXT_BYTES"
  show "has_room s d"
  proof (rule ccontr)
    assume "\<not> has_room s d"
    from sum_list_lower [of "chunks s" "CHUNK_BYTES - 253" length] full_chunks [OF assms(1,2) this]
    have "length (chunks s) * (CHUNK_BYTES - 253) < TEXT_ROOM" using assms(3) by (simp add: text_bytes_def)
    then have "length (chunks s) < 1022" by (simp add: TEXT_ROOM_def)
    then have "(length (chunks s) + 1) * chunk_bytes s \<le> 1022 * CHUNK_BYTES"
      using assms(1) by (simp add: packed_def)
    with full show False by (simp add: CHUNK_BYTES_def MAX_TEXT_BYTES_def)
  qed
qed

lemma update_last: "xs \<noteq> [] \<Longrightarrow> xs[length xs - Suc 0 := y] = butlast xs @ [y]"
  by (metis append_butlast_last_id length_butlast list_update_length One_nat_def)

lemma push_chunks:
  assumes "push_lowercase_if s d accept = Some (b, t)"
  shows "chunk_bytes t = chunk_bytes s \<and> (chunks t = chunks s \<or>
    (\<exists>x. length x \<le> length d \<and> chunks t = butlast (chunks (with_room s d)) @ [last (chunks (with_room s d)) @ x]))"
proof -
  have ne: "chunks (with_room s d) \<noteq> []" by (auto simp: with_room_def has_room_def)
  then have idx: "index (chunks (with_room s d)) (length (chunks (with_room s d)) - Suc 0) = Some (last (chunks (with_room s d)))"
    by (simp add: index_def last_conv_nth)
  have cb: "chunk_bytes (with_room s d) = chunk_bytes s" by (simp add: with_room_def)
  show ?thesis
  proof (cases "d = [] \<or> length d > chunk_bytes s \<or>
      (\<not> has_room s d \<and> (length (chunks s) + 1) * chunk_bytes s > MAX_TEXT_BYTES)")
    case True
    then show ?thesis using assms by (auto simp: push_lowercase_if_def split: if_splits)
  next
    case False
    then have "(let chunk = last (chunks (with_room s d)) @ lowercase d; i = length (chunks (with_room s d)) - Suc 0 in
        if \<not> accept (lowercase d) then t = with_room s d\<lparr>chunks := (chunks (with_room s d))[i := last (chunks (with_room s d))]\<rparr>
        else chunks t = (chunks (with_room s d))[i := chunk] \<and> chunk_bytes t = chunk_bytes s)"
      using assms idx cb by (auto simp: push_lowercase_if_def with_room_def [symmetric] Let_def split: if_splits)
    then show ?thesis
    proof (cases "accept (lowercase d)")
      case True
      then show ?thesis using \<open>let chunk = _ ; i = _ in _\<close> ne
        by (intro conjI disjI2 exI [of _ "lowercase d"]) (simp_all add: Let_def update_last)
    next
      case False
      then show ?thesis using \<open>let chunk = _ ; i = _ in _\<close> ne cb
        by (intro conjI disjI2 exI [of _ "[]"]) (simp_all add: Let_def update_last)
    qed
  qed
qed

lemma push_packed:
  assumes "packed s" and "d \<noteq> []" and "length d \<le> 253" and "text_bytes s < TEXT_ROOM"
  obtains t where "push_lowercase_if s d accept = Some (accept (lowercase d), t)" and "packed t"
    and "text_bytes t \<le> text_bytes s + length d"
    and "domain_list t = domain_list s @ (if accept (lowercase d) then [lowercase d] else [])"
proof -
  have ok: "domain_set_ok s" and cb: "chunk_bytes s = CHUNK_BYTES" using assms(1) by (simp_all add: packed_def)
  have fit: "length d \<le> chunk_bytes s" using assms(3) cb by (simp add: CHUNK_BYTES_def)
  obtain b t where p: "push_lowercase_if s d accept = Some (b, t)" "domain_set_ok t"
    "domain_list t = domain_list s @ (if b then [lowercase d] else [])"
    "b \<longleftrightarrow> d \<noteq> [] \<and> length d \<le> chunk_bytes s \<and>
      (has_room s d \<or> (length (chunks s) + 1) * chunk_bytes s \<le> MAX_TEXT_BYTES) \<and> accept (lowercase d)"
    by (rule push_lowercase_if_ok [OF ok, of d accept])
  have "b = accept (lowercase d)" using p(4) fit packed_room [OF assms(1,3,4)] assms(2) by blast
  with p have run: "push_lowercase_if s d accept = Some (accept (lowercase d), t)" "domain_set_ok t"
    "domain_list t = domain_list s @ (if accept (lowercase d) then [lowercase d] else [])" by simp_all
  have w: "sum_list (map length (butlast (chunks (with_room s d)))) + length (last (chunks (with_room s d))) = text_bytes s"
  proof (cases "has_room s d")
    case True
    then have ne: "chunks s \<noteq> []" by (simp add: has_room_def)
    have "text_bytes s = sum_list (map length (butlast (chunks s) @ [last (chunks s)]))"
      using ne by (simp add: text_bytes_def)
    then show ?thesis using True by (simp add: with_room_def)
  qed (simp add: with_room_def text_bytes_def)
  have full: "CHUNK_BYTES - 253 \<le> length c" if "c \<in> set (butlast (chunks (with_room s d)))" for c
    using that full_chunks [OF assms(1,3)] assms(1) by (auto simp: with_room_def packed_def split: if_splits)
  from push_chunks [OF run(1)] have "packed t \<and> text_bytes t \<le> text_bytes s + length d"
  proof (elim conjE disjE exE)
    assume "chunk_bytes t = chunk_bytes s" "chunks t = chunks s"
    then show ?thesis using assms(1) run(2) by (simp add: packed_def text_bytes_def)
  next
    fix x assume "chunk_bytes t = chunk_bytes s" "length x \<le> length d"
      "chunks t = butlast (chunks (with_room s d)) @ [last (chunks (with_room s d)) @ x]"
    then show ?thesis using w full run(2) cb by (simp add: packed_def text_bytes_def)
  qed
  with run that show thesis by blast
qed

lemma packed_new: "packed domain_set_new \<and> text_bytes domain_set_new = 0 \<and> domain_list domain_set_new = []"
  using domain_set_new_ok by (simp add: packed_def text_bytes_def domain_set_new_def)

subsection \<open>Filtering\<close>

lemma domain_list_filter:
  "map (span_text s) (filter (\<lambda>span. keep (span_text s span)) sps) = filter keep (map (span_text s) sps)"
  by (induction sps) auto

lemma span_text_spans [simp]:
  "span_text (s\<lparr>spans := sps\<rparr>) span = span_text s span" "span_ok (s\<lparr>spans := sps\<rparr>) span = span_ok s span"
  by (simp_all add: span_text_def span_ok_def)

lemma span_text_spans_fun [simp]:
  "span_text (s\<lparr>spans := sps\<rparr>) = span_text s" "span_ok (s\<lparr>spans := sps\<rparr>) = span_ok s"
  by auto

lemma domain_set_retain_ok:
  assumes "domain_set_ok s"
  obtains t where "domain_set_retain s keep = Some t" and "domain_set_ok t"
    and "domain_list t = filter keep (domain_list s)"
proof -
  have "map_rs (\<lambda>span. map_option (\<lambda>t. (keep t, span)) (span_slice s span)) (spans s) =
      Some (map (\<lambda>span. (keep (span_text s span), span)) (spans s))"
    using assms by (intro map_rs_Some) (auto simp: domain_set_ok_def list_all_iff span_slice_ok)
  then have "domain_set_retain s keep = Some (s\<lparr>spans := filter (\<lambda>span. keep (span_text s span)) (spans s)\<rparr>)"
    by (simp add: domain_set_retain_def filter_map o_def)
  moreover have "domain_set_ok (s\<lparr>spans := filter (\<lambda>span. keep (span_text s span)) (spans s)\<rparr>)"
    using assms by (auto simp: domain_set_ok_def list_all_iff)
  ultimately show thesis by (rule that) (simp add: domain_list_def domain_list_filter)
qed

subsection \<open>Sorting\<close>

abbreviation strip_dots :: "string \<Rightarrow> string" where
  "strip_dots \<equiv> trim_end_char (\<lambda>c. c = CHR ''.'')"

lemma trim_end_char_snoc: "trim_end_char P (xs @ [c]) = (if P c then trim_end_char P xs else xs @ [c])"
  by (simp add: trim_end_char_def)

lemma cut_dots_ok:
  assumes "0 < chunk_bytes s" and "span_ok s (a, b)"
  shows "\<exists>b'. cut_dots s (a, b) = Some (a, b') \<and> span_ok s (a, b') \<and>
    span_text s (a, b') = strip_dots (span_text s (a, b))"
  using assms
proof (induction "unat (b - a)" arbitrary: b)
  case 0
  then have "b - a = 0" by (metis unat_eq_zero)
  then have "b = a" by simp
  then show ?case using 0 by (simp add: cut_dots.simps [of s a a] span_text_def trim_end_char_def)
next
  case (Suc n)
  let ?chunk = "chunks s ! (unat a div chunk_bytes s)"
  let ?last = "?chunk ! (unat a mod chunk_bytes s + n)"
  have lt: "a < b" using Suc.hyps(2) Suc.prems(2) by (auto simp: span_ok_def order_less_le)
  have range: "unat a div chunk_bytes s < length (chunks s)" "unat a mod chunk_bytes s + n < length ?chunk"
    using Suc.prems Suc.hyps(2) by (auto simp: span_ok_def)
  have n1: "unat (b - 1 - a) = n"
  proof -
    have "b - a \<noteq> 0" using lt by auto
    then have "unat (b - a - 1) = n" using Suc.hyps(2) by (simp add: unat_minus_one)
    then show ?thesis unfolding cancel_ab_semigroup_add_class.diff_right_commute [of b 1 a] .
  qed
  have snoc: "span_text s (a, b) = span_text s (a, b - 1) @ [?last]"
    using range take_Suc_conv_app_nth [of n "drop (unat a mod chunk_bytes s) ?chunk"]
    by (simp add: span_text_def n1 Suc.hyps(2) [symmetric])
  have run: "cut_dots s (a, b) = (if ?last \<noteq> CHR ''.'' then Some (a, b) else cut_dots s (a, b - 1))"
    using lt range Suc.prems(1) by (simp add: cut_dots.simps [of s a b] Suc.hyps(2) [symmetric] index_def)
  show ?case
  proof (cases "?last = CHR ''.''")
    case False
    then show ?thesis using Suc.prems by (simp add: run snoc trim_end_char_snoc)
  next
    case True
    have "b \<noteq> 0" using lt by auto
    then have "a \<le> b - 1" using lt by (simp add: word_le_nat_alt word_less_nat_alt unat_minus_one)
    then have "span_ok s (a, b - 1)" using Suc.prems(2) range n1 by (simp add: span_ok_def)
    from Suc.hyps(1) [OF n1 [symmetric] Suc.prems(1) this] True show ?thesis
      by (simp add: run snoc trim_end_char_snoc)
  qed
qed

lemma dedup_by_remdups_adj: "map f (dedup_by (\<lambda>a b. f a = f b) xs) = remdups_adj (map f xs)"
  by (induction "\<lambda>a b. f a = f b" xs rule: dedup_by.induct) auto

lemma dedup_by_subset: "set (dedup_by same xs) \<subseteq> set xs"
  by (induction same xs rule: dedup_by.induct) auto

lemma sort_dedup_ok:
  assumes "0 < chunk_bytes s" and "list_all (span_ok s) sps"
  obtains r where "sort_dedup s sps = Some r" and "list_all (span_ok s) r"
    and "map (span_text s) r = remdups_adj (sort (map (span_text s) sps))"
proof (cases "length sps \<le> 1")
  case True
  then have "sps = [] \<or> (\<exists>x. sps = [x])" by (cases sps) auto
  with True assms show thesis by (intro that [of sps]) (auto simp: sort_dedup_def)
next
  case False
  let ?keyed = "map (\<lambda>span. (span_text s span, span)) sps"
  let ?d = "dedup_by (\<lambda>a b. fst a = fst b) (sort_key fst ?keyed)"
  have "map_rs (\<lambda>span. map_option (\<lambda>t. (t, span)) (span_slice s span)) sps = Some ?keyed"
    using assms by (intro map_rs_Some) (auto simp: list_all_iff span_slice_ok)
  then have run: "sort_dedup s sps = Some (map snd ?d)" using False by (simp add: sort_dedup_def)
  have sub: "set ?d \<subseteq> set ?keyed" using dedup_by_subset [of _ "sort_key fst ?keyed"] by auto
  have "map (span_text s) (map snd ?d) = map fst ?d" using sub by auto
  also have "\<dots> = remdups_adj (map fst (sort_key fst ?keyed))" by (rule dedup_by_remdups_adj)
  also have "map fst (sort_key fst ?keyed) = sort (map (span_text s) sps)"
    by (rule properties_for_sort [symmetric]) (simp_all add: image_mset.compositionality o_def)
  finally have text_r: "map (span_text s) (map snd ?d) = remdups_adj (sort (map (span_text s) sps))" .
  have "list_all (span_ok s) (map snd ?d)" using sub assms(2) by (fastforce simp: list_all_iff)
  from that [OF run this text_r] show thesis .
qed

lemma cut_all_ok:
  assumes "0 < chunk_bytes s" and "list_all (span_ok s) sps"
  obtains r where "map_rs (cut_dots s) sps = Some r" and "list_all (span_ok s) r"
    and "map (span_text s) r = map strip_dots (map (span_text s) sps)"
proof -
  have "\<exists>r. map_rs (cut_dots s) sps = Some r \<and> list_all (span_ok s) r \<and>
      map (span_text s) r = map strip_dots (map (span_text s) sps)"
    using assms(2)
  proof (induction sps)
    case (Cons x xs)
    then obtain r where r: "map_rs (cut_dots s) xs = Some r" "list_all (span_ok s) r"
      "map (span_text s) r = map strip_dots (map (span_text s) xs)" by auto
    obtain a b where x: "x = (a, b)" by (cases x)
    have "span_ok s (a, b)" using Cons.prems x by simp
    from cut_dots_ok [OF assms(1) this] obtain b' where "cut_dots s (a, b) = Some (a, b')" "span_ok s (a, b')"
      "span_text s (a, b') = strip_dots (span_text s (a, b))" by blast
    with r show ?case by (simp add: x)
  qed simp
  with that show thesis by blast
qed

lemma prepare_keys_ok:
  assumes "domain_set_ok s"
  obtains t where "prepare_keys s = Some t" and "domain_set_ok t"
    and "domain_list t = remdups_adj (sort (map strip_dots (domain_list s)))"
proof -
  have cb: "0 < chunk_bytes s" and sp: "list_all (span_ok s) (spans s)" using assms by (simp_all add: domain_set_ok_def)
  obtain cut where cut: "map_rs (cut_dots s) (spans s) = Some cut" "list_all (span_ok s) cut"
    "map (span_text s) cut = map strip_dots (map (span_text s) (spans s))" using cut_all_ok [OF cb sp] .
  obtain r where r: "sort_dedup s cut = Some r" "list_all (span_ok s) r"
    "map (span_text s) r = remdups_adj (sort (map (span_text s) cut))" using sort_dedup_ok [OF cb cut(2)] .
  show thesis
  proof (rule that)
    show "prepare_keys s = Some (s\<lparr>spans := r\<rparr>)" by (simp add: prepare_keys_def cut r)
    show "domain_set_ok (s\<lparr>spans := r\<rparr>)" using assms r(2) by (simp add: domain_set_ok_def)
    show "domain_list (s\<lparr>spans := r\<rparr>) = remdups_adj (sort (map strip_dots (domain_list s)))"
      by (simp add: domain_list_def r(3) cut(3))
  qed
qed

lemma sorted_wrt_remdups_adj: "sorted (xs :: string list) \<Longrightarrow> sorted_wrt (<) (remdups_adj xs)"
  by (induction xs rule: remdups_adj.induct) (auto simp: order_less_le)

subsection \<open>Reading the file on disk\<close>

definition line_text :: "string \<Rightarrow> string" where
  "line_text line = (case strip_suffix line [CHR 0x0D] of Some l \<Rightarrow> l | None \<Rightarrow> line)"

lemma line_text_prefix: "\<exists>r. line = line_text line @ r"
  by (auto simp: line_text_def strip_suffix_def split: option.splits) (metis append_take_drop_id)

fun join_lines :: "string list \<Rightarrow> string" where
  "join_lines [] = []"
| "join_lines [l] = l"
| "join_lines (l # ls) = l @ CHR 0x0A # join_lines ls"

lemma join_split: "join_lines (split_on (CHR 0x0A) s) = s"
proof (induction s)
  case (Cons x s)
  then show ?case by (cases "split_on (CHR 0x0A) s"; cases "tl (split_on (CHR 0x0A) s)") auto
qed simp

lemma line_spans_ok:
  assumes "length txt \<le> MAX_TEXT_BYTES" and "txt = pre @ join_lines ls" and "ls \<noteq> []"
    and s: "s = \<lparr>chunks = [txt], chunk_bytes = max (length txt) 1, spans = sp\<rparr>"
  shows "list_all (span_ok s) (line_spans (length pre) ls) \<and>
    map (span_text s) (line_spans (length pre) ls) = filter (\<lambda>l. l \<noteq> []) (map line_text ls)"
  using assms(2,3)
proof (induction ls arbitrary: pre)
  case (Cons l ls)
  obtain r where r: "l = line_text l @ r" using line_text_prefix by blast
  let ?a = "word_of_nat (length pre) :: u32"
  let ?b = "word_of_nat (length pre + length (line_text l)) :: u32"
  obtain rest where rest: "txt = pre @ line_text l @ rest"
    using Cons.prems(1) r by (cases ls) (auto, metis append.assoc)
  have here: "span_ok s (?a, ?b) \<and> span_text s (?a, ?b) = line_text l" if "line_text l \<noteq> []"
  proof -
    have len: "length pre + length (line_text l) \<le> 4294967295" "length pre < length txt"
      using assms(1) rest that by (auto simp: MAX_TEXT_BYTES_def)
    have a: "unat ?a = length pre" using len by (intro unat_of_nat_small) simp
    have b: "unat ?b = length pre + length (line_text l)" using len by (intro unat_of_nat_small) simp
    have ab: "?a \<le> ?b" unfolding word_le_nat_alt a b by simp
    have "unat (?b - ?a) = length (line_text l)" unfolding unat_sub [OF ab] a b by simp
    moreover have "unat ?a div max (length txt) 1 = 0" "unat ?a mod max (length txt) 1 = length pre"
      unfolding a using len by simp_all
    ultimately show ?thesis using ab by (simp add: span_ok_def span_text_def s rest)
  qed
  have fits: "length pre + length (line_text l) \<le> MAX_TEXT_BYTES" using assms(1) rest by simp
  have tail: "list_all (span_ok s) (line_spans (length pre + (length l + 1)) ls) \<and>
      map (span_text s) (line_spans (length pre + (length l + 1)) ls) = filter (\<lambda>l. l \<noteq> []) (map line_text ls)"
  proof (cases ls)
    case (Cons l' ls')
    have "txt = (pre @ l @ [CHR 0x0A]) @ join_lines ls" using Cons.prems(1) Cons by simp
    from Cons.IH [OF this] Cons show ?thesis by simp
  qed simp
  show ?case using here fits tail by (auto simp: Let_def line_text_def [symmetric])
qed simp

lemma from_lines_ok:
  assumes "length txt \<le> MAX_TEXT_BYTES"
  shows "domain_set_ok (from_lines txt) \<and>
    domain_list (from_lines txt) = filter (\<lambda>l. l \<noteq> []) (map line_text (split_on (CHR 0x0A) txt))"
proof -
  have "txt = [] @ join_lines (split_on (CHR 0x0A) txt)" by (simp add: join_split)
  from line_spans_ok [OF assms this split_on_nonempty from_lines_def] assms show ?thesis
    by (auto simp: domain_set_ok_def domain_list_def from_lines_def MAX_TEXT_BYTES_def)
qed

section \<open>Properties\<close>

lemma domain_set_facts:
  assumes "domain_set_ok s"
  shows "\<exists>b t. push_lowercase_if s domain accept = Some (b, t) \<and> domain_set_ok t \<and>
      domain_list t = domain_list s @ (if b then [lowercase domain] else []) \<and>
      (b \<longleftrightarrow> domain \<noteq> [] \<and> length domain \<le> chunk_bytes s \<and>
        (has_room s domain \<or> (length (chunks s) + 1) * chunk_bytes s \<le> MAX_TEXT_BYTES) \<and> accept (lowercase domain))"
    and "\<exists>t. domain_set_retain s keep = Some t \<and> domain_set_ok t \<and> domain_list t = filter keep (domain_list s)"
    and "\<exists>t. prepare_keys s = Some t \<and> domain_set_ok t \<and>
      domain_list t = remdups_adj (sort (map strip_dots (domain_list s))) \<and> sorted_wrt (<) (domain_list t)"
    and "domain_set_iter s = Some (domain_list s)"
proof -
  show "\<exists>b t. push_lowercase_if s domain accept = Some (b, t) \<and> domain_set_ok t \<and>
      domain_list t = domain_list s @ (if b then [lowercase domain] else []) \<and>
      (b \<longleftrightarrow> domain \<noteq> [] \<and> length domain \<le> chunk_bytes s \<and>
        (has_room s domain \<or> (length (chunks s) + 1) * chunk_bytes s \<le> MAX_TEXT_BYTES) \<and> accept (lowercase domain))"
    by (rule push_lowercase_if_ok [OF assms, of domain accept]) blast
  show "\<exists>t. domain_set_retain s keep = Some t \<and> domain_set_ok t \<and> domain_list t = filter keep (domain_list s)"
    by (rule domain_set_retain_ok [OF assms, of keep]) blast
  show "\<exists>t. prepare_keys s = Some t \<and> domain_set_ok t \<and>
      domain_list t = remdups_adj (sort (map strip_dots (domain_list s))) \<and> sorted_wrt (<) (domain_list t)"
    by (rule prepare_keys_ok [OF assms]) (auto intro: sorted_wrt_remdups_adj)
  show "domain_set_iter s = Some (domain_list s)" by (rule domain_set_iter_ok [OF assms])
qed

text \<open>
  C30. The packed set behaves as the list of domains it stands for. From any state the
  operations can reach, appending a candidate adds its lower-cased text at the end exactly
  when it is not empty, fits into a chunk and into the 32-bit offsets, and is accepted;
  otherwise the list is unchanged. Retaining filters the list, preparing the keys strips
  trailing dots, sorts and removes duplicates, and iterating yields the list. None of them
  panics.
\<close>

theorem domain_set_refines:
  assumes "domain_set_ok s"
  shows "(\<exists>b t. push_lowercase_if s domain accept = Some (b, t) \<and> domain_set_ok t \<and>
      domain_list t = domain_list s @ (if b then [lowercase domain] else []) \<and>
      (b \<longleftrightarrow> domain \<noteq> [] \<and> length domain \<le> chunk_bytes s \<and>
        (has_room s domain \<or> (length (chunks s) + 1) * chunk_bytes s \<le> MAX_TEXT_BYTES) \<and> accept (lowercase domain))) \<and>
    (\<exists>t. domain_set_retain s keep = Some t \<and> domain_set_ok t \<and> domain_list t = filter keep (domain_list s)) \<and>
    (\<exists>t. prepare_keys s = Some t \<and> domain_set_ok t \<and>
      domain_list t = remdups_adj (sort (map strip_dots (domain_list s))) \<and> sorted_wrt (<) (domain_list t)) \<and>
    domain_set_iter s = Some (domain_list s)"
  by (intro conjI domain_set_facts [OF assms])

theorem domain_set_refines_witness:
  "domain_set_ok domain_set_new \<and> domain_list domain_set_new = [] \<and>
   (\<exists>t. push_lowercase_if domain_set_new ''Ads.Example.'' (\<lambda>_. True) = Some (True, t) \<and>
     domain_list t = [''ads.example.''])"
proof -
  have "lowercase ''Ads.Example.'' = ''ads.example.''" by code_simp
  moreover have "length ''Ads.Example.'' \<le> chunk_bytes domain_set_new"
    "(length (chunks domain_set_new) + 1) * chunk_bytes domain_set_new \<le> MAX_TEXT_BYTES"
    by (simp_all add: domain_set_new_def CHUNK_BYTES_def MAX_TEXT_BYTES_def)
  ultimately show ?thesis
    using domain_set_new_ok domain_set_refines [of domain_set_new "''Ads.Example.''" "\<lambda>_. True" "\<lambda>_. True"] by auto
qed

text \<open>
  A text of at most \<open>u32::MAX\<close> bytes read as one domain per line yields exactly its
  non-empty lines, a carriage return at the end of a line removed, in a state the other
  operations can work on.
\<close>

theorem from_lines_spec:
  assumes "length txt \<le> MAX_TEXT_BYTES"
  shows "domain_set_ok (from_lines txt) \<and> domain_set_iter (from_lines txt) =
    Some (filter (\<lambda>l. l \<noteq> []) (map line_text (split_on (CHR 0x0A) txt)))"
  using from_lines_ok [OF assms] domain_set_iter_ok by metis

theorem from_lines_spec_witness:
  "domain_set_iter (from_lines [CHR ''a'', CHR 0x0D, CHR 0x0A, CHR 0x0A, CHR ''b'']) = Some [''a'', ''b'']"
proof -
  let ?t = "[CHR ''a'', CHR 0x0D, CHR 0x0A, CHR 0x0A, CHR ''b'']"
  have "filter (\<lambda>l. l \<noteq> []) (map line_text (split_on (CHR 0x0A) ?t)) = [''a'', ''b'']" by code_simp
  with from_lines_spec [of ?t] show ?thesis by (simp add: MAX_TEXT_BYTES_def)
qed

end
