(* ===== verification/Parser.thy ===== *)
theory Parser
  imports Domain_Set Net
begin

text \<open>
  The list parsers of \<open>crates/blocklist/src/parser.rs\<close>: hosts files, plain domain lists, Adblock
  filter lists and their allowlist reading. Whether a character outside ASCII is alphanumeric
  is a matter of the Unicode tables of the standard library: \<open>ua\<close> is that test, on the UTF-8
  encoding of the character.
\<close>

section \<open>Strings\<close>

fun contains_str :: "string \<Rightarrow> string \<Rightarrow> bool" where
  "contains_str [] p = (p = [])"
| "contains_str (c # cs) p = (starts_with (c # cs) p \<or> contains_str cs p)"

definition before_char :: "char \<Rightarrow> string \<Rightarrow> string" where
  "before_char c s = takeWhile (\<lambda>x. x \<noteq> c) s"

text \<open>The characters of a string, each as its UTF-8 bytes: continuation bytes join what precedes them.\<close>

definition is_continuation :: "char \<Rightarrow> bool" where
  "is_continuation c \<longleftrightarrow> of_char c div (64 :: nat) = 2"

function utf8_chars :: "string \<Rightarrow> string list" where
  "utf8_chars [] = []"
| "utf8_chars (c # cs) = (c # takeWhile is_continuation cs) # utf8_chars (dropWhile is_continuation cs)"
  by pat_completeness auto
termination
  by (relation "measure length") (auto simp: less_Suc_eq_le length_dropWhile_le)

definition ascii_alnum :: "char \<Rightarrow> bool" where
  "ascii_alnum c \<longleftrightarrow> c \<in> set ''abcdefghijklmnopqrstuvwxyzABCDEFGHIJKLMNOPQRSTUVWXYZ0123456789''"

definition is_alphanumeric :: "(string \<Rightarrow> bool) \<Rightarrow> string \<Rightarrow> bool" where
  "is_alphanumeric ua ch = (case ch of [c] \<Rightarrow> ascii_alnum c | _ \<Rightarrow> ua ch)"

definition is_valid_domain :: "(string \<Rightarrow> bool) \<Rightarrow> string \<Rightarrow> bool" where
  "is_valid_domain ua domain =
     (if domain = [] \<or> length domain > 253 then False
      else if CHR ''.'' \<notin> set domain then False
      else list_all (\<lambda>ch. is_alphanumeric ua ch \<or> ch = ''-'' \<or> ch = ''.'' \<or> ch = ''_'') (utf8_chars domain))"

section \<open>Hosts files\<close>

definition hosts_accept :: "(string \<Rightarrow> bool) \<Rightarrow> string \<Rightarrow> bool" where
  "hosts_accept ua domain =
     (if domain = ''localhost'' \<or> domain = ''localhost.localdomain'' \<or> domain = ''broadcasthost'' then False
      else is_valid_domain ua domain)"

fun push_if_all :: "(string \<Rightarrow> bool) \<Rightarrow> DomainSet \<Rightarrow> string list \<Rightarrow> DomainSet rs" where
  "push_if_all accept s [] = Some s"
| "push_if_all accept s (d # ds) = do { (b, s) \<leftarrow> push_lowercase_if s d accept; push_if_all accept s ds }"

definition hosts_feed :: "(string \<Rightarrow> bool) \<Rightarrow> DomainSet \<Rightarrow> string \<Rightarrow> DomainSet rs" where
  "hosts_feed ua s line =
     (let line = trim (before_char (CHR ''#'') line) in
      if line = [] then Some s
      else case split_whitespace line of
        [] \<Rightarrow> Some s
      | ip # parts \<Rightarrow>
          if ip \<noteq> ''0.0.0.0'' \<and> ip \<noteq> ''127.0.0.1'' \<and> ip \<noteq> ''::1'' then Some s
          else push_if_all (hosts_accept ua) s parts)"

definition feed_all :: "('p \<Rightarrow> string \<Rightarrow> 'p rs) \<Rightarrow> 'p \<Rightarrow> string list \<Rightarrow> 'p rs" where
  "feed_all feed p ls = run_rs feed p ls"

definition parse_hosts :: "(string \<Rightarrow> bool) \<Rightarrow> string \<Rightarrow> string list rs" where
  "parse_hosts ua content = do { s \<leftarrow> feed_all (hosts_feed ua) domain_set_new (str_lines content); domain_set_iter s }"

section \<open>Plain lists\<close>

definition is_adblock_syntax :: "string \<Rightarrow> bool" where
  "is_adblock_syntax line =
     (if starts_with line ''||'' \<or> starts_with line ''@@'' \<or> contains_str line ''##'' \<or> contains_str line ''#?#'' \<or>
         contains_str line ''#@#'' \<or> contains_str line ''#$#''
      then True
      else CHR ''$'' \<in> set (before_char (CHR ''#'') line))"

definition plain_feed :: "(string \<Rightarrow> bool) \<Rightarrow> DomainSet \<Rightarrow> string \<Rightarrow> DomainSet rs" where
  "plain_feed ua s line =
     (let line = trim line in
      if line = [] then Some s
      else if is_adblock_syntax line then Some s
      else
        (let line = trim (before_char (CHR ''#'') line) in
         if line = [] then Some s
         else map_option snd (push_lowercase_if s line (is_valid_domain ua))))"

definition parse_plain :: "(string \<Rightarrow> bool) \<Rightarrow> string \<Rightarrow> string list rs" where
  "parse_plain ua content = do { s \<leftarrow> feed_all (plain_feed ua) domain_set_new (str_lines content); domain_set_iter s }"

section \<open>Adblock lists\<close>

record AdblockStats =
  kept :: nat
  exceptions_count :: nat
  unblocked_by_exception :: nat
  stat_scoped :: nat
  stat_cosmetic :: nat
  stat_unsupported :: nat

record AdblockParser =
  ab_domains :: DomainSet
  ab_exceptions :: "string set"
  scoped_skipped :: nat
  cosmetic_skipped :: nat
  unsupported_skipped :: nat

definition adblock_new :: AdblockParser where
  "adblock_new = \<lparr>ab_domains = domain_set_new, ab_exceptions = {}, scoped_skipped = 0, cosmetic_skipped = 0,
     unsupported_skipped = 0\<rparr>"

definition adblock_rule_domain :: "(string \<Rightarrow> bool) \<Rightarrow> string \<Rightarrow> string option" where
  "adblock_rule_domain ua body =
     (let head = trim (hd (split_on (CHR ''^'') body)) in
      if CHR ''/'' \<in> set head then None
      else
        (let domain = lowercase head in
         if domain \<noteq> [] \<and> is_valid_domain ua domain then Some domain else None))"

definition split_options :: "string \<Rightarrow> string \<times> string option" where
  "split_options rest = (case split_once (CHR ''$'') rest of Some (p, opts) \<Rightarrow> (p, Some opts) | None \<Rightarrow> (rest, None))"

definition is_scoped :: "string option \<Rightarrow> bool" where
  "is_scoped opts = (case opts of None \<Rightarrow> False
     | Some os \<Rightarrow> list_ex (\<lambda>opt. starts_with (trim opt) ''domain='') (split_on (CHR '','') os))"

definition is_cosmetic :: "string \<Rightarrow> bool" where
  "is_cosmetic line \<longleftrightarrow> contains_str line ''##'' \<or> contains_str line ''#?#'' \<or> contains_str line ''#@#''"

definition adblock_feed :: "(string \<Rightarrow> bool) \<Rightarrow> AdblockParser \<Rightarrow> string \<Rightarrow> AdblockParser rs" where
  "adblock_feed ua p line =
     (let line = trim line in
      if line = [] \<or> starts_with line ''!'' \<or> starts_with line ''#'' then Some p
      else case strip_prefix line ''@@||'' of
        Some rest \<Rightarrow>
          Some (case adblock_rule_domain ua rest of
                  Some domain \<Rightarrow> p\<lparr>ab_exceptions := insert domain (ab_exceptions p)\<rparr>
                | None \<Rightarrow> p)
      | None \<Rightarrow>
     (case strip_prefix line ''||'' of
        Some rest \<Rightarrow>
          (case split_options rest of (pattern, opts) \<Rightarrow>
             if is_scoped opts then Some (p\<lparr>scoped_skipped := scoped_skipped p + 1\<rparr>)
             else case adblock_rule_domain ua pattern of
               Some domain \<Rightarrow> map_option (\<lambda>s. p\<lparr>ab_domains := s\<rparr>) (domain_set_push (ab_domains p) domain)
             | None \<Rightarrow> Some (p\<lparr>unsupported_skipped := unsupported_skipped p + 1\<rparr>))
      | None \<Rightarrow>
          Some (if is_adblock_syntax line then
                  (if is_cosmetic line then p\<lparr>cosmetic_skipped := cosmetic_skipped p + 1\<rparr>
                   else p\<lparr>unsupported_skipped := unsupported_skipped p + 1\<rparr>)
                else p)))"

definition adblock_finish :: "AdblockParser \<Rightarrow> (DomainSet \<times> AdblockStats) rs" where
  "adblock_finish p = do {
     s \<leftarrow> (if ab_exceptions p = {} then Some (ab_domains p)
          else domain_set_retain (ab_domains p) (\<lambda>d. d \<notin> ab_exceptions p));
     Some (s, \<lparr>kept = domain_set_len s, exceptions_count = card (ab_exceptions p),
       unblocked_by_exception =
         (if ab_exceptions p = {} then 0 else domain_set_len (ab_domains p) - domain_set_len s),
       stat_scoped = scoped_skipped p, stat_cosmetic = cosmetic_skipped p,
       stat_unsupported = unsupported_skipped p\<rparr>)
   }"

definition parse_adblock :: "(string \<Rightarrow> bool) \<Rightarrow> string \<Rightarrow> (string list \<times> AdblockStats) rs" where
  "parse_adblock ua content = do {
     p \<leftarrow> feed_all (adblock_feed ua) adblock_new (str_lines content);
     (s, stats) \<leftarrow> adblock_finish p;
     ds \<leftarrow> domain_set_iter s;
     Some (ds, stats)
   }"

section \<open>Adblock lists read as allowlists\<close>

record AdblockExceptionsParser =
  ax_domains :: DomainSet
  exception_rules :: nat
  ax_scoped :: nat
  ax_cosmetic :: nat
  ax_unsupported :: nat

definition exceptions_new :: AdblockExceptionsParser where
  "exceptions_new = \<lparr>ax_domains = domain_set_new, exception_rules = 0, ax_scoped = 0, ax_cosmetic = 0, ax_unsupported = 0\<rparr>"

definition exceptions_feed :: "(string \<Rightarrow> bool) \<Rightarrow> AdblockExceptionsParser \<Rightarrow> string \<Rightarrow> AdblockExceptionsParser rs" where
  "exceptions_feed ua p line =
     (let line = trim line in
      if line = [] \<or> starts_with line ''!'' \<or> starts_with line ''#'' then Some p
      else case strip_prefix line ''@@||'' of
        Some rest \<Rightarrow>
          (let p = p\<lparr>exception_rules := exception_rules p + 1\<rparr> in
           case split_options rest of (pattern, opts) \<Rightarrow>
             if is_scoped opts then Some (p\<lparr>ax_scoped := ax_scoped p + 1\<rparr>)
             else case adblock_rule_domain ua pattern of
               Some domain \<Rightarrow> map_option (\<lambda>s. p\<lparr>ax_domains := s\<rparr>) (domain_set_push (ax_domains p) domain)
             | None \<Rightarrow> Some (p\<lparr>ax_unsupported := ax_unsupported p + 1\<rparr>))
      | None \<Rightarrow>
          Some (if is_adblock_syntax line then
                  (if is_cosmetic line then p\<lparr>ax_cosmetic := ax_cosmetic p + 1\<rparr>
                   else p\<lparr>ax_unsupported := ax_unsupported p + 1\<rparr>)
                else p))"

definition exceptions_finish :: "AdblockExceptionsParser \<Rightarrow> DomainSet \<times> AdblockStats" where
  "exceptions_finish p = (ax_domains p, \<lparr>kept = domain_set_len (ax_domains p), exceptions_count = exception_rules p,
     unblocked_by_exception = 0, stat_scoped = ax_scoped p, stat_cosmetic = ax_cosmetic p,
     stat_unsupported = ax_unsupported p\<rparr>)"

definition parse_adblock_exceptions :: "(string \<Rightarrow> bool) \<Rightarrow> string \<Rightarrow> (string list \<times> AdblockStats) rs" where
  "parse_adblock_exceptions ua content = do {
     p \<leftarrow> feed_all (exceptions_feed ua) exceptions_new (str_lines content);
     let (s, stats) = exceptions_finish p;
     ds \<leftarrow> domain_set_iter s;
     Some (ds, stats)
   }"

section \<open>Every parser is total and yields valid names\<close>

definition good_name :: "(string \<Rightarrow> bool) \<Rightarrow> string \<Rightarrow> bool" where
  "good_name ua d \<longleftrightarrow> is_valid_domain ua d \<and> lowercase d = d"

definition names_ok :: "(string \<Rightarrow> bool) \<Rightarrow> DomainSet \<Rightarrow> bool" where
  "names_ok ua s \<longleftrightarrow> domain_set_ok s \<and> list_all (good_name ua) (domain_list s)"

lemma names_ok_new: "names_ok ua domain_set_new"
  using domain_set_new_ok by (simp add: names_ok_def)

lemma push_names_ok:
  assumes "names_ok ua s" and "accept (lowercase d) \<Longrightarrow> is_valid_domain ua (lowercase d)"
  obtains b t where "push_lowercase_if s d accept = Some (b, t)" and "names_ok ua t"
proof -
  have "domain_set_ok s" using assms(1) by (simp add: names_ok_def)
  then obtain b t where "push_lowercase_if s d accept = Some (b, t)" "domain_set_ok t"
    "domain_list t = domain_list s @ (if b then [lowercase d] else [])"
    "b \<longleftrightarrow> d \<noteq> [] \<and> length d \<le> chunk_bytes s \<and>
      (has_room s d \<or> (length (chunks s) + 1) * chunk_bytes s \<le> MAX_TEXT_BYTES) \<and> accept (lowercase d)"
    by (rule push_lowercase_if_ok)
  with assms that [of b t] show thesis by (auto simp: names_ok_def good_name_def)
qed

lemma push_if_all_ok:
  assumes "\<And>d. accept d \<Longrightarrow> is_valid_domain ua d"
  shows "names_ok ua s \<Longrightarrow> \<exists>t. push_if_all accept s ds = Some t \<and> names_ok ua t"
proof (induction ds arbitrary: s)
  case (Cons d ds)
  obtain b t where "push_lowercase_if s d accept = Some (b, t)" "names_ok ua t"
    using push_names_ok [OF Cons.prems, of accept d] assms by metis
  with Cons.IH show ?case by simp
qed simp

lemma hosts_feed_ok: "names_ok ua s \<Longrightarrow> \<exists>t. hosts_feed ua s line = Some t \<and> names_ok ua t"
  using push_if_all_ok [of "hosts_accept ua" ua s]
  by (auto simp: hosts_feed_def Let_def hosts_accept_def split: list.splits if_splits)

lemma plain_feed_ok:
  assumes "names_ok ua s"
  shows "\<exists>t. plain_feed ua s line = Some t \<and> names_ok ua t"
proof -
  obtain b t where "push_lowercase_if s (trim (before_char (CHR ''#'') (trim line))) (is_valid_domain ua) = Some (b, t)"
    "names_ok ua t" using push_names_ok [OF assms, of "is_valid_domain ua"] by blast
  with assms show ?thesis by (auto simp: plain_feed_def Let_def)
qed

lemma adblock_rule_domain_good:
  "adblock_rule_domain ua body = Some d \<Longrightarrow> good_name ua d \<and> d \<noteq> [] \<and> length d \<le> 253"
  by (auto simp: adblock_rule_domain_def good_name_def Let_def is_valid_domain_def split: if_splits)

lemma push_rule_ok:
  assumes "names_ok ua s" and "adblock_rule_domain ua body = Some d"
  shows "\<exists>t. domain_set_push s d = Some t \<and> names_ok ua t"
proof -
  obtain b t where "push_lowercase_if s d (\<lambda>_. True) = Some (b, t)" "names_ok ua t"
    using push_names_ok [OF assms(1), of "\<lambda>_. True" d] adblock_rule_domain_good [OF assms(2)]
    by (metis good_name_def)
  then show ?thesis by (simp add: domain_set_push_def)
qed

lemma adblock_feed_ok:
  "names_ok ua (ab_domains p) \<Longrightarrow> \<exists>q. adblock_feed ua p line = Some q \<and> names_ok ua (ab_domains q)"
  using push_rule_ok [of ua "ab_domains p"]
  by (auto simp: adblock_feed_def Let_def split: option.splits prod.splits) fastforce

lemma exceptions_feed_ok:
  "names_ok ua (ax_domains p) \<Longrightarrow> \<exists>q. exceptions_feed ua p line = Some q \<and> names_ok ua (ax_domains q)"
  using push_rule_ok [of ua "ax_domains p"]
  by (auto simp: exceptions_feed_def Let_def split: option.splits prod.splits) fastforce

lemma names_ok_iter: "names_ok ua s \<Longrightarrow> domain_set_iter s = Some (domain_list s) \<and> list_all (good_name ua) (domain_list s)"
  by (simp add: names_ok_def domain_set_iter_ok)

lemma domain_set_len_list: "domain_set_len s = length (domain_list s)"
  by (simp add: domain_set_len_def domain_list_def)

lemma adblock_finish_ok:
  assumes "names_ok ua (ab_domains p)"
  shows "\<exists>s stats. adblock_finish p = Some (s, stats) \<and> names_ok ua s \<and>
    domain_list s = filter (\<lambda>d. d \<notin> ab_exceptions p) (domain_list (ab_domains p)) \<and>
    kept stats = length (domain_list s) \<and> exceptions_count stats = card (ab_exceptions p) \<and>
    unblocked_by_exception stats = length (domain_list (ab_domains p)) - length (domain_list s)"
proof (cases "ab_exceptions p = {}")
  case True
  then show ?thesis using assms by (simp add: adblock_finish_def domain_set_len_list)
next
  case False
  have "domain_set_ok (ab_domains p)" using assms by (simp add: names_ok_def)
  then obtain t where "domain_set_retain (ab_domains p) (\<lambda>d. d \<notin> ab_exceptions p) = Some t" "domain_set_ok t"
    "domain_list t = filter (\<lambda>d. d \<notin> ab_exceptions p) (domain_list (ab_domains p))" by (rule domain_set_retain_ok)
  then show ?thesis using False assms
    by (simp add: adblock_finish_def names_ok_def list_all_iff domain_set_len_list)
qed

interpretation hosts: panic_free "hosts_feed ua" "names_ok ua" for ua
  by unfold_locales (rule hosts_feed_ok)

interpretation plain: panic_free "plain_feed ua" "names_ok ua" for ua
  by unfold_locales (rule plain_feed_ok)

interpretation adblock: panic_free "adblock_feed ua" "\<lambda>p. names_ok ua (ab_domains p)" for ua
  by unfold_locales (rule adblock_feed_ok)

interpretation exceptions: panic_free "exceptions_feed ua" "\<lambda>p. names_ok ua (ax_domains p)" for ua
  by unfold_locales (rule exceptions_feed_ok)

lemma adblock_total: "\<exists>q. feed_all (adblock_feed ua) adblock_new ls = Some q \<and> names_ok ua (ab_domains q)"
  unfolding feed_all_def by (rule adblock.run_total) (simp add: adblock_new_def names_ok_new)

text \<open>
  C33. No text makes a list parser panic: on every input the hosts, plain, Adblock and
  allowlist parsers return, and every name they return is lower-case, at most 253 bytes long,
  has a dot and consists of name characters.
\<close>

theorem parsers_safe:
  "(\<exists>ds. parse_hosts ua txt = Some ds \<and> list_all (good_name ua) ds) \<and>
   (\<exists>ds. parse_plain ua txt = Some ds \<and> list_all (good_name ua) ds) \<and>
   (\<exists>ds stats. parse_adblock ua txt = Some (ds, stats) \<and> list_all (good_name ua) ds) \<and>
   (\<exists>ds stats. parse_adblock_exceptions ua txt = Some (ds, stats) \<and> list_all (good_name ua) ds)"
proof (intro conjI)
  show "\<exists>ds. parse_hosts ua txt = Some ds \<and> list_all (good_name ua) ds"
    using hosts.run_total [OF names_ok_new [of ua], of "str_lines txt"] names_ok_iter
    by (fastforce simp: parse_hosts_def feed_all_def)
  show "\<exists>ds. parse_plain ua txt = Some ds \<and> list_all (good_name ua) ds"
    using plain.run_total [OF names_ok_new [of ua], of "str_lines txt"] names_ok_iter
    by (fastforce simp: parse_plain_def feed_all_def)
  obtain p where "feed_all (adblock_feed ua) adblock_new (str_lines txt) = Some p" "names_ok ua (ab_domains p)"
    using adblock_total by blast
  then show "\<exists>ds stats. parse_adblock ua txt = Some (ds, stats) \<and> list_all (good_name ua) ds"
    using adblock_finish_ok [of ua p] names_ok_iter by (fastforce simp: parse_adblock_def)
  obtain p where "feed_all (exceptions_feed ua) exceptions_new (str_lines txt) = Some p" "names_ok ua (ax_domains p)"
    using exceptions.run_total [of ua exceptions_new "str_lines txt"] names_ok_new
    by (auto simp: exceptions_new_def feed_all_def)
  then show "\<exists>ds stats. parse_adblock_exceptions ua txt = Some (ds, stats) \<and> list_all (good_name ua) ds"
    using names_ok_iter [of ua "ax_domains p"] by (simp add: parse_adblock_exceptions_def exceptions_finish_def)
qed

section \<open>What an Adblock list blocks\<close>

definition is_comment :: "string \<Rightarrow> bool" where
  "is_comment line \<longleftrightarrow> line = [] \<or> starts_with line ''!'' \<or> starts_with line ''#''"

text \<open>The name a line blocks, and the name it exempts.\<close>

definition block_rule :: "(string \<Rightarrow> bool) \<Rightarrow> string \<Rightarrow> string option" where
  "block_rule ua raw =
     (let line = trim raw in
      if is_comment line \<or> starts_with line ''@@||'' then None
      else do {
        rest \<leftarrow> strip_prefix line ''||'';
        if is_scoped (snd (split_options rest)) then None else adblock_rule_domain ua (fst (split_options rest))
      })"

definition exception_rule :: "(string \<Rightarrow> bool) \<Rightarrow> string \<Rightarrow> string option" where
  "exception_rule ua raw =
     (let line = trim raw in
      if is_comment line then None
      else do { rest \<leftarrow> strip_prefix line ''@@||''; adblock_rule_domain ua rest })"

lemma strip_prefix_None: "strip_prefix s p = None \<longleftrightarrow> \<not> starts_with s p"
  by (simp add: strip_prefix_def)

lemma starts_with_exception: "starts_with s ''@@||'' \<Longrightarrow> \<not> starts_with s ''||''"
  by (cases s) (auto simp: starts_with_def)

lemma feed_block_rule:
  assumes "block_rule ua line = Some d"
  shows "adblock_feed ua p line = map_option (\<lambda>s. p\<lparr>ab_domains := s\<rparr>) (domain_set_push (ab_domains p) d) \<and>
    exception_rule ua line = None"
  using assms
  by (auto simp: block_rule_def exception_rule_def adblock_feed_def Let_def is_comment_def strip_prefix_None
      bind_eq_Some_conv strip_prefix_def split: if_splits prod.splits)

lemma feed_other_rule:
  assumes "block_rule ua line = None"
  shows "\<exists>q. adblock_feed ua p line = Some q \<and> ab_domains q = ab_domains p \<and>
    ab_exceptions q = ab_exceptions p \<union> set_option (exception_rule ua line)"
  using assms
  by (auto simp: block_rule_def exception_rule_def adblock_feed_def Let_def is_comment_def strip_prefix_None
      bind_eq_None_conv strip_prefix_def split: if_splits prod.splits option.splits)

definition option_list :: "'a option \<Rightarrow> 'a list" where
  "option_list x = (case x of Some y \<Rightarrow> [y] | None \<Rightarrow> [])"

lemma adblock_feed_spec:
  assumes "packed (ab_domains p)" and "text_bytes (ab_domains p) < TEXT_ROOM"
  shows "\<exists>q. adblock_feed ua p line = Some q \<and> packed (ab_domains q) \<and>
    text_bytes (ab_domains q) \<le> text_bytes (ab_domains p) + 253 \<and>
    domain_list (ab_domains q) = domain_list (ab_domains p) @ option_list (block_rule ua line) \<and>
    ab_exceptions q = ab_exceptions p \<union> set_option (exception_rule ua line)"
proof (cases "block_rule ua line")
  case None
  with feed_other_rule [OF None, of p] assms show ?thesis by (auto simp: option_list_def)
next
  case (Some d)
  then obtain body where "adblock_rule_domain ua body = Some d"
    by (auto simp: block_rule_def Let_def bind_eq_Some_conv split: if_splits)
  then have d: "d \<noteq> []" "length d \<le> 253" "lowercase d = d" using adblock_rule_domain_good by (auto simp: good_name_def)
  obtain t where "push_lowercase_if (ab_domains p) d (\<lambda>_. True) = Some (True, t)" "packed t"
    "text_bytes t \<le> text_bytes (ab_domains p) + length d" "domain_list t = domain_list (ab_domains p) @ [lowercase d]"
    using push_packed [OF assms(1) d(1,2) assms(2), of "\<lambda>_. True"] by auto
  then show ?thesis using feed_block_rule [OF Some, of p] d Some by (auto simp: domain_set_push_def option_list_def)
qed

lemma adblock_feed_all_spec:
  assumes "packed (ab_domains p)" and "text_bytes (ab_domains p) + length ls * 253 < TEXT_ROOM"
  shows "\<exists>q. feed_all (adblock_feed ua) p ls = Some q \<and> packed (ab_domains q) \<and>
    domain_list (ab_domains q) = domain_list (ab_domains p) @ concat (map (\<lambda>l. option_list (block_rule ua l)) ls) \<and>
    ab_exceptions q = ab_exceptions p \<union> (\<Union>l \<in> set ls. set_option (exception_rule ua l))"
  using assms
proof (induction ls arbitrary: p)
  case (Cons l ls)
  have "text_bytes (ab_domains p) < TEXT_ROOM" using Cons.prems(2) by simp
  from adblock_feed_spec [OF Cons.prems(1) this, of ua l] obtain q where q: "adblock_feed ua p l = Some q"
    "packed (ab_domains q)" "text_bytes (ab_domains q) \<le> text_bytes (ab_domains p) + 253"
    "domain_list (ab_domains q) = domain_list (ab_domains p) @ option_list (block_rule ua l)"
    "ab_exceptions q = ab_exceptions p \<union> set_option (exception_rule ua l)" by blast
  have "text_bytes (ab_domains q) + length ls * 253 < TEXT_ROOM" using Cons.prems(2) q(3) by simp
  from Cons.IH [OF q(2) this] q show ?case by (auto simp: feed_all_def)
qed (simp add: feed_all_def)

definition blocked_names :: "(string \<Rightarrow> bool) \<Rightarrow> string \<Rightarrow> string list" where
  "blocked_names ua txt = concat (map (\<lambda>l. option_list (block_rule ua l)) (str_lines txt))"

definition exempt_names :: "(string \<Rightarrow> bool) \<Rightarrow> string \<Rightarrow> string set" where
  "exempt_names ua txt = (\<Union>l \<in> set (str_lines txt). set_option (exception_rule ua l))"

lemma parse_adblock_run:
  assumes "length (str_lines txt) * 253 < TEXT_ROOM"
  shows "\<exists>stats. parse_adblock ua txt = Some (filter (\<lambda>d. d \<notin> exempt_names ua txt) (blocked_names ua txt), stats) \<and>
    kept stats = length (filter (\<lambda>d. d \<notin> exempt_names ua txt) (blocked_names ua txt)) \<and>
    exceptions_count stats = card (exempt_names ua txt) \<and>
    unblocked_by_exception stats + kept stats = length (blocked_names ua txt)"
proof -
  have "packed (ab_domains adblock_new)" "text_bytes (ab_domains adblock_new) + length (str_lines txt) * 253 < TEXT_ROOM"
    using packed_new assms by (simp_all add: adblock_new_def)
  from adblock_feed_all_spec [OF this, of ua] obtain p where p: "feed_all (adblock_feed ua) adblock_new (str_lines txt) = Some p"
    "domain_list (ab_domains p) = blocked_names ua txt" "ab_exceptions p = exempt_names ua txt"
    using packed_new by (auto simp: adblock_new_def blocked_names_def exempt_names_def)
  moreover have "names_ok ua (ab_domains p)" using adblock_total [of ua "str_lines txt"] p(1) by auto
  from adblock_finish_ok [OF this] obtain s stats where "adblock_finish p = Some (s, stats)" "names_ok ua s"
    "domain_list s = filter (\<lambda>d. d \<notin> exempt_names ua txt) (blocked_names ua txt)"
    "kept stats = length (domain_list s)" "exceptions_count stats = card (exempt_names ua txt)"
    "unblocked_by_exception stats = length (blocked_names ua txt) - length (domain_list s)"
    by (auto simp: p)
  ultimately show ?thesis using names_ok_iter [of ua s] length_filter_le [of "\<lambda>d. d \<notin> exempt_names ua txt" "blocked_names ua txt"]
    by (simp add: parse_adblock_def)
qed

text \<open>
  An exemption with options but without the \<open>^\<close> separator is dropped, while the block rule
  of the same shape takes effect: its options are cut off first, those of the exemption are
  not.
\<close>

theorem exception_options_not_stripped:
  "\<exists>stats. parse_adblock ua (''||good.com$image'' @ [CHR 0x0A] @ ''@@||good.com$image'') = Some ([''good.com''], stats)"
proof -
  let ?t = "''||good.com$image'' @ [CHR 0x0A] @ ''@@||good.com$image''"
  have l: "str_lines ?t = [''||good.com$image'', ''@@||good.com$image'']" by code_simp
  have b: "block_rule ua ''||good.com$image'' = Some ''good.com''" "exception_rule ua ''||good.com$image'' = None"
    "block_rule ua ''@@||good.com$image'' = None" "exception_rule ua ''@@||good.com$image'' = None" by code_simp+
  have "blocked_names ua ?t = [''good.com'']" "exempt_names ua ?t = {}"
    unfolding blocked_names_def exempt_names_def l by (simp_all add: b option_list_def)
  moreover have "length (str_lines ?t) * 253 < TEXT_ROOM" unfolding l by (simp add: TEXT_ROOM_def CHUNK_BYTES_def)
  from parse_adblock_run [OF this, of ua] calculation show ?thesis by auto
qed

end
