(* ===== verification/Dns_Cache.thy ===== *)
theory Dns_Cache
  imports Lru Rust_Str
begin

text \<open>
  The DNS response cache, \<open>crates/dns/src/cache.rs\<close>: the LRU map with its byte accounting, the
  TTL bounds, the optimistic (stale) window and the keys. The LRU crate is a parameter. Times
  are nanoseconds, as in the decision cache; a duration in whole seconds is scaled. The
  subtractions of the accounting panic when they would go below zero. The two eviction loops
  are \<open>partial_function\<close>s: a loop that did not end would have no value. The time a restored
  entry has left is a difference of Unix times taken without the bound of \<open>i64\<close>, which only a
  corrupt snapshot could reach.
\<close>

section \<open>Entries and accounting\<close>

definition ns :: nat where "ns = 1000000000"

definition MAX_TTL :: nat where "MAX_TTL = 3600"
definition MIN_TTL :: nat where "MIN_TTL = 0"
definition STALE_ANSWER_TTL :: nat where "STALE_ANSWER_TTL = 30"
definition MAX_STALE_AGE :: nat where "MAX_STALE_AGE = 7 * 24 * 3600"
definition ENTRY_OVERHEAD :: nat where "ENTRY_OVERHEAD = 128"
definition USIZE_MAX :: nat where "USIZE_MAX = 18446744073709551615"

record DnsResponse =
  resp_bytes :: bytes
  resp_ttl :: nat

record CacheEntry =
  ce_response :: DnsResponse
  ce_expires_at :: nat

definition is_expired :: "nat \<Rightarrow> CacheEntry \<Rightarrow> bool" where
  "is_expired now e \<longleftrightarrow> now \<ge> ce_expires_at e"

definition entry_cost :: "string \<Rightarrow> CacheEntry \<Rightarrow> nat" where
  "entry_cost key e = length key + length (resp_bytes (ce_response e)) + ENTRY_OVERHEAD"

definition sub_rs :: "nat \<Rightarrow> nat \<Rightarrow> nat rs" where
  "sub_rs a b = (if b \<le> a then Some (a - b) else None)"

record 'c Inner =
  in_lru :: 'c
  total_bytes :: nat

definition inner_pop :: "(CacheEntry, 'c) lru_lib \<Rightarrow> 'c Inner \<Rightarrow> string \<Rightarrow> 'c Inner rs" where
  "inner_pop L i key =
     (case lru_pop L (in_lru i) key of
        (Some v, c) \<Rightarrow> do { t \<leftarrow> sub_rs (total_bytes i) (entry_cost key v); Some \<lparr>in_lru = c, total_bytes = t\<rparr> }
      | (None, c) \<Rightarrow> Some (i\<lparr>in_lru := c\<rparr>))"

text \<open>The loops that evict the coldest entry while the cache is too large.\<close>

partial_function (option) shrink :: "(CacheEntry, 'c) lru_lib \<Rightarrow> ('c Inner \<Rightarrow> bool) \<Rightarrow> 'c Inner \<Rightarrow> 'c Inner rs" where
  "shrink L too_large i =
     (if too_large i then
        (case lru_pop_lru L (in_lru i) of
           (None, c) \<Rightarrow> Some (i\<lparr>in_lru := c\<rparr>)
         | (Some kv, c) \<Rightarrow>
             Option.bind (sub_rs (total_bytes i) (entry_cost (fst kv) (snd kv)))
               (\<lambda>t. shrink L too_large \<lparr>in_lru = c, total_bytes = t\<rparr>))
      else Some i)"

definition over_budget :: "(CacheEntry, 'c) lru_lib \<Rightarrow> nat \<Rightarrow> 'c Inner \<Rightarrow> bool" where
  "over_budget L max_bytes i \<longleftrightarrow> total_bytes i > max_bytes \<and> lru_len L (in_lru i) > 1"

definition over_count :: "(CacheEntry, 'c) lru_lib \<Rightarrow> nat \<Rightarrow> 'c Inner \<Rightarrow> bool" where
  "over_count L cap i \<longleftrightarrow> lru_len L (in_lru i) > cap"

definition inner_put :: "(CacheEntry, 'c) lru_lib \<Rightarrow> 'c Inner \<Rightarrow> string \<Rightarrow> CacheEntry \<Rightarrow> nat \<Rightarrow> 'c Inner rs" where
  "inner_put L i key entry max_bytes = do {
     let total = total_bytes i + entry_cost key entry;
     (case lru_push L (in_lru i) key entry of
        (Some (k, v), c) \<Rightarrow> do { t \<leftarrow> sub_rs total (entry_cost k v); shrink L (over_budget L max_bytes) \<lparr>in_lru = c, total_bytes = t\<rparr> }
      | (None, c) \<Rightarrow> shrink L (over_budget L max_bytes) \<lparr>in_lru = c, total_bytes = total\<rparr>)
   }"

section \<open>The cache\<close>

record 'c DnsCache =
  inner :: "'c Inner"
  max_bytes :: nat
  min_secs :: nat
  max_secs :: nat
  stale_window :: nat
  refreshing :: "string set"

definition byte_budget :: "nat \<Rightarrow> nat" where
  "byte_budget n = (if n = 0 then USIZE_MAX else n)"

definition clamp :: "nat \<Rightarrow> nat \<Rightarrow> nat \<Rightarrow> nat" where
  "clamp x lo hi = (if x < lo then lo else if x > hi then hi else x)"

definition normalize_ttl_bounds :: "nat \<Rightarrow> nat \<Rightarrow> nat \<times> nat" where
  "normalize_ttl_bounds min_ttl max_ttl =
     (let max_ttl = (if max_ttl = 0 then MAX_TTL else max_ttl);
          lo = clamp min_ttl MIN_TTL MAX_TTL in
      (lo, max (clamp max_ttl MIN_TTL MAX_TTL) lo))"

definition dns_cache_new :: "(CacheEntry, 'c) lru_lib \<Rightarrow> nat \<Rightarrow> nat \<Rightarrow> nat \<Rightarrow> nat \<Rightarrow> 'c DnsCache" where
  "dns_cache_new L capacity max_b min_ttl max_ttl =
     \<lparr>inner = \<lparr>in_lru = lru_new L (max capacity 1), total_bytes = 0\<rparr>, max_bytes = byte_budget max_b,
      min_secs = fst (normalize_ttl_bounds min_ttl max_ttl), max_secs = snd (normalize_ttl_bounds min_ttl max_ttl),
      stale_window = 0, refreshing = {}\<rparr>"

definition set_stale_window :: "'c DnsCache \<Rightarrow> nat \<Rightarrow> 'c DnsCache" where
  "set_stale_window d s = d\<lparr>stale_window := min s MAX_STALE_AGE\<rparr>"

subsection \<open>Keys\<close>

text \<open>The decimal text of a number, as \<open>Display\<close> writes it.\<close>

definition digit_char :: "nat \<Rightarrow> char" where
  "digit_char d = ''0123456789'' ! d"

fun dec_rev :: "nat \<Rightarrow> string" where
  "dec_rev n = digit_char (n mod 10) # (if n div 10 = 0 then [] else dec_rev (n div 10))"

declare dec_rev.simps [simp del]

definition dec_text :: "nat \<Rightarrow> string" where
  "dec_text n = rev (dec_rev n)"

definition cache_key :: "string \<Rightarrow> nat \<Rightarrow> bool \<Rightarrow> string" where
  "cache_key name qtype dnssec = lowercase name @ ''/'' @ dec_text qtype @ (if dnssec then ''/do'' else [])"

definition KEY_STACK_LEN :: nat where
  "KEY_STACK_LEN = 255 + 9"

function digit_loop :: "nat \<Rightarrow> nat \<Rightarrow> string \<Rightarrow> (nat \<times> string) rs" where
  "digit_loop rest cnt ds = do {
     ds \<leftarrow> set_at ds cnt (digit_char (rest mod 10));
     if rest div 10 = 0 then Some (cnt + 1, ds) else digit_loop (rest div 10) (cnt + 1) ds
   }"
  by pat_completeness auto
termination
  by (relation "measure (\<lambda>(rest, _, _). rest)") auto

declare digit_loop.simps [simp del]

fun emit_digits :: "nat \<Rightarrow> string \<Rightarrow> string \<Rightarrow> nat \<Rightarrow> (string \<times> nat) rs" where
  "emit_digits 0 ds buf len = Some (buf, len)"
| "emit_digits (Suc cnt) ds buf len = do {
     c \<leftarrow> index ds cnt;
     buf \<leftarrow> set_at buf len c;
     emit_digits cnt ds buf (len + 1)
   }"

definition with_key :: "string \<Rightarrow> nat \<Rightarrow> bool \<Rightarrow> string rs" where
  "with_key name qtype dnssec =
     (if length name + 9 > KEY_STACK_LEN then Some (cache_key name qtype dnssec)
      else do {
        buf \<leftarrow> copy_at (replicate KEY_STACK_LEN (CHR 0x00)) 0 name;
        buf \<leftarrow> copy_at buf 0 (lowercase (take (length name) buf));
        buf \<leftarrow> set_at buf (length name) (CHR ''/'');
        (cnt, ds) \<leftarrow> digit_loop qtype 0 (replicate 5 (CHR 0x00));
        (buf, len) \<leftarrow> emit_digits cnt ds buf (length name + 1);
        (buf, len) \<leftarrow> (if dnssec then map_option (\<lambda>b. (b, len + 3)) (copy_at buf len ''/do'') else Some (buf, len));
        get_range buf 0 len
      })"

subsection \<open>Reading\<close>

definition get_stale :: "(CacheEntry, 'c) lru_lib \<Rightarrow> nat \<Rightarrow> 'c DnsCache \<Rightarrow> string \<Rightarrow> nat \<Rightarrow> bool \<Rightarrow> DnsResponse option rs" where
  "get_stale L now d name qtype dnssec =
     (let window = stale_window d in
      if window = 0 then Some None
      else do {
        key \<leftarrow> with_key name qtype dnssec;
        Some (case lru_peek L (in_lru (inner d)) key of
          None \<Rightarrow> None
        | Some e \<Rightarrow> if now \<ge> ce_expires_at e \<and> now < ce_expires_at e + window * ns then Some (ce_response e) else None)
      })"

definition cache_lookup :: "(CacheEntry, 'c) lru_lib \<Rightarrow> nat \<Rightarrow> 'c DnsCache \<Rightarrow> string \<Rightarrow> nat \<Rightarrow> bool \<Rightarrow> DnsResponse option rs" where
  "cache_lookup L now d name qtype dnssec = do {
     key \<leftarrow> with_key name qtype dnssec;
     Some (case lru_peek L (in_lru (inner d)) key of
       Some e \<Rightarrow> if \<not> is_expired now e then Some (ce_response e) else None
     | None \<Rightarrow> None)
   }"

text \<open>The clock is read twice: for the expiry test and for the remaining time.\<close>

definition get_with_remaining :: "(CacheEntry, 'c) lru_lib \<Rightarrow> nat \<Rightarrow> nat \<Rightarrow> 'c DnsCache \<Rightarrow> string \<Rightarrow> nat \<Rightarrow> bool \<Rightarrow>
    (DnsResponse \<times> nat) option rs" where
  "get_with_remaining L now now' d name qtype dnssec = do {
     key \<leftarrow> with_key name qtype dnssec;
     Some (case lru_peek L (in_lru (inner d)) key of
       Some e \<Rightarrow> if \<not> is_expired now e
         then Some (ce_response e, min ((ce_expires_at e - now') div ns) 4294967295) else None
     | None \<Rightarrow> None)
   }"

definition begin_refresh :: "'c DnsCache \<Rightarrow> string \<Rightarrow> bool \<times> 'c DnsCache" where
  "begin_refresh d key = (key \<notin> refreshing d, d\<lparr>refreshing := insert key (refreshing d)\<rparr>)"

definition end_refresh :: "'c DnsCache \<Rightarrow> string \<Rightarrow> 'c DnsCache" where
  "end_refresh d key = d\<lparr>refreshing := refreshing d - {key}\<rparr>"

subsection \<open>Writing\<close>

definition dns_insert :: "(CacheEntry, 'c) lru_lib \<Rightarrow> nat \<Rightarrow> 'c DnsCache \<Rightarrow> string \<Rightarrow> nat \<Rightarrow> bool \<Rightarrow> DnsResponse \<Rightarrow> 'c DnsCache rs" where
  "dns_insert L now d name qtype dnssec response =
     (let key = cache_key name qtype dnssec;
          clamped = min (max (resp_ttl response) (min_secs d)) (max_secs d);
          entry = \<lparr>ce_response = response, ce_expires_at = now + clamped * ns\<rparr> in
      map_option (\<lambda>i. d\<lparr>inner := i\<rparr>) (inner_put L (inner d) key entry (max_bytes d)))"

definition set_ttl_bounds :: "'c DnsCache \<Rightarrow> nat \<Rightarrow> nat \<Rightarrow> 'c DnsCache" where
  "set_ttl_bounds d min_ttl max_ttl =
     d\<lparr>min_secs := fst (normalize_ttl_bounds min_ttl max_ttl), max_secs := snd (normalize_ttl_bounds min_ttl max_ttl)\<rparr>"

definition evict :: "(CacheEntry, 'c) lru_lib \<Rightarrow> 'c DnsCache \<Rightarrow> string \<Rightarrow> nat \<Rightarrow> bool \<Rightarrow> 'c DnsCache rs" where
  "evict L d name qtype dnssec = do {
     key \<leftarrow> with_key name qtype dnssec;
     map_option (\<lambda>i. d\<lparr>inner := i\<rparr>) (inner_pop L (inner d) key)
   }"

text \<open>Popping a list of keys collected before.\<close>

definition pop_keys :: "(CacheEntry, 'c) lru_lib \<Rightarrow> 'c DnsCache \<Rightarrow> (string \<times> CacheEntry \<Rightarrow> bool) \<Rightarrow> 'c DnsCache rs" where
  "pop_keys L d sel =
     map_option (\<lambda>i. d\<lparr>inner := i\<rparr>)
       (run_rs (inner_pop L) (inner d) (map fst (filter sel (lru_iter L (in_lru (inner d))))))"

definition evict_domain :: "(CacheEntry, 'c) lru_lib \<Rightarrow> 'c DnsCache \<Rightarrow> string \<Rightarrow> 'c DnsCache rs" where
  "evict_domain L d name = pop_keys L d (\<lambda>(k, _). starts_with k (lowercase name @ ''/''))"

definition evict_expired :: "(CacheEntry, 'c) lru_lib \<Rightarrow> nat \<Rightarrow> 'c DnsCache \<Rightarrow> 'c DnsCache rs" where
  "evict_expired L now d = pop_keys L d (\<lambda>(_, v). now \<ge> ce_expires_at v + stale_window d * ns)"

definition forget_name :: "(CacheEntry, 'c) lru_lib \<Rightarrow> 'c DnsCache \<Rightarrow> string \<Rightarrow> 'c DnsCache rs" where
  "forget_name L d name =
     pop_keys L d (\<lambda>(k, _). starts_with k (lowercase (trim_end_char (\<lambda>c. c = CHR ''.'') name) @ ''/''))"

definition dns_clear :: "(CacheEntry, 'c) lru_lib \<Rightarrow> 'c DnsCache \<Rightarrow> 'c DnsCache" where
  "dns_clear L d = d\<lparr>inner := \<lparr>in_lru = lru_clear L (in_lru (inner d)), total_bytes = 0\<rparr>\<rparr>"

definition dns_resize :: "(CacheEntry, 'c) lru_lib \<Rightarrow> 'c DnsCache \<Rightarrow> nat \<Rightarrow> nat \<Rightarrow> 'c DnsCache rs" where
  "dns_resize L d capacity max_b = do {
     let budget = byte_budget max_b;
     let cap = max capacity 1;
     i \<leftarrow> shrink L (over_count L cap) (inner d);
     i \<leftarrow> shrink L (over_budget L budget) (i\<lparr>in_lru := lru_resize L (in_lru i) cap\<rparr>);
     Some (d\<lparr>max_bytes := budget, inner := i\<rparr>)
   }"

definition dns_snapshot :: "(CacheEntry, 'c) lru_lib \<Rightarrow> nat \<Rightarrow> 'c DnsCache \<Rightarrow> (string \<times> DnsResponse \<times> nat) list" where
  "dns_snapshot L now d = map (\<lambda>(k, e). (k, ce_response e, ce_expires_at e))
     (filter (\<lambda>(_, e). ce_expires_at e > now) (lru_iter L (in_lru (inner d))))"

definition restore_one :: "(CacheEntry, 'c) lru_lib \<Rightarrow> nat \<Rightarrow> int \<Rightarrow> nat \<Rightarrow> 'c Inner \<Rightarrow> string \<times> bytes \<times> nat \<times> int \<Rightarrow> 'c Inner rs" where
  "restore_one L now now_unix max_b i entry = (case entry of (key, bs, ttl, expires_unix) \<Rightarrow>
     (let remaining = expires_unix - now_unix in
      if remaining \<le> 0 then Some i
      else inner_put L i key \<lparr>ce_response = \<lparr>resp_bytes = bs, resp_ttl = ttl\<rparr>,
        ce_expires_at = now + nat remaining * ns\<rparr> max_b))"

definition dns_restore :: "(CacheEntry, 'c) lru_lib \<Rightarrow> nat \<Rightarrow> int \<Rightarrow> 'c DnsCache \<Rightarrow> (string \<times> bytes \<times> nat \<times> int) list \<Rightarrow> 'c DnsCache rs" where
  "dns_restore L now now_unix d entries =
     map_option (\<lambda>i. d\<lparr>inner := i\<rparr>) (run_rs (restore_one L now now_unix (max_bytes d)) (inner d) entries)"

end
