(* ===== verification/Dns_Cache_Correct.thy ===== *)
theory Dns_Cache_Correct
  imports Dns_Cache
begin

text \<open>
  Correctness of the DNS cache: the byte accounting is exact over every sequence of
  operations, so no subtraction goes below zero, the loops end and the budgets hold; the
  stack-built key is the key, and keys of different questions differ; what was inserted is
  found until it expires.
\<close>

section \<open>Accounting\<close>

definition cost_sum :: "(string \<times> CacheEntry) multiset \<Rightarrow> nat" where
  "cost_sum M = sum_mset (image_mset (\<lambda>(k, v). entry_cost k v) M)"

lemma cost_sum_simps [simp]:
  "cost_sum {#} = 0" "cost_sum (add_mset (k, v) M) = entry_cost k v + cost_sum M"
  by (simp_all add: cost_sum_def)

lemma cost_sum_mono: "M \<subseteq># N \<Longrightarrow> cost_sum M \<le> cost_sum N"
  by (metis cost_sum_def image_mset_subseteq_mono le_add1 mset_subset_eq_exists_conv sum_mset.union)

definition inner_ok :: "(CacheEntry, 'c) lru_lib \<Rightarrow> 'c Inner \<Rightarrow> bool" where
  "inner_ok L i \<longleftrightarrow> lru_wf L (in_lru i) \<and> 0 < lru_cap L (in_lru i) \<and> total_bytes i = cost_sum (lru_mset L (in_lru i))"

lemma inner_pop_ok:
  assumes laws: "lru_laws L" and ok: "inner_ok L i"
  shows "\<exists>j. inner_pop L i key = Some j \<and> inner_ok L j \<and> lru_cap L (in_lru j) = lru_cap L (in_lru i) \<and>
    lru_mset L (in_lru j) = filter_mset (\<lambda>(k', _). k' \<noteq> key) (lru_mset L (in_lru i))"
proof -
  have wf: "lru_wf L (in_lru i)" using ok by (simp add: inner_ok_def)
  obtain out c where p: "lru_pop L (in_lru i) key = (out, c)" by (cases "lru_pop L (in_lru i) key")
  note pop = lru_pop_ok [OF laws wf p]
  show ?thesis
  proof (cases out)
    case None
    then have "key \<notin> fst ` set (lru_iter L (in_lru i))" using pop lru_peek_None [OF laws wf] by metis
    then have "filter_mset (\<lambda>(k', _). k' \<noteq> key) (lru_mset L (in_lru i)) = lru_mset L (in_lru i)"
      by (intro filter_mset_eq_conv [THEN iffD2]) force
    then show ?thesis using None p pop ok by (simp add: inner_pop_def inner_ok_def)
  next
    case (Some v)
    have "map_of (lru_iter L (in_lru i)) key = Some v"
      using pop Some wf laws by (simp add: lru_laws_def peek_law_def)
    with filter_key_mset [of "lru_iter L (in_lru i)" key v] wf
    have "lru_mset L (in_lru i) = add_mset (key, v) (lru_mset L c)"
      using pop by (simp add: lru_wf_def)
    then have "total_bytes i = entry_cost key v + cost_sum (lru_mset L c)" using ok by (simp add: inner_ok_def)
    then have "inner_pop L i key = Some \<lparr>in_lru = c, total_bytes = cost_sum (lru_mset L c)\<rparr>"
      using Some p by (simp add: inner_pop_def sub_rs_def)
    then show ?thesis using pop ok by (simp add: inner_ok_def)
  qed
qed

text \<open>
  A loop whose condition implies that something is left ends, with the condition false, and
  has dropped entries from the cold end only.
\<close>

lemma shrink_ok:
  assumes laws: "lru_laws L" and nonempty: "\<forall>i. P i \<longrightarrow> lru_iter L (in_lru i) \<noteq> []"
  shows "inner_ok L i \<Longrightarrow> \<exists>j ys. shrink L P i = Some j \<and> inner_ok L j \<and> \<not> P j \<and>
    lru_cap L (in_lru j) = lru_cap L (in_lru i) \<and> lru_iter L (in_lru i) = lru_iter L (in_lru j) @ ys \<and>
    (ys \<noteq> [] \<longrightarrow> (\<exists>i'. P i' \<and> length (lru_iter L (in_lru i')) = length (lru_iter L (in_lru j)) + 1))"
proof (induction "length (lru_iter L (in_lru i))" arbitrary: i rule: less_induct)
  case less
  show ?case
  proof (cases "P i")
    case False
    then show ?thesis using less.prems by (intro exI [of _ i] exI [of _ "[]"]) (simp add: shrink.simps [of L P i])
  next
    case True
    have wf: "lru_wf L (in_lru i)" using less.prems by (simp add: inner_ok_def)
    obtain out c where p: "lru_pop_lru L (in_lru i) = (out, c)" by (cases "lru_pop_lru L (in_lru i)")
    note pop = lru_pop_lru_ok [OF laws wf p]
    have "lru_iter L (in_lru i) \<noteq> []" using nonempty True by blast
    with pop obtain k v where out: "out = Some (k, v)" and it: "lru_iter L (in_lru i) = lru_iter L c @ [(k, v)]"
      by (cases out) auto
    let ?j = "\<lparr>in_lru = c, total_bytes = cost_sum (lru_mset L c)\<rparr>"
    have tot: "total_bytes i = entry_cost k v + cost_sum (lru_mset L c)" using less.prems it by (simp add: inner_ok_def)
    have okj: "inner_ok L ?j" using less.prems pop by (simp add: inner_ok_def)
    have run: "shrink L P i = shrink L P ?j" using True p out tot by (simp add: shrink.simps [of L P i] sub_rs_def)
    have lt: "length (lru_iter L (in_lru ?j)) < length (lru_iter L (in_lru i))" using it by simp
    obtain j ys where j: "shrink L P ?j = Some j" "inner_ok L j" "\<not> P j" "lru_cap L (in_lru j) = lru_cap L c"
      "lru_iter L c = lru_iter L (in_lru j) @ ys"
      "ys \<noteq> [] \<longrightarrow> (\<exists>i'. P i' \<and> length (lru_iter L (in_lru i')) = length (lru_iter L (in_lru j)) + 1)"
      using less.hyps [OF lt okj] unfolding Inner.select_convs by (elim exE conjE) (rule that)
    have "\<exists>i'. P i' \<and> length (lru_iter L (in_lru i')) = length (lru_iter L (in_lru j)) + 1"
      using j(5,6) True it by (cases ys) auto
    then show ?thesis using j run pop it by (intro exI [of _ j] exI [of _ "ys @ [(k, v)]"]) simp
  qed
qed

lemma over_budget_nonempty: "\<forall>i. over_budget L m i \<longrightarrow> lru_iter L (in_lru i) \<noteq> []"
  by (auto simp: over_budget_def lru_len_def)

lemma over_count_nonempty: "\<forall>i. over_count L m i \<longrightarrow> lru_iter L (in_lru i) \<noteq> []"
  by (auto simp: over_count_def lru_len_def)

lemma shrink_budget_ok:
  assumes laws: "lru_laws L" and ok: "inner_ok L i"
  shows "\<exists>j. shrink L (over_budget L m) i = Some j \<and> inner_ok L j \<and> \<not> over_budget L m j \<and>
    lru_cap L (in_lru j) = lru_cap L (in_lru i) \<and> lru_mset L (in_lru j) \<subseteq># lru_mset L (in_lru i) \<and>
    (\<forall>x xs. lru_iter L (in_lru i) = x # xs \<longrightarrow> x \<in> set (lru_iter L (in_lru j)))"
proof -
  obtain j ys where j: "shrink L (over_budget L m) i = Some j" "inner_ok L j" "\<not> over_budget L m j"
    "lru_cap L (in_lru j) = lru_cap L (in_lru i)" "lru_iter L (in_lru i) = lru_iter L (in_lru j) @ ys"
    "ys \<noteq> [] \<longrightarrow> (\<exists>i'. over_budget L m i' \<and> length (lru_iter L (in_lru i')) = length (lru_iter L (in_lru j)) + 1)"
    using shrink_ok [OF laws over_budget_nonempty [of L m] ok]
    by (elim exE conjE) (rule that)
  have "x \<in> set (lru_iter L (in_lru j))" if "lru_iter L (in_lru i) = x # xs" for x xs
  proof (cases "ys = []")
    case True
    then show ?thesis using that j(5) by simp
  next
    case False
    then have "lru_iter L (in_lru j) \<noteq> []" using j(6) by (auto simp: over_budget_def lru_len_def)
    then show ?thesis using that j(5) by (cases "lru_iter L (in_lru j)") auto
  qed
  then show ?thesis using j by auto
qed

lemma inner_put_ok:
  assumes laws: "lru_laws L" and ok: "inner_ok L i"
  shows "\<exists>j. inner_put L i key e m = Some j \<and> inner_ok L j \<and> \<not> over_budget L m j \<and>
    lru_cap L (in_lru j) = lru_cap L (in_lru i) \<and> lru_peek L (in_lru j) key = Some e"
proof -
  have wf: "lru_wf L (in_lru i)" "0 < lru_cap L (in_lru i)" using ok by (simp_all add: inner_ok_def)
  obtain out c where p: "lru_push L (in_lru i) key e = (out, c)" by (cases "lru_push L (in_lru i) key e")
  note push = lru_push_ok [OF laws wf p]
  then obtain xs where hd: "lru_iter L c = (key, e) # xs" by blast
  obtain t where run: "inner_put L i key e m = shrink L (over_budget L m) \<lparr>in_lru = c, total_bytes = t\<rparr>"
    and t: "t = cost_sum (lru_mset L c)"
  proof (cases out)
    case None
    then have "lru_mset L c = add_mset (key, e) (lru_mset L (in_lru i))" using push by simp
    then have "cost_sum (lru_mset L c) = total_bytes i + entry_cost key e" using ok by (simp add: inner_ok_def)
    then show thesis using None p that by (simp add: inner_put_def)
  next
    case (Some kv)
    obtain k v where kv: "kv = (k, v)" by (cases kv)
    have "add_mset (k, v) (lru_mset L c) = add_mset (key, e) (lru_mset L (in_lru i))" using push Some kv by simp
    from arg_cong [OF this, of cost_sum] have eq: "entry_cost k v + cost_sum (lru_mset L c) = entry_cost key e + total_bytes i"
      using ok by (simp add: inner_ok_def)
    then have "sub_rs (total_bytes i + entry_cost key e) (entry_cost k v) = Some (cost_sum (lru_mset L c))"
      by (auto simp: sub_rs_def)
    then show thesis using Some kv p that by (simp add: inner_put_def)
  qed
  have "inner_ok L \<lparr>in_lru = c, total_bytes = t\<rparr>" using push wf t by (simp add: inner_ok_def)
  from shrink_budget_ok [OF laws this, of m] obtain j where j: "shrink L (over_budget L m) \<lparr>in_lru = c, total_bytes = t\<rparr> = Some j"
    "inner_ok L j" "\<not> over_budget L m j" "lru_cap L (in_lru j) = lru_cap L c" "(key, e) \<in> set (lru_iter L (in_lru j))"
    using hd by auto
  have "lru_wf L (in_lru j)" using j(2) by (simp add: inner_ok_def)
  then have "lru_peek L (in_lru j) key = Some e" using j(5) lru_peek_iff [OF laws] by simp
  then show ?thesis using j run push by simp
qed

lemma under_budget_mono:
  assumes "inner_ok L i" and "inner_ok L j" and "lru_mset L (in_lru j) \<subseteq># lru_mset L (in_lru i)" and "\<not> over_budget L m i"
  shows "\<not> over_budget L m j"
proof -
  have "total_bytes j \<le> total_bytes i" using assms(1-3) cost_sum_mono by (auto simp: inner_ok_def)
  moreover have "lru_len L (in_lru j) \<le> lru_len L (in_lru i)" using size_mset_mono [OF assms(3)] by (simp add: lru_len_def)
  ultimately show ?thesis using assms(4) by (auto simp: over_budget_def)
qed

section \<open>Keys\<close>

lemma dec_rev_length: "n < 10 ^ Suc k \<Longrightarrow> length (dec_rev n) \<le> Suc k"
proof (induction k arbitrary: n)
  case 0
  then show ?case by (simp add: dec_rev.simps [of n])
next
  case (Suc k)
  then have "n div 10 < 10 ^ Suc k" by (simp add: less_mult_imp_div_less mult.commute)
  with Suc.IH show ?case by (auto simp: dec_rev.simps [of n])
qed

lemma dec_text_length [simp]: "length (dec_text n) = length (dec_rev n)"
  by (simp add: dec_text_def)

lemma digit_loop_ok:
  "cnt + length (dec_rev n) \<le> length ds \<Longrightarrow>
     \<exists>ds'. digit_loop n cnt ds = Some (cnt + length (dec_rev n), ds') \<and> length ds' = length ds \<and>
       take (cnt + length (dec_rev n)) ds' = take cnt ds @ dec_rev n"
proof (induction n arbitrary: cnt ds rule: dec_rev.induct)
  case (1 n)
  let ?ds = "ds[cnt := digit_char (n mod 10)]"
  have lt: "cnt < length ds" using "1.prems" by (simp add: dec_rev.simps [of n])
  have take: "take (Suc cnt) ?ds = take cnt ds @ [digit_char (n mod 10)]" using lt by (simp add: take_Suc_conv_app_nth)
  show ?case
  proof (cases "n div 10 = 0")
    case True
    then have "dec_rev n = [digit_char (n mod 10)]" by (simp add: dec_rev.simps [of n])
    then show ?thesis using True lt take by (simp add: digit_loop.simps [of n] set_at_def)
  next
    case False
    then have d: "dec_rev n = digit_char (n mod 10) # dec_rev (n div 10)" by (simp add: dec_rev.simps [of n])
    have "Suc cnt + length (dec_rev (n div 10)) \<le> length ?ds" using "1.prems" d by simp
    from "1.IH" [OF False this] obtain ds' where "digit_loop (n div 10) (Suc cnt) ?ds = Some (Suc cnt + length (dec_rev (n div 10)), ds')"
      "length ds' = length ?ds" "take (Suc cnt + length (dec_rev (n div 10))) ds' = take (Suc cnt) ?ds @ dec_rev (n div 10)" by blast
    then show ?thesis using False lt take d by (simp add: digit_loop.simps [of n cnt] set_at_def)
  qed
qed

lemma emit_digits_ok:
  "cnt \<le> length ds \<Longrightarrow> len + cnt \<le> length buf \<Longrightarrow>
     \<exists>buf'. emit_digits cnt ds buf len = Some (buf', len + cnt) \<and> length buf' = length buf \<and>
       take (len + cnt) buf' = take len buf @ rev (take cnt ds)"
proof (induction cnt arbitrary: buf len)
  case (Suc cnt)
  let ?b = "buf[len := ds ! cnt]"
  have "take (Suc len) ?b = take len buf @ [ds ! cnt]" using Suc.prems by (simp add: take_Suc_conv_app_nth)
  moreover obtain buf' where "emit_digits cnt ds ?b (Suc len) = Some (buf', Suc len + cnt)" "length buf' = length ?b"
    "take (Suc len + cnt) buf' = take (Suc len) ?b @ rev (take cnt ds)"
    using Suc.IH [of "Suc len" ?b] Suc.prems by auto
  ultimately show ?case using Suc.prems by (simp add: index_def set_at_def take_Suc_conv_app_nth)
qed simp

lemma with_key_cache_key:
  assumes "q < 65536"
  shows "with_key name q dnssec = Some (cache_key name q dnssec)"
proof (cases "length name + 9 > KEY_STACK_LEN")
  case False
  let ?n = "length name"
  have n: "?n + 9 \<le> 264" using False by (simp add: KEY_STACK_LEN_def)
  have dlen: "length (dec_rev q) \<le> 5" using dec_rev_length [of q 4] assms by simp
  define b1 where "b1 = lowercase name @ CHR ''/'' # replicate (263 - ?n) (CHR 0x00)"
  have l1: "length b1 = 264" using n by (simp add: b1_def)
  have buf: "(do { buf \<leftarrow> copy_at (replicate KEY_STACK_LEN (CHR 0x00)) 0 name;
      buf \<leftarrow> copy_at buf 0 (lowercase (take ?n buf)); set_at buf ?n (CHR ''/'') }) = Some b1"
  proof -
    have r: "264 - ?n = Suc (263 - ?n)" using n by simp
    show ?thesis using n by (simp add: copy_at_def set_at_def KEY_STACK_LEN_def b1_def r list_update_append)
  qed
  obtain ds where ds: "digit_loop q 0 (replicate 5 (CHR 0x00)) = Some (length (dec_rev q), ds)" "length ds = 5"
    "take (length (dec_rev q)) ds = dec_rev q" using digit_loop_ok [of 0 q "replicate 5 (CHR 0x00)"] dlen by auto
  obtain b2 where b2: "emit_digits (length (dec_rev q)) ds b1 (?n + 1) = Some (b2, ?n + 1 + length (dec_rev q))" "length b2 = 264"
    "take (?n + 1 + length (dec_rev q)) b2 = take (?n + 1) b1 @ rev (dec_rev q)"
    using emit_digits_ok [of "length (dec_rev q)" ds "?n + 1" b1] ds dlen n l1 by auto
  have pre: "take (?n + 1) b1 @ rev (dec_rev q) = lowercase name @ ''/'' @ dec_text q" by (simp add: b1_def dec_text_def)
  show ?thesis
    using False buf ds b2 pre dlen n
    by (cases dnssec) (simp_all add: with_key_def bind_eq_Some_conv copy_at_def get_range_def cache_key_def take_Cons')
qed (simp add: with_key_def)

text \<open>Keys of different questions differ.\<close>

lemma digit_char_less: "d < 10 \<Longrightarrow> digit_char d \<in> set ''0123456789''"
  unfolding digit_char_def by (rule nth_mem) simp

lemma digit_char_inj: "d < 10 \<Longrightarrow> e < 10 \<Longrightarrow> digit_char d = digit_char e \<Longrightarrow> d = e"
  unfolding digit_char_def by (subst (asm) nth_eq_iff_index_eq) auto

lemma dec_rev_digits: "set (dec_rev n) \<subseteq> set ''0123456789''"
proof (induction n rule: dec_rev.induct)
  case (1 n)
  then show ?case using digit_char_less [of "n mod 10"] by (simp add: dec_rev.simps [of n])
qed

lemma dec_rev_Nil [simp]: "dec_rev n \<noteq> []"
  by (simp add: dec_rev.simps [of n])

lemma Nil_dec_rev [simp]: "[] \<noteq> dec_rev n"
  by (simp add: dec_rev.simps [of n])

lemma dec_rev_inj: "dec_rev m = dec_rev n \<Longrightarrow> m = n"
proof (induction m arbitrary: n rule: dec_rev.induct)
  case (1 m)
  have "digit_char (m mod 10) = digit_char (n mod 10)"
    using "1.prems" by (simp add: dec_rev.simps [of m] dec_rev.simps [of n])
  then have md: "m mod 10 = n mod 10" by (intro digit_char_inj) simp_all
  have "m div 10 = n div 10"
  proof (cases "m div 10 = 0")
    case True
    then show ?thesis using "1.prems" by (simp add: dec_rev.simps [of m] dec_rev.simps [of n] split: if_splits)
  next
    case False
    then have "dec_rev (m div 10) = dec_rev (n div 10)"
      using "1.prems" by (simp add: dec_rev.simps [of m] dec_rev.simps [of n] split: if_splits)
    then show ?thesis using "1.IH" [OF False] by simp
  qed
  with md show ?case by (metis div_mult_mod_eq)
qed

lemma split_at_slash:
  assumes "CHR ''/'' \<notin> set ds" and "CHR ''/'' \<notin> set es" and "ds @ CHR ''/'' # ms = es @ CHR ''/'' # ps"
  shows "ds = es \<and> ms = ps"
proof -
  have tw: "takeWhile (\<lambda>c. c \<noteq> CHR ''/'') (xs @ CHR ''/'' # zs) = xs" if "CHR ''/'' \<notin> set xs" for xs zs :: string
    using that by (subst takeWhile_append2) auto
  have "ds = es" using arg_cong [OF assms(3), of "takeWhile (\<lambda>c. c \<noteq> CHR ''/'')"] tw assms(1,2) by simp
  with assms(3) show ?thesis by simp
qed

lemma cache_key_inj:
  "cache_key m q f = cache_key n r g \<longleftrightarrow> lowercase m = lowercase n \<and> q = r \<and> f = g"
proof
  assume eq: "cache_key m q f = cache_key n r g"
  have last: "(last (cache_key x t b) = CHR ''o'') = b" for x t b
  proof -
    have "last (dec_text t) \<in> set ''0123456789''"
      using subsetD [OF dec_rev_digits hd_in_set [OF dec_rev_Nil], of t] by (simp add: dec_text_def last_rev)
    then show ?thesis by (auto simp: cache_key_def dec_text_def last_append)
  qed
  have f: "f = g" using last [of m q f] last [of n r g] eq by simp
  have body: "lowercase m @ ''/'' @ dec_text q = lowercase n @ ''/'' @ dec_text r"
    using eq f by (cases g) (simp_all add: cache_key_def)
  have slash: "CHR ''/'' \<notin> set (dec_rev t)" for t using dec_rev_digits [of t] by auto
  have "dec_rev q @ CHR ''/'' # rev (lowercase m) = dec_rev r @ CHR ''/'' # rev (lowercase n)"
    using arg_cong [OF body, of rev] by (simp add: dec_text_def)
  from split_at_slash [OF slash slash this] show "lowercase m = lowercase n \<and> q = r \<and> f = g"
    using f dec_rev_inj by auto
qed (simp add: cache_key_def)

section \<open>The operations on the cache\<close>

definition bounds_ok :: "'c DnsCache \<Rightarrow> bool" where
  "bounds_ok d \<longleftrightarrow> min_secs d \<le> max_secs d \<and> max_secs d \<le> MAX_TTL \<and> stale_window d \<le> MAX_STALE_AGE"

definition dns_ok :: "(CacheEntry, 'c) lru_lib \<Rightarrow> 'c DnsCache \<Rightarrow> bool" where
  "dns_ok L d \<longleftrightarrow> inner_ok L (inner d) \<and> \<not> over_budget L (max_bytes d) (inner d) \<and> bounds_ok d"

lemma normalize_bounds:
  "fst (normalize_ttl_bounds a b) \<le> snd (normalize_ttl_bounds a b) \<and> snd (normalize_ttl_bounds a b) \<le> MAX_TTL"
  by (auto simp: normalize_ttl_bounds_def clamp_def MIN_TTL_def MAX_TTL_def Let_def)

lemma dns_new_ok: "lru_laws L \<Longrightarrow> dns_ok L (dns_cache_new L cap m a b)"
  using lru_new_ok [of L "max cap 1"] normalize_bounds [of a b]
  by (simp add: dns_ok_def inner_ok_def over_budget_def lru_len_def bounds_ok_def dns_cache_new_def)

lemma pop_run:
  assumes laws: "lru_laws L"
  shows "inner_ok L i \<Longrightarrow> \<exists>j. run_rs (inner_pop L) i ks = Some j \<and> inner_ok L j \<and> lru_cap L (in_lru j) = lru_cap L (in_lru i) \<and>
    lru_mset L (in_lru j) = filter_mset (\<lambda>(k, _). k \<notin> set ks) (lru_mset L (in_lru i))"
proof (induction ks arbitrary: i)
  case (Cons k ks)
  from inner_pop_ok [OF laws Cons.prems, of k] obtain a where a: "inner_pop L i k = Some a" "inner_ok L a"
    "lru_cap L (in_lru a) = lru_cap L (in_lru i)" "lru_mset L (in_lru a) = filter_mset (\<lambda>(k', _). k' \<noteq> k) (lru_mset L (in_lru i))"
    by blast
  from Cons.IH [OF a(2)] obtain j where j: "run_rs (inner_pop L) a ks = Some j" "inner_ok L j"
    "lru_cap L (in_lru j) = lru_cap L (in_lru a)" "lru_mset L (in_lru j) = filter_mset (\<lambda>(k, _). k \<notin> set ks) (lru_mset L (in_lru a))"
    by blast
  have "lru_mset L (in_lru j) = filter_mset (\<lambda>(k', _). k' \<notin> set (k # ks)) (lru_mset L (in_lru i))"
    unfolding j(4) a(4) filter_filter_mset by (rule filter_mset_cong) auto
  with a j show ?case by simp
qed (simp add: case_prod_unfold)

lemma selected_keys:
  assumes "distinct (map fst xs)" and "(k, e) \<in> set xs"
  shows "k \<in> fst ` set (filter sel xs) \<longleftrightarrow> sel (k, e)"
proof
  assume "k \<in> fst ` set (filter sel xs)"
  then obtain e' where "(k, e') \<in> set xs" "sel (k, e')" by auto
  moreover from this(1) have "e' = e" using eq_key_imp_eq_value [OF assms(1)] assms(2) by metis
  ultimately show "sel (k, e)" by simp
qed (use assms(2) in \<open>auto intro: rev_image_eqI\<close>)

lemma pop_keys_ok:
  assumes laws: "lru_laws L" and ok: "dns_ok L d"
  shows "\<exists>i. pop_keys L d sel = Some (d\<lparr>inner := i\<rparr>) \<and> dns_ok L (d\<lparr>inner := i\<rparr>) \<and>
    lru_mset L (in_lru i) = filter_mset (\<lambda>p. \<not> sel p) (lru_mset L (in_lru (inner d)))"
proof -
  have iok: "inner_ok L (inner d)" using ok by (simp add: dns_ok_def)
  let ?xs = "lru_iter L (in_lru (inner d))"
  have dist: "distinct (map fst ?xs)" using iok by (simp add: inner_ok_def lru_wf_def)
  obtain i where i: "run_rs (inner_pop L) (inner d) (map fst (filter sel ?xs)) = Some i" "inner_ok L i"
    "lru_mset L (in_lru i) = filter_mset (\<lambda>(k, _). k \<notin> set (map fst (filter sel ?xs))) (mset ?xs)"
    using pop_run [OF laws iok] by blast
  have eq: "lru_mset L (in_lru i) = filter_mset (\<lambda>p. \<not> sel p) (mset ?xs)"
    unfolding i(3) using selected_keys [OF dist] by (intro filter_mset_cong) auto
  then have "\<not> over_budget L (max_bytes d) i"
    using under_budget_mono [OF iok i(2)] ok by (simp add: dns_ok_def)
  with i eq ok show ?thesis by (intro exI [of _ i]) (auto simp: pop_keys_def dns_ok_def bounds_ok_def)
qed

lemma resize_ok:
  assumes laws: "lru_laws L" and ok: "dns_ok L d"
  shows "\<exists>e. dns_resize L d cap m = Some e \<and> dns_ok L e \<and> lru_cap L (in_lru (inner e)) = max cap 1"
proof -
  have iok: "inner_ok L (inner d)" using ok by (simp add: dns_ok_def)
  obtain i where i: "shrink L (over_count L (max cap 1)) (inner d) = Some i" "inner_ok L i" "\<not> over_count L (max cap 1) i"
    using shrink_ok [OF laws over_count_nonempty iok, of "max cap 1"] by (elim exE conjE) (rule that)
  let ?c = "lru_resize L (in_lru i) (max cap 1)"
  have "resize_law L" using laws by (simp add: lru_laws_def)
  then have c: "lru_wf L ?c" "lru_cap L ?c = max cap 1" "lru_mset L ?c = lru_mset L (in_lru i)"
    using i by (auto simp: resize_law_def inner_ok_def over_count_def)
  then have "inner_ok L (i\<lparr>in_lru := ?c\<rparr>)" using i by (simp add: inner_ok_def)
  from shrink_budget_ok [OF laws this, of "byte_budget m"] obtain j where
    "shrink L (over_budget L (byte_budget m)) (i\<lparr>in_lru := ?c\<rparr>) = Some j" "inner_ok L j" "\<not> over_budget L (byte_budget m) j"
    "lru_cap L (in_lru j) = max cap 1" using c(2) by auto
  then show ?thesis using i ok by (simp add: dns_resize_def dns_ok_def bounds_ok_def)
qed

interpretation restored: panic_free "restore_one L now now_unix m" "\<lambda>i. lru_laws L \<and> inner_ok L i \<and> \<not> over_budget L m i" for L now now_unix m
proof
  fix i :: "'a Inner" and e
  assume ok: "lru_laws L \<and> inner_ok L i \<and> \<not> over_budget L m i"
  then show "\<exists>t. restore_one L now now_unix m i e = Some t \<and> lru_laws L \<and> inner_ok L t \<and> \<not> over_budget L m t"
    using inner_put_ok [of L i] by (cases e) (fastforce simp: restore_one_def Let_def)
qed

text \<open>Every operation of the cache that changes its state, as an event.\<close>

datatype dns_op =
    Insert nat string u16 bool DnsResponse
  | Ttl_bounds nat nat
  | Stale_window nat
  | Evict string u16 bool
  | Evict_domain string
  | Evict_expired nat
  | Forget_name string
  | Clear
  | Resize nat nat
  | Restore nat int "(string \<times> bytes \<times> nat \<times> int) list"
  | Begin_refresh string
  | End_refresh string

fun dns_step :: "(CacheEntry, 'c) lru_lib \<Rightarrow> 'c DnsCache \<Rightarrow> dns_op \<Rightarrow> 'c DnsCache rs" where
  "dns_step L d (Insert now n q f r) = dns_insert L now d n (unat q) f r"
| "dns_step L d (Ttl_bounds a b) = Some (set_ttl_bounds d a b)"
| "dns_step L d (Stale_window s) = Some (set_stale_window d s)"
| "dns_step L d (Evict n q f) = evict L d n (unat q) f"
| "dns_step L d (Evict_domain n) = evict_domain L d n"
| "dns_step L d (Evict_expired now) = evict_expired L now d"
| "dns_step L d (Forget_name n) = forget_name L d n"
| "dns_step L d Clear = Some (dns_clear L d)"
| "dns_step L d (Resize cap m) = dns_resize L d cap m"
| "dns_step L d (Restore now unix es) = dns_restore L now unix d es"
| "dns_step L d (Begin_refresh k) = Some (snd (begin_refresh d k))"
| "dns_step L d (End_refresh k) = Some (end_refresh d k)"

lemma insert_ok:
  assumes laws: "lru_laws L" and ok: "dns_ok L d"
  shows "\<exists>i. dns_insert L now d n q f r = Some (d\<lparr>inner := i\<rparr>) \<and> dns_ok L (d\<lparr>inner := i\<rparr>) \<and>
    lru_peek L (in_lru i) (cache_key n q f) =
      Some \<lparr>ce_response = r, ce_expires_at = now + min (max (resp_ttl r) (min_secs d)) (max_secs d) * ns\<rparr>"
proof -
  have iok: "inner_ok L (inner d)" using ok by (simp add: dns_ok_def)
  from inner_put_ok [OF laws iok, of "cache_key n q f"
    "\<lparr>ce_response = r, ce_expires_at = now + min (max (resp_ttl r) (min_secs d)) (max_secs d) * ns\<rparr>" "max_bytes d"]
  show ?thesis using ok by (auto simp: dns_insert_def dns_ok_def bounds_ok_def)
qed

lemma evict_ok:
  assumes laws: "lru_laws L" and ok: "dns_ok L d" and q: "q < 65536"
  shows "\<exists>i. evict L d n q f = Some (d\<lparr>inner := i\<rparr>) \<and> dns_ok L (d\<lparr>inner := i\<rparr>) \<and>
    lru_mset L (in_lru i) = filter_mset (\<lambda>(k, _). k \<noteq> cache_key n q f) (lru_mset L (in_lru (inner d)))"
proof -
  have iok: "inner_ok L (inner d)" using ok by (simp add: dns_ok_def)
  obtain i where i: "inner_pop L (inner d) (cache_key n q f) = Some i" "inner_ok L i"
    "lru_mset L (in_lru i) = filter_mset (\<lambda>(k, _). k \<noteq> cache_key n q f) (lru_mset L (in_lru (inner d)))"
    using inner_pop_ok [OF laws iok] by blast
  have "\<not> over_budget L (max_bytes d) i"
    using under_budget_mono [OF iok i(2)] i(3) ok by (simp add: dns_ok_def)
  with i ok q show ?thesis by (auto simp: evict_def with_key_cache_key dns_ok_def bounds_ok_def)
qed

lemma restore_ok:
  assumes "lru_laws L" and "dns_ok L d"
  shows "\<exists>e. dns_restore L now unix d es = Some e \<and> dns_ok L e"
proof -
  have "\<exists>i. run_rs (restore_one L now unix (max_bytes d)) (inner d) es = Some i \<and> lru_laws L \<and> inner_ok L i \<and> \<not> over_budget L (max_bytes d) i"
    using assms by (intro restored.run_total) (simp add: dns_ok_def)
  then obtain i where "run_rs (restore_one L now unix (max_bytes d)) (inner d) es = Some i"
    "inner_ok L i \<and> \<not> over_budget L (max_bytes d) i" by blast
  then show ?thesis using assms by (simp add: dns_restore_def dns_ok_def bounds_ok_def)
qed

lemma clear_ok:
  assumes "lru_laws L" and "dns_ok L d"
  shows "dns_ok L (dns_clear L d)"
proof -
  have "clear_law L" using assms(1) by (simp add: lru_laws_def)
  then show ?thesis
    using assms(2) by (simp add: clear_law_def dns_clear_def dns_ok_def bounds_ok_def inner_ok_def over_budget_def lru_len_def lru_wf_def)
qed

lemma dns_step_ok:
  assumes "lru_laws L" and "dns_ok L d"
  shows "\<exists>e. dns_step L d x = Some e \<and> dns_ok L e"
proof (cases x)
  case (Insert now n q f r)
  then show ?thesis using insert_ok [OF assms] by fastforce
next
  case (Ttl_bounds a b)
  then show ?thesis using assms(2) normalize_bounds [of a b] by (simp add: set_ttl_bounds_def dns_ok_def bounds_ok_def)
next
  case (Evict n q f)
  then show ?thesis using evict_ok [OF assms unat_u16_less] by fastforce
next
  case (Resize cap m)
  then show ?thesis using resize_ok [OF assms] by fastforce
next
  case (Restore now unix es)
  then show ?thesis using restore_ok [OF assms] by simp
next
  case Clear
  then show ?thesis using clear_ok [OF assms] by simp
next
  case (Evict_domain n)
  then show ?thesis using pop_keys_ok [OF assms] by (fastforce simp: evict_domain_def)
next
  case (Evict_expired now)
  then show ?thesis using pop_keys_ok [OF assms] by (fastforce simp: evict_expired_def)
next
  case (Forget_name n)
  then show ?thesis using pop_keys_ok [OF assms] by (fastforce simp: forget_name_def)
qed (use assms(2) in \<open>simp_all add: dns_ok_def bounds_ok_def set_stale_window_def begin_refresh_def end_refresh_def\<close>)

interpretation dns_machine: panic_free "dns_step L" "\<lambda>d. lru_laws L \<and> dns_ok L d" for L :: "(CacheEntry, 'c) lru_lib"
  using dns_step_ok by unfold_locales blast

section \<open>Properties\<close>

text \<open>
  C31. Whatever operations the DNS cache goes through, each ends without a panic, and after them
  the byte counter is the exact cost of the entries held, the bytes are within the budget
  unless a single entry is left, the entries are within the capacity, and the TTL bounds and
  the stale window are within their hard limits.
\<close>

theorem cache_accounting:
  assumes "lru_laws L"
  shows "\<exists>d. run_rs (dns_step L) (dns_cache_new L cap m lo hi) ops = Some d \<and>
    total_bytes (inner d) = sum_list (map (\<lambda>(k, e). entry_cost k e) (lru_iter L (in_lru (inner d)))) \<and>
    (total_bytes (inner d) \<le> max_bytes d \<or> lru_len L (in_lru (inner d)) \<le> 1) \<and>
    lru_len L (in_lru (inner d)) \<le> lru_cap L (in_lru (inner d)) \<and>
    min_secs d \<le> max_secs d \<and> max_secs d \<le> MAX_TTL \<and> stale_window d \<le> MAX_STALE_AGE"
proof -
  obtain d where "run_rs (dns_step L) (dns_cache_new L cap m lo hi) ops = Some d" "dns_ok L d"
    using dns_machine.run_total assms dns_new_ok by blast
  then show ?thesis
    by (auto simp: dns_ok_def inner_ok_def bounds_ok_def over_budget_def lru_wf_def cost_sum_def
        simp flip: sum_mset_sum_list)
qed

definition demo_response :: DnsResponse where
  "demo_response = \<lparr>resp_bytes = [1, 2, 3], resp_ttl = 60\<rparr>"

definition demo_ops :: "dns_op list" where
  "demo_ops = [Insert 5 ''A.example'' 1 False demo_response, Insert 6 ''b.example'' 28 True demo_response,
     Evict_domain ''a.example'', Resize 3 140, Evict ''b.example'' 28 True]"

theorem cache_accounting_witness:
  "\<exists>d. run_rs (dns_step list_lru) (dns_cache_new list_lru 2 200 0 0) demo_ops = Some d \<and>
    (total_bytes (inner d) \<le> max_bytes d \<or> lru_len list_lru (in_lru (inner d)) \<le> 1)"
  using cache_accounting [OF list_lru_laws, of 2 200 0 0 demo_ops] by blast

text \<open>
  The key the hot path builds digit by digit in a stack buffer is the key the inserts use,
  no index of it goes out of bounds, and two questions share a key only when they ask for the
  same name (up to case), the same type and the same DNSSEC flag.
\<close>

theorem key_equivalent:
  "with_key n (unat (q :: u16)) f = Some (cache_key n (unat q) f) \<and>
   (cache_key n (unat q) f = cache_key m (unat (r :: u16)) g \<longleftrightarrow> lowercase n = lowercase m \<and> q = r \<and> f = g)"
  using with_key_cache_key [OF unat_u16_less] cache_key_inj by (simp add: word_eq_iff_unsigned [where ?'a = nat])

text \<open>
  C32. An answer that was inserted is served under any spelling of its name, fresh until the
  clamped TTL has passed, stale for the stale window after that and never both; the remaining
  time told to the client never exceeds the clamped TTL, which is at most an hour.
\<close>

theorem insert_then_get:
  assumes "lru_laws L" and "dns_ok L d" and "lowercase n' = lowercase n" and "now \<le> t'"
  shows "\<exists>e. dns_insert L now d n (unat (q :: u16)) f r = Some e \<and>
    (let secs = min (max (resp_ttl r) (min_secs d)) (max_secs d); ends = now + secs * ns in secs \<le> MAX_TTL \<and>
      cache_lookup L t e n' (unat q) f = Some (if t < ends then Some r else None) \<and>
      get_stale L t e n' (unat q) f = Some (if ends \<le> t \<and> t < ends + stale_window d * ns then Some r else None) \<and>
      (\<exists>left. get_with_remaining L t t' e n' (unat q) f = Some (if t < ends then Some (r, left) else None) \<and> left \<le> secs))"
proof -
  obtain i where i: "dns_insert L now d n (unat q) f r = Some (d\<lparr>inner := i\<rparr>)"
    "lru_peek L (in_lru i) (cache_key n (unat q) f) =
      Some \<lparr>ce_response = r, ce_expires_at = now + min (max (resp_ttl r) (min_secs d)) (max_secs d) * ns\<rparr>"
    using insert_ok [OF assms(1,2)] by blast
  define secs where "secs = min (max (resp_ttl r) (min_secs d)) (max_secs d)"
  have key: "with_key n' (unat q) f = Some (cache_key n (unat q) f)"
    using with_key_cache_key [OF unat_u16_less] assms(3) by (simp add: cache_key_def)
  have "secs \<le> MAX_TTL" using assms(2) by (auto simp: secs_def dns_ok_def bounds_ok_def)
  moreover have "(now + secs * ns - t') div ns \<le> (secs * ns) div ns" using assms(4) by (intro div_le_mono) simp
  then have "(now + secs * ns - t') div ns \<le> secs" by (simp add: ns_def)
  ultimately show ?thesis
    using i key by (auto simp: secs_def [symmetric] Let_def cache_lookup_def get_stale_def get_with_remaining_def is_expired_def)
qed

definition demo_cache :: "(nat \<times> (string \<times> CacheEntry) list) DnsCache" where
  "demo_cache = dns_cache_new list_lru 4 1000 0 0"

theorem insert_then_get_witness:
  "\<exists>e. dns_insert list_lru 7 demo_cache ''A.example'' (unat (1 :: u16)) False demo_response = Some e \<and>
    cache_lookup list_lru 8 e ''a.EXAMPLE'' (unat (1 :: u16)) False = Some (Some demo_response)"
proof -
  have "dns_ok list_lru demo_cache" unfolding demo_cache_def by (rule dns_new_ok [OF list_lru_laws])
  moreover have "lowercase ''a.EXAMPLE'' = lowercase ''A.example''" by code_simp
  ultimately have "\<exists>e. dns_insert list_lru 7 demo_cache ''A.example'' (unat (1 :: u16)) False demo_response = Some e \<and>
    cache_lookup list_lru 8 e ''a.EXAMPLE'' (unat (1 :: u16)) False = Some (Some demo_response)"
    using insert_then_get [OF list_lru_laws, of demo_cache "''a.EXAMPLE''" "''A.example''" 7 8 1 False demo_response 8]
    by (auto simp: Let_def demo_cache_def dns_cache_new_def normalize_ttl_bounds_def clamp_def MIN_TTL_def MAX_TTL_def demo_response_def ns_def)
  then show ?thesis .
qed

lemma slash_lowercase: "CHR ''/'' \<in> set (lowercase m) \<longleftrightarrow> CHR ''/'' \<in> set m"
proof -
  have "ascii_lower c = CHR ''/'' \<longleftrightarrow> c = CHR ''/''" for c
    by (auto simp: ascii_lower_def)
  then show ?thesis unfolding lowercase_def set_map image_iff by metis
qed

lemma key_prefix_same: "lowercase m = lowercase n \<Longrightarrow> starts_with (cache_key m q f) (lowercase n @ ''/'')"
  by (simp add: cache_key_def starts_with_prefix)

lemma key_prefix_other:
  assumes "CHR ''/'' \<notin> set m" and "CHR ''/'' \<notin> set n" and "starts_with (cache_key m q f) (lowercase n @ ''/'')"
  shows "lowercase m = lowercase n"
proof -
  obtain rest where eq: "lowercase m @ CHR ''/'' # (dec_text q @ (if f then ''/do'' else [])) = lowercase n @ CHR ''/'' # rest"
    using assms(3) by (auto simp: cache_key_def starts_with_prefix prefix_def)
  then show ?thesis using split_at_slash [OF _ _ eq] assms(1,2) slash_lowercase by simp
qed

lemma pop_keys_peek:
  assumes "lru_laws L" and "dns_ok L d"
  shows "\<exists>i. pop_keys L d (\<lambda>(k, _). P k) = Some (d\<lparr>inner := i\<rparr>) \<and>
    (\<forall>k. lru_peek L (in_lru i) k = (if P k then None else lru_peek L (in_lru (inner d)) k))"
proof -
  obtain i where i: "pop_keys L d (\<lambda>(k, _). P k) = Some (d\<lparr>inner := i\<rparr>)" "dns_ok L (d\<lparr>inner := i\<rparr>)"
    "lru_mset L (in_lru i) = filter_mset (\<lambda>p. \<not> (\<lambda>(k, _). P k) p) (lru_mset L (in_lru (inner d)))"
    using pop_keys_ok [OF assms] by blast
  have wf: "lru_wf L (in_lru i)" "lru_wf L (in_lru (inner d))" using i(2) assms(2) by (auto simp: dns_ok_def inner_ok_def)
  have "lru_peek L (in_lru i) k = Some e \<longleftrightarrow> (if P k then None else lru_peek L (in_lru (inner d)) k) = Some e" for k e
    using lru_peek_iff [OF assms(1) wf(1)] lru_peek_iff [OF assms(1) wf(2)] i(3) by auto
  then have "lru_peek L (in_lru i) k = (if P k then None else lru_peek L (in_lru (inner d)) k)" for k
    by (metis option.exhaust)
  with i(1) show ?thesis by blast
qed

text \<open>
  Evicting a domain removes every answer for it, whatever the type, the DNSSEC flag and the
  spelling, stale ones included, and leaves the answers for every other name alone (for names
  without a slash, the separator of the keys).
\<close>

theorem evict_domain_spec:
  assumes "lru_laws L" and "dns_ok L d"
  shows "\<exists>e. evict_domain L d n = Some e \<and> (\<forall>t m f. \<forall>q :: u16.
    (lowercase m = lowercase n \<longrightarrow> cache_lookup L t e m (unat q) f = Some None \<and> get_stale L t e m (unat q) f = Some None) \<and>
    (lowercase m \<noteq> lowercase n \<and> CHR ''/'' \<notin> set m \<and> CHR ''/'' \<notin> set n \<longrightarrow>
       cache_lookup L t e m (unat q) f = cache_lookup L t d m (unat q) f \<and>
       get_stale L t e m (unat q) f = get_stale L t d m (unat q) f))"
proof -
  obtain i where i: "evict_domain L d n = Some (d\<lparr>inner := i\<rparr>)"
    "\<forall>k. lru_peek L (in_lru i) k = (if starts_with k (lowercase n @ ''/'') then None else lru_peek L (in_lru (inner d)) k)"
    using pop_keys_peek [OF assms, of "\<lambda>k. starts_with k (lowercase n @ ''/'')"] by (auto simp: evict_domain_def)
  have "cache_lookup L t (d\<lparr>inner := i\<rparr>) m (unat q) f = Some None \<and> get_stale L t (d\<lparr>inner := i\<rparr>) m (unat q) f = Some None"
    if "lowercase m = lowercase n" for t m f and q :: u16
    using i(2) key_prefix_same [OF that] with_key_cache_key [OF unat_u16_less]
    by (simp add: cache_lookup_def get_stale_def Let_def)
  moreover have "cache_lookup L t (d\<lparr>inner := i\<rparr>) m (unat q) f = cache_lookup L t d m (unat q) f \<and>
      get_stale L t (d\<lparr>inner := i\<rparr>) m (unat q) f = get_stale L t d m (unat q) f"
    if "lowercase m \<noteq> lowercase n" "CHR ''/'' \<notin> set m" "CHR ''/'' \<notin> set n" for t m f and q :: u16
  proof -
    have "\<not> starts_with (cache_key m (unat q) f) (lowercase n @ ''/'')" using key_prefix_other that by blast
    then show ?thesis using i(2) with_key_cache_key [OF unat_u16_less] by (simp add: cache_lookup_def get_stale_def Let_def)
  qed
  ultimately show ?thesis using i(1) by blast
qed

theorem evict_domain_spec_witness:
  "\<exists>e. evict_domain list_lru demo_cache ''a.example'' = Some e \<and> cache_lookup list_lru 3 e ''A.example'' (unat (1 :: u16)) False = Some None"
proof -
  have "dns_ok list_lru demo_cache" unfolding demo_cache_def by (rule dns_new_ok [OF list_lru_laws])
  moreover have "lowercase ''A.example'' = lowercase ''a.example''" by code_simp
  ultimately show ?thesis using evict_domain_spec [OF list_lru_laws, of demo_cache "''a.example''"] by blast
qed

end
