(* ===== verification/Dns_Message.thy ===== *)
theory Dns_Message
  imports Wire_Scan Net
begin

unbundle bit_operations_syntax

text \<open>
  The answers ferrite makes up itself, from \<open>crates/dns/src/handler.rs\<close>, \<open>safesearch.rs\<close> and
  \<open>anti_doh.rs\<close>, and the client's query as the pipeline sees it (\<open>query.rs\<close>). The decoder and
  the encoder of the \<open>hickory\<close> crate are not part of the repository: they are the record
  \<open>hickory\<close>, over the fields of a decoded message that the source reads and writes. Names, EDNS
  records and the record data the source never looks into have types of their own. A record
  type or a class is its 16-bit number.

  The lazily decoded query is its bytes: the decoding is attempted when it is asked for, and
  asking again gives the same outcome.
\<close>

section \<open>Decoded messages\<close>

datatype ResponseCode = NoError | ServFail | NXDomain | Refused | OtherCode nat

datatype ('n, 'o) RData =
    RD_A Ipv4Addr
  | RD_AAAA Ipv6Addr
  | RD_CNAME 'n
  | RD_PTR 'n
  | RD_SOA 'n 'n u32 u32 u32 u32 u32
  | RD_HTTPS 'o "(u16 \<times> bytes) list"
  | RD_SVCB 'o "(u16 \<times> bytes) list"
  | RD_Other 'o

record ('n, 'o) Record =
  r_name :: 'n
  r_ttl :: u32
  r_data :: "('n, 'o) RData"

record 'n Query =
  q_name :: 'n
  q_type :: u16

record ('n, 'e, 'o) Message =
  msg_id :: u16
  authoritative :: bool
  recursion_desired :: bool
  recursion_available :: bool
  response_code :: ResponseCode
  queries :: "'n Query list"
  answers :: "('n, 'o) Record list"
  authorities :: "('n, 'o) Record list"
  msg_edns :: "'e option"
  msg_rest :: 'o

text \<open>
  \<open>h_response\<close> and \<open>h_query\<close> are \<open>Message::response\<close> with opcode QUERY and \<open>Message::new\<close> with
  message type and opcode QUERY; \<open>h_low\<close> is \<open>ResponseCode::low\<close>.
\<close>

record ('n, 'e, 'o) hickory =
  h_from_bytes :: "bytes \<Rightarrow> ('n, 'e, 'o) Message option"
  h_to_bytes :: "('n, 'e, 'o) Message \<Rightarrow> bytes option"
  h_response :: "u16 \<Rightarrow> ('n, 'e, 'o) Message"
  h_query :: "u16 \<Rightarrow> ('n, 'e, 'o) Message"
  h_low :: "ResponseCode \<Rightarrow> u8"
  h_name :: "string \<Rightarrow> 'n option"
  h_name_ascii :: "string \<Rightarrow> 'n option"
  h_name_text :: "'n \<Rightarrow> string"
  h_lower_utf8 :: "'n \<Rightarrow> string"
  h_utf8_lower :: "'n \<Rightarrow> string"
  h_edns_new :: 'e
  h_edns_do :: "'e \<Rightarrow> bool"
  h_edns_set_do :: "bool \<Rightarrow> 'e \<Rightarrow> 'e"
  h_edns_set_payload :: "u16 \<Rightarrow> 'e \<Rightarrow> 'e"
  h_edns_remove_subnet :: "'e \<Rightarrow> 'e"

section \<open>The query\<close>

definition query_id :: "bytes \<Rightarrow> u16" where
  "query_id raw = (case (slice_get raw 0, slice_get raw 1) of (Some a, Some b) \<Rightarrow> be16 a b | _ \<Rightarrow> 0)"

definition message :: "('n, 'e, 'o) hickory \<Rightarrow> bytes \<Rightarrow> ('n, 'e, 'o) Message option" where
  "message H raw = h_from_bytes H raw"

definition OPCODE_QUERY :: u8 where "OPCODE_QUERY = 0"

definition handler_question :: "('n, 'e, 'o) hickory \<Rightarrow> bytes \<Rightarrow> (string \<times> u16) option rs" where
  "handler_question H raw = do {
     q \<leftarrow> question raw;
     Some (case q of
       Q_Found name qtype \<Rightarrow> Some (name, qtype)
     | Q_Unsupported \<Rightarrow> do {
         m \<leftarrow> message H raw;
         q \<leftarrow> slice_get (queries m) 0;
         Some (trim_end_char (\<lambda>c. c = CHR ''.'') (h_lower_utf8 H (q_name q)), q_type q)
       }
     | Q_Missing \<Rightarrow> None)
   }"

definition dnssec_ok :: "('n, 'e, 'o) hickory \<Rightarrow> bytes \<Rightarrow> bool rs" where
  "dnssec_ok H raw = do {
     e \<leftarrow> edns raw;
     Some (case e of
       Opt opt \<Rightarrow> opt_dnssec_ok opt
     | NoOpt \<Rightarrow> False
     | EdnsMalformed \<Rightarrow> (case Option.bind (message H raw) msg_edns of Some x \<Rightarrow> h_edns_do H x | None \<Rightarrow> False))
   }"

section \<open>Replies written onto the wire\<close>

definition SOA_ADMIN_NAME :: bytes where
  "SOA_ADMIN_NAME = 0x07 # map (\<lambda>c. of_char c) ''ferrite'' @ 0x07 # map (\<lambda>c. of_char c) ''invalid'' @ [0x00]"

text \<open>
  What the three builders share: they decline a message without exactly one readable question,
  copy the header and the question, and overwrite the flags and the counts.
\<close>

definition reply_head :: "bytes \<Rightarrow> u8 \<Rightarrow> u8 \<Rightarrow> bytes \<Rightarrow> (bytes \<times> nat) option rs" where
  "reply_head raw flags2 flags3 counts = do {
     e \<leftarrow> question_end raw;
     (case e of
        None \<Rightarrow> Some None
      | Some q_end \<Rightarrow> do {
          b4 \<leftarrow> index raw 4;
          b5 \<leftarrow> index raw 5;
          if be16 b4 b5 \<noteq> 1 then Some None
          else do {
            out \<leftarrow> get_range raw 0 q_end;
            b2 \<leftarrow> index raw 2;
            out \<leftarrow> set_at out 2 (flags2 OR (b2 AND 0x01));
            out \<leftarrow> set_at out 3 flags3;
            out \<leftarrow> copy_at out 6 counts;
            Some (Some (out, q_end))
          }
        })
   }"

definition error_on_wire :: "('n, 'e, 'o) hickory \<Rightarrow> bytes \<Rightarrow> ResponseCode \<Rightarrow> bytes option rs" where
  "error_on_wire H raw rc = do {
     h \<leftarrow> reply_head raw 0x80 (0x80 OR h_low H rc) [0, 0, 0, 0, 0, 0];
     Some (map_option fst h)
   }"

definition negative_on_wire :: "('n, 'e, 'o) hickory \<Rightarrow> bytes \<Rightarrow> u32 \<Rightarrow> ResponseCode \<Rightarrow> bytes option rs" where
  "negative_on_wire H raw ttl rc = do {
     h \<leftarrow> reply_head raw 0x84 (0x80 OR h_low H rc) [0, 0, 0, 1, 0, 0];
     Some (map_option (\<lambda>(out, q_end).
       let rdata_len = length SOA_ADMIN_NAME + 2 + 20;
           mname_off = word_of_nat (q_end + 12) in
       out @ [0xC0, word_of_nat HEADER_LEN] @ u16_bytes 6 @ u16_bytes 1 @ u32_bytes ttl @
       u16_bytes (word_of_nat rdata_len) @ SOA_ADMIN_NAME @ u16_bytes (0xC000 OR mname_off) @
       u32_bytes 1 @ u32_bytes ttl @ u32_bytes ttl @ u32_bytes ttl @ u32_bytes ttl) h)
   }"

definition ip_octets :: "IpAddr \<Rightarrow> bytes" where
  "ip_octets ip = (case ip of
     V4 a \<Rightarrow> u32_bytes a
   | V6 a \<Rightarrow> v6_octets a)"

definition address_on_wire :: "bytes \<Rightarrow> IpAddr \<Rightarrow> u32 \<Rightarrow> bytes option rs" where
  "address_on_wire raw ip ttl = do {
     h \<leftarrow> reply_head raw 0x84 0x80 [0, 1, 0, 0, 0, 0];
     Some (map_option (\<lambda>(out, q_end).
       let rtype = (case ip of V4 _ \<Rightarrow> 1 | V6 _ \<Rightarrow> 28); rdata = ip_octets ip in
       out @ [0xC0, word_of_nat HEADER_LEN] @ u16_bytes rtype @ u16_bytes 1 @ u32_bytes ttl @
       u16_bytes (word_of_nat (length rdata)) @ rdata) h)
   }"

section \<open>Replies through the encoder\<close>

definition reply_to :: "('n, 'e, 'o) hickory \<Rightarrow> ('n, 'e, 'o) Message \<Rightarrow> bool \<Rightarrow> ResponseCode \<Rightarrow> ('n, 'e, 'o) Message" where
  "reply_to H decoded aa rc =
     (let m = h_response H (msg_id decoded) in
      m\<lparr>authoritative := (if aa then True else authoritative m), recursion_desired := recursion_desired decoded,
        recursion_available := True, response_code := rc, queries := queries m @ queries decoded\<rparr>)"

definition encoded :: "('n, 'e, 'o) hickory \<Rightarrow> ('n, 'e, 'o) Message \<Rightarrow> bytes" where
  "encoded H m = (case h_to_bytes H m of Some bs \<Rightarrow> bs | None \<Rightarrow> [])"

definition error_encoded :: "('n, 'e, 'o) hickory \<Rightarrow> bytes \<Rightarrow> ResponseCode \<Rightarrow> bytes" where
  "error_encoded H raw rc =
     (case message H raw of None \<Rightarrow> [] | Some decoded \<Rightarrow> encoded H (reply_to H decoded False rc))"

definition negative_encoded :: "('n, 'e, 'o) hickory \<Rightarrow> bytes \<Rightarrow> u32 \<Rightarrow> ResponseCode \<Rightarrow> bytes" where
  "negative_encoded H raw ttl rc =
     (case message H raw of
        None \<Rightarrow> []
      | Some decoded \<Rightarrow>
          (let resp = reply_to H decoded True rc in
           encoded H (case slice_get (queries decoded) 0 of
             None \<Rightarrow> resp
           | Some q \<Rightarrow>
               (let apex = q_name q;
                    mname = (case h_name_ascii H ''ferrite.invalid.'' of Some n \<Rightarrow> n | None \<Rightarrow> apex) in
                resp\<lparr>authorities := authorities resp @ [\<lparr>r_name = apex, r_ttl = ttl,
                  r_data = RD_SOA mname mname 1 ttl ttl ttl ttl\<rparr>]\<rparr>))))"

text \<open>The response code of an address reply stays the one \<open>Message::response\<close> sets.\<close>

definition address_encoded :: "('n, 'e, 'o) hickory \<Rightarrow> bytes \<Rightarrow> IpAddr \<Rightarrow> u32 \<Rightarrow> bytes" where
  "address_encoded H raw ip ttl =
     (case message H raw of
        None \<Rightarrow> []
      | Some decoded \<Rightarrow>
          (let resp = reply_to H decoded True (response_code (h_response H (msg_id decoded)));
               rdata = (case ip of V4 a \<Rightarrow> RD_A a | V6 a \<Rightarrow> RD_AAAA a) in
           encoded H (case slice_get (queries decoded) 0 of
             None \<Rightarrow> resp
           | Some q \<Rightarrow> resp\<lparr>answers := answers resp @ [\<lparr>r_name = q_name q, r_ttl = ttl, r_data = rdata\<rparr>]\<rparr>)))"

section \<open>Choosing the form\<close>

definition or_encoded :: "bytes option rs \<Rightarrow> bytes \<Rightarrow> bytes rs" where
  "or_encoded w other = map_option (\<lambda>r. case r of Some bs \<Rightarrow> bs | None \<Rightarrow> other) w"

definition build_error :: "('n, 'e, 'o) hickory \<Rightarrow> bytes \<Rightarrow> ResponseCode \<Rightarrow> bytes rs" where
  "build_error H raw rc = or_encoded (error_on_wire H raw rc) (error_encoded H raw rc)"

definition build_servfail :: "('n, 'e, 'o) hickory \<Rightarrow> bytes \<Rightarrow> bytes rs" where
  "build_servfail H raw = build_error H raw ServFail"

definition refused :: "('n, 'e, 'o) hickory \<Rightarrow> bytes \<Rightarrow> bytes rs" where
  "refused H raw = (if message H raw = None then Some [] else build_error H raw Refused)"

definition build_negative :: "('n, 'e, 'o) hickory \<Rightarrow> bytes \<Rightarrow> u32 \<Rightarrow> ResponseCode \<Rightarrow> bytes rs" where
  "build_negative H raw ttl rc = or_encoded (negative_on_wire H raw ttl rc) (negative_encoded H raw ttl rc)"

definition build_nxdomain :: "('n, 'e, 'o) hickory \<Rightarrow> bytes \<Rightarrow> u32 \<Rightarrow> bytes rs" where
  "build_nxdomain H raw ttl = build_negative H raw ttl NXDomain"

definition build_address :: "('n, 'e, 'o) hickory \<Rightarrow> bytes \<Rightarrow> IpAddr \<Rightarrow> u32 \<Rightarrow> bytes rs" where
  "build_address H raw ip ttl = or_encoded (address_on_wire raw ip ttl) (address_encoded H raw ip ttl)"

datatype BlockResponse = Nxdomain | Nodata | NullIp | CustomIp | BlockRefused

record BlockAnswer =
  ba_response :: BlockResponse
  ba_ipv4 :: "Ipv4Addr option"
  ba_ipv6 :: "Ipv6Addr option"

definition block_address :: "BlockAnswer \<Rightarrow> u16 \<Rightarrow> IpAddr option" where
  "block_address answer qtype =
     (case ba_response answer of
        NullIp \<Rightarrow> if qtype = 1 then Some (V4 0) else if qtype = 28 then Some (V6 0) else None
      | CustomIp \<Rightarrow> if qtype = 1 then map_option V4 (ba_ipv4 answer)
          else if qtype = 28 then map_option V6 (ba_ipv6 answer) else None
      | _ \<Rightarrow> None)"

definition build_blocked :: "('n, 'e, 'o) hickory \<Rightarrow> bytes \<Rightarrow> u16 \<Rightarrow> u32 \<Rightarrow> BlockAnswer \<Rightarrow> (bytes \<times> u8) rs" where
  "build_blocked H raw qtype ttl answer =
     (case ba_response answer of
        Nxdomain \<Rightarrow> map_option (\<lambda>bs. (bs, 3)) (build_nxdomain H raw ttl)
      | BlockRefused \<Rightarrow> map_option (\<lambda>bs. (bs, 5)) (build_error H raw Refused)
      | _ \<Rightarrow> map_option (\<lambda>bs. (bs, 0))
          (case block_address answer qtype of
             Some ip \<Rightarrow> build_address H raw ip ttl
           | None \<Rightarrow> build_negative H raw ttl NoError))"

section \<open>Delivering and forwarding\<close>

definition patch_id :: "bytes \<Rightarrow> u16 \<Rightarrow> bytes rs" where
  "patch_id bs txid = set_id bs txid"

definition patch_cached :: "bytes \<Rightarrow> u16 \<Rightarrow> u32 \<Rightarrow> bytes rs" where
  "patch_cached bs txid remaining_ttl = do {
     out \<leftarrow> set_id bs txid;
     r \<leftarrow> set_ttls out remaining_ttl;
     Some (fst r)
   }"

definition capped :: "bytes \<Rightarrow> u32 \<Rightarrow> bytes rs" where
  "capped bs max_ttl = map_option fst (cap_ttls bs max_ttl)"

definition is_log_ignored :: "string \<Rightarrow> string list \<Rightarrow> bool" where
  "is_log_ignored name patterns = list_ex (\<lambda>pattern.
     case strip_prefix pattern ''*.'' of
       Some sfx \<Rightarrow> name = sfx \<or> (case strip_suffix name sfx of Some pre \<Rightarrow> ends_with pre ''.'' | None \<Rightarrow> False)
     | None \<Rightarrow> name = pattern) patterns"

definition UPSTREAM_UDP_PAYLOAD :: u16 where "UPSTREAM_UDP_PAYLOAD = 1232"

definition sanitize_encoded :: "('n, 'e, 'o) hickory \<Rightarrow> bytes \<Rightarrow> bool \<Rightarrow> bool \<Rightarrow> bytes" where
  "sanitize_encoded H raw strip_ecs want_do =
     (case h_from_bytes H raw of
        None \<Rightarrow> raw
      | Some msg \<Rightarrow>
          (let e = (if strip_ecs then map_option (h_edns_remove_subnet H) (msg_edns msg) else msg_edns msg);
               e = (if want_do
                    then Some (h_edns_set_do H True (h_edns_set_payload H UPSTREAM_UDP_PAYLOAD
                      (case e of Some x \<Rightarrow> x | None \<Rightarrow> h_edns_new H)))
                    else map_option (h_edns_set_do H False) e) in
           case h_to_bytes H (msg\<lparr>msg_edns := e\<rparr>) of Some bs \<Rightarrow> bs | None \<Rightarrow> raw))"

definition sanitize_query :: "('n, 'e, 'o) hickory \<Rightarrow> bytes \<Rightarrow> bool \<Rightarrow> bool \<Rightarrow> bytes rs" where
  "sanitize_query H raw strip_ecs want_do = do {
     e \<leftarrow> edns raw;
     (case e of
        Opt opt \<Rightarrow>
          if \<not> (strip_ecs \<and> opt_has_ecs opt) then do {
            out \<leftarrow> set_dnssec_ok raw opt want_do;
            if want_do then set_udp_payload out opt UPSTREAM_UDP_PAYLOAD else Some out
          }
          else Some (sanitize_encoded H raw strip_ecs want_do)
      | NoOpt \<Rightarrow> if \<not> want_do then Some raw else Some (sanitize_encoded H raw strip_ecs want_do)
      | EdnsMalformed \<Rightarrow> Some (sanitize_encoded H raw strip_ecs want_do))
   }"

section \<open>SafeSearch and Encrypted Client Hello\<close>

definition CNAME_TTL :: u32 where "CNAME_TTL = 300"

definition target_query :: "('n, 'e, 'o) hickory \<Rightarrow> u16 \<Rightarrow> string \<Rightarrow> u16 \<Rightarrow> bytes option" where
  "target_query H txid target qtype = do {
     n \<leftarrow> h_name H (target @ ''.'');
     let m = h_query H txid;
     h_to_bytes H (m\<lparr>recursion_desired := True, queries := queries m @ [\<lparr>q_name = n, q_type = qtype\<rparr>]\<rparr>)
   }"

definition rewrite_answer :: "('n, 'e, 'o) hickory \<Rightarrow> bytes \<Rightarrow> string \<Rightarrow> string \<Rightarrow> bytes \<Rightarrow> bytes option" where
  "rewrite_answer H raw name target upstream = do {
     asked \<leftarrow> message H raw;
     answered \<leftarrow> h_from_bytes H upstream;
     owner \<leftarrow> h_name H (name @ ''.'');
     safe \<leftarrow> h_name H (target @ ''.'');
     let resp = reply_to H asked False (response_code answered);
     h_to_bytes H (resp\<lparr>
       answers := answers resp @ [\<lparr>r_name = owner, r_ttl = CNAME_TTL, r_data = RD_CNAME safe\<rparr>] @ answers answered,
       authorities := authorities resp @ authorities answered\<rparr>)
   }"

definition SVC_ECH :: u16 where "SVC_ECH = 5"

fun without_ech_params :: "('n, 'o) RData \<Rightarrow> ('n, 'o) RData" where
  "without_ech_params (RD_HTTPS x ps) = RD_HTTPS x (filter (\<lambda>(k, _). k \<noteq> SVC_ECH) ps)"
| "without_ech_params (RD_SVCB x ps) = RD_SVCB x (filter (\<lambda>(k, _). k \<noteq> SVC_ECH) ps)"
| "without_ech_params d = d"

fun has_ech :: "('n, 'o) RData \<Rightarrow> bool" where
  "has_ech (RD_HTTPS x ps) = (length (filter (\<lambda>(k, _). k \<noteq> SVC_ECH) ps) \<noteq> length ps)"
| "has_ech (RD_SVCB x ps) = (length (filter (\<lambda>(k, _). k \<noteq> SVC_ECH) ps) \<noteq> length ps)"
| "has_ech d = False"

definition strip_ech :: "('n, 'e, 'o) hickory \<Rightarrow> bytes \<Rightarrow> bytes option" where
  "strip_ech H bs = do {
     msg \<leftarrow> h_from_bytes H bs;
     if list_ex (\<lambda>r. has_ech (r_data r)) (answers msg)
     then h_to_bytes H (msg\<lparr>answers := map (\<lambda>r. r\<lparr>r_data := without_ech_params (r_data r)\<rparr>) (answers msg)\<rparr>)
     else None
   }"

definition without_ech :: "('n, 'e, 'o) hickory \<Rightarrow> bytes \<Rightarrow> u16 \<Rightarrow> bool \<Rightarrow> bytes" where
  "without_ech H bs qtype on =
     (if (qtype = 64 \<or> qtype = 65) \<and> on
      then (case strip_ech H bs of Some b \<Rightarrow> b | None \<Rightarrow> bs) else bs)"

section \<open>An instance\<close>

text \<open>
  A library that decodes nothing: enough to evaluate the builders on queries they answer
  without it, and an instance of the response codes.
\<close>

definition plain_hickory :: "(string, bool, unit) hickory" where
  "plain_hickory = \<lparr>h_from_bytes = \<lambda>_. None, h_to_bytes = \<lambda>_. None,
     h_response = \<lambda>i. \<lparr>msg_id = i, authoritative = False, recursion_desired = False, recursion_available = False,
       response_code = NoError, queries = [], answers = [], authorities = [], msg_edns = None, msg_rest = ()\<rparr>,
     h_query = \<lambda>i. \<lparr>msg_id = i, authoritative = False, recursion_desired = False, recursion_available = False,
       response_code = NoError, queries = [], answers = [], authorities = [], msg_edns = None, msg_rest = ()\<rparr>,
     h_low = \<lambda>c. (case c of NoError \<Rightarrow> 0 | ServFail \<Rightarrow> 2 | NXDomain \<Rightarrow> 3 | Refused \<Rightarrow> 5 | OtherCode n \<Rightarrow> word_of_nat (n mod 16)),
     h_name = Some, h_name_ascii = Some, h_name_text = id, h_lower_utf8 = lowercase, h_utf8_lower = lowercase,
     h_edns_new = False, h_edns_do = id, h_edns_set_do = \<lambda>b _. b, h_edns_set_payload = \<lambda>_ e. e, h_edns_remove_subnet = id\<rparr>"

end
