(* ===== verification/Dns_Reply.thy ===== *)
theory Dns_Reply
  imports Dns_Message
begin

unbundle bit_operations_syntax

text \<open>
  What the answers ferrite makes up look like to the resolver that receives them: the identifier
  and the question of the query, the response code, the records, and no longer a caching time
  than the one asked for; and that no builder panics on any bytes.
\<close>

section \<open>The question, copied\<close>

lemma question_end_loop_step:
  assumes "question_end_loop msg i = Some j"
  shows "i < length msg \<and> (if msg ! i = 0 then j = i + 1
    else msg ! i AND 0xC0 = 0 \<and> i + (1 + unat (msg ! i)) \<le> length msg \<and> question_end_loop msg (i + (1 + unat (msg ! i))) = Some j)"
  using assms by (subst (asm) question_end_loop.simps)
    (auto simp: slice_get_def unsigned_eq_0_iff split: if_splits option.splits)

lemma question_end_loop_name: "question_end_loop msg i = Some j \<Longrightarrow> name_ends msg i j"
proof (induction "length msg - i" arbitrary: i rule: less_induct)
  case less
  note step = question_end_loop_step [OF less.prems]
  show ?case
  proof (cases "msg ! i = 0")
    case True
    then show ?thesis using step name_ends.root [of i msg] by simp
  next
    case False
    then have "name_ends msg (i + (1 + unat (msg ! i))) j" using step by (intro less.hyps) auto
    then show ?thesis using step False by (intro name_ends.label [of i]) auto
  qed
qed

lemma question_end_loop_cong:
  assumes "question_end_loop msg i = Some j" and "j \<le> length msg'" and "\<forall>k. i \<le> k \<and> k < j \<longrightarrow> msg' ! k = msg ! k"
  shows "question_end_loop msg' i = Some j \<and> read_name_loop msg' i n out = read_name_loop msg i n out"
  using assms
proof (induction "length msg - i" arbitrary: i out rule: less_induct)
  case less
  note step = question_end_loop_step [OF less.prems(1)]
  have j: "i < j" using question_end_loop_bounds [OF less.prems(1)] .
  have at: "msg' ! i = msg ! i" "slice_get msg' i = Some (msg ! i)" "slice_get msg i = Some (msg ! i)"
    using less.prems(2,3) j step by (auto simp: slice_get_def)
  show ?case
  proof (cases "msg ! i = 0")
    case True
    then show ?thesis
      using step at by (simp add: question_end_loop.simps [of _ i] read_name_loop.simps [of _ i])
  next
    case False
    let ?k = "i + (1 + unat (msg ! i))"
    have k: "?k < j" using step False question_end_loop_bounds [of msg ?k j] by simp
    have ih: "question_end_loop msg' ?k = Some j \<and> read_name_loop msg' ?k n o' = read_name_loop msg ?k n o'" for o'
      using step False less.prems(2,3) by (intro less.hyps) auto
    have "get_range msg' (i + 1) ?k = get_range msg (i + 1) ?k"
      using k less.prems(2,3) step False by (auto simp: get_range_def intro!: nth_equalityI)
    then show ?thesis
      using step at False ih k less.prems(2)
      by (simp add: question_end_loop.simps [of _ i] read_name_loop.simps [of _ i] unsigned_eq_0_iff split: option.splits)
  qed
qed

lemma question_end_SomeD:
  assumes "question_end msg = Some (Some e)"
  shows "question_end_loop msg 12 = Some (e - 4) \<and> 17 \<le> e \<and> e \<le> length msg \<and> be16 (msg ! 4) (msg ! 5) \<noteq> 0"
  using assms question_end_bounds [OF assms]
  by (auto simp: question_end_def bind_eq_Some_conv HEADER_LEN_def index_Some split: if_splits option.splits)

text \<open>A message that agrees on the counts and on the question has the same question.\<close>

lemma question_copied:
  assumes q: "question_end msg = Some (Some e)" and len: "e \<le> length msg'"
    and eq: "\<forall>k. k = 4 \<or> k = 5 \<or> (12 \<le> k \<and> k < e) \<longrightarrow> msg' ! k = msg ! k"
  shows "question_end msg' = Some (Some e) \<and> question msg' = question msg"
proof -
  note d = question_end_SomeD [OF q]
  have "question_end_loop msg' 12 = Some (e - 4) \<and> read_name_loop msg' 12 0 [] = read_name_loop msg 12 0 []"
    using d len eq by (intro question_end_loop_cong) auto
  then have l: "question_end_loop msg' 12 = Some (e - 4)" "read_name_lower msg' 12 = read_name_lower msg 12"
    by (simp_all add: read_name_lower_def)
  have e': "question_end msg' = Some (Some e)"
    using d l len eq by (simp add: question_end_def HEADER_LEN_def rs_simps)
  have "msg' ! (e - 4) = msg ! (e - 4)" "msg' ! (e - 3) = msg ! (e - 3)" using d eq by auto
  then have "question msg' = question msg"
    using d l len eq q e' by (auto simp: question_def HEADER_LEN_def index_def split: option.splits)
  with e' show ?thesis by simp
qed

section \<open>The head of a reply\<close>

definition reply_shape :: "bytes \<Rightarrow> nat \<Rightarrow> u8 \<Rightarrow> u8 \<Rightarrow> bytes \<Rightarrow> bytes" where
  "reply_shape raw e fa fb counts =
     take 2 raw @ [fa OR (raw ! 2 AND 0x01), fb] @ take 2 (drop 4 raw) @ counts @ take (e - 12) (drop 12 raw)"

definition answerable :: "bytes \<Rightarrow> nat \<Rightarrow> bool" where
  "answerable raw e \<longleftrightarrow> question_end raw = Some (Some e) \<and> be16 (raw ! 4) (raw ! 5) = 1"

lemma patch_head:
  assumes "12 \<le> length xs" and "length cs = 6"
  shows "take 6 (xs[2 := a, 3 := b]) @ cs @ drop 12 xs = take 2 xs @ [a, b] @ take 2 (drop 4 xs) @ cs @ drop 12 xs"
proof -
  have "6 \<le> length xs" using assms(1) by simp
  then obtain x0 x1 x2 x3 x4 x5 rest where "xs = x0 # x1 # x2 # x3 # x4 # x5 # rest"
    by (auto simp: numeral_eq_Suc Suc_le_length_iff)
  then show ?thesis by (simp add: numeral_eq_Suc)
qed

lemma reply_head_eq:
  assumes "length cs = 6"
  shows "\<exists>r. reply_head raw fa fb cs = Some r \<and> (\<forall>e. answerable raw e \<longrightarrow> r = Some (reply_shape raw e fa fb cs, e)) \<and>
    (r \<noteq> None \<longrightarrow> (\<exists>e. answerable raw e))"
proof (cases "question_end raw")
  case None
  then show ?thesis using question_end_total by blast
next
  case (Some q)
  show ?thesis
  proof (cases q)
    case None
    then show ?thesis using Some by (simp add: reply_head_def answerable_def)
  next
    case (Some e)
    with \<open>question_end raw = Some q\<close> have q: "question_end raw = Some (Some e)" by simp
    note d = question_end_SomeD [OF q]
    have out: "take 6 ((take e raw)[2 := a, 3 := b]) @ cs @ drop 12 (take e raw) =
        take 2 raw @ [a, b] @ take 2 (drop 4 raw) @ cs @ take (e - 12) (drop 12 raw)" for a b
      using patch_head [of "take e raw" cs a b] d assms by (auto simp: drop_take min_def)
    show ?thesis
      using q d assms out
      by (auto simp: reply_head_def answerable_def rs_simps get_range_def set_at_def copy_at_def reply_shape_def drop_take)
  qed
qed

lemma reply_shape_length: "answerable raw e \<Longrightarrow> length cs = 6 \<Longrightarrow> length (reply_shape raw e fa fb cs) = e"
  by (auto simp: answerable_def reply_shape_def dest: question_end_SomeD)

lemma reply_shape_nth:
  assumes "answerable raw e" and "length cs = 6"
  shows "reply_shape raw e fa fb cs ! 0 = raw ! 0" "reply_shape raw e fa fb cs ! 1 = raw ! 1"
    "reply_shape raw e fa fb cs ! 2 = fa OR (raw ! 2 AND 0x01)" "reply_shape raw e fa fb cs ! 3 = fb"
    "reply_shape raw e fa fb cs ! 4 = raw ! 4" "reply_shape raw e fa fb cs ! 5 = raw ! 5"
    "k < 6 \<Longrightarrow> reply_shape raw e fa fb cs ! (6 + k) = cs ! k"
    "12 \<le> i \<Longrightarrow> i < e \<Longrightarrow> reply_shape raw e fa fb cs ! i = raw ! i"
proof -
  have "17 \<le> e" "e \<le> length raw" using assms(1) question_end_SomeD by (auto simp: answerable_def)
  then show "reply_shape raw e fa fb cs ! 0 = raw ! 0" "reply_shape raw e fa fb cs ! 1 = raw ! 1"
    "reply_shape raw e fa fb cs ! 2 = fa OR (raw ! 2 AND 0x01)" "reply_shape raw e fa fb cs ! 3 = fb"
    "reply_shape raw e fa fb cs ! 4 = raw ! 4" "reply_shape raw e fa fb cs ! 5 = raw ! 5"
    "k < 6 \<Longrightarrow> reply_shape raw e fa fb cs ! (6 + k) = cs ! k"
    "12 \<le> i \<Longrightarrow> i < e \<Longrightarrow> reply_shape raw e fa fb cs ! i = raw ! i"
    using assms(2) by (auto simp: reply_shape_def nth_append)
qed

text \<open>A reply: the head with anything behind it.\<close>

lemma reply_question:
  assumes "answerable raw e" and "length cs = 6"
  shows "question_end (reply_shape raw e fa fb cs @ rest) = Some (Some e) \<and> question (reply_shape raw e fa fb cs @ rest) = question raw \<and>
    query_id (reply_shape raw e fa fb cs @ rest) = query_id raw"
proof -
  note n = reply_shape_nth [OF assms, where fa = fa and fb = fb] and l = reply_shape_length [OF assms, where fa = fa and fb = fb]
  have q: "question_end raw = Some (Some e)" "17 \<le> e" "e \<le> length raw"
    using assms(1) question_end_SomeD by (auto simp: answerable_def)
  have "question_end (reply_shape raw e fa fb cs @ rest) = Some (Some e) \<and> question (reply_shape raw e fa fb cs @ rest) = question raw"
    using n l q by (intro question_copied) (auto simp: nth_append)
  moreover have "query_id (reply_shape raw e fa fb cs @ rest) = query_id raw"
    using n(1,2) l q by (auto simp: query_id_def slice_get_def nth_append split: option.splits)
  ultimately show ?thesis by simp
qed

lemma reply_cursor:
  assumes "answerable raw e" and "length cs = 6"
  shows "cursor_new (reply_shape raw e fa fb cs @ rest) = Some (Some \<lparr>cur_at = e,
    cur_left = [be16 (cs ! 0) (cs ! 1), be16 (cs ! 2) (cs ! 3), be16 (cs ! 4) (cs ! 5)], cur_section = 0\<rparr>)"
proof -
  let ?m = "reply_shape raw e fa fb cs @ rest"
  note n = reply_shape_nth [OF assms, where fa = fa and fb = fb] and l = reply_shape_length [OF assms, where fa = fa and fb = fb]
  have q: "question_end ?m = Some (Some e)" using reply_question [OF assms] by blast
  have one: "be16 (raw ! 4) (raw ! 5) = 1" "17 \<le> e" using assms(1) question_end_SomeD by (auto simp: answerable_def)
  have "skip_name ?m 12 = Some (e - 4)"
    using question_end_SomeD [OF q] question_end_loop_name name_ends_skip_name by blast
  then have "skip_questions ?m 1 12 = Some e" using one l by simp
  moreover have "?m ! (6 + k) = cs ! k" if "k < 6" for k using n(7) [OF that] l that one by (simp add: nth_append)
  from this [of 0] this [of 1] this [of 2] this [of 3] this [of 4] this [of 5]
  have "?m ! 6 = cs ! 0" "?m ! 7 = cs ! 1" "?m ! 8 = cs ! 2" "?m ! 9 = cs ! 3" "?m ! 10 = cs ! 4" "?m ! 11 = cs ! 5" by simp_all
  moreover have "?m ! 4 = raw ! 4" "?m ! 5 = raw ! 5" using n l one by (simp_all add: nth_append)
  ultimately show ?thesis using one l by (simp add: cursor_new_eq)
qed

section \<open>The records of a reply\<close>

lemma records_none:
  assumes "cursor_new msg = Some (Some \<lparr>cur_at = e, cur_left = [0, 0, 0], cur_section = 0\<rparr>)"
  shows "records msg = Some []"
proof -
  have s: "skip_sections [0, 0, 0] 0 = Some 3" by code_simp
  have "cursor_next \<lparr>cur_at = e, cur_left = [0, 0, 0], cur_section = 0\<rparr> msg = Some (End, \<lparr>cur_at = e, cur_left = [0, 0, 0], cur_section = 3\<rparr>)"
    using s by (subst cursor_next_eq [where t = 3]) (simp_all add: cursor_ok_def)
  then show ?thesis using assms by (simp add: records_def walk.simps)
qed

lemma be16_small: "be16 0 0 = 0" "be16 0 1 = 1"
  by (simp_all add: be16_def)

lemma skip_facts:
  "skip_sections [1, 0, 0] 0 = Some 0" "skip_sections [0, 1, 0] 0 = Some 1"
  "skip_sections [0, 0, 0] 0 = Some 3" "skip_sections [0, 0, 0] 1 = Some 3" "skip_sections [0, 0, 0] (Suc 0) = Some 3"
  by code_simp+

text \<open>One record behind the question, its name a pointer to the question's.\<close>

definition one_record :: "u16 \<Rightarrow> u32 \<Rightarrow> bytes \<Rightarrow> bytes" where
  "one_record t ttl rdata = [0xC0, 12] @ u16_bytes t @ u16_bytes 1 @ u32_bytes ttl @ u16_bytes (word_of_nat (length rdata)) @ rdata"

lemma one_record_length: "length (one_record t ttl rd) = 12 + length rd"
  by (simp add: one_record_def)

lemma records_one:
  assumes new: "cursor_new msg = Some (Some \<lparr>cur_at = e, cur_left = left, cur_section = 0\<rparr>)"
    and msg: "msg = hd' @ one_record t ttl rd" and e: "length hd' = e" and rd: "length rd < 65536"
    and left: "(left = [1, 0, 0] \<and> sec = Answer) \<or> (left = [0, 1, 0] \<and> sec = Authority)"
  shows "records msg = Some [\<lparr>rr_section = sec, rtype = t, rr_class = 1, ttl_off = e + 6, rdata_off = e + 12, rdata_len = length rd\<rparr>]"
proof -
  have at: "msg ! (e + k) = one_record t ttl rd ! k" for k using msg e by (simp add: nth_append)
  have len: "length msg = e + 12 + length rd" using msg e one_record_length by simp
  have f: "msg ! e = 0xC0" "msg ! (e + 2) = u16_bytes t ! 0" "msg ! (e + 3) = u16_bytes t ! 1"
    "msg ! (e + 4) = u16_bytes 1 ! 0" "msg ! (e + 5) = u16_bytes 1 ! 1"
    "msg ! (e + 10) = u16_bytes (word_of_nat (length rd)) ! 0" "msg ! (e + 11) = u16_bytes (word_of_nat (length rd)) ! 1"
    using at [of 0] at [of 2] at [of 3] at [of 4] at [of 5] at [of 10] at [of 11]
    by (simp_all add: one_record_def nth_append)
  have "name_ends msg e (e + 2)" using f len by (intro name_ends.pointer) simp_all
  then have sk: "skip_name msg e = Some (e + 2)" by (rule name_ends_skip_name)
  have rl: "unat (be16 (msg ! (e + 10)) (msg ! (e + 11))) = length rd"
    using f rd by (simp only: be16_u16_bytes) (simp add: unat_of_nat_small)
  have ty: "be16 (msg ! (e + 2)) (msg ! (e + 3)) = t" "be16 (msg ! (e + 4)) (msg ! (e + 5)) = 1" using f by (simp_all only: be16_u16_bytes)
  define s where "s = (if left = [1, 0, 0] then 0 else 1 :: nat)"
  have sks: "skip_sections left 0 = Some s" "skip_sections [0, 0, 0] s = Some 3" "left ! s = 1" "left[s := 0] = [0, 0, 0]"
    "SECTIONS ! s = sec" "s < 3" "length left = 3"
  proof -
    from left consider (ans) "left = [1, 0, 0]" "sec = Answer" "s = 0" | (auth) "left = [0, 1, 0]" "sec = Authority" "s = 1"
      by (auto simp: s_def)
    then show "skip_sections left 0 = Some s" "skip_sections [0, 0, 0] s = Some 3" "left ! s = 1" "left[s := 0] = [0, 0, 0]"
      "SECTIONS ! s = sec" "s < 3" "length left = 3"
      by (cases; simp add: SECTIONS_def skip_facts)+
  qed
  let ?c = "\<lparr>cur_at = e, cur_left = left, cur_section = 0\<rparr>"
  let ?c' = "\<lparr>cur_at = e + 12 + length rd, cur_left = [0, 0, 0], cur_section = s\<rparr>"
  let ?r = "\<lparr>rr_section = sec, rtype = t, rr_class = 1, ttl_off = e + 6, rdata_off = e + 12, rdata_len = length rd\<rparr>"
  have n1: "cursor_next ?c msg = Some (Record ?r, ?c')"
    using sks sk rl ty len by (subst cursor_next_eq [where t = s]) (simp_all add: cursor_ok_def Let_def add.commute [of _ e] del: add_2_eq_Suc')
  have n2: "cursor_next ?c' msg = Some (End, ?c'\<lparr>cur_section := 3\<rparr>)"
    using sks by (subst cursor_next_eq [where t = 3]) (simp_all add: cursor_ok_def)
  have "walk ?c' msg = ([], True)" using n2 by (simp add: walk.simps)
  then have "walk ?c msg = ([?r], True)" using n1 by (simp add: walk.simps [of ?c])
  then show ?thesis using new by (simp add: records_def)
qed

lemma one_record_ttl:
  assumes "msg = hd' @ one_record t ttl rd" and "ttl_off r = length hd' + 6"
  shows "ttl_of msg r = ttl"
proof -
  have "msg ! (ttl_off r + k) = u32_bytes ttl ! k" if "k < 4" for k
    using assms that by (simp add: nth_append one_record_def numeral_eq_Suc)
  from this [of 0] this [of 1] this [of 2] this [of 3] show ?thesis by (simp add: ttl_of_def be32_u32_bytes [simplified])
qed

lemma one_record_rdata:
  assumes "msg = hd' @ one_record t ttl rd"
  shows "drop (length hd' + 12) msg = rd"
  using assms by (simp add: one_record_def numeral_eq_Suc)

section \<open>The builders\<close>

text \<open>What \<open>ResponseCode::low\<close> returns for the codes the source uses (RFC 1035, section 4.1.1).\<close>

definition rcode_laws :: "('n, 'e, 'o) hickory \<Rightarrow> bool" where
  "rcode_laws H \<longleftrightarrow> h_low H NoError = 0 \<and> h_low H ServFail = 2 \<and> h_low H NXDomain = 3 \<and> h_low H Refused = 5"

text \<open>
  A reply to \<open>raw\<close>: its identifier and question, marked as a response, with response code \<open>n\<close>
  and records \<open>rs\<close>.
\<close>

definition replies :: "bytes \<Rightarrow> u8 \<Rightarrow> RecordRef list \<Rightarrow> bytes \<Rightarrow> bool" where
  "replies raw n rs out \<longleftrightarrow> query_id out = query_id raw \<and> question out = question raw \<and>
     bit (out ! 2) 7 \<and> rcode out = Some (Some n) \<and> records out = Some rs"

lemma flag_or: "f \<in> {0x80, 0x84} \<Longrightarrow> bit (f OR (b AND 1) :: u8) 7"
  by (auto simp: bit_or_iff)

lemma rcode_low: "n < 16 \<Longrightarrow> (0x80 OR n) AND 0x0F = (n :: u8)"
  by (rule u8_all [of "\<lambda>n. n < 16 \<longrightarrow> (0x80 OR n) AND 0x0F = (n :: u8)", THEN mp]) code_simp

lemma rcode_plain: "n < 16 \<Longrightarrow> rcode_value 0 (ucast (n :: u8)) = n"
  by (rule u8_all [of "\<lambda>n. n < 16 \<longrightarrow> rcode_value 0 (ucast (n :: u8)) = n", THEN mp]) code_simp

lemma replies_head:
  assumes a: "answerable raw e" and cs: "length cs = 6" and f: "fa \<in> {0x80, 0x84}" and n: "n < 16"
    and rs: "records (reply_shape raw e fa (0x80 OR n) cs @ rest) = Some rs"
    and no_opt: "\<forall>r \<in> set rs. rr_section r \<noteq> Additional"
  shows "replies raw n rs (reply_shape raw e fa (0x80 OR n) cs @ rest)"
proof -
  note nth = reply_shape_nth [OF a cs, where fa = fa and fb = "0x80 OR n"] and l = reply_shape_length [OF a cs, where fa = fa and fb = "0x80 OR n"]
  have e: "17 \<le> e" using a question_end_SomeD by (auto simp: answerable_def)
  have "opt_high (reply_shape raw e fa (0x80 OR n) cs @ rest) rs = 0"
    using no_opt unfolding opt_high_def is_opt_def by (induction rs) simp_all
  then show ?thesis
    using reply_question [OF a cs] nth(3,4) l e f rs n
    by (simp add: replies_def flag_or rcode_eq nth_append rcode_low rcode_plain)
qed

lemma low_16: "rcode_laws H \<Longrightarrow> rc \<in> {NoError, ServFail, NXDomain, Refused} \<Longrightarrow> h_low H rc < 16"
  by (auto simp: rcode_laws_def)

lemma build_error_reply:
  assumes laws: "rcode_laws H" and a: "answerable raw e" and rc: "rc \<in> {ServFail, Refused}"
  shows "\<exists>out. build_error H raw rc = Some out \<and> replies raw (h_low H rc) [] out"
proof -
  let ?out = "reply_shape raw e 0x80 (0x80 OR h_low H rc) [0, 0, 0, 0, 0, 0]"
  have "reply_head raw 0x80 (0x80 OR h_low H rc) [0, 0, 0, 0, 0, 0] = Some (Some (?out, e))"
    using reply_head_eq [where cs = "[0, 0, 0, 0, 0, 0]" and raw = raw and fa = "0x80" and fb = "0x80 OR h_low H rc"] a by auto
  then have "build_error H raw rc = Some ?out"
    by (simp add: build_error_def or_encoded_def error_on_wire_def)
  moreover have "records (?out @ []) = Some []"
    using reply_cursor [OF a, where cs = "[0, 0, 0, 0, 0, 0]" and fa = "0x80" and fb = "0x80 OR h_low H rc" and rest = "[]"]
    by (intro records_none [of _ e]) (simp add: be16_small)
  then have "replies raw (h_low H rc) [] (?out @ [])"
    using low_16 [OF laws] rc by (intro replies_head [OF a]) auto
  ultimately show ?thesis by simp
qed

definition soa_rdata :: "nat \<Rightarrow> u32 \<Rightarrow> bytes" where
  "soa_rdata e ttl = SOA_ADMIN_NAME @ u16_bytes (0xC000 OR word_of_nat (e + 12)) @ u32_bytes 1 @
     u32_bytes ttl @ u32_bytes ttl @ u32_bytes ttl @ u32_bytes ttl"

lemma length_soa_rdata [simp]: "length (soa_rdata e ttl) = 39"
  by (simp add: soa_rdata_def SOA_ADMIN_NAME_def)

lemma read_u32_bytes:
  assumes "i + 4 \<le> length msg" and "\<forall>k < 4. msg ! (i + k) = u32_bytes w ! k"
  shows "read_u32 msg i = Some w"
proof -
  have "msg ! i = u32_bytes w ! 0" "msg ! (i + 1) = u32_bytes w ! 1" "msg ! (i + 2) = u32_bytes w ! 2" "msg ! (i + 3) = u32_bytes w ! 3"
    using assms(2) [rule_format, of 0] assms(2) [rule_format, of 1] assms(2) [rule_format, of 2] assms(2) [rule_format, of 3]
    by simp_all
  then show ?thesis unfolding read_u32_in [OF assms(1)] by (simp only: be32_u32_bytes)
qed

lemma soa_rdata_minimum: "k < 4 \<Longrightarrow> soa_rdata e ttl ! (35 + k) = u32_bytes ttl ! k"
  by (simp add: soa_rdata_def SOA_ADMIN_NAME_def nth_append)

lemma build_negative_reply:
  assumes laws: "rcode_laws H" and a: "answerable raw e" and rc: "rc \<in> {NoError, NXDomain}"
  shows "\<exists>out r. build_negative H raw ttl rc = Some out \<and> replies raw (h_low H rc) [r] out \<and> rr_section r = Authority \<and>
    rtype r = TYPE_SOA \<and> ttl_of out r = ttl \<and> cache_ttl out = Some (if ttl > 0 then Some ttl else None)"
proof -
  let ?hd = "reply_shape raw e 0x84 (0x80 OR h_low H rc) [0, 0, 0, 1, 0, 0]"
  let ?out = "?hd @ one_record 6 ttl (soa_rdata e ttl)"
  let ?r = "\<lparr>rr_section = Authority, rtype = 6, rr_class = 1, ttl_off = e + 6, rdata_off = e + 12, rdata_len = 39\<rparr>"
  have len: "length ?hd = e" using reply_shape_length [OF a] by simp
  have "reply_head raw 0x84 (0x80 OR h_low H rc) [0, 0, 0, 1, 0, 0] = Some (Some (?hd, e))"
    using reply_head_eq [where cs = "[0, 0, 0, 1, 0, 0]" and raw = raw and fa = "0x84" and fb = "0x80 OR h_low H rc"] a by auto
  then have run: "build_negative H raw ttl rc = Some ?out"
    by (simp add: build_negative_def or_encoded_def negative_on_wire_def one_record_def soa_rdata_def SOA_ADMIN_NAME_def HEADER_LEN_def Let_def)
  have recs: "records ?out = Some [?r]"
    using records_one [of ?out e "[0, 1, 0]" ?hd 6 ttl "soa_rdata e ttl" Authority] len
      reply_cursor [OF a, where cs = "[0, 0, 0, 1, 0, 0]" and fa = "0x84" and fb = "0x80 OR h_low H rc" and rest = "one_record 6 ttl (soa_rdata e ttl)"]
    by (simp add: be16_small)
  then have rep: "replies raw (h_low H rc) [?r] ?out"
    using low_16 [OF laws] rc by (intro replies_head [OF a]) auto
  have t: "ttl_of ?out ?r = ttl" using one_record_ttl [of ?out ?hd 6 ttl "soa_rdata e ttl" ?r] len by simp
  have lo: "length ?out = e + 51" using len one_record_length by simp
  have d: "drop (e + 12) ?out = soa_rdata e ttl" using one_record_rdata [of ?out ?hd 6 ttl "soa_rdata e ttl"] len by simp
  have at: "?out ! (e + 47 + k) = u32_bytes ttl ! k" if "k < 4" for k
  proof -
    have "drop (e + 12) ?out ! (35 + k) = ?out ! (e + 12 + (35 + k))" using lo by (intro nth_drop) simp
    then show ?thesis unfolding d soa_rdata_minimum [OF that] by (simp only: add.assoc [symmetric]) (simp add: add.commute)
  qed
  have m: "read_u32 ?out (e + 47) = Some ttl" using lo at by (intro read_u32_bytes) auto
  have "bounding_ttl ?out [?r] = Some ttl"
    using t m by (simp add: bounding_ttl_def answer_ttls_def soa_negative_def is_soa_def TYPE_SOA_def SOA_MIN_RDATA_def add.commute [of _ e])
  then have "cache_ttl ?out = Some (if ttl > 0 then Some ttl else None)" using recs by (simp add: cache_ttl_eq)
  then show ?thesis using run rep t by (intro exI [of _ ?out] exI [of _ ?r]) (simp add: TYPE_SOA_def)
qed

lemma length_ip_octets: "length (ip_octets ip) = (case ip of V4 _ \<Rightarrow> 4 | V6 _ \<Rightarrow> 16)"
  by (simp add: ip_octets_def split: IpAddr.splits)

lemma build_address_reply:
  assumes a: "answerable raw e"
  shows "\<exists>out r. build_address H raw ip ttl = Some out \<and> replies raw 0 [r] out \<and> rr_section r = Answer \<and>
    rtype r = (case ip of V4 _ \<Rightarrow> 1 | V6 _ \<Rightarrow> 28) \<and> drop (rdata_off r) out = ip_octets ip \<and>
    ttl_of out r = ttl \<and> cache_ttl out = Some (if ttl > 0 then Some ttl else None)"
proof -
  let ?t = "case ip of V4 _ \<Rightarrow> 1 | V6 _ \<Rightarrow> (28 :: u16)"
  let ?hd = "reply_shape raw e 0x84 0x80 [0, 1, 0, 0, 0, 0]"
  let ?out = "?hd @ one_record ?t ttl (ip_octets ip)"
  let ?r = "\<lparr>rr_section = Answer, rtype = ?t, rr_class = 1, ttl_off = e + 6, rdata_off = e + 12, rdata_len = length (ip_octets ip)\<rparr>"
  have len: "length ?hd = e" using reply_shape_length [OF a] by simp
  have "reply_head raw 0x84 0x80 [0, 1, 0, 0, 0, 0] = Some (Some (?hd, e))"
    using reply_head_eq [where cs = "[0, 1, 0, 0, 0, 0]" and raw = raw and fa = "0x84" and fb = "0x80"] a by auto
  then have run: "build_address H raw ip ttl = Some ?out"
    by (simp add: build_address_def or_encoded_def address_on_wire_def one_record_def HEADER_LEN_def Let_def)
  have small: "length (ip_octets ip) < 65536" by (simp add: length_ip_octets split: IpAddr.splits)
  have recs: "records ?out = Some [?r]"
    using records_one [of ?out e "[1, 0, 0]" ?hd ?t ttl "ip_octets ip" Answer] len small
      reply_cursor [OF a, where cs = "[0, 1, 0, 0, 0, 0]" and fa = "0x84" and fb = "0x80" and rest = "one_record ?t ttl (ip_octets ip)"]
    by (simp add: be16_small)
  then have rep: "replies raw 0 [?r] ?out"
    using replies_head [OF a, where cs = "[0, 1, 0, 0, 0, 0]" and fa = "0x84" and n = 0 and rest = "one_record ?t ttl (ip_octets ip)" and rs = "[?r]"] by simp
  have t: "ttl_of ?out ?r = ttl" using one_record_ttl [of ?out ?hd ?t ttl "ip_octets ip" ?r] len by simp
  have "cache_ttl ?out = Some (if ttl > 0 then Some ttl else None)"
    using recs t by (simp add: cache_ttl_eq bounding_ttl_def answer_ttls_def)
  moreover have "drop (rdata_off ?r) ?out = ip_octets ip" using one_record_rdata [of ?out ?hd ?t ttl "ip_octets ip"] len by simp
  ultimately show ?thesis using run rep t by (intro exI [of _ ?out] exI [of _ ?r]) simp
qed

section \<open>Properties\<close>

text \<open>
  C13. The answer for a blocked name, in each of its five shapes, goes to the query that was
  asked: it has its identifier and its question, is marked as a response, and its response
  code is the one logged. Every record in it has the TTL asked for, and a resolver caches it
  for that time at most; an address answer holds the configured address and nothing else.
\<close>

theorem build_blocked_spec:
  assumes "rcode_laws H" and "answerable raw e"
  shows "\<exists>out rc rs. build_blocked H raw qtype ttl ans = Some (out, rc) \<and> replies raw rc rs out \<and>
    (\<forall>r. r \<in> set rs \<longrightarrow> ttl_of out r = ttl) \<and> cache_ttl out \<in> {Some None, Some (Some ttl)} \<and>
    (case block_address ans qtype of
       Some ip \<Rightarrow> rc = 0 \<and> (\<exists>r. rs = [r] \<and> rr_section r = Answer \<and> drop (rdata_off r) out = ip_octets ip)
     | None \<Rightarrow> \<not> list_ex (\<lambda>r. rr_section r = Answer) rs)"
proof -
  note laws = assms(1) [unfolded rcode_laws_def]
  have none: "cache_ttl out = Some None" if "replies raw n [] out" for out n
    using that by (simp add: cache_ttl_eq replies_def bounding_ttl_def answer_ttls_def soa_negative_def)
  have neg: ?thesis if "build_blocked H raw qtype ttl ans = map_option (\<lambda>bs. (bs, h_low H rc)) (build_negative H raw ttl rc)"
    "rc \<in> {NoError, NXDomain}" "block_address ans qtype = None" for rc
  proof -
    note rep = build_negative_reply [OF assms that(2), of ttl]
    obtain out r where "build_negative H raw ttl rc = Some out" "replies raw (h_low H rc) [r] out" "rr_section r = Authority"
      "ttl_of out r = ttl" "cache_ttl out = Some (if ttl > 0 then Some ttl else None)"
      using rep by (elim exE conjE) (rule that)
    then show ?thesis using that(1,3) by (intro exI [of _ out] exI [of _ "h_low H rc"] exI [of _ "[r]"]) auto
  qed
  have adr: ?thesis if "build_blocked H raw qtype ttl ans = map_option (\<lambda>bs. (bs, 0)) (build_address H raw ip ttl)"
    "block_address ans qtype = Some ip" for ip
  proof -
    note rep = build_address_reply [OF assms(2), of H ip ttl]
    obtain out r where "build_address H raw ip ttl = Some out" "replies raw 0 [r] out" "rr_section r = Answer"
      "drop (rdata_off r) out = ip_octets ip" "ttl_of out r = ttl" "cache_ttl out = Some (if ttl > 0 then Some ttl else None)"
      using rep by (elim exE conjE) (rule that)
    then show ?thesis using that by (intro exI [of _ out] exI [of _ 0] exI [of _ "[r]"]) auto
  qed
  show ?thesis
  proof (cases "ba_response ans")
    case Nxdomain
    then show ?thesis using laws by (intro neg [of NXDomain]) (simp_all add: build_blocked_def build_nxdomain_def block_address_def)
  next
    case BlockRefused
    then obtain out where "build_blocked H raw qtype ttl ans = Some (out, 5)" "replies raw 5 [] out"
      using build_error_reply [OF assms, of Refused] laws by (auto simp: build_blocked_def)
    then show ?thesis using none BlockRefused by (auto simp: block_address_def)
  next
    case Nodata
    then show ?thesis using laws by (intro neg [of NoError]) (simp_all add: build_blocked_def block_address_def)
  next
    case NullIp
    then show ?thesis using laws neg [of NoError] adr by (cases "block_address ans qtype") (simp_all add: build_blocked_def)
  next
    case CustomIp
    then show ?thesis using laws neg [of NoError] adr by (cases "block_address ans qtype") (simp_all add: build_blocked_def)
  qed
qed

definition sample_query :: bytes where
  "sample_query = [0xBE, 0xEF, 1, 0, 0, 1, 0, 0, 0, 0, 0, 0, 3, 97, 100, 115, 2, 105, 111, 0, 0, 1, 0, 1]"

definition sinkhole :: BlockAnswer where
  "sinkhole = \<lparr>ba_response = NullIp, ba_ipv4 = None, ba_ipv6 = None\<rparr>"

lemma plain_hickory_laws: "rcode_laws plain_hickory"
  by (simp add: rcode_laws_def plain_hickory_def)

lemma sample_query_answerable: "answerable sample_query 24"
  unfolding answerable_def by code_simp

theorem build_blocked_spec_witness:
  "\<exists>out rs. build_blocked plain_hickory sample_query 1 60 sinkhole = Some (out, 0) \<and> replies sample_query 0 rs out"
proof -
  have "block_address sinkhole 1 = Some (V4 0)" by (simp add: sinkhole_def block_address_def)
  then show ?thesis using build_blocked_spec [OF plain_hickory_laws sample_query_answerable, of 1 60 sinkhole] by auto
qed

lemma reply_head_total: "length cs = 6 \<Longrightarrow> \<exists>r. reply_head raw fa fb cs = Some r"
  using reply_head_eq by blast

lemma build_error_total: "\<exists>out. build_error H raw rc = Some out"
  using reply_head_total [of "[0, 0, 0, 0, 0, 0]" raw "0x80" "0x80 OR h_low H rc"]
  by (auto simp: build_error_def or_encoded_def error_on_wire_def)

lemma build_negative_total: "\<exists>out. build_negative H raw ttl rc = Some out"
  using reply_head_total [of "[0, 0, 0, 1, 0, 0]" raw "0x84" "0x80 OR h_low H rc"]
  by (auto simp: build_negative_def or_encoded_def negative_on_wire_def)

lemma build_address_total: "\<exists>out. build_address H raw ip ttl = Some out"
  using reply_head_total [of "[0, 1, 0, 0, 0, 0]" raw "0x84" "0x80"]
  by (auto simp: build_address_def or_encoded_def address_on_wire_def)

lemma build_blocked_total: "\<exists>out. build_blocked H raw qtype ttl ans = Some out"
  using build_error_total [of H raw Refused] build_negative_total [of H raw ttl] build_address_total [of H raw _ ttl]
  by (auto simp: build_blocked_def build_nxdomain_def split: BlockResponse.splits option.splits)

end
