(* ===== verification/Float64.thy ===== *)
theory Float64
  imports Complex_Main "HOL-Library.Log_Nat"
begin

text \<open>
  The arithmetic of \<open>f64\<close> on non-negative values: each operation is exact and then rounded to
  the nearest number of 53 significant bits, a tie to the even one. The exponent is not
  bounded; the values of the program are far from both of its ends.
\<close>

section \<open>Rounding\<close>

definition pow2 :: "int \<Rightarrow> rat" where
  "pow2 e = (if 0 \<le> e then 2 ^ nat e else 1 / 2 ^ nat (- e))"

definition round_even :: "rat \<Rightarrow> int" where
  "round_even y =
     (let f = \<lfloor>y\<rfloor>; d = y - of_int f in
      if d < 1 / 2 then f else if d > 1 / 2 then f + 1 else if even f then f else f + 1)"

text \<open>The exponent of the binade a positive number is in, from the lengths of its numerator and denominator.\<close>

definition binade :: "rat \<Rightarrow> int" where
  "binade x =
     (let (p, q) = quotient_of x; e = bitlen p - bitlen q in
      if pow2 e \<le> x then e else e - 1)"

definition f64_round :: "rat \<Rightarrow> rat" where
  "f64_round x =
     (if x = 0 then 0 else (let ulp = pow2 (binade x - 52) in of_int (round_even (x / ulp)) * ulp))"

definition f64_add :: "rat \<Rightarrow> rat \<Rightarrow> rat" where "f64_add x y = f64_round (x + y)"
definition f64_sub :: "rat \<Rightarrow> rat \<Rightarrow> rat" where "f64_sub x y = f64_round (x - y)"
definition f64_mul :: "rat \<Rightarrow> rat \<Rightarrow> rat" where "f64_mul x y = f64_round (x * y)"
definition f64_div :: "rat \<Rightarrow> rat \<Rightarrow> rat" where "f64_div x y = f64_round (x / y)"

text \<open>\<open>Duration::as_secs_f64\<close> of a duration in nanoseconds.\<close>

definition as_secs_f64 :: "nat \<Rightarrow> rat" where
  "as_secs_f64 n = f64_add (f64_round (of_nat (n div 1000000000))) (f64_div (of_nat (n mod 1000000000)) 1000000000)"

section \<open>The error of an operation\<close>

lemma pow2_pos: "0 < pow2 e"
  by (simp add: pow2_def)

lemma pow2_add: "pow2 (a + b) = pow2 a * pow2 b"
proof -
  have "pow2 e = 2 powi e" for e by (simp add: pow2_def power_int_def power_divide inverse_eq_divide)
  then show ?thesis by (simp add: power_int_add)
qed

lemma round_even_error: "\<bar>of_int (round_even y) - y\<bar> \<le> 1 / 2"
proof -
  have "of_int \<lfloor>y\<rfloor> \<le> y" "y < of_int \<lfloor>y\<rfloor> + 1" by linarith+
  then show ?thesis by (auto simp: round_even_def Let_def abs_le_iff)
qed

lemma round_even_of_int: "round_even (of_int n) = n"
  by (simp add: round_even_def)

lemma binade_le:
  assumes "0 < x"
  shows "pow2 (binade x) \<le> x"
proof -
  obtain p q where pq: "quotient_of x = (p, q)" by fastforce
  have q: "0 < q" and x: "x = of_int p / of_int q" using quotient_of_denom_pos [OF pq] quotient_of_div [OF pq] by simp_all
  then have p: "0 < p" using assms by (simp add: zero_less_divide_iff)
  have a: "2 ^ nat (bitlen p - 1) \<le> p" and b: "q < 2 ^ nat (bitlen q)"
    using bitlen_bounds [OF p] bitlen_bounds [OF q] by blast+
  have "0 < bitlen p" using p by (auto simp: bitlen_alt_def)
  then have "pow2 (bitlen p - bitlen q - 1) = pow2 (bitlen p - 1) * pow2 (- bitlen q)"
    by (simp flip: pow2_add add: algebra_simps)
  also have "\<dots> = of_int (2 ^ nat (bitlen p - 1)) / of_int (2 ^ nat (bitlen q))"
    using \<open>0 < bitlen p\<close> bitlen_nonneg [of q] by (auto simp: pow2_def)
  also have "\<dots> \<le> of_int p / of_int q"
  proof (rule frac_le)
    show "rat_of_int (2 ^ nat (bitlen p - 1)) \<le> of_int p" using a unfolding of_int_le_iff .
    show "rat_of_int q \<le> of_int (2 ^ nat (bitlen q))" using b unfolding of_int_le_iff by simp
  qed (use p q in auto)
  finally show ?thesis unfolding x [symmetric] by (auto simp: binade_def pq Let_def)
qed

lemma f64_round_error:
  assumes "0 \<le> x"
  shows "\<bar>f64_round x - x\<bar> \<le> x / 2 ^ 53"
proof (cases "x = 0")
  case False
  define w where "w = pow2 (binade x - 52)"
  have w: "0 < w" "w \<le> x / 2 ^ 52"
    using binade_le [of x] assms False pow2_add [of "binade x" "- 52"] by (simp_all add: w_def pow2_pos) (simp add: pow2_def)
  have "f64_round x - x = (of_int (round_even (x / w)) - x / w) * w"
    using False w(1) by (simp add: f64_round_def w_def [symmetric] Let_def field_simps)
  then have "\<bar>f64_round x - x\<bar> = \<bar>of_int (round_even (x / w)) - x / w\<bar> * w" using w(1) by (simp add: abs_mult)
  also have "\<dots> \<le> 1 / 2 * w" using round_even_error w(1) by (intro mult_right_mono) auto
  finally show ?thesis using w(2) by simp
qed (simp add: f64_round_def)

text \<open>A whole number below \<open>2 ^ 53\<close> is represented exactly.\<close>

lemma f64_round_of_nat:
  assumes "n < 2 ^ 53"
  shows "f64_round (of_nat n) = of_nat n"
proof (cases "n = 0")
  case False
  define x where "x = rat_of_nat n"
  have x: "0 < x" "x < 2 ^ 53" using False assms by (simp_all add: x_def)
  have "binade x \<le> 52"
  proof (rule ccontr)
    assume "\<not> binade x \<le> 52"
    then have "(2 :: rat) ^ 53 \<le> 2 ^ nat (binade x)" by (intro power_increasing) auto
    also have "\<dots> = pow2 (binade x)" using \<open>\<not> binade x \<le> 52\<close> by (simp add: pow2_def)
    finally have "(2 :: rat) ^ 53 \<le> pow2 (binade x)" .
    with binade_le [OF x(1)] x(2) show False by simp
  qed
  define m where "m = nat (52 - binade x)"
  have w: "pow2 (binade x - 52) = 1 / 2 ^ m" using \<open>binade x \<le> 52\<close> by (auto simp: pow2_def m_def)
  have "x / pow2 (binade x - 52) = of_int (int n * 2 ^ m)" unfolding w by (simp add: x_def)
  then have "round_even (x / pow2 (binade x - 52)) = int n * 2 ^ m" using round_even_of_int by metis
  then have "f64_round x = x" using x(1) unfolding f64_round_def w Let_def by (simp add: x_def)
  then show ?thesis by (simp add: x_def)
qed (simp add: f64_round_def)

text \<open>
  What the users of the arithmetic rely on: a rounding whose error is at most the part \<open>u\<close> of
  the value.
\<close>

locale rounding =
  fixes fl :: "rat \<Rightarrow> rat" and u :: rat
  assumes u_pos: "0 \<le> u" and u_small: "u \<le> 1"
    and fl_error: "0 \<le> x \<Longrightarrow> \<bar>fl x - x\<bar> \<le> u * x"
begin

lemma fl_upper: "0 \<le> x \<Longrightarrow> fl x \<le> (1 + u) * x"
  using fl_error [of x] by (simp add: abs_le_iff algebra_simps)

lemma fl_lower: "0 \<le> x \<Longrightarrow> (1 - u) * x \<le> fl x"
  using fl_error [of x] by (simp add: abs_le_iff algebra_simps)

lemma fl_nonneg: "0 \<le> x \<Longrightarrow> 0 \<le> fl x"
  using fl_lower [of x] u_small by (meson diff_ge_0_iff_ge mult_nonneg_nonneg order_trans)

lemma fl_upper_chain: "0 \<le> x \<Longrightarrow> x \<le> (1 + u) ^ n * y \<Longrightarrow> fl x \<le> (1 + u) ^ Suc n * y"
  using order_trans [OF fl_upper mult_left_mono [of x "(1 + u) ^ n * y" "1 + u"]] u_pos by (simp add: mult.assoc)

lemma fl_lower_chain: "0 \<le> x \<Longrightarrow> (1 - u) ^ n * y \<le> x \<Longrightarrow> (1 - u) ^ Suc n * y \<le> fl x"
  using order_trans [OF mult_left_mono [of "(1 - u) ^ n * y" x "1 - u"] fl_lower] u_small by (simp add: mult.assoc)

end

definition f64_unit :: rat where "f64_unit = 1 / 2 ^ 53"

interpretation f64: rounding f64_round f64_unit
proof
  show "0 \<le> f64_unit" "f64_unit \<le> 1" by (simp_all add: f64_unit_def)
  show "\<bar>f64_round x - x\<bar> \<le> f64_unit * x" if "0 \<le> x" for x
    using f64_round_error [OF that] by (simp add: f64_unit_def)
qed

lemma as_secs_f64_bounds:
  shows "0 \<le> as_secs_f64 n"
    and "as_secs_f64 n \<le> (1 + f64_unit) ^ 2 * (of_nat n / 1000000000)"
    and "(1 - f64_unit) ^ 2 * (of_nat n / 1000000000) \<le> as_secs_f64 n"
proof -
  let ?s = "rat_of_nat (n div 1000000000)" and ?r = "rat_of_nat (n mod 1000000000) / 1000000000"
  have "rat_of_nat n = rat_of_nat (n div 1000000000 * 1000000000 + n mod 1000000000)" by simp
  then have n: "of_nat n / 1000000000 = ?s + ?r" unfolding of_nat_add of_nat_mult by (simp add: add_divide_distrib)
  have nonneg: "0 \<le> f64_round ?s" "0 \<le> f64_round ?r" by (simp_all add: f64.fl_nonneg)
  have "f64_round ?s + f64_round ?r \<le> (1 + f64_unit) ^ 1 * (?s + ?r)"
    using f64.fl_upper [of ?s] f64.fl_upper [of ?r] by (simp add: distrib_left)
  from f64.fl_upper_chain [OF _ this] nonneg
  show "as_secs_f64 n \<le> (1 + f64_unit) ^ 2 * (of_nat n / 1000000000)"
    unfolding as_secs_f64_def f64_add_def f64_div_def n by (simp add: numeral_2_eq_2)
  have "(1 - f64_unit) ^ 1 * (?s + ?r) \<le> f64_round ?s + f64_round ?r"
    using f64.fl_lower [of ?s] f64.fl_lower [of ?r] by (simp add: distrib_left)
  from f64.fl_lower_chain [OF _ this] nonneg
  show "(1 - f64_unit) ^ 2 * (of_nat n / 1000000000) \<le> as_secs_f64 n"
    unfolding as_secs_f64_def f64_add_def f64_div_def n by (simp add: numeral_2_eq_2)
  show "0 \<le> as_secs_f64 n"
    unfolding as_secs_f64_def f64_add_def f64_div_def using nonneg by (intro f64.fl_nonneg) simp
qed

end
