(* ===== verification/Gate.thy ===== *)
theory Gate
  imports Float64 Net
begin

text \<open>
  Who may ask, and how fast: \<open>crates/dns/src/gate.rs\<close>. An \<open>Instant\<close> is a number of nanoseconds.
  The tokens of a bucket are an \<open>f64\<close>: each operation on them is rounded as in \<open>Float64\<close>. The
  counters wrap at 64 bits. The two claims on the rate limit are about the whole gate, over
  queries of all clients, sweeps and changes of the access lists: a client never gets more
  than its limit allows, up to the rounding, and one that keeps to the limit is not refused.
\<close>

section \<open>The gate\<close>

datatype Verdict = Pass | Drop | Refuse

record Acl =
  acl_allowed :: "IpNetwork list"
  acl_denied :: "IpNetwork list"

record Bucket =
  tokens :: rat
  bucket_at :: nat
  warned :: "nat option"

definition WARN_EVERY :: nat where "WARN_EVERY = 60 * 1000000000"

record ClientGate =
  has_acl :: bool
  acl :: Acl
  per_minute :: u32
  buckets :: "IpAddr \<rightharpoonup> Bucket"
  refused_count :: u64
  dropped_count :: u64

definition set_acl :: "ClientGate \<Rightarrow> string list \<Rightarrow> string list \<Rightarrow> ClientGate" where
  "set_acl g allowed denied =
     (let a = \<lparr>acl_allowed = List.map_filter network_parse allowed, acl_denied = List.map_filter network_parse denied\<rparr>;
          any = (acl_allowed a \<noteq> [] \<or> acl_denied a \<noteq> []) in
      g\<lparr>acl := a, has_acl := any\<rparr>)"

definition gate_new :: "u32 \<Rightarrow> string list \<Rightarrow> string list \<Rightarrow> ClientGate" where
  "gate_new rate_limit allowed denied =
     set_acl \<lparr>has_acl = False, acl = \<lparr>acl_allowed = [], acl_denied = []\<rparr>, per_minute = rate_limit,
       buckets = Map.empty, refused_count = 0, dropped_count = 0\<rparr> allowed denied"

definition set_rate_limit :: "ClientGate \<Rightarrow> u32 \<Rightarrow> ClientGate" where
  "set_rate_limit g n = g\<lparr>per_minute := n, buckets := Map.empty\<rparr>"

definition admits :: "ClientGate \<Rightarrow> IpAddr \<Rightarrow> bool" where
  "admits g ip =
     (if list_ex (\<lambda>n. network_contains n ip) (acl_denied (acl g)) then False
      else acl_allowed (acl g) = [] \<or> list_ex (\<lambda>n. network_contains n ip) (acl_allowed (acl g)))"

definition f64_from :: "u32 \<Rightarrow> rat" where
  "f64_from n = rat_of_nat (unat n)"

definition take_bucket :: "Bucket \<Rightarrow> rat \<Rightarrow> nat \<Rightarrow> bool \<times> Bucket" where
  "take_bucket b capacity now =
     (let elapsed = as_secs_f64 (now - bucket_at b);
          b = b\<lparr>tokens := min (f64_add (tokens b) (f64_div (f64_mul elapsed capacity) 60)) capacity, bucket_at := now\<rparr> in
      if tokens b \<ge> 1 then (True, b\<lparr>tokens := f64_sub (tokens b) 1\<rparr>)
      else (False, if (case warned b of None \<Rightarrow> True | Some w \<Rightarrow> now - w \<ge> WARN_EVERY) then b\<lparr>warned := Some now\<rparr> else b))"

definition gate_take :: "ClientGate \<Rightarrow> IpAddr \<Rightarrow> u32 \<Rightarrow> nat \<Rightarrow> bool \<times> ClientGate" where
  "gate_take g ip limit now =
     (let capacity = f64_from limit;
          b = (case buckets g ip of Some b \<Rightarrow> b | None \<Rightarrow> \<lparr>tokens = capacity, bucket_at = now, warned = None\<rparr>);
          (ok, b) = take_bucket b capacity now in
      (ok, g\<lparr>buckets := (buckets g)(ip \<mapsto> b)\<rparr>))"

definition is_loopback :: "IpAddr \<Rightarrow> bool" where
  "is_loopback ip = (case ip of V4 a \<Rightarrow> unat a div 16777216 = 127 | V6 a \<Rightarrow> a = 1)"

definition check :: "ClientGate \<Rightarrow> IpAddr \<Rightarrow> nat \<Rightarrow> Verdict \<times> ClientGate" where
  "check g raw_ip now =
     (let ip = unmap_v4 raw_ip in
      if is_loopback ip then (Pass, g)
      else if has_acl g \<and> \<not> admits g ip then (Drop, g\<lparr>dropped_count := dropped_count g + 1\<rparr>)
      else
        (let limit = per_minute g in
         if limit > 0 then
           (case gate_take g ip limit now of
              (True, g) \<Rightarrow> (Pass, g)
            | (False, g) \<Rightarrow> (Refuse, g\<lparr>refused_count := refused_count g + 1\<rparr>))
         else (Pass, g)))"

definition sweep :: "ClientGate \<Rightarrow> nat \<Rightarrow> ClientGate" where
  "sweep g now =
     (if per_minute g = 0 then g\<lparr>buckets := Map.empty\<rparr>
      else g\<lparr>buckets := (\<lambda>ip. case buckets g ip of
        Some b \<Rightarrow> if now - bucket_at b < 60 * 1000000000 then Some b else None | None \<Rightarrow> None)\<rparr>)"

section \<open>One bucket\<close>

text \<open>A bucket as the gate finds it: the one kept, or a full one.\<close>

definition bucket_of :: "ClientGate \<Rightarrow> IpAddr \<Rightarrow> u32 \<Rightarrow> nat \<Rightarrow> Bucket" where
  "bucket_of g ip limit now = (case buckets g ip of Some b \<Rightarrow> b
     | None \<Rightarrow> \<lparr>tokens = f64_from limit, bucket_at = now, warned = None\<rparr>)"

definition bucket_ok :: "u32 \<Rightarrow> Bucket \<Rightarrow> bool" where
  "bucket_ok limit b \<longleftrightarrow> 0 \<le> tokens b \<and> tokens b \<le> f64_from limit"

text \<open>What a duration in nanoseconds refills, computed exactly and as the code computes it.\<close>

definition gained :: "u32 \<Rightarrow> nat \<Rightarrow> rat" where
  "gained limit d = rat_of_nat d / 1000000000 * f64_from limit / 60"

definition refill :: "u32 \<Rightarrow> nat \<Rightarrow> rat" where
  "refill limit d = f64_div (f64_mul (as_secs_f64 d) (f64_from limit)) 60"

lemma f64_from_bounds: "0 \<le> f64_from limit" "f64_from limit \<le> 4294967295" "1 \<le> limit \<Longrightarrow> 1 \<le> f64_from limit"
proof -
  have "unat limit \<le> 4294967295" using unat_u32_less [of limit] by simp
  then show "f64_from limit \<le> 4294967295"
    unfolding f64_from_def by (metis of_nat_le_iff of_nat_numeral)
qed (simp_all add: f64_from_def word_le_nat_alt del: of_nat_unat)

lemma gained_nonneg: "0 \<le> gained limit d"
  by (simp add: gained_def f64_from_bounds)

lemma gained_add: "gained limit (a + b) = gained limit a + gained limit b"
  by (simp add: gained_def field_simps)

lemma gained_minute: "60 * 1000000000 \<le> d \<Longrightarrow> f64_from limit \<le> gained limit d"
proof -
  assume "60 * 1000000000 \<le> d"
  then have "rat_of_nat (60 * 1000000000) \<le> rat_of_nat d" unfolding of_nat_le_iff .
  then have "1 \<le> rat_of_nat d / 1000000000 / 60" by simp
  from mult_right_mono [OF this f64_from_bounds(1) [of limit]] show ?thesis by (simp add: gained_def)
qed

lemma refill_bounds:
  shows "0 \<le> refill limit d" and "refill limit d \<le> (1 + f64_unit) ^ 4 * gained limit d"
    and "(1 - f64_unit) ^ 4 * gained limit d \<le> refill limit d"
proof -
  let ?c = "f64_from limit" and ?s = "rat_of_nat d / 1000000000"
  note s = as_secs_f64_bounds [of d] and c = f64_from_bounds(1) [of limit]
  have nonneg: "0 \<le> as_secs_f64 d * ?c" using s(1) c by simp
  then have nonneg': "0 \<le> f64_mul (as_secs_f64 d) ?c / 60" unfolding f64_mul_def by (simp add: f64.fl_nonneg)
  show "0 \<le> refill limit d" unfolding refill_def f64_div_def using nonneg' by (rule f64.fl_nonneg)
  have "as_secs_f64 d * ?c \<le> (1 + f64_unit) ^ 2 * (?s * ?c)"
    using mult_right_mono [OF s(2) c] by (simp only: mult.assoc)
  from f64.fl_upper_chain [OF nonneg this] have "f64_mul (as_secs_f64 d) ?c \<le> (1 + f64_unit) ^ 3 * (?s * ?c)"
    by (simp add: f64_mul_def)
  from divide_right_mono [OF this, of 60] have "f64_mul (as_secs_f64 d) ?c / 60 \<le> (1 + f64_unit) ^ 3 * gained limit d"
    by (simp add: gained_def)
  from f64.fl_upper_chain [OF nonneg' this] show "refill limit d \<le> (1 + f64_unit) ^ 4 * gained limit d"
    by (simp add: refill_def f64_div_def)
  have "(1 - f64_unit) ^ 2 * (?s * ?c) \<le> as_secs_f64 d * ?c"
    using mult_right_mono [OF s(3) c] by (simp only: mult.assoc)
  from f64.fl_lower_chain [OF nonneg this] have "(1 - f64_unit) ^ 3 * (?s * ?c) \<le> f64_mul (as_secs_f64 d) ?c"
    by (simp add: f64_mul_def)
  from divide_right_mono [OF this, of 60] have "(1 - f64_unit) ^ 3 * gained limit d \<le> f64_mul (as_secs_f64 d) ?c / 60"
    by (simp add: gained_def)
  from f64.fl_lower_chain [OF nonneg' this] show "(1 - f64_unit) ^ 4 * gained limit d \<le> refill limit d"
    by (simp add: refill_def f64_div_def)
qed

text \<open>The tokens a query finds, and what is left of them.\<close>

definition level :: "u32 \<Rightarrow> Bucket \<Rightarrow> nat \<Rightarrow> rat" where
  "level limit b now = min (f64_add (tokens b) (refill limit (now - bucket_at b))) (f64_from limit)"

lemma take_bucket_level:
  assumes "take_bucket b (f64_from limit) now = (ok, b')"
  shows "ok \<longleftrightarrow> 1 \<le> level limit b now" and "bucket_at b' = now"
    and "tokens b' = (if ok then f64_sub (level limit b now) 1 else level limit b now)"
  using assms by (auto simp: take_bucket_def level_def refill_def Let_def split: if_splits option.splits)

text \<open>Five roundings of what is gained, and two of the tokens.\<close>

abbreviation slack :: rat where "slack \<equiv> 1 + 6 * f64_unit"
abbreviation drift :: "u32 \<Rightarrow> rat" where "drift limit \<equiv> 2 * f64_unit * f64_from limit"

lemma f64_unit_bounds:
  "0 < f64_unit" "(1 + f64_unit) ^ 5 \<le> slack" "1 \<le> (1 - f64_unit) ^ 5 * (1 + 1 / 2 ^ 50)" "4294967295 * f64_unit \<le> 1"
  by (simp_all add: f64_unit_def power_divide)

lemma level_bounds:
  assumes "bucket_ok limit b"
  shows "0 \<le> level limit b now" and "level limit b now \<le> f64_from limit"
    and "level limit b now \<le> tokens b + slack * gained limit (now - bucket_at b) + f64_unit * f64_from limit"
    and "min ((1 - f64_unit) ^ 5 * gained limit (now - bucket_at b)) (f64_from limit) \<le> level limit b now"
proof -
  let ?g = "gained limit (now - bucket_at b)" and ?r = "refill limit (now - bucket_at b)"
  note r = refill_bounds [of limit "now - bucket_at b"]
  have t: "0 \<le> tokens b" "tokens b \<le> f64_from limit" using assms by (simp_all add: bucket_ok_def)
  show "0 \<le> level limit b now" "level limit b now \<le> f64_from limit"
    using t r(1) f64_from_bounds(1) [of limit] by (simp_all add: level_def f64_add_def f64.fl_nonneg)
  have "f64_round (tokens b + ?r) \<le> (1 + f64_unit) * (tokens b + (1 + f64_unit) ^ 4 * ?g)"
    using order_trans [OF f64.fl_upper [of "tokens b + ?r"] mult_left_mono] t(1) r(1,2) f64.u_pos by simp
  also have "\<dots> = tokens b + f64_unit * tokens b + (1 + f64_unit) ^ 5 * ?g" by (simp add: eval_nat_numeral algebra_simps)
  also have "\<dots> \<le> tokens b + f64_unit * f64_from limit + slack * ?g"
    using t(2) f64.u_pos mult_right_mono [OF f64_unit_bounds(2) gained_nonneg] by (intro add_mono mult_left_mono) auto
  finally show "level limit b now \<le> tokens b + slack * ?g + f64_unit * f64_from limit"
    by (simp add: level_def f64_add_def)
  have "(1 - f64_unit) ^ 4 * ?g \<le> tokens b + ?r" using t(1) r(3) by simp
  from f64.fl_lower_chain [OF _ this] have "(1 - f64_unit) ^ 5 * ?g \<le> f64_round (tokens b + ?r)"
    using t(1) r(1) by (simp add: eval_nat_numeral)
  then show "min ((1 - f64_unit) ^ 5 * ?g) (f64_from limit) \<le> level limit b now"
    by (simp add: level_def f64_add_def min_le_iff_disj)
qed

lemma take_bucket_ok:
  assumes "bucket_ok limit b" and "take_bucket b (f64_from limit) now = (ok, b')"
  shows "bucket_ok limit b'"
    and "tokens b' + (if ok then 1 else 0) \<le>
      min (tokens b + slack * gained limit (now - bucket_at b)) (f64_from limit) + drift limit"
proof -
  let ?h = "level limit b now"
  note h = level_bounds [OF assms(1), of now] and t = take_bucket_level [OF assms(2)]
  have u: "f64_unit * f64_from limit \<le> 1"
    using mult_left_mono [OF f64_from_bounds(2) [of limit] f64.u_pos] f64_unit_bounds(4) by (simp add: mult.commute)
  have spent: "0 \<le> f64_sub ?h 1" "f64_sub ?h 1 \<le> ?h - 1 + f64_unit * f64_from limit" if "1 \<le> ?h"
  proof -
    show "0 \<le> f64_sub ?h 1" using that by (simp add: f64_sub_def f64.fl_nonneg)
    have "f64_sub ?h 1 \<le> ?h - 1 + f64_unit * (?h - 1)"
      using f64.fl_upper [of "?h - 1"] that by (simp add: f64_sub_def algebra_simps)
    also have "f64_unit * (?h - 1) \<le> f64_unit * f64_from limit" using h(2) f64.u_pos by (intro mult_left_mono) auto
    finally show "f64_sub ?h 1 \<le> ?h - 1 + f64_unit * f64_from limit" by simp
  qed
  show "bucket_ok limit b'" using t(1,3) h(1,2) spent u by (auto simp: bucket_ok_def)
  have "0 \<le> f64_unit * f64_from limit" using f64.u_pos f64_from_bounds(1) [of limit] by simp
  then have "?h \<le> min (tokens b + slack * gained limit (now - bucket_at b)) (f64_from limit) + f64_unit * f64_from limit"
    using h(2,3) by (simp add: min_def)
  moreover have "tokens b' + (if ok then 1 else 0) \<le> ?h + f64_unit * f64_from limit"
    using t(1,3) spent(2) \<open>0 \<le> f64_unit * f64_from limit\<close> by auto
  ultimately show "tokens b' + (if ok then 1 else 0) \<le>
      min (tokens b + slack * gained limit (now - bucket_at b)) (f64_from limit) + drift limit"
    by simp
qed

section \<open>Runs of the gate\<close>

datatype gate_event =
    Ask IpAddr nat
  | Sweep nat
  | Set_Acl "string list" "string list"
  | Set_Rate u32

fun verdicts :: "ClientGate \<Rightarrow> gate_event list \<Rightarrow> (IpAddr \<times> Verdict) list" where
  "verdicts g [] = []"
| "verdicts g (Ask raw t # es) = (case check g raw t of (v, g') \<Rightarrow> (unmap_v4 raw, v) # verdicts g' es)"
| "verdicts g (Sweep t # es) = verdicts (sweep g t) es"
| "verdicts g (Set_Acl allowed denied # es) = verdicts (set_acl g allowed denied) es"
| "verdicts g (Set_Rate n # es) = verdicts (set_rate_limit g n) es"

fun gate_step :: "ClientGate \<Rightarrow> gate_event \<Rightarrow> ClientGate" where
  "gate_step g (Ask raw t) = snd (check g raw t)"
| "gate_step g (Sweep t) = sweep g t"
| "gate_step g (Set_Acl allowed denied) = set_acl g allowed denied"
| "gate_step g (Set_Rate n) = set_rate_limit g n"

fun keeps_rate :: "gate_event \<Rightarrow> bool" where
  "keeps_rate (Set_Rate n) = False"
| "keeps_rate e = True"

fun event_times :: "gate_event list \<Rightarrow> nat list" where
  "event_times [] = []"
| "event_times (Ask raw t # es) = t # event_times es"
| "event_times (Sweep t # es) = t # event_times es"
| "event_times (Set_Acl allowed denied # es) = event_times es"
| "event_times (Set_Rate n # es) = event_times es"

text \<open>The times of one client's queries; an IPv4 address may come in its IPv6 form.\<close>

fun asked :: "IpAddr \<Rightarrow> gate_event list \<Rightarrow> nat list" where
  "asked c [] = []"
| "asked c (Ask raw t # es) = (if unmap_v4 raw = c then t # asked c es else asked c es)"
| "asked c (Sweep t # es) = asked c es"
| "asked c (Set_Acl allowed denied # es) = asked c es"
| "asked c (Set_Rate n # es) = asked c es"

lemma check_other: "check g raw t = (v, g') \<Longrightarrow> unmap_v4 raw \<noteq> c \<Longrightarrow> buckets g' c = buckets g c"
  by (auto simp: check_def gate_take_def Let_def split: if_splits prod.splits bool.splits)

lemma check_limit: "check g raw t = (v, g') \<Longrightarrow> per_minute g' = per_minute g"
  by (auto simp: check_def gate_take_def Let_def split: if_splits prod.splits bool.splits)

lemma check_client:
  assumes "check g raw t = (v, g')" and "\<not> is_loopback (unmap_v4 raw)" and "0 < per_minute g"
  obtains (dropped) "v = Drop" "buckets g' (unmap_v4 raw) = buckets g (unmap_v4 raw)"
    | (asked) ok b' where "take_bucket (bucket_of g (unmap_v4 raw) (per_minute g) t) (f64_from (per_minute g)) t = (ok, b')"
        "v = (if ok then Pass else Refuse)" "buckets g' (unmap_v4 raw) = Some b'"
  using assms by (auto simp: check_def gate_take_def bucket_of_def Let_def split: if_splits prod.splits bool.splits)

definition client_bucket_ok :: "IpAddr \<Rightarrow> ClientGate \<Rightarrow> bool" where
  "client_bucket_ok c g \<longleftrightarrow> (\<forall>b. buckets g c = Some b \<longrightarrow> bucket_ok (per_minute g) b)"

lemma bucket_of_ok: "client_bucket_ok c g \<Longrightarrow> bucket_ok (per_minute g) (bucket_of g c (per_minute g) t)"
  by (auto simp: client_bucket_ok_def bucket_of_def bucket_ok_def f64_from_bounds split: option.split)

lemma check_idle: "check g raw t = (v, g') \<Longrightarrow> is_loopback (unmap_v4 raw) \<or> per_minute g = 0 \<Longrightarrow> buckets g' = buckets g"
  by (auto simp: check_def Let_def split: if_splits)

lemma check_untouched:
  assumes "check g raw t = (v, g')" and "\<not> (unmap_v4 raw = c \<and> \<not> is_loopback c \<and> 0 < per_minute g)"
  shows "buckets g' c = buckets g c"
  using assms(2) check_other [OF assms(1), of c] check_idle [OF assms(1)]
  by (cases "unmap_v4 raw = c") (auto simp: word_gt_0)

lemma check_client_ok:
  assumes "client_bucket_ok c g" and "check g raw t = (v, g')"
  shows "client_bucket_ok c g'"
proof (cases "unmap_v4 raw = c \<and> \<not> is_loopback c \<and> 0 < per_minute g")
  case True
  then have "\<not> is_loopback (unmap_v4 raw)" "0 < per_minute g" by simp_all
  with assms(2) show ?thesis
  proof (cases rule: check_client)
    case (asked ok b')
    then show ?thesis
      using take_bucket_ok(1) [OF bucket_of_ok [OF assms(1)]] check_limit [OF assms(2)] True by (auto simp: client_bucket_ok_def)
  qed (use assms(1) check_limit [OF assms(2)] True in \<open>auto simp: client_bucket_ok_def\<close>)
next
  case False
  then have "buckets g' c = buckets g c" by (rule check_untouched [OF assms(2)])
  with assms(1) check_limit [OF assms(2)] show ?thesis by (simp add: client_bucket_ok_def)
qed

lemma sweep_client:
  assumes "0 < per_minute g"
  shows "per_minute (sweep g t) = per_minute g"
    and "buckets (sweep g t) c = (case buckets g c of None \<Rightarrow> None
      | Some b \<Rightarrow> if t - bucket_at b < 60 * 1000000000 then Some b else None)"
  using assms by (simp_all add: sweep_def word_gt_0 split: option.split)

lemma set_acl_client: "per_minute (set_acl g al dn) = per_minute g" "buckets (set_acl g al dn) c = buckets g c"
  by (simp_all add: set_acl_def Let_def)

section \<open>No client gets more\<close>

text \<open>
  What a client can be granted at most from the bucket it has, at a time: its tokens and what
  has been gained since, with the slack of the rounding, up to the capacity.
\<close>

definition credit :: "ClientGate \<Rightarrow> IpAddr \<Rightarrow> nat \<Rightarrow> rat" where
  "credit g c now = (case buckets g c of None \<Rightarrow> f64_from (per_minute g)
     | Some b \<Rightarrow> min (tokens b + slack * gained (per_minute g) (now - bucket_at b)) (f64_from (per_minute g)))"

definition granted :: "IpAddr \<Rightarrow> (IpAddr \<times> Verdict) list \<Rightarrow> nat" where
  "granted c vs = length (filter (\<lambda>v. v = (c, Pass)) vs)"

definition touched_by :: "IpAddr \<Rightarrow> ClientGate \<Rightarrow> nat \<Rightarrow> bool" where
  "touched_by c g now \<longleftrightarrow> (\<forall>b. buckets g c = Some b \<longrightarrow> bucket_at b \<le> now)"

lemma credit_later:
  assumes "touched_by c g now" and "now \<le> t"
  shows "credit g c t \<le> credit g c now + slack * gained (per_minute g) (t - now)"
proof (cases "buckets g c")
  case None
  then show ?thesis using gained_nonneg [of "per_minute g"] f64.u_pos by (simp add: credit_def)
next
  case (Some b)
  then have "t - bucket_at b = (now - bucket_at b) + (t - now)" using assms by (simp add: touched_by_def)
  then have eq: "tokens b + slack * gained (per_minute g) (t - bucket_at b) =
      tokens b + slack * gained (per_minute g) (now - bucket_at b) + slack * gained (per_minute g) (t - now)"
    by (simp add: gained_add distrib_left)
  have "0 \<le> slack * gained (per_minute g) (t - now)" using gained_nonneg f64.u_pos by simp
  then have "min (x + slack * gained (per_minute g) (t - now)) l \<le> min x l + slack * gained (per_minute g) (t - now)" for x l
    unfolding min_def by simp
  then show ?thesis using Some unfolding credit_def by (simp only: option.case eq)
qed

lemma credit_check:
  assumes "client_bucket_ok c g" and "touched_by c g t" and "check g raw t = (v, g')" and "\<not> is_loopback c" and "0 < per_minute g"
    and "unmap_v4 raw = c"
  shows "credit g' c t + (if v = Pass then 1 else 0) \<le> credit g c t + drift (per_minute g)" and "touched_by c g' t"
proof -
  have drift: "0 \<le> drift (per_minute g)" using f64.u_pos f64_from_bounds(1) [of "per_minute g"] by simp
  note lim = check_limit [OF assms(3)]
  from assms(3) assms(4) [folded assms(6)] assms(5)
  have "credit g' c t + (if v = Pass then 1 else 0) \<le> credit g c t + drift (per_minute g) \<and> touched_by c g' t"
  proof (cases rule: check_client)
    case dropped
    then show ?thesis using drift assms(2,6) lim by (simp add: credit_def touched_by_def split: option.split)
  next
    case (asked ok b')
    let ?b = "bucket_of g c (per_minute g) t"
    have "tokens b' + (if ok then 1 else 0) \<le>
        min (tokens ?b + slack * gained (per_minute g) (t - bucket_at ?b)) (f64_from (per_minute g)) + drift (per_minute g)"
      using asked(1) assms(6) by (intro take_bucket_ok(2) [OF bucket_of_ok [OF assms(1)]]) simp
    moreover have "min (tokens ?b + slack * gained (per_minute g) (t - bucket_at ?b)) (f64_from (per_minute g)) = credit g c t"
      by (simp add: bucket_of_def credit_def gained_def split: option.split)
    moreover have "bucket_at b' = t" by (rule take_bucket_level(2) [OF asked(1)])
    ultimately show ?thesis
      using asked(2,3) assms(6) lim by (auto simp: credit_def touched_by_def gained_def split: if_splits)
  qed
  then show "credit g' c t + (if v = Pass then 1 else 0) \<le> credit g c t + drift (per_minute g)" and "touched_by c g' t" by blast+
qed

lemma credit_sweep:
  assumes "client_bucket_ok c g" and "touched_by c g t" and "0 < per_minute g"
  shows "credit (sweep g t) c t \<le> credit g c t" and "touched_by c (sweep g t) t" and "client_bucket_ok c (sweep g t)"
proof -
  show "touched_by c (sweep g t) t" "client_bucket_ok c (sweep g t)"
    using assms by (auto simp: touched_by_def client_bucket_ok_def sweep_client split: option.splits if_splits)
  have "f64_from (per_minute g) \<le> tokens b + slack * gained (per_minute g) (t - bucket_at b)"
    if "buckets g c = Some b" "\<not> t - bucket_at b < 60 * 1000000000" for b
  proof -
    let ?g = "gained (per_minute g) (t - bucket_at b)"
    have "f64_from (per_minute g) \<le> ?g" using that(2) by (intro gained_minute) simp
    also have "?g \<le> slack * ?g" using mult_right_mono [of 1 slack ?g] gained_nonneg f64.u_pos by simp
    finally show ?thesis using assms(1) that(1) by (simp add: client_bucket_ok_def bucket_ok_def)
  qed
  then show "credit (sweep g t) c t \<le> credit g c t"
    using assms(3) by (auto simp: credit_def sweep_client split: option.splits)
qed

lemma granted_run:
  assumes "client_bucket_ok c g" and "touched_by c g now" and "\<not> is_loopback c" and "0 < per_minute g"
    and "sorted (now # event_times es)" and "\<forall>t \<in> set (event_times es). t \<le> end" and "now \<le> end"
    and "list_all keeps_rate es"
  shows "of_nat (granted c (verdicts g es)) \<le>
    credit g c now + slack * gained (per_minute g) (end - now) + of_nat (length (asked c es)) * drift (per_minute g)"
  using assms
proof (induction es arbitrary: g now)
  case Nil
  have "0 \<le> credit g c now"
    using Nil.prems(1) gained_nonneg f64.u_pos f64_from_bounds(1)
    by (auto simp: credit_def client_bucket_ok_def bucket_ok_def split: option.split)
  then show ?case using gained_nonneg [of "per_minute g" "end - now"] f64.u_pos by (simp add: granted_def)
next
  case (Cons e es)
  show ?case
  proof (cases e)
    case (Ask raw t)
    obtain v g' where run: "check g raw t = (v, g')" by fastforce
    note lim = check_limit [OF run] and ok' = check_client_ok [OF Cons.prems(1) run]
    have t: "now \<le> t" "t \<le> end" "sorted (t # event_times es)" using Cons.prems(5,6) Ask by auto
    have touched: "touched_by c g t" using Cons.prems(2) t(1) by (auto simp: touched_by_def)
    have e: "slack * gained (per_minute g) (end - now) = slack * gained (per_minute g) (t - now) + slack * gained (per_minute g) (end - t)"
      using t(1,2) by (simp flip: gained_add distrib_left)
    note later = credit_later [OF Cons.prems(2) t(1)]
    have step: "touched_by c g' t \<and> credit g' c t + (if (unmap_v4 raw, v) = (c, Pass) then 1 else 0) \<le>
        credit g c t + (if unmap_v4 raw = c then drift (per_minute g) else 0)"
    proof (cases "unmap_v4 raw = c")
      case True
      then show ?thesis using credit_check [OF Cons.prems(1) touched run Cons.prems(3,4)] by simp
    next
      case False
      then show ?thesis using check_other [OF run] touched lim by (simp add: touched_by_def credit_def split: option.split)
    qed
    have "of_nat (granted c (verdicts g' es)) \<le>
        credit g' c t + slack * gained (per_minute g) (end - t) + of_nat (length (asked c es)) * drift (per_minute g)"
      using Cons.IH [OF ok', of t] step Cons.prems(3,4,6,8) Ask t lim by simp
    moreover have "granted c (verdicts g (e # es)) = granted c (verdicts g' es) + (if (unmap_v4 raw, v) = (c, Pass) then 1 else 0)"
      using Ask run by (simp add: granted_def)
    ultimately show ?thesis using step later e Ask by (auto simp: distrib_right split: if_splits)
  next
    case (Sweep t)
    have t: "now \<le> t" "t \<le> end" "sorted (t # event_times es)" using Cons.prems(5,6) Sweep by auto
    have touched: "touched_by c g t" using Cons.prems(2) t(1) by (auto simp: touched_by_def)
    have e: "slack * gained (per_minute g) (end - now) = slack * gained (per_minute g) (t - now) + slack * gained (per_minute g) (end - t)"
      using t(1,2) by (simp flip: gained_add distrib_left)
    note sw = credit_sweep [OF Cons.prems(1) touched Cons.prems(4)]
    show ?thesis
      using Cons.IH [OF sw(3,2) Cons.prems(3)] sw(1) credit_later [OF Cons.prems(2) t(1)] e Cons.prems(4,6,8) Sweep t sweep_client(1)
      by simp
  next
    case (Set_Acl al dn)
    have "client_bucket_ok c (set_acl g al dn)" "touched_by c (set_acl g al dn) now" "credit (set_acl g al dn) c now = credit g c now"
      using Cons.prems(1,2) by (simp_all add: client_bucket_ok_def touched_by_def credit_def set_acl_client split: option.split)
    then show ?thesis using Cons.IH [of "set_acl g al dn" now] Cons.prems(3-) Set_Acl by (simp add: set_acl_client)
  qed (use Cons.prems(8) in simp)
qed

text \<open>The states of a gate: every bucket holds at most the capacity and was touched in the past.\<close>

lemma gate_step_ok: "client_bucket_ok c g \<Longrightarrow> client_bucket_ok c (gate_step g e)"
proof (induction e)
  case (Ask raw t)
  then show ?case using check_client_ok [of c g raw t "fst (check g raw t)" "snd (check g raw t)"] by simp
qed (auto simp: client_bucket_ok_def sweep_def set_acl_client set_rate_limit_def split: if_splits option.splits)

lemma check_touched:
  assumes "touched_by c g t" and "check g raw t = (v, g')"
  shows "touched_by c g' t"
proof (cases "unmap_v4 raw = c \<and> \<not> is_loopback c \<and> 0 < per_minute g")
  case True
  then have "\<not> is_loopback (unmap_v4 raw)" "0 < per_minute g" by simp_all
  with assms(2) show ?thesis
  proof (cases rule: check_client)
    case (asked ok b')
    then show ?thesis using take_bucket_level(2) [OF asked(1)] True by (auto simp: touched_by_def)
  qed (use assms(1) True in \<open>auto simp: touched_by_def\<close>)
next
  case False
  then have "buckets g' c = buckets g c" by (rule check_untouched [OF assms(2)])
  with assms(1) show ?thesis by (simp add: touched_by_def)
qed

lemma gate_run_touched:
  assumes "touched_by c g now" and "sorted (now # event_times es)" and "\<forall>t \<in> set (event_times es). t \<le> end" and "now \<le> end"
  shows "touched_by c (foldl gate_step g es) end"
  using assms
proof (induction es arbitrary: g now)
  case (Cons e es)
  have mono: "touched_by c g now \<Longrightarrow> now \<le> t \<Longrightarrow> touched_by c g t" for g t by (auto simp: touched_by_def)
  show ?case
  proof (cases e)
    case (Ask raw t)
    then have "touched_by c (gate_step g e) t"
      using check_touched [of c g t raw "fst (check g raw t)" "snd (check g raw t)"] Cons.prems(1,2) mono by simp
    then show ?thesis using Cons.IH [of _ t] Cons.prems Ask by simp
  next
    case (Sweep t)
    then have "touched_by c (gate_step g e) t"
      using Cons.prems(1,2) mono [of g t] by (auto simp: touched_by_def sweep_def split: if_splits option.splits)
    then show ?thesis using Cons.IH [of _ t] Cons.prems Sweep by simp
  next
    case (Set_Acl al dn)
    then have "touched_by c (gate_step g e) now" using Cons.prems(1) by (simp add: touched_by_def set_acl_client)
    then show ?thesis using Cons.IH [of _ now] Cons.prems Set_Acl by simp
  next
    case (Set_Rate n)
    then have "touched_by c (gate_step g e) now" by (simp add: touched_by_def set_rate_limit_def)
    then show ?thesis using Cons.IH [of _ now] Cons.prems Set_Rate by simp
  qed
qed (auto simp: touched_by_def)

interpretation gate_machine: state_machine gate_step "client_bucket_ok c" for c
  by unfold_locales (rule gate_step_ok)

text \<open>
  C16. Take a gate after any queries, sweeps and changes of its settings, and then a period in
  which the limit stays, with queries of any clients, sweeps and changes of the access lists,
  at times that do not go back. In this period a client other than the box itself gets at most
  a minute's allowance plus what the period refills, \<open>limit + limit * seconds / 60\<close> answers, but
  for the rounding of the floating-point tokens. The rounding adds at most six parts in \<open>2 ^ 53\<close>
  of what is refilled, and for each query of the client two parts in \<open>2 ^ 53\<close> of the limit.
\<close>

theorem rate_limit_bound:
  assumes "g = foldl gate_step (gate_new n allowed denied) earlier" and "0 < per_minute g" and "\<not> is_loopback c"
    and "sorted (event_times earlier)" and "\<forall>t \<in> set (event_times earlier). t \<le> start"
    and "list_all keeps_rate es" and "sorted (event_times es)"
    and "\<forall>t \<in> set (event_times es). start \<le> t \<and> t \<le> end" and "start \<le> end"
  defines "limit \<equiv> rat_of_nat (unat (per_minute g))"
  defines "refilled \<equiv> limit * (rat_of_nat (end - start) / 1000000000) / 60"
  shows "rat_of_nat (granted c (verdicts g es)) \<le> limit + refilled +
    (6 * refilled + 2 * limit * rat_of_nat (length (asked c es))) / 2 ^ 53"
proof -
  have new: "buckets (gate_new n allowed denied) c = None" by (simp add: gate_new_def set_acl_client)
  then have "client_bucket_ok c g"
    unfolding assms(1) by (intro gate_machine.run_inv) (simp add: client_bucket_ok_def)
  moreover have "touched_by c g start"
    unfolding assms(1) using new assms(4,5) by (intro gate_run_touched [where now = 0]) (simp_all add: touched_by_def)
  moreover have "credit g c start \<le> limit" by (simp add: credit_def f64_from_def limit_def split: option.split)
  moreover have "gained (per_minute g) (end - start) = refilled" by (simp add: gained_def f64_from_def limit_def refilled_def)
  ultimately have "rat_of_nat (granted c (verdicts g es)) \<le>
      limit + slack * refilled + rat_of_nat (length (asked c es)) * drift (per_minute g)"
    using granted_run [of c g start es "end"] assms(2,3,6-9) by simp
  also have "drift (per_minute g) = 2 / 2 ^ 53 * limit" unfolding f64_unit_def f64_from_def limit_def by simp
  also have "limit + slack * refilled + rat_of_nat (length (asked c es)) * (2 / 2 ^ 53 * limit) =
      limit + refilled + (6 * refilled + 2 * limit * rat_of_nat (length (asked c es))) / 2 ^ 53"
    by (simp add: f64_unit_def field_simps)
  finally show ?thesis .
qed

text \<open>
  Two a minute, and an hour of silence after the first query: in the half minute that follows
  the client gets three answers at most. A sweep and another client change nothing.
\<close>

theorem rate_limit_bound_witness:
  "granted (V4 5) (verdicts (foldl gate_step (gate_new 2 [] []) [Ask (V4 5) 0])
     [Ask (V4 5) 3600000000000, Ask (V4 5) 3600000000000, Ask (V4 6) 3600000000000, Sweep 3600000000100, Ask (V4 5) 3630000000000]) \<le> 3"
proof -
  let ?es = "[Ask (V4 5) 3600000000000, Ask (V4 5) 3600000000000, Ask (V4 6) 3600000000000, Sweep 3600000000100, Ask (V4 5) 3630000000000]"
  let ?g = "foldl gate_step (gate_new 2 [] []) [Ask (V4 5) 0]"
  have "per_minute ?g = 2"
    using check_limit [of "gate_new 2 [] []" "V4 5" 0 "fst (check (gate_new 2 [] []) (V4 5) 0)" "snd (check (gate_new 2 [] []) (V4 5) 0)"]
    by (simp add: gate_new_def set_acl_def)
  moreover have "\<not> is_loopback (V4 5)" by (simp add: is_loopback_def)
  ultimately have "rat_of_nat (granted (V4 5) (verdicts ?g ?es)) < rat_of_nat 4"
    using rate_limit_bound [OF refl, of 2 "[]" "[]" "[Ask (V4 5) 0]" "V4 5" 3600000000000 ?es 3630000000000] by (simp add: unmap_v4_def)
  then show ?thesis unfolding of_nat_less_iff by simp
qed

section \<open>Who keeps to the limit\<close>

lemma spaced_check:
  assumes "client_bucket_ok c g" and "check g raw t = (v, g')" and "\<not> is_loopback c" and "0 < per_minute g" and "unmap_v4 raw = c"
    and "\<forall>b. buckets g c = Some b \<longrightarrow> 1 + 1 / 2 ^ 50 \<le> gained (per_minute g) (t - bucket_at b)"
  shows "v \<noteq> Refuse"
  using assms(2) assms(3) [folded assms(5)] assms(4)
proof (cases rule: check_client)
  case (asked ok b')
  let ?b = "bucket_of g c (per_minute g) t" and ?l = "f64_from (per_minute g)"
  have cap: "1 \<le> ?l" using assms(4) by (intro f64_from_bounds(3)) (simp add: word_le_nat_alt word_less_nat_alt)
  have "1 \<le> level (per_minute g) ?b t"
  proof (cases "buckets g c")
    case None
    then have b: "?b = \<lparr>tokens = ?l, bucket_at = t, warned = None\<rparr>" by (simp add: bucket_of_def)
    have "refill (per_minute g) 0 = 0" by (simp add: refill_def as_secs_f64_def f64_add_def f64_div_def f64_mul_def f64_round_def)
    then have "level (per_minute g) ?b t = min (f64_round ?l) ?l" by (simp add: b level_def f64_add_def)
    moreover have "f64_round ?l = ?l"
      unfolding f64_from_def by (rule f64_round_of_nat) (use unat_u32_less [of "per_minute g"] in simp)
    ultimately show ?thesis using cap by simp
  next
    case (Some b)
    then have "1 \<le> (1 - f64_unit) ^ 5 * gained (per_minute g) (t - bucket_at b)"
      using mult_left_mono [of "1 + 1 / 2 ^ 50" "gained (per_minute g) (t - bucket_at b)" "(1 - f64_unit) ^ 5"] assms(6) f64_unit_bounds(3) f64.u_small
      by (force intro: order_trans)
    then show ?thesis
      using level_bounds(4) [OF bucket_of_ok [OF assms(1)], of t t] Some cap by (simp add: bucket_of_def)
  qed
  then show ?thesis using take_bucket_level(1) [OF asked(1)] asked(2) assms(5) by simp
qed simp

text \<open>
  The distance of two queries of a client that keeps to the limit: what is refilled between
  them is a token, and one part in \<open>2 ^ 50\<close> more.
\<close>

definition spaced :: "u32 \<Rightarrow> nat \<Rightarrow> nat \<Rightarrow> bool" where
  "spaced limit s t \<longleftrightarrow> 60 * (1 + 1 / 2 ^ 50) \<le> rat_of_nat (t - s) / 1000000000 * rat_of_nat (unat limit)"

lemma spaced_gained: "spaced limit s t \<Longrightarrow> 1 + 1 / 2 ^ 50 \<le> gained limit (t - s)"
proof -
  assume "spaced limit s t"
  then have "60 * (1 + 1 / 2 ^ 50) / 60 \<le> rat_of_nat (t - s) / 1000000000 * rat_of_nat (unat limit) / 60"
    unfolding spaced_def by (rule divide_right_mono) simp
  moreover have "(60 :: rat) * (1 + 1 / 2 ^ 50) / 60 = 1 + 1 / 2 ^ 50" by simp
  ultimately show ?thesis unfolding gained_def f64_from_def by (simp only:)
qed

lemma spaced_run:
  assumes "client_bucket_ok c g" and "\<not> is_loopback c" and "0 < per_minute g"
    and "\<forall>b. buckets g c = Some b \<longrightarrow> (\<forall>t \<in> set (asked c es). spaced (per_minute g) (bucket_at b) t)"
    and "sorted_wrt (spaced (per_minute g)) (asked c es)" and "list_all keeps_rate es"
  shows "(c, Refuse) \<notin> set (verdicts g es)"
  using assms
proof (induction es arbitrary: g)
  case (Cons e es)
  show ?case
  proof (cases e)
    case (Ask raw t)
    obtain v g' where run: "check g raw t = (v, g')" by fastforce
    note lim = check_limit [OF run] and ok' = check_client_ok [OF Cons.prems(1) run]
    show ?thesis
    proof (cases "unmap_v4 raw = c")
      case True
      have "v \<noteq> Refuse"
        using Cons.prems(4) Ask True
        by (intro spaced_check [OF Cons.prems(1) run Cons.prems(2,3) True] allI impI spaced_gained) auto
      moreover have "\<forall>b. buckets g' c = Some b \<longrightarrow> (\<forall>t' \<in> set (asked c es). spaced (per_minute g) (bucket_at b) t')"
        using run Cons.prems(2) [folded True] Cons.prems(3)
      proof (cases rule: check_client)
        case (asked ok b')
        then show ?thesis using take_bucket_level(2) [OF asked(1)] Cons.prems(5) Ask True by simp
      qed (use Cons.prems(4) Ask True in auto)
      ultimately show ?thesis using Cons.IH [OF ok'] Cons.prems(2,3,5,6) lim run Ask True by simp
    next
      case False
      then show ?thesis using Cons.IH [OF ok'] Cons.prems(2-) lim run Ask check_other [OF run] by simp
    qed
  next
    case (Sweep t)
    have "client_bucket_ok c (sweep g t)" "\<forall>b. buckets (sweep g t) c = Some b \<longrightarrow> buckets g c = Some b"
      using Cons.prems(1,3) by (auto simp: client_bucket_ok_def sweep_client split: option.splits if_splits)
    then show ?thesis using Cons.IH [of "sweep g t"] Cons.prems(2-) Sweep by (simp add: sweep_client(1))
  next
    case (Set_Acl al dn)
    have "client_bucket_ok c (set_acl g al dn)" using Cons.prems(1) by (simp add: client_bucket_ok_def set_acl_client)
    then show ?thesis using Cons.IH [of "set_acl g al dn"] Cons.prems(2-) Set_Acl by (simp add: set_acl_client)
  qed (use Cons.prems(6) in simp)
qed simp

text \<open>
  C15. A client that keeps to the limit is never refused: from when it is first seen, or the
  limit was last set, with \<open>60 / limit\<close> seconds and one part in \<open>2 ^ 50\<close> of that between any two of its queries, none of
  them gets REFUSED, whatever the other clients ask and however often the table is swept.
\<close>

theorem spaced_client_served:
  assumes "buckets g c = None" and "\<not> is_loopback c" and "0 < per_minute g"
    and "sorted_wrt (spaced (per_minute g)) (asked c es)" and "list_all keeps_rate es"
  shows "(c, Refuse) \<notin> set (verdicts g es)"
  using spaced_run [of c g es] assms by (simp add: client_bucket_ok_def)

theorem spaced_client_served_witness:
  "(V4 5, Refuse) \<notin> set (verdicts (gate_new 60 [] []) [Ask (V4 5) 0, Ask (V4 6) 0, Sweep 5, Ask (V4 5) 1000000001])"
proof -
  let ?es = "[Ask (V4 5) 0, Ask (V4 6) 0, Sweep 5, Ask (V4 5) 1000000001]"
  have g: "buckets (gate_new 60 [] []) (V4 5) = None" "per_minute (gate_new 60 [] []) = 60" by (simp_all add: gate_new_def set_acl_def)
  show ?thesis
  proof (rule spaced_client_served [OF g(1)])
    show "\<not> is_loopback (V4 5)" "0 < per_minute (gate_new 60 [] [])" by (simp_all add: is_loopback_def g(2))
    show "sorted_wrt (spaced (per_minute (gate_new 60 [] []))) (asked (V4 5) ?es)"
      by (simp add: unmap_v4_def spaced_def g(2))
    show "list_all keeps_rate ?es" by simp
  qed
qed

end
