(* ===== verification/Custom.thy ===== *)
theory Custom
  imports Dns_Message Dns_Cache
begin

text \<open>
  Custom DNS records, \<open>crates/dns/src/custom.rs\<close>: the operator's records, those ferrite generates
  and the names of its DHCP leases, and the lookup among them. Upper-casing a record type is
  the ASCII mapping: no other character has an upper-case form made of the letters of the
  three types.
\<close>

section \<open>Records\<close>

definition TYPE_A :: u16 where "TYPE_A = 1"
definition TYPE_PTR :: u16 where "TYPE_PTR = 12"
definition TYPE_AAAA :: u16 where "TYPE_AAAA = 28"
definition TYPE_ANY :: u16 where "TYPE_ANY = 255"

lemmas type_defs = TYPE_A_def TYPE_PTR_def TYPE_AAAA_def TYPE_ANY_def TYPE_CNAME_def

record CustomRecordConfig =
  cfg_domain :: string
  cfg_type :: string
  cfg_value :: string
  cfg_ttl :: u32

record ('n, 'o) CustomRecord =
  cr_domain :: string
  cr_is_wildcard :: bool
  cr_wildcard_suffix :: string
  cr_type :: u16
  cr_rdata :: "('n, 'o) RData"
  cr_ttl :: u32

record ('n, 'o) CustomRecords =
  cust_records :: "('n, 'o) CustomRecord list"
  builtin_records :: "('n, 'o) CustomRecord list"
  lease_records :: "('n, 'o) CustomRecord list"

definition custom_new :: "('n, 'o) CustomRecords" where
  "custom_new = \<lparr>cust_records = [], builtin_records = [], lease_records = []\<rparr>"

definition custom_normalise :: "string \<Rightarrow> string" where
  "custom_normalise d = trim_end_char (\<lambda>c. c = CHR ''.'') (lowercase d)"

definition ascii_upper :: "char \<Rightarrow> char" where
  "ascii_upper c = (case map_of (zip ''abcdefghijklmnopqrstuvwxyz'' ''ABCDEFGHIJKLMNOPQRSTUVWXYZ'') c of
     Some u \<Rightarrow> u | None \<Rightarrow> c)"

datatype CustomError = UnsupportedType string | InvalidIpv4 string | InvalidIpv6 string | InvalidTarget string

definition ipv4_from_str :: "string \<Rightarrow> Ipv4Addr option" where
  "ipv4_from_str s = (case read_ipv4_addr s of Some (a, r) \<Rightarrow> if r = [] then Some a else None | None \<Rightarrow> None)"

definition ipv6_from_str :: "string \<Rightarrow> Ipv6Addr option" where
  "ipv6_from_str s = (case read_ipv6_addr s of Some (a, r) \<Rightarrow> if r = [] then Some a else None | None \<Rightarrow> None)"

definition parse_rdata :: "('n, 'e, 'o) hickory \<Rightarrow> CustomRecordConfig \<Rightarrow> CustomError + u16 \<times> ('n, 'o) RData" where
  "parse_rdata H cfg =
     (let ty = map ascii_upper (cfg_type cfg) in
      if ty = ''A'' then
        (case ipv4_from_str (cfg_value cfg) of Some a \<Rightarrow> Inr (TYPE_A, RD_A a) | None \<Rightarrow> Inl (InvalidIpv4 (cfg_value cfg)))
      else if ty = ''AAAA'' then
        (case ipv6_from_str (cfg_value cfg) of Some a \<Rightarrow> Inr (TYPE_AAAA, RD_AAAA a) | None \<Rightarrow> Inl (InvalidIpv6 (cfg_value cfg)))
      else if ty = ''CNAME'' then
        (case h_name H (cfg_value cfg) of Some n \<Rightarrow> Inr (TYPE_CNAME, RD_CNAME n) | None \<Rightarrow> Inl (InvalidTarget (cfg_value cfg)))
      else Inl (UnsupportedType ty))"

definition wildcard_of :: "string \<Rightarrow> bool \<times> string" where
  "wildcard_of domain = (case strip_prefix domain ''*.'' of Some rest \<Rightarrow> (True, CHR ''.'' # rest) | None \<Rightarrow> (False, []))"

definition parse_record :: "('n, 'e, 'o) hickory \<Rightarrow> CustomRecordConfig \<Rightarrow> CustomError + ('n, 'o) CustomRecord" where
  "parse_record H cfg =
     (let domain = custom_normalise (cfg_domain cfg) in
      case parse_rdata H cfg of
        Inl e \<Rightarrow> Inl e
      | Inr (ty, rd) \<Rightarrow> Inr \<lparr>cr_domain = domain, cr_is_wildcard = fst (wildcard_of domain),
          cr_wildcard_suffix = snd (wildcard_of domain), cr_type = ty, cr_rdata = rd, cr_ttl = cfg_ttl cfg\<rparr>)"

definition parsed :: "('n, 'e, 'o) hickory \<Rightarrow> CustomRecordConfig list \<Rightarrow> ('n, 'o) CustomRecord list" where
  "parsed H cfgs = List.map_filter (\<lambda>cfg. case parse_record H cfg of Inr r \<Rightarrow> Some r | Inl _ \<Rightarrow> None) cfgs"

section \<open>Changes\<close>

definition load_from_config :: "('n, 'e, 'o) hickory \<Rightarrow> ('n, 'o) CustomRecords \<Rightarrow> CustomRecordConfig list \<Rightarrow> ('n, 'o) CustomRecords" where
  "load_from_config H c cfgs = c\<lparr>cust_records := cust_records c @ parsed H cfgs\<rparr>"

definition load_builtin :: "('n, 'e, 'o) hickory \<Rightarrow> ('n, 'o) CustomRecords \<Rightarrow> CustomRecordConfig list \<Rightarrow> ('n, 'o) CustomRecords" where
  "load_builtin H c cfgs = c\<lparr>builtin_records := parsed H cfgs\<rparr>"

definition reverse_name :: "Ipv4Addr \<Rightarrow> string" where
  "reverse_name ip = (case u32_bytes ip of [a, b, c, d] \<Rightarrow>
     octet_text d @ ''.'' @ octet_text c @ ''.'' @ octet_text b @ ''.'' @ octet_text a @ ''.in-addr.arpa'' | _ \<Rightarrow> [])"

definition lease_pair :: "('n, 'e, 'o) hickory \<Rightarrow> u32 \<Rightarrow> string \<times> Ipv4Addr \<Rightarrow> ('n, 'o) CustomRecord list" where
  "lease_pair H ttl lease =
     (let domain = custom_normalise (fst lease) in
      case h_name H (domain @ ''.'') of
        None \<Rightarrow> []
      | Some target \<Rightarrow>
          [\<lparr>cr_domain = domain, cr_is_wildcard = False, cr_wildcard_suffix = [], cr_type = TYPE_A,
             cr_rdata = RD_A (snd lease), cr_ttl = ttl\<rparr>,
           \<lparr>cr_domain = reverse_name (snd lease), cr_is_wildcard = False, cr_wildcard_suffix = [], cr_type = TYPE_PTR,
             cr_rdata = RD_PTR target, cr_ttl = ttl\<rparr>])"

definition load_leases :: "('n, 'e, 'o) hickory \<Rightarrow> ('n, 'o) CustomRecords \<Rightarrow> (string \<times> Ipv4Addr) list \<Rightarrow> u32 \<Rightarrow> ('n, 'o) CustomRecords" where
  "load_leases H c leases ttl = c\<lparr>lease_records := concat (map (lease_pair H ttl) leases)\<rparr>"

definition custom_add :: "('n, 'e, 'o) hickory \<Rightarrow> ('n, 'o) CustomRecords \<Rightarrow> CustomRecordConfig \<Rightarrow> CustomError + ('n, 'o) CustomRecords" where
  "custom_add H c cfg =
     (case parse_record H cfg of
        Inl e \<Rightarrow> Inl e
      | Inr record \<Rightarrow> Inr (c\<lparr>cust_records :=
          filter (\<lambda>r. \<not> (cr_domain r = cr_domain record \<and> cr_type r = cr_type record)) (cust_records c) @ [record]\<rparr>))"

definition custom_remove :: "('n, 'o) CustomRecords \<Rightarrow> string \<Rightarrow> bool \<times> ('n, 'o) CustomRecords" where
  "custom_remove c domain =
     (let d = custom_normalise domain;
          rest = filter (\<lambda>r. cr_domain r \<noteq> d) (cust_records c) in
      (length rest < length (cust_records c), c\<lparr>cust_records := rest\<rparr>))"

section \<open>Lookup\<close>

definition name_match :: "string \<Rightarrow> ('n, 'o) CustomRecord \<Rightarrow> bool" where
  "name_match name r =
     (if cr_is_wildcard r then ends_with name (cr_wildcard_suffix r) \<and> name \<noteq> cr_domain r
      else name = cr_domain r)"

definition find_record :: "('n, 'o) CustomRecord list \<Rightarrow> string \<Rightarrow> u16 \<Rightarrow> ('n, 'o) CustomRecord option" where
  "find_record rs name want =
     (case find (\<lambda>r. name_match name r \<and> (cr_type r = want \<or> want = TYPE_ANY)) rs of
        Some r \<Rightarrow> Some r
      | None \<Rightarrow>
          if want \<noteq> TYPE_CNAME then find (\<lambda>r. name_match name r \<and> cr_type r = TYPE_CNAME) rs else None)"

definition build_response :: "('n, 'e, 'o) hickory \<Rightarrow> ('n, 'e, 'o) Message \<Rightarrow> string \<Rightarrow> ('n, 'o) CustomRecord \<Rightarrow> DnsResponse option" where
  "build_response H query name record = do {
     n \<leftarrow> h_name H (if ends_with name ''.'' then name else name @ ''.'');
     let resp = reply_to H query True NoError;
     bs \<leftarrow> h_to_bytes H (resp\<lparr>answers := answers resp @ [\<lparr>r_name = n, r_ttl = cr_ttl record, r_data = cr_rdata record\<rparr>]\<rparr>);
     Some \<lparr>resp_bytes = bs, resp_ttl = unat (cr_ttl record)\<rparr>
   }"

definition custom_lookup :: "('n, 'e, 'o) hickory \<Rightarrow> ('n, 'o) CustomRecords \<Rightarrow> bytes \<Rightarrow> string \<Rightarrow> u16 \<Rightarrow> DnsResponse option" where
  "custom_lookup H c raw name qtype =
     (case find_record (cust_records c) name qtype of
        Some record \<Rightarrow> do { m \<leftarrow> message H raw; build_response H m name record }
      | None \<Rightarrow>
     (case find_record (builtin_records c) name qtype of
        Some record \<Rightarrow> do { m \<leftarrow> message H raw; build_response H m name record }
      | None \<Rightarrow> do {
          record \<leftarrow> find_record (lease_records c) name qtype;
          m \<leftarrow> message H raw;
          build_response H m name record
        }))"

section \<open>Properties\<close>

lemma find_last:
  "\<forall>r \<in> set xs. \<not> P r \<Longrightarrow> P y \<Longrightarrow> find P (xs @ [y]) = Some y"
  by (induction xs) auto

lemma parse_rdata_type: "parse_rdata H cfg = Inr (ty, rd) \<Longrightarrow> ty = TYPE_A \<or> ty = TYPE_AAAA \<or> ty = TYPE_CNAME"
  unfolding parse_rdata_def Let_def by (simp split: if_split_asm option.split_asm)

lemma parse_record_fields:
  assumes "parse_record H cfg = Inr r"
  shows "cr_domain r = custom_normalise (cfg_domain cfg) \<and> cr_type r \<noteq> TYPE_ANY"
proof -
  obtain ty rd where rd: "parse_rdata H cfg = Inr (ty, rd)"
    using assms by (cases "parse_rdata H cfg") (auto simp: parse_record_def)
  then have "cr_domain r = custom_normalise (cfg_domain cfg)" "cr_type r = ty"
    using assms by (auto simp: parse_record_def Let_def)
  with parse_rdata_type [OF rd] show ?thesis by (auto simp: type_defs)
qed

text \<open>
  Adding a record replaces the one with the same name and type and leaves every other; a
  plain name then answers with the new record, whatever the generated records and the leases
  say, unless one of the operator's wildcards of that type already covers it; and removing the
  name takes all its records away again and no others.
\<close>

theorem custom_add_remove:
  assumes "parse_record H cfg = Inr r" and "custom_add H c cfg = Inr c'"
  shows "(\<forall>x. cr_domain x = cr_domain r \<and> cr_type x = cr_type r \<longrightarrow> (x \<in> set (cust_records c') \<longleftrightarrow> x = r)) \<and>
    (\<forall>x. \<not> (cr_domain x = cr_domain r \<and> cr_type x = cr_type r) \<longrightarrow> (x \<in> set (cust_records c') \<longleftrightarrow> x \<in> set (cust_records c))) \<and>
    (\<not> cr_is_wildcard r \<and> \<not> list_ex (\<lambda>x. cr_is_wildcard x \<and> cr_type x = cr_type r \<and> name_match (cr_domain r) x) (cust_records c) \<longrightarrow>
       custom_lookup H c' raw (cr_domain r) (cr_type r) = do { m \<leftarrow> message H raw; build_response H m (cr_domain r) r }) \<and>
    cust_records (snd (custom_remove c' (cfg_domain cfg))) = filter (\<lambda>x. cr_domain x \<noteq> cr_domain r) (cust_records c)"
proof -
  let ?keep = "filter (\<lambda>x. \<not> (cr_domain x = cr_domain r \<and> cr_type x = cr_type r)) (cust_records c)"
  have c': "cust_records c' = ?keep @ [r]" using assms by (auto simp: custom_add_def)
  have any: "cr_type r \<noteq> TYPE_ANY" using parse_record_fields [OF assms(1)] by blast
  have found: "custom_lookup H c' raw (cr_domain r) (cr_type r) = do { m \<leftarrow> message H raw; build_response H m (cr_domain r) r }"
    if plain: "\<not> cr_is_wildcard r" and wild: "\<not> list_ex (\<lambda>x. cr_is_wildcard x \<and> cr_type x = cr_type r \<and> name_match (cr_domain r) x) (cust_records c)"
  proof -
    have "find (\<lambda>x. name_match (cr_domain r) x \<and> (cr_type x = cr_type r \<or> cr_type r = TYPE_ANY)) (?keep @ [r]) = Some r"
    proof (rule find_last)
      show "\<forall>x \<in> set ?keep. \<not> (name_match (cr_domain r) x \<and> (cr_type x = cr_type r \<or> cr_type r = TYPE_ANY))"
      proof
        fix x assume "x \<in> set ?keep"
        then have x: "x \<in> set (cust_records c)" "\<not> (cr_domain x = cr_domain r \<and> cr_type x = cr_type r)" by simp_all
        show "\<not> (name_match (cr_domain r) x \<and> (cr_type x = cr_type r \<or> cr_type r = TYPE_ANY))"
        proof (cases "cr_is_wildcard x")
          case True
          then show ?thesis using wild any x(1) unfolding list_ex_iff by blast
        next
          case False
          then have "name_match (cr_domain r) x \<longleftrightarrow> cr_domain r = cr_domain x" by (simp add: name_match_def)
          then show ?thesis using x(2) any by metis
        qed
      qed
    qed (use plain in \<open>simp add: name_match_def\<close>)
    then show ?thesis by (simp add: custom_lookup_def find_record_def c')
  qed
  have "cust_records (snd (custom_remove c' (cfg_domain cfg))) = filter (\<lambda>x. cr_domain x \<noteq> cr_domain r) (cust_records c)"
  proof -
    have d: "custom_normalise (cfg_domain cfg) = cr_domain r" using parse_record_fields [OF assms(1)] by simp
    have "filter (\<lambda>x. cr_domain x \<noteq> cr_domain r) (?keep @ [r]) = filter (\<lambda>x. cr_domain x \<noteq> cr_domain r) (cust_records c)"
      unfolding filter_append filter_filter by (simp, rule filter_cong) blast+
    then show ?thesis unfolding custom_remove_def Let_def c' d snd_conv by simp
  qed
  then show ?thesis using found by (auto simp: c')
qed

definition printer :: CustomRecordConfig where
  "printer = \<lparr>cfg_domain = ''Printer.lan.'', cfg_type = ''cname'', cfg_value = ''box.lan'', cfg_ttl = 60\<rparr>"

theorem custom_add_remove_witness:
  "\<exists>r c'. parse_record plain_hickory printer = Inr r \<and> custom_add plain_hickory custom_new printer = Inr c' \<and>
    cr_domain r = ''printer.lan'' \<and> r \<in> set (cust_records c')"
proof -
  let ?r = "\<lparr>cr_domain = ''printer.lan'', cr_is_wildcard = False, cr_wildcard_suffix = [], cr_type = TYPE_CNAME,
    cr_rdata = RD_CNAME ''box.lan'', cr_ttl = 60\<rparr>"
  have r: "parse_record plain_hickory printer = Inr ?r"
    by code_simp
  obtain c' where c': "custom_add plain_hickory custom_new printer = Inr c'" using r by (simp add: custom_add_def)
  from custom_add_remove [OF r c'] show ?thesis using r c' by auto
qed

end
