(* ===== verification/Clients.thy ===== *)
theory Clients
  imports Net
begin

unbundle bit_operations_syntax

text \<open>
  Who is who on the network: the client registry (\<open>crates/clients/src/registry.rs\<close>, with the
  parts of \<open>resolver.rs\<close> that change it) and the readers of the neighbour tables (\<open>mac.rs\<close>). The
  maps of the registry are maps; an \<open>Instant\<close> is a number of nanoseconds, a timestamp a number
  of seconds. What goes to the storage is appended to the list \<open>writes\<close>: the code ignores the
  outcome of these writes except where the outcome is an argument. What is sent to the
  subscribers is appended to \<open>announced\<close>. \<open>recording\<close> is what the privacy switches say.
\<close>

section \<open>Neighbour tables\<close>

definition extract_eui64_mac :: "Ipv6Addr \<Rightarrow> mac option" where
  "extract_eui64_mac v6 =
     (let b = v6_octets v6 in
      if b ! 11 \<noteq> 0xFF \<or> b ! 12 \<noteq> 0xFE then None
      else Some (b ! 8 XOR 0x02, b ! 9, b ! 10, b ! 13, b ! 14, b ! 15))"

text \<open>The stricter reader of MAC addresses: no broadcast and no zero address.\<close>

definition parse_neighbor_mac :: "string \<Rightarrow> mac option" where
  "parse_neighbor_mac s =
     (if CHR '':'' \<notin> set s \<and> CHR ''-'' \<notin> set s then None
      else
        (let sep = (if CHR '':'' \<in> set s then CHR '':'' else CHR ''-'') in
         case sequence_options (map (from_str_radix 255 16) (split_on sep s)) of
           Some [a, b, c, d, e, f] \<Rightarrow>
             (let m = (word_of_nat a, word_of_nat b, word_of_nat c, word_of_nat d, word_of_nat e, word_of_nat f) in
              if m = (0, 0, 0, 0, 0, 0) \<or> m = (0xFF, 0xFF, 0xFF, 0xFF, 0xFF, 0xFF) then None else Some m)
         | _ \<Rightarrow> None))"

definition trim_chars :: "string \<Rightarrow> string \<Rightarrow> string" where
  "trim_chars cs s = trim_start_char (\<lambda>c. c \<in> set cs) (trim_end_char (\<lambda>c. c \<in> set cs) s)"

definition parse_mac_token :: "string \<Rightarrow> mac option" where
  "parse_mac_token token = parse_neighbor_mac (trim_chars ''(),;'' token)"

definition parse_ip_token :: "string \<Rightarrow> IpAddr option" where
  "parse_ip_token token = ip_from_str (hd (split_on (CHR ''%'') (trim_chars ''()?,;'' token)))"

definition ipv6_token :: "string \<Rightarrow> Ipv6Addr option" where
  "ipv6_token token =
     (case read_ipv6_addr (hd (split_on (CHR ''%'') (trim_chars ''()?,;'' token))) of
        Some (a, r) \<Rightarrow> if r = [] then Some a else None
      | None \<Rightarrow> None)"

definition line_has_ipv6 :: "string \<Rightarrow> Ipv6Addr \<Rightarrow> bool" where
  "line_has_ipv6 line target = list_ex (\<lambda>t. ipv6_token t = Some target) (split_whitespace line)"

fun find_map :: "('a \<Rightarrow> 'b option) \<Rightarrow> 'a list \<Rightarrow> 'b option" where
  "find_map f [] = None"
| "find_map f (x # xs) = (case f x of Some y \<Rightarrow> Some y | None \<Rightarrow> find_map f xs)"

definition parse_mac_for_ipv6 :: "string \<Rightarrow> Ipv6Addr \<Rightarrow> mac option" where
  "parse_mac_for_ipv6 txt target =
     find_map (\<lambda>line. if line_has_ipv6 line target then find_map parse_mac_token (split_whitespace line) else None) (str_lines txt)"

definition neighbor_step :: "IpAddr option \<times> mac option \<Rightarrow> string \<Rightarrow> IpAddr option \<times> mac option" where
  "neighbor_step st token =
     (case st of (ip, m) \<Rightarrow>
        (case (if m = None then parse_mac_token token else None) of
           Some found \<Rightarrow> (ip, Some found)
         | None \<Rightarrow> (if ip = None then (parse_ip_token token, m) else (ip, m))))"

definition parse_neighbor_line :: "string \<Rightarrow> (IpAddr \<times> mac) option" where
  "parse_neighbor_line line =
     (case foldl neighbor_step (None, None) (split_whitespace line) of
        (Some ip, Some m) \<Rightarrow> Some (ip, m)
      | _ \<Rightarrow> None)"

text \<open>The two tables as text, nothing when the command failed.\<close>

definition scan_neighbors :: "string option \<Rightarrow> string option \<Rightarrow> (IpAddr \<times> mac) list" where
  "scan_neighbors arp ndp =
     (case arp of Some t \<Rightarrow> List.map_filter parse_neighbor_line (str_lines t) | None \<Rightarrow> []) @
     (case ndp of Some t \<Rightarrow> List.map_filter parse_neighbor_line (str_lines t) | None \<Rightarrow> [])"

section \<open>The registry\<close>

definition RESOLVE_TTL :: nat where "RESOLVE_TTL = 1800 * 1000000000"
definition MISS_TTL :: nat where "MISS_TTL = 30 * 1000000000"
definition DEVICE_AT_TTL :: nat where "DEVICE_AT_TTL = 30 * 60 * 1000000000"
definition BINDING_TOUCH_INTERVAL :: int where "BINDING_TOUCH_INTERVAL = 3600"

datatype StoreWrite =
    UpsertDevice string "string option"
  | UpsertBinding string string
  | TouchBindings "string list"
  | DeleteAllBindings
  | DeleteAllDevices

record NewDevice =
  nd_mac :: string
  nd_ip :: IpAddr
  nd_first_seen :: int

record Registry =
  ptr_cache :: "IpAddr \<rightharpoonup> string option \<times> nat"
  ip_aliases :: "IpAddr \<rightharpoonup> string"
  mac_aliases :: "mac \<rightharpoonup> string"
  mac_to_name :: "mac \<rightharpoonup> string \<times> nat"
  ip_to_mac :: "IpAddr \<rightharpoonup> mac"
  mac_to_ips :: "mac \<rightharpoonup> IpAddr list"
  last_binding_touch :: int
  first_seen :: "mac \<rightharpoonup> int"
  baseline :: bool
  device_seen :: "IpAddr \<rightharpoonup> string \<times> nat"
  id_owners :: "string \<rightharpoonup> string"
  recording :: bool
  announced :: "NewDevice list"
  writes :: "StoreWrite list"

subsection \<open>Bindings\<close>

definition forget_reverse :: "Registry \<Rightarrow> IpAddr \<Rightarrow> mac \<Rightarrow> Registry" where
  "forget_reverse r ip m =
     (case mac_to_ips r m of
        None \<Rightarrow> r
      | Some addrs \<Rightarrow>
          (let addrs = filter (\<lambda>held. held \<noteq> ip) addrs in
           r\<lparr>mac_to_ips := (mac_to_ips r)(m := (if addrs = [] then None else Some addrs))\<rparr>))"

definition push_reverse :: "Registry \<Rightarrow> IpAddr \<Rightarrow> mac \<Rightarrow> Registry" where
  "push_reverse r ip m =
     (let addrs = (case mac_to_ips r m of Some addrs \<Rightarrow> addrs | None \<Rightarrow> []) in
      r\<lparr>mac_to_ips := (mac_to_ips r)(m \<mapsto> (if ip \<in> set addrs then addrs else addrs @ [ip]))\<rparr>)"

definition bind_ip :: "Registry \<Rightarrow> IpAddr \<Rightarrow> mac \<Rightarrow> Registry" where
  "bind_ip r ip m =
     (let old = ip_to_mac r ip; r = r\<lparr>ip_to_mac := (ip_to_mac r)(ip \<mapsto> m)\<rparr> in
      case old of
        Some previous \<Rightarrow> if previous = m then r else push_reverse (forget_reverse r ip previous) ip m
      | None \<Rightarrow> push_reverse r ip m)"

definition unbind_ip :: "Registry \<Rightarrow> IpAddr \<Rightarrow> Registry" where
  "unbind_ip r ip =
     (case ip_to_mac r ip of
        Some m \<Rightarrow> forget_reverse (r\<lparr>ip_to_mac := (ip_to_mac r)(ip := None)\<rparr>) ip m
      | None \<Rightarrow> r)"

definition write_if_recording :: "Registry \<Rightarrow> StoreWrite \<Rightarrow> Registry" where
  "write_if_recording r w = (if recording r then r\<lparr>writes := writes r @ [w]\<rparr> else r)"

definition persist_binding :: "Registry \<Rightarrow> IpAddr \<Rightarrow> mac \<Rightarrow> Registry" where
  "persist_binding r ip m = write_if_recording r (UpsertBinding (ip_to_string ip) (format_mac m))"

definition persist_device :: "Registry \<Rightarrow> mac \<Rightarrow> string \<Rightarrow> Registry" where
  "persist_device r m name = write_if_recording r (UpsertDevice (format_mac m) (Some name))"

definition cache_mac :: "Registry \<Rightarrow> nat \<Rightarrow> mac \<Rightarrow> string \<Rightarrow> Registry" where
  "cache_mac r now m name =
     (let changed = (case mac_to_name r m of Some e \<Rightarrow> fst e \<noteq> name | None \<Rightarrow> True);
          r = r\<lparr>mac_to_name := (mac_to_name r)(m \<mapsto> (name, now + RESOLVE_TTL))\<rparr> in
      if changed then persist_device r m name else r)"

definition note_mac :: "Registry \<Rightarrow> int \<Rightarrow> IpAddr \<Rightarrow> mac \<Rightarrow> Registry" where
  "note_mac r now ip m =
     (case first_seen r m of
        Some _ \<Rightarrow> r
      | None \<Rightarrow>
          (let r = r\<lparr>first_seen := (first_seen r)(m \<mapsto> now)\<rparr>;
               r = write_if_recording r (UpsertDevice (format_mac m) None) in
           if baseline r then r
           else r\<lparr>announced := announced r @ [\<lparr>nd_mac = format_mac m, nd_ip = ip, nd_first_seen = now\<rparr>]\<rparr>))"

definition record_dhcp_lease :: "Registry \<Rightarrow> nat \<Rightarrow> int \<Rightarrow> mac \<Rightarrow> Ipv4Addr \<Rightarrow> string option \<Rightarrow> Registry" where
  "record_dhcp_lease r now unix m v4 host =
     (let ip = V4 v4;
          r = note_mac r unix ip m;
          moved = (ip_to_mac r ip \<noteq> Some m);
          r = bind_ip r ip m;
          r = (if moved then persist_binding r ip m else r);
          name = (case host of None \<Rightarrow> None
            | Some h \<Rightarrow> (let h = trim_end_char (\<lambda>c. c = CHR ''.'') (trim h) in if h = [] then None else Some h)) in
      case name of Some n \<Rightarrow> cache_mac r now m n | None \<Rightarrow> r)"

definition neighbor_seen :: "int \<Rightarrow> IpAddr \<times> mac \<Rightarrow> Registry \<Rightarrow> Registry" where
  "neighbor_seen unix pair r =
     (let ip = unmap_v4 (fst pair); m = snd pair;
          r = (if ip_to_mac r ip \<noteq> Some m then persist_binding (bind_ip r ip m) ip m else r) in
      note_mac r unix ip m)"

definition touch_present_bindings :: "Registry \<Rightarrow> int \<Rightarrow> bool \<Rightarrow> IpAddr list \<Rightarrow> Registry" where
  "touch_present_bindings r unix ok present =
     (if present = [] then r
      else if unix - last_binding_touch r < BINDING_TOUCH_INTERVAL then r
      else
        (let r = r\<lparr>writes := writes r @ [TouchBindings (map ip_to_string present)]\<rparr> in
         if ok then r\<lparr>last_binding_touch := unix\<rparr> else r))"

definition refresh_neighbor_table :: "Registry \<Rightarrow> int \<Rightarrow> bool \<Rightarrow> (IpAddr \<times> mac) list \<Rightarrow> Registry" where
  "refresh_neighbor_table r unix ok pairs =
     (let r = fold (neighbor_seen unix) pairs r;
          r = r\<lparr>baseline := False\<rparr> in
      touch_present_bindings r unix ok (map (\<lambda>p. unmap_v4 (fst p)) pairs))"

text \<open>\<open>deleted\<close>: the addresses the storage says it dropped, nothing when it failed.\<close>

definition prune_learned_ips :: "Registry \<Rightarrow> nat \<Rightarrow> string list option \<Rightarrow> Registry" where
  "prune_learned_ips r now deleted =
     (let r = (case deleted of None \<Rightarrow> r
        | Some addrs \<Rightarrow> fold (\<lambda>s r. case parse_ip s of Some ip \<Rightarrow> unbind_ip r (unmap_v4 ip) | None \<Rightarrow> r) addrs r) in
      r\<lparr>ptr_cache := (\<lambda>ip. case ptr_cache r ip of Some e \<Rightarrow> if snd e > now then Some e else None | None \<Rightarrow> None)\<rparr>)"

definition clear_learned_ips :: "Registry \<Rightarrow> bool \<Rightarrow> Registry" where
  "clear_learned_ips r ok =
     (let r = r\<lparr>writes := writes r @ [DeleteAllBindings]\<rparr> in
      if ok then r\<lparr>ptr_cache := Map.empty, ip_to_mac := Map.empty, mac_to_ips := Map.empty\<rparr> else r)"

definition forget_learned_devices :: "Registry \<Rightarrow> bool \<Rightarrow> bool \<Rightarrow> Registry" where
  "forget_learned_devices r ok_bindings ok_devices =
     (let r = r\<lparr>writes := writes r @ [DeleteAllBindings]\<rparr> in
      if \<not> ok_bindings then r
      else
        (let r = r\<lparr>writes := writes r @ [DeleteAllDevices]\<rparr> in
         if \<not> ok_devices then r
         else r\<lparr>ptr_cache := Map.empty, ip_to_mac := Map.empty, mac_to_ips := Map.empty, mac_to_name := Map.empty,
           first_seen := Map.empty, baseline := True\<rparr>))"

subsection \<open>Reading\<close>

definition mac_for_ip :: "Registry \<Rightarrow> IpAddr \<Rightarrow> mac option" where
  "mac_for_ip r ip =
     (case (case ip of V6 v6 \<Rightarrow> extract_eui64_mac v6 | V4 _ \<Rightarrow> None) of
        Some m \<Rightarrow> Some m
      | None \<Rightarrow> ip_to_mac r ip)"

definition get_mac :: "Registry \<Rightarrow> IpAddr \<Rightarrow> string option" where
  "get_mac r ip = map_option format_mac (mac_for_ip r (unmap_v4 ip))"

definition get_name :: "Registry \<Rightarrow> IpAddr \<Rightarrow> string option" where
  "get_name r raw =
     (let ip = unmap_v4 raw;
          cached = (case ptr_cache r ip of Some e \<Rightarrow> fst e | None \<Rightarrow> None) in
      case ip_aliases r ip of
        Some name \<Rightarrow> Some name
      | None \<Rightarrow>
          (case mac_for_ip r ip of
             Some m \<Rightarrow>
               (case mac_aliases r m of
                  Some name \<Rightarrow> Some name
                | None \<Rightarrow> (case mac_to_name r m of Some e \<Rightarrow> Some (fst e) | None \<Rightarrow> cached))
           | None \<Rightarrow> cached))"

definition is_aliased :: "Registry \<Rightarrow> IpAddr \<Rightarrow> bool" where
  "is_aliased r raw =
     (let ip = unmap_v4 raw in
      ip_aliases r ip \<noteq> None \<or> (case mac_for_ip r ip of Some m \<Rightarrow> mac_aliases r m \<noteq> None | None \<Rightarrow> False))"

definition note_device :: "Registry \<Rightarrow> nat \<Rightarrow> IpAddr \<Rightarrow> string \<Rightarrow> Registry" where
  "note_device r now ip device = r\<lparr>device_seen := (device_seen r)(unmap_v4 ip \<mapsto> (device, now))\<rparr>"

definition device_at :: "Registry \<Rightarrow> nat \<Rightarrow> IpAddr \<Rightarrow> string option" where
  "device_at r now ip =
     (case device_seen r (unmap_v4 ip) of
        Some (d, at) \<Rightarrow> if now - at < DEVICE_AT_TTL then Some d else None
      | None \<Rightarrow> None)"

definition set_id_owners :: "Registry \<Rightarrow> (string \<times> string) list \<Rightarrow> Registry" where
  "set_id_owners r owners = r\<lparr>id_owners := map_of (rev (map (\<lambda>(i, k). (''id:'' @ i, k)) owners))\<rparr>"

definition id_owner_of :: "Registry \<Rightarrow> string \<Rightarrow> string option" where
  "id_owner_of r device = id_owners r device"

definition owner_mac :: "Registry \<Rightarrow> string \<Rightarrow> string option" where
  "owner_mac r device = map_option format_mac (Option.bind (id_owner_of r device) parse_mac)"

definition addrs_for_device :: "Registry \<Rightarrow> string \<Rightarrow> IpAddr list" where
  "addrs_for_device r device =
     (case parse_mac device of
        Some m \<Rightarrow> (case mac_to_ips r m of Some addrs \<Rightarrow> addrs | None \<Rightarrow> [])
      | None \<Rightarrow> (case parse_ip device of Some ip \<Rightarrow> [unmap_v4 ip] | None \<Rightarrow> []))"

definition set_ip_alias :: "Registry \<Rightarrow> IpAddr \<Rightarrow> string \<Rightarrow> Registry" where
  "set_ip_alias r raw name =
     (let ip = unmap_v4 raw in r\<lparr>ptr_cache := (ptr_cache r)(ip := None), ip_aliases := (ip_aliases r)(ip \<mapsto> name)\<rparr>)"

definition forget_ptr_of :: "Registry \<Rightarrow> mac \<Rightarrow> Registry" where
  "forget_ptr_of r m = fold (\<lambda>ip r. r\<lparr>ptr_cache := (ptr_cache r)(ip := None)\<rparr>) (addrs_for_device r (format_mac m)) r"

definition set_mac_alias :: "Registry \<Rightarrow> mac \<Rightarrow> string \<Rightarrow> Registry" where
  "set_mac_alias r m name = (let r = forget_ptr_of r m in r\<lparr>mac_aliases := (mac_aliases r)(m \<mapsto> name)\<rparr>)"

definition remove_ip_alias :: "Registry \<Rightarrow> IpAddr \<Rightarrow> Registry" where
  "remove_ip_alias r ip = r\<lparr>ip_aliases := (ip_aliases r)(unmap_v4 ip := None)\<rparr>"

definition remove_mac_alias :: "Registry \<Rightarrow> mac \<Rightarrow> Registry" where
  "remove_mac_alias r m = (let r = forget_ptr_of r m in r\<lparr>mac_aliases := (mac_aliases r)(m := None)\<rparr>)"

record DeviceInfo =
  di_name :: "string option"
  di_ips :: "string list"
  di_macs :: "string list"
  di_is_alias :: bool

text \<open>The description follows the owner of a device; nothing in it bounds how often.\<close>

partial_function (option) describe_device :: "Registry \<Rightarrow> string \<Rightarrow> DeviceInfo option" where
  "describe_device r device =
     (case parse_mac device of
        Some m \<Rightarrow> Some \<lparr>di_name = (case mac_aliases r m of Some n \<Rightarrow> Some n | None \<Rightarrow> map_option fst (mac_to_name r m)),
          di_ips = map ip_to_string (addrs_for_device r device), di_macs = [format_mac m], di_is_alias = (mac_aliases r m \<noteq> None)\<rparr>
      | None \<Rightarrow>
     (case parse_ip device of
        Some ip \<Rightarrow> Some \<lparr>di_name = get_name r (unmap_v4 ip), di_ips = [ip_to_string (unmap_v4 ip)],
          di_macs = (case get_mac r (unmap_v4 ip) of Some m \<Rightarrow> [m] | None \<Rightarrow> []), di_is_alias = is_aliased r (unmap_v4 ip)\<rparr>
      | None \<Rightarrow>
     (case id_owner_of r device of
        None \<Rightarrow> Some \<lparr>di_name = strip_prefix device ''id:'', di_ips = [device], di_macs = [], di_is_alias = False\<rparr>
      | Some owner \<Rightarrow>
          Option.bind (describe_device r owner) (\<lambda>own.
            if di_name own \<noteq> None
            then Some \<lparr>di_name = di_name own, di_ips = [device], di_macs = di_macs own, di_is_alias = di_is_alias own\<rparr>
            else Some \<lparr>di_name = strip_prefix device ''id:'', di_ips = [device], di_macs = [], di_is_alias = False\<rparr>))))"

section \<open>The reverse index\<close>

text \<open>An index that files under each value the keys mapped to it, each once, and no empty lists.\<close>

definition reverse_of :: "('i \<rightharpoonup> 'm) \<Rightarrow> ('m \<rightharpoonup> 'i list) \<Rightarrow> bool" where
  "reverse_of f g \<longleftrightarrow> (\<forall>m. case g m of
     None \<Rightarrow> \<forall>i. f i \<noteq> Some m
   | Some is \<Rightarrow> is \<noteq> [] \<and> distinct is \<and> (\<forall>i. i \<in> set is \<longleftrightarrow> f i = Some m))"

definition drop_key :: "('m \<rightharpoonup> 'i list) \<Rightarrow> 'i \<Rightarrow> 'm \<Rightarrow> 'm \<rightharpoonup> 'i list" where
  "drop_key g i m = (case g m of None \<Rightarrow> g
     | Some is \<Rightarrow> g(m := (let is = filter (\<lambda>j. j \<noteq> i) is in if is = [] then None else Some is)))"

definition push_key :: "('m \<rightharpoonup> 'i list) \<Rightarrow> 'i \<Rightarrow> 'm \<Rightarrow> 'm \<rightharpoonup> 'i list" where
  "push_key g i m = (let is = (case g m of Some is \<Rightarrow> is | None \<Rightarrow> []) in g(m \<mapsto> (if i \<in> set is then is else is @ [i])))"

lemma reverse_empty: "reverse_of Map.empty Map.empty"
  by (simp add: reverse_of_def)

lemma reverse_drop:
  assumes "reverse_of f g" and "f i = Some m"
  shows "reverse_of (f(i := None)) (drop_key g i m)"
proof -
  obtain as where as: "g m = Some as" using assms by (fastforce simp: reverse_of_def split: option.splits)
  have "case drop_key g i m k of None \<Rightarrow> \<forall>j. (f(i := None)) j \<noteq> Some k
      | Some is \<Rightarrow> is \<noteq> [] \<and> distinct is \<and> (\<forall>j. j \<in> set is \<longleftrightarrow> (f(i := None)) j = Some k)" for k
  proof (cases "k = m")
    case True
    then show ?thesis using assms(1) [unfolded reverse_of_def, rule_format, of m] as
      by (auto simp: drop_key_def Let_def filter_empty_conv)
  next
    case False
    then show ?thesis using assms(1) [unfolded reverse_of_def, rule_format, of k] assms(2) as
      by (auto simp: drop_key_def split: option.splits)
  qed
  then show ?thesis by (simp add: reverse_of_def)
qed

lemma reverse_push:
  assumes "reverse_of f g" and "f i = None"
  shows "reverse_of (f(i \<mapsto> m)) (push_key g i m)"
proof -
  have "case push_key g i m k of None \<Rightarrow> \<forall>j. (f(i \<mapsto> m)) j \<noteq> Some k
      | Some is \<Rightarrow> is \<noteq> [] \<and> distinct is \<and> (\<forall>j. j \<in> set is \<longleftrightarrow> (f(i \<mapsto> m)) j = Some k)" for k
  proof (cases "k = m")
    case True
    then show ?thesis using assms(1) [unfolded reverse_of_def, rule_format, of m] assms(2)
      by (auto simp: push_key_def Let_def split: option.splits)
  next
    case False
    then show ?thesis using assms(1) [unfolded reverse_of_def, rule_format, of k] assms(2)
      by (auto simp: push_key_def Let_def split: option.splits)
  qed
  then show ?thesis by (simp add: reverse_of_def)
qed

lemma reverse_lookup: "reverse_of f g \<Longrightarrow> i \<in> set (case g m of Some is \<Rightarrow> is | None \<Rightarrow> []) \<longleftrightarrow> f i = Some m"
proof -
  assume "reverse_of f g"
  from this [unfolded reverse_of_def, rule_format, of m] show ?thesis by (cases "g m") auto
qed

definition index_exact :: "Registry \<Rightarrow> bool" where
  "index_exact r \<longleftrightarrow> reverse_of (ip_to_mac r) (mac_to_ips r)"

lemma forget_reverse_eq: "forget_reverse r ip m = r\<lparr>mac_to_ips := drop_key (mac_to_ips r) ip m\<rparr>"
  by (simp add: forget_reverse_def drop_key_def Let_def split: option.splits)

lemma push_reverse_eq: "push_reverse r ip m = r\<lparr>mac_to_ips := push_key (mac_to_ips r) ip m\<rparr>"
  by (simp add: push_reverse_def push_key_def Let_def)

lemma unbind_exact: "index_exact r \<Longrightarrow> index_exact (unbind_ip r ip)"
  by (simp add: index_exact_def unbind_ip_def forget_reverse_eq reverse_drop split: option.splits)

lemma bind_exact:
  assumes "index_exact r"
  shows "index_exact (bind_ip r ip m)"
proof (cases "ip_to_mac r ip")
  case None
  then show ?thesis using assms reverse_push by (auto simp: index_exact_def bind_ip_def push_reverse_eq Let_def)
next
  case (Some p)
  note rev = assms [unfolded index_exact_def]
  show ?thesis
  proof (cases "p = m")
    case True
    then show ?thesis using rev Some by (simp add: index_exact_def bind_ip_def Let_def fun_upd_idem)
  next
    case False
    have "reverse_of (((ip_to_mac r)(ip := None))(ip \<mapsto> m)) (push_key (drop_key (mac_to_ips r) ip p) ip m)"
      using reverse_drop [OF rev Some] by (intro reverse_push) simp_all
    then show ?thesis using Some False by (simp add: index_exact_def bind_ip_def push_reverse_eq forget_reverse_eq Let_def)
  qed
qed

section \<open>The operations as steps\<close>

datatype registry_op =
    Lease nat int mac Ipv4Addr "string option"
  | Scan int bool "(IpAddr \<times> mac) list"
  | Prune nat "string list option"
  | Clear_learned bool
  | Forget_devices bool bool
  | Note_device nat IpAddr string
  | Id_owners "(string \<times> string) list"
  | Ip_alias IpAddr "string option"
  | Mac_alias mac "string option"

fun registry_step :: "Registry \<Rightarrow> registry_op \<Rightarrow> Registry" where
  "registry_step r (Lease now unix m ip host) = record_dhcp_lease r now unix m ip host"
| "registry_step r (Scan unix ok pairs) = refresh_neighbor_table r unix ok pairs"
| "registry_step r (Prune now deleted) = prune_learned_ips r now deleted"
| "registry_step r (Clear_learned ok) = clear_learned_ips r ok"
| "registry_step r (Forget_devices a b) = forget_learned_devices r a b"
| "registry_step r (Note_device now ip d) = note_device r now ip d"
| "registry_step r (Id_owners os) = set_id_owners r os"
| "registry_step r (Ip_alias ip n) = (case n of Some name \<Rightarrow> set_ip_alias r ip name | None \<Rightarrow> remove_ip_alias r ip)"
| "registry_step r (Mac_alias m n) = (case n of Some name \<Rightarrow> set_mac_alias r m name | None \<Rightarrow> remove_mac_alias r m)"

definition registry_new :: "bool \<Rightarrow> Registry" where
  "registry_new rec = \<lparr>ptr_cache = Map.empty, ip_aliases = Map.empty, mac_aliases = Map.empty, mac_to_name = Map.empty,
     ip_to_mac = Map.empty, mac_to_ips = Map.empty, last_binding_touch = 0, first_seen = Map.empty, baseline = True,
     device_seen = Map.empty, id_owners = Map.empty, recording = rec, announced = [], writes = []\<rparr>"

text \<open>What the smaller steps leave alone.\<close>

lemma write_fields [simp]:
  "ip_to_mac (write_if_recording r w) = ip_to_mac r" "mac_to_ips (write_if_recording r w) = mac_to_ips r"
  "first_seen (write_if_recording r w) = first_seen r" "announced (write_if_recording r w) = announced r"
  "baseline (write_if_recording r w) = baseline r" "recording (write_if_recording r w) = recording r"
  by (simp_all add: write_if_recording_def)

lemma note_mac_fields [simp]:
  "ip_to_mac (note_mac r now ip m) = ip_to_mac r" "mac_to_ips (note_mac r now ip m) = mac_to_ips r"
  by (simp_all add: note_mac_def Let_def split: option.splits)

lemma cache_mac_fields [simp]:
  "ip_to_mac (cache_mac r now m n) = ip_to_mac r" "mac_to_ips (cache_mac r now m n) = mac_to_ips r"
  "first_seen (cache_mac r now m n) = first_seen r" "announced (cache_mac r now m n) = announced r"
  by (simp_all add: cache_mac_def persist_device_def Let_def)

lemma bind_fields [simp]:
  "first_seen (bind_ip r ip m) = first_seen r" "announced (bind_ip r ip m) = announced r" "baseline (bind_ip r ip m) = baseline r"
  by (simp_all add: bind_ip_def push_reverse_eq forget_reverse_eq Let_def split: option.splits)

lemma unbind_fields [simp]:
  "first_seen (unbind_ip r ip) = first_seen r" "announced (unbind_ip r ip) = announced r"
  by (simp_all add: unbind_ip_def forget_reverse_eq split: option.splits)

lemma forget_ptr_fields [simp]:
  "ip_to_mac (forget_ptr_of r m) = ip_to_mac r" "mac_to_ips (forget_ptr_of r m) = mac_to_ips r"
  "first_seen (forget_ptr_of r m) = first_seen r" "announced (forget_ptr_of r m) = announced r"
proof -
  have "ip_to_mac (fold (\<lambda>ip r. r\<lparr>ptr_cache := (ptr_cache r)(ip := None)\<rparr>) as r) = ip_to_mac r \<and>
      mac_to_ips (fold (\<lambda>ip r. r\<lparr>ptr_cache := (ptr_cache r)(ip := None)\<rparr>) as r) = mac_to_ips r \<and>
      first_seen (fold (\<lambda>ip r. r\<lparr>ptr_cache := (ptr_cache r)(ip := None)\<rparr>) as r) = first_seen r \<and>
      announced (fold (\<lambda>ip r. r\<lparr>ptr_cache := (ptr_cache r)(ip := None)\<rparr>) as r) = announced r" for as
    by (induction as arbitrary: r) simp_all
  then show "ip_to_mac (forget_ptr_of r m) = ip_to_mac r" "mac_to_ips (forget_ptr_of r m) = mac_to_ips r"
    "first_seen (forget_ptr_of r m) = first_seen r" "announced (forget_ptr_of r m) = announced r"
    by (simp_all add: forget_ptr_of_def)
qed

lemma index_exact_cong [simp]:
  "index_exact (write_if_recording r w) = index_exact r" "index_exact (note_mac r unix ip m) = index_exact r"
  "index_exact (cache_mac r now m n) = index_exact r" "index_exact (forget_ptr_of r m) = index_exact r"
  by (simp_all add: index_exact_def)

lemma neighbor_exact: "index_exact r \<Longrightarrow> index_exact (fold (neighbor_seen unix) pairs r)"
  by (induction pairs arbitrary: r) (simp_all add: neighbor_seen_def persist_binding_def Let_def bind_exact)

lemma prune_exact: "index_exact r \<Longrightarrow>
    index_exact (fold (\<lambda>s r. case parse_ip s of Some ip \<Rightarrow> unbind_ip r (unmap_v4 ip) | None \<Rightarrow> r) as r)"
  by (induction as arbitrary: r) (simp_all add: unbind_exact split: option.splits)

lemma registry_step_exact:
  assumes "index_exact r"
  shows "index_exact (registry_step r x)"
proof (cases x)
  case (Lease now unix m ip host)
  then show ?thesis using assms by (simp add: record_dhcp_lease_def persist_binding_def Let_def bind_exact split: option.splits)
next
  case (Scan unix ok pairs)
  have "index_exact (fold (neighbor_seen unix) pairs r)" using assms by (rule neighbor_exact)
  then show ?thesis using Scan by (auto simp: refresh_neighbor_table_def touch_present_bindings_def Let_def index_exact_def)
next
  case (Prune now deleted)
  then show ?thesis using assms prune_exact [of r] by (cases deleted) (simp_all add: prune_learned_ips_def Let_def index_exact_def)
next
  case (Clear_learned ok)
  then show ?thesis using assms by (simp add: clear_learned_ips_def Let_def index_exact_def reverse_empty)
next
  case (Forget_devices a b)
  then show ?thesis using assms by (simp add: forget_learned_devices_def Let_def index_exact_def reverse_empty)
next
  case (Ip_alias ip n)
  then show ?thesis using assms by (cases n) (simp_all add: set_ip_alias_def remove_ip_alias_def Let_def index_exact_def)
next
  case (Mac_alias m n)
  then show ?thesis using assms by (cases n) (simp_all add: set_mac_alias_def remove_mac_alias_def Let_def index_exact_def)
qed (use assms in \<open>simp_all add: note_device_def set_id_owners_def index_exact_def\<close>)

interpretation registry: state_machine registry_step index_exact
  using registry_step_exact by unfold_locales

section \<open>Properties\<close>

text \<open>
  C35. Whatever the registry goes through, the addresses it lists for a device are exactly the
  ones bound to it, each once, in both directions: an address that moves to another device
  leaves the old one's list.
\<close>

theorem addresses_of_device:
  "(let r = foldl registry_step (registry_new rec) ops in
    distinct (addrs_for_device r (format_mac m)) \<and>
    (\<forall>ip. ip \<in> set (addrs_for_device r (format_mac m)) \<longleftrightarrow> ip_to_mac r ip = Some m))"
proof -
  have "index_exact (registry_new rec)" by (simp add: index_exact_def registry_new_def reverse_empty)
  then have ok: "index_exact (foldl registry_step (registry_new rec) ops)" by (rule registry.run_inv)
  define r where "r = foldl registry_step (registry_new rec) ops"
  have rev: "reverse_of (ip_to_mac r) (mac_to_ips r)" using ok by (simp add: index_exact_def r_def)
  have eq: "addrs_for_device r (format_mac m) = (case mac_to_ips r m of Some as \<Rightarrow> as | None \<Rightarrow> [])"
    by (simp add: addrs_for_device_def parse_format_mac)
  have "distinct (addrs_for_device r (format_mac m))"
    unfolding eq using rev [unfolded reverse_of_def, rule_format, of m] by (cases "mac_to_ips r m") auto
  moreover have "ip \<in> set (addrs_for_device r (format_mac m)) \<longleftrightarrow> ip_to_mac r ip = Some m" for ip
    unfolding eq by (rule reverse_lookup [OF rev])
  ultimately show ?thesis by (simp add: r_def)
qed

text \<open>Announced devices are known, and no two announcements are for the same device.\<close>

definition known_device :: "Registry \<Rightarrow> NewDevice \<Rightarrow> bool" where
  "known_device r d \<longleftrightarrow> (\<exists>m. nd_mac d = format_mac m \<and> first_seen r m \<noteq> None)"

definition announced_ok :: "Registry \<Rightarrow> bool" where
  "announced_ok r \<longleftrightarrow> distinct (map nd_mac (announced r)) \<and>
     (\<forall>d \<in> set (announced r). known_device r d)"

lemma format_mac_inj: "format_mac a = format_mac b \<Longrightarrow> a = b"
  by (metis parse_format_mac option.inject)

lemma announced_ok_cong:
  "announced_ok r \<Longrightarrow> announced r' = announced r \<Longrightarrow> first_seen r' = first_seen r \<Longrightarrow> announced_ok r'"
  unfolding announced_ok_def known_device_def by metis

lemma note_mac_announced:
  assumes "announced_ok r"
  shows "announced_ok (note_mac r now ip m)"
proof (cases "first_seen r m")
  case (Some t)
  then show ?thesis using assms by (simp add: note_mac_def)
next
  case None
  let ?r = "(write_if_recording (r\<lparr>first_seen := (first_seen r)(m \<mapsto> now)\<rparr>) (UpsertDevice (format_mac m) None))"
  have new: "nd_mac d \<noteq> format_mac m" if "d \<in> set (announced r)" for d
    using assms that None format_mac_inj unfolding announced_ok_def known_device_def by metis
  have seen: "first_seen ?r = (first_seen r)(m \<mapsto> now)" by simp
  have known: "known_device r' d" if "d \<in> set (announced r)" "first_seen r' = first_seen ?r" for d r'
    using assms that(1) unfolding announced_ok_def known_device_def that(2) seen fun_upd_apply by (metis option.distinct(1))
  show ?thesis
  proof (cases "baseline r")
    case True
    then have "note_mac r now ip m = ?r" using None by (simp add: note_mac_def)
    then show ?thesis using assms known by (simp add: announced_ok_def)
  next
    case False
    let ?d = "\<lparr>nd_mac = format_mac m, nd_ip = ip, nd_first_seen = now\<rparr>"
    have step: "note_mac r now ip m = ?r\<lparr>announced := announced r @ [?d]\<rparr>" using None False by (simp add: note_mac_def)
    have "distinct (map nd_mac (announced r @ [?d]))" using assms new by (force simp: announced_ok_def)
    moreover have "known_device (?r\<lparr>announced := announced r @ [?d]\<rparr>) ?d" unfolding known_device_def by (rule exI [of _ m]) simp
    ultimately show ?thesis unfolding step announced_ok_def using known by simp
  qed
qed

lemma neighbors_announced: "announced_ok r \<Longrightarrow> announced_ok (fold (neighbor_seen unix) pairs r)"
proof (induction pairs arbitrary: r)
  case (Cons p pairs)
  let ?r = "if ip_to_mac r (unmap_v4 (fst p)) \<noteq> Some (snd p)
    then persist_binding (bind_ip r (unmap_v4 (fst p)) (snd p)) (unmap_v4 (fst p)) (snd p) else r"
  have "announced_ok ?r" using Cons.prems by (rule announced_ok_cong) (simp_all add: persist_binding_def)
  then have "announced_ok (neighbor_seen unix p r)" by (simp add: neighbor_seen_def Let_def note_mac_announced)
  then show ?case by (simp add: Cons.IH)
qed simp

lemma prune_fields:
  "announced (fold (\<lambda>s r. case parse_ip s of Some ip \<Rightarrow> unbind_ip r (unmap_v4 ip) | None \<Rightarrow> r) as r) = announced r \<and>
   first_seen (fold (\<lambda>s r. case parse_ip s of Some ip \<Rightarrow> unbind_ip r (unmap_v4 ip) | None \<Rightarrow> r) as r) = first_seen r"
  by (induction as arbitrary: r) (simp_all split: option.splits)

fun forgets :: "registry_op \<Rightarrow> bool" where
  "forgets (Forget_devices a b) = True"
| "forgets x = False"

lemma registry_step_announced:
  assumes ok: "announced_ok r" and x: "\<not> forgets x"
  shows "announced_ok (registry_step r x)"
proof (cases x)
  case (Lease now unix m ip host)
  have "announced_ok (note_mac r unix (V4 ip) m)" using ok by (rule note_mac_announced)
  then show ?thesis
    unfolding Lease registry_step.simps
    by (rule announced_ok_cong) (simp_all add: record_dhcp_lease_def persist_binding_def Let_def split: option.splits)
next
  case (Scan unix ok' pairs)
  have "announced_ok (fold (neighbor_seen unix) pairs r)" using ok by (rule neighbors_announced)
  then show ?thesis
    unfolding Scan registry_step.simps
    by (rule announced_ok_cong) (simp_all add: refresh_neighbor_table_def touch_present_bindings_def Let_def)
next
  case (Prune now deleted)
  show ?thesis unfolding Prune registry_step.simps
    by (rule announced_ok_cong [OF ok]) (simp_all add: prune_learned_ips_def Let_def prune_fields split: option.splits)
next
  case (Ip_alias ip n)
  show ?thesis unfolding Ip_alias registry_step.simps
    by (rule announced_ok_cong [OF ok]) (simp_all add: set_ip_alias_def remove_ip_alias_def Let_def split: option.splits)
next
  case (Mac_alias m n)
  show ?thesis unfolding Mac_alias registry_step.simps
    by (rule announced_ok_cong [OF ok]) (simp_all add: set_mac_alias_def remove_mac_alias_def Let_def split: option.splits)
next
  case (Clear_learned k)
  show ?thesis unfolding Clear_learned registry_step.simps
    by (rule announced_ok_cong [OF ok]) (simp_all add: clear_learned_ips_def Let_def)
next
  case (Note_device now ip d)
  show ?thesis unfolding Note_device registry_step.simps
    by (rule announced_ok_cong [OF ok]) (simp_all add: note_device_def)
next
  case (Id_owners os)
  show ?thesis unfolding Id_owners registry_step.simps
    by (rule announced_ok_cong [OF ok]) (simp_all add: set_id_owners_def)
qed (use x in simp)

text \<open>
  As long as the inventory is not forgotten, a device is announced as new at most once, and
  only when the registry did not know it: over every sequence of leases, neighbour scans,
  prunings and changes of names.
\<close>

theorem announced_once:
  assumes "list_all (\<lambda>x. \<not> forgets x) ops"
  shows "distinct (map nd_mac (announced (foldl registry_step (registry_new rec) ops)))"
proof -
  have "announced_ok (foldl registry_step r ops)" if "announced_ok r" for r
    using assms that by (induction ops arbitrary: r) (simp_all add: registry_step_announced)
  moreover have "announced_ok (registry_new rec)" by (simp add: announced_ok_def registry_new_def)
  ultimately show ?thesis unfolding announced_ok_def by blast
qed

definition two_scans :: "registry_op list" where
  "two_scans = [Scan 100 True [(V4 5, (1, 2, 3, 4, 5, 6))], Scan 200 True [(V4 7, (9, 2, 3, 4, 5, 6))], Lease 1 300 (9, 2, 3, 4, 5, 6) 8 None]"

theorem announced_once_witness: "distinct (map nd_mac (announced (foldl registry_step (registry_new True) two_scans)))"
proof -
  have "list_all (\<lambda>x. \<not> forgets x) two_scans" by (simp add: two_scans_def)
  then show ?thesis by (rule announced_once)
qed

section \<open>Descriptions\<close>

text \<open>
  When every owner is what the settings call for, a MAC or an IP address, describing a device
  ends, and a device set up for a client with a name is described by that name.
\<close>

theorem describe_device_ends:
  assumes "\<forall>d k. id_owners r d = Some k \<longrightarrow> parse_mac k \<noteq> None \<or> parse_ip k \<noteq> None"
  shows "\<exists>i. describe_device r device = Some i \<and>
    (parse_mac device = None \<and> parse_ip device = None \<longrightarrow> di_ips i = [device] \<and>
      (\<forall>k o'. id_owners r device = Some k \<and> describe_device r k = Some o' \<and> di_name o' \<noteq> None \<longrightarrow> di_name i = di_name o'))"
proof -
  have leaf: "\<exists>i. describe_device r k = Some i" if "parse_mac k \<noteq> None \<or> parse_ip k \<noteq> None" for k
    using that by (subst describe_device.simps) (auto split: option.splits)
  show ?thesis
  proof (cases "parse_mac device \<noteq> None \<or> parse_ip device \<noteq> None")
    case True
    then obtain i where "describe_device r device = Some i" using leaf by blast
    then show ?thesis using True by (intro exI [of _ i]) auto
  next
    case False
    then have leafless: "parse_mac device = None" "parse_ip device = None" by (simp_all only: de_Morgan_disj not_not)
    show ?thesis
    proof (cases "id_owners r device")
      case None
      then show ?thesis using leafless by (simp add: describe_device.simps [of r device] id_owner_of_def)
    next
      case (Some k)
      then obtain o' where "describe_device r k = Some o'" using assms leaf by blast
      then show ?thesis using leafless Some by (simp add: describe_device.simps [of r device] id_owner_of_def)
    qed
  qed
qed

definition pixel_registry :: "(string \<times> string) list \<Rightarrow> Registry" where
  "pixel_registry os = set_id_owners (registry_new True) os"

theorem describe_device_ends_witness:
  "\<exists>i. describe_device (pixel_registry [(''a'', ''1:2:3:4:5:6'')]) ''id:a'' = Some i"
proof -
  have "parse_mac ''1:2:3:4:5:6'' \<noteq> None" by code_simp
  then have "\<forall>d k. id_owners (pixel_registry [(''a'', ''1:2:3:4:5:6'')]) d = Some k \<longrightarrow> parse_mac k \<noteq> None \<or> parse_ip k \<noteq> None"
    by (simp add: pixel_registry_def set_id_owners_def)
  from describe_device_ends [OF this, of "''id:a''"] show ?thesis by blast
qed

text \<open>
  The settings may name a device as its own owner; then the description of that device never
  ends.
\<close>

theorem describe_owner_cycle: "describe_device (pixel_registry [(''a'', ''id:a'')]) ''id:a'' = None"
proof -
  let ?r = "pixel_registry [(''a'', ''id:a'')]"
  have own: "id_owners ?r ''id:a'' = Some ''id:a''" by (simp add: pixel_registry_def set_id_owners_def)
  have "read_groups 8 0 [] ''id:a'' = ([], False, ''id:a'')"
    by (simp add: read_groups.simps [of 8 0] read_separator_def read_ipv4_addr_def read_number_def radix_digit_def hex_digits_def)
  then have leaf: "parse_mac ''id:a'' = None" "parse_ip ''id:a'' = None"
    by (simp_all add: parse_mac_def parse_ip_def ip_from_str_def read_ipv4_addr_def read_ipv6_addr_def read_separator_def read_number_def
        read_given_char_def radix_digit_def hex_digits_def)
  have "d = ''id:a'' \<longrightarrow> r = ?r \<longrightarrow> False" if run: "describe_device r d = Some y" for r d y
    by (rule describe_device.raw_induct [where P = "\<lambda>r d y. d = ''id:a'' \<longrightarrow> r = ?r \<longrightarrow> False", OF _ run],
        clarsimp simp: id_owner_of_def bind_eq_Some_conv own leaf) blast
  then show ?thesis by (metis option.exhaust)
qed

end
