(* ===== verification/Handler.thy ===== *)
theory Handler
  imports Custom Gate Clients Blocklist
begin

text \<open>
  The DNS query pipeline: \<open>crates/dns/src/handler.rs\<close> over the context of \<open>ctx.rs\<close>, with the
  switches (\<open>switches.rs\<close>), the canaries (\<open>anti_doh.rs\<close>), the recording switches
  (\<open>core/src/recording.rs\<close>) and the counters (\<open>stats/src/live.rs\<close>) it uses.

  The third-party code is the record \<open>env\<close>. The routing hook is an interface of the pipeline
  (\<open>intercept.rs\<close>) and an argument, and so is the outcome of asking an upstream resolver. Every
  reading of the monotonic clock takes the next value of \<open>cx_clock\<close>, which nothing is assumed
  about. The half of the pipeline that waits for nothing is one function of the state; the
  half after the answer from upstream is another, of whatever the state has become by then,
  with the profile the client had kept as its position in a list of profiles that stays. A
  task that is spawned is put on a list and ended by an operation of its own.
\<close>

section \<open>The context\<close>

record DnsSwitches =
  sw_strip_ecs :: bool
  sw_dnssec :: bool
  sw_firefox_canary :: bool
  sw_block_private_relay :: bool
  sw_strip_ech :: bool

record RecordScope =
  scope_queries :: bool
  scope_stats :: bool

definition records_anything :: "RecordScope \<Rightarrow> bool" where
  "records_anything s \<longleftrightarrow> scope_queries s \<or> scope_stats s"

datatype QueryStatus = Upstream | Cached | Blocked | Allowed | Routed

record QueryEntry =
  qe_id :: u64
  qe_timestamp :: int
  qe_domain :: string
  qe_query_type :: u16
  qe_client_ip :: string
  qe_device :: string
  qe_status :: QueryStatus
  qe_latency_ms :: u32
  qe_upstream :: "string option"
  qe_rcode :: u8

record LiveStats =
  total_queries :: u64
  total_blocked :: u64
  total_allowed :: u64
  total_cached :: u64
  total_upstream :: u64
  total_routed :: u64
  total_dropped :: u64

fun record_query :: "LiveStats \<Rightarrow> QueryStatus \<Rightarrow> LiveStats" where
  "record_query s Blocked = s\<lparr>total_queries := total_queries s + 1, total_blocked := total_blocked s + 1\<rparr>"
| "record_query s Allowed = s\<lparr>total_queries := total_queries s + 1, total_allowed := total_allowed s + 1\<rparr>"
| "record_query s Cached = s\<lparr>total_queries := total_queries s + 1, total_cached := total_cached s + 1\<rparr>"
| "record_query s Upstream = s\<lparr>total_queries := total_queries s + 1, total_upstream := total_upstream s + 1\<rparr>"
| "record_query s Routed = s\<lparr>total_queries := total_queries s + 1, total_routed := total_routed s + 1\<rparr>"

record ('r, 'f, 'c, 'd, 'n, 'e, 'o) env =
  env_blk :: "('r, 'f, 'c) blk_env"
  env_lru :: "(CacheEntry, 'd) lru_lib"
  env_hickory :: "('n, 'e, 'o) hickory"

record Intercept =
  int_response :: DnsResponse
  int_egress_id :: string

record Interceptor =
  has_client_rules :: bool
  maybe_intercept :: "bytes \<Rightarrow> string \<Rightarrow> u16 \<Rightarrow> string \<Rightarrow> string option \<Rightarrow> string option \<Rightarrow> bool \<Rightarrow> Intercept option"

record Refresh =
  rf_key :: string
  rf_name :: string
  rf_qtype :: u16
  rf_dnssec :: bool
  rf_query :: bytes

record ('r, 'f, 'c, 'd, 'n, 'o) DnsCtx =
  switches :: DnsSwitches
  dns_cache :: "'d DnsCache"
  blocklist :: "('r, 'f, 'c) Blocklist"
  block_answer :: BlockAnswer
  custom_records :: "('n, 'o) CustomRecords"
  client_registry :: Registry
  live_stats :: LiveStats
  log_ignore :: "string list"
  client_ttl :: u32
  record_switches :: RecordScope
  query_semaphore :: nat
  client_gate :: ClientGate
  query_tx :: "QueryEntry list"
  query_tx_room :: nat
  query_tx_open :: bool
  query_counter :: u64
  refreshes :: "Refresh list"
  cx_clock :: "nat \<Rightarrow> nat"
  cx_reads :: nat
  cx_unix :: int

definition read_clock :: "('r, 'f, 'c, 'd, 'n, 'o) DnsCtx \<Rightarrow> nat \<times> ('r, 'f, 'c, 'd, 'n, 'o) DnsCtx" where
  "read_clock cx = (cx_clock cx (cx_reads cx), cx\<lparr>cx_reads := cx_reads cx + 1\<rparr>)"

definition seed_query_counter :: "('r, 'f, 'c, 'd, 'n, 'o) DnsCtx \<Rightarrow> u64 \<Rightarrow> ('r, 'f, 'c, 'd, 'n, 'o) DnsCtx" where
  "seed_query_counter cx m = cx\<lparr>query_counter := max (query_counter cx) (m + 1)\<rparr>"

record Pending =
  pd_name :: string
  pd_qtype :: u16
  pd_want_dnssec :: bool
  pd_filtering_enabled :: bool
  pd_profile :: "nat option"
  pd_client_addr :: IpAddr
  pd_client_text :: "string option"
  pd_device :: "string option"
  pd_log_ignored :: bool
  pd_client_ttl :: u32
  pd_start :: nat
  pd_rewrite :: "string option"

datatype Decision = D_Answer bytes | D_Upstream Pending | D_Drop

section \<open>The query log\<close>

definition make_entry :: "('r, 'f, 'c, 'd, 'n, 'o) DnsCtx \<Rightarrow> string \<Rightarrow> u16 \<Rightarrow> string \<Rightarrow> QueryStatus \<Rightarrow> u32 \<Rightarrow> string option \<Rightarrow> u8 \<Rightarrow>
    QueryEntry \<times> ('r, 'f, 'c, 'd, 'n, 'o) DnsCtx" where
  "make_entry cx domain qtype client_ip status latency up rc =
     (\<lparr>qe_id = query_counter cx, qe_timestamp = cx_unix cx, qe_domain = domain, qe_query_type = qtype, qe_client_ip = client_ip,
       qe_device = [], qe_status = status, qe_latency_ms = latency, qe_upstream = up, qe_rcode = rc\<rparr>,
      cx\<lparr>query_counter := query_counter cx + 1\<rparr>)"

definition try_send :: "('r, 'f, 'c, 'd, 'n, 'o) DnsCtx \<Rightarrow> QueryEntry \<Rightarrow> ('r, 'f, 'c, 'd, 'n, 'o) DnsCtx" where
  "try_send cx e =
     (if \<not> query_tx_open cx then cx
      else if length (query_tx cx) < query_tx_room cx then cx\<lparr>query_tx := query_tx cx @ [e]\<rparr>
      else cx\<lparr>live_stats := (live_stats cx)\<lparr>total_dropped := total_dropped (live_stats cx) + 1\<rparr>\<rparr>)"

text \<open>
  What is known of a finished query: the entry closure of each exit, with the device and the
  start of the query. The latency is read when the entry is built.
\<close>

record Exit =
  ex_name :: string
  ex_qtype :: u16
  ex_addr :: IpAddr
  ex_text :: "string option"
  ex_device :: "string option"
  ex_start :: nat
  ex_log_ignored :: bool

definition emit :: "('r, 'f, 'c, 'd, 'n, 'o) DnsCtx \<Rightarrow> Exit \<Rightarrow> QueryStatus \<Rightarrow> string option \<Rightarrow> u8 \<Rightarrow> ('r, 'f, 'c, 'd, 'n, 'o) DnsCtx" where
  "emit cx x status up rc =
     (let cx = cx\<lparr>live_stats := record_query (live_stats cx) status\<rparr> in
      if \<not> records_anything (record_switches cx) then cx
      else
        (let (now, cx) = read_clock cx;
             text = (case ex_text x of Some t \<Rightarrow> t | None \<Rightarrow> ip_to_string (ex_addr x));
             (entry, cx) = make_entry cx (ex_name x) (ex_qtype x) text status (word_of_nat ((now - ex_start x) div 1000000)) up rc;
             entry = (case ex_device x of Some d \<Rightarrow> entry\<lparr>qe_device := d\<rparr> | None \<Rightarrow> entry) in
         try_send cx entry))"

definition log_exit :: "('r, 'f, 'c, 'd, 'n, 'o) DnsCtx \<Rightarrow> Exit \<Rightarrow> QueryStatus \<Rightarrow> string option \<Rightarrow> u8 \<Rightarrow> ('r, 'f, 'c, 'd, 'n, 'o) DnsCtx" where
  "log_exit cx x status up rc = (if ex_log_ignored x then cx else emit cx x status up rc)"

section \<open>Canaries\<close>

definition FIREFOX_CANARY :: string where "FIREFOX_CANARY = ''use-application-dns.net''"

definition PRIVATE_RELAY_CANARIES :: "string list" where
  "PRIVATE_RELAY_CANARIES = [''mask.icloud.com'', ''mask-h2.icloud.com'']"

definition canary :: "string \<Rightarrow> DnsSwitches \<Rightarrow> string option" where
  "canary name sw =
     (if name = FIREFOX_CANARY \<and> sw_firefox_canary sw then Some ''canary:firefox-doh''
      else if name \<in> set PRIVATE_RELAY_CANARIES \<and> sw_block_private_relay sw then Some ''canary:private-relay''
      else None)"

section \<open>Decisions about names\<close>

definition ask_blocklist :: "('r, 'f, 'c, 'd, 'n, 'e, 'o) env \<Rightarrow> ('r, 'f, 'c, 'd, 'n, 'o) DnsCtx \<Rightarrow> string \<Rightarrow> nat option \<Rightarrow>
    bool \<times> ('r, 'f, 'c, 'd, 'n, 'o) DnsCtx" where
  "ask_blocklist V cx name profile =
     (let (now, cx) = read_clock cx;
          (verdict, b) = should_block_for (env_blk V) now (blocklist cx) name profile in
      (verdict, cx\<lparr>blocklist := b\<rparr>))"

text \<open>
  \<open>wire::find_cname_target\<close> with the block decision as its predicate, which changes the decision
  cache as it goes.
\<close>

definition cname_record :: "(string \<Rightarrow> 's \<Rightarrow> bool \<times> 's) \<Rightarrow> RecordRef \<Rightarrow> bytes \<times> 's \<Rightarrow> (bytes \<times> 's, CnameScan \<times> 's) flow rs" where
  "cname_record pred r st =
     (if rtype r = TYPE_CNAME \<and> rr_section r = Answer
      then (case read_name_lower (fst st) (rdata_off r) of
              Some target \<Rightarrow>
                (case pred target (snd st) of
                   (True, s) \<Rightarrow> Some (Return (C_Matched target, s))
                 | (False, s) \<Rightarrow> Some (Continue (fst st, s)))
            | None \<Rightarrow> Some (Return (C_Unsupported, snd st)))
      else Some (Continue st))"

definition cname_scan :: "bytes \<Rightarrow> (string \<Rightarrow> 's \<Rightarrow> bool \<times> 's) \<Rightarrow> 's \<Rightarrow> (CnameScan \<times> 's) rs" where
  "cname_scan msg pred s = do {
     new \<leftarrow> cursor_new msg;
     (case new of
        None \<Rightarrow> Some (C_NoMatch, s)
      | Some cur \<Rightarrow> cursor_loop (cname_record pred) (\<lambda>st. (C_NoMatch, snd st)) (\<lambda>st. (C_NoMatch, snd st)) cur (msg, s))
   }"

fun decoded_targets :: "('r, 'f, 'c, 'd, 'n, 'e, 'o) env \<Rightarrow> nat option \<Rightarrow> ('n, 'o) Record list \<Rightarrow> ('r, 'f, 'c, 'd, 'n, 'o) DnsCtx \<Rightarrow>
    string option \<times> ('r, 'f, 'c, 'd, 'n, 'o) DnsCtx" where
  "decoded_targets V profile [] cx = (None, cx)"
| "decoded_targets V profile (r # rs) cx =
     (case r_data r of
        RD_CNAME n \<Rightarrow>
          (let target = trim_end_char (\<lambda>c. c = CHR ''.'') (h_utf8_lower (env_hickory V) n) in
           case ask_blocklist V cx target profile of
             (True, cx) \<Rightarrow> (Some target, cx)
           | (False, cx) \<Rightarrow> decoded_targets V profile rs cx)
      | _ \<Rightarrow> decoded_targets V profile rs cx)"

definition cname_blocked_target_decoded :: "('r, 'f, 'c, 'd, 'n, 'e, 'o) env \<Rightarrow> ('r, 'f, 'c, 'd, 'n, 'o) DnsCtx \<Rightarrow> bytes \<Rightarrow> nat option \<Rightarrow>
    string option \<times> ('r, 'f, 'c, 'd, 'n, 'o) DnsCtx" where
  "cname_blocked_target_decoded V cx bs profile =
     (case h_from_bytes (env_hickory V) bs of
        None \<Rightarrow> (None, cx)
      | Some msg \<Rightarrow> decoded_targets V profile (answers msg) cx)"

definition cname_blocked_target :: "('r, 'f, 'c, 'd, 'n, 'e, 'o) env \<Rightarrow> ('r, 'f, 'c, 'd, 'n, 'o) DnsCtx \<Rightarrow> bytes \<Rightarrow> string \<Rightarrow> nat option \<Rightarrow>
    (string option \<times> ('r, 'f, 'c, 'd, 'n, 'o) DnsCtx) rs" where
  "cname_blocked_target V cx bs queried profile =
     (if is_allowed_for (env_blk V) (blocklist cx) queried profile then Some (None, cx)
      else do {
        (scan, cx) \<leftarrow> cname_scan bs (\<lambda>target cx. ask_blocklist V cx target profile) cx;
        Some (case scan of
          C_Matched target \<Rightarrow> (Some target, cx)
        | C_NoMatch \<Rightarrow> (None, cx)
        | C_Unsupported \<Rightarrow> cname_blocked_target_decoded V cx bs profile)
      })"

section \<open>Who is asking\<close>

definition device_key :: "string option \<Rightarrow> string option" where
  "device_key client_id = map_option (\<lambda>i. ''id:'' @ i) client_id"

definition exit_of :: "Pending \<Rightarrow> Exit" where
  "exit_of p = \<lparr>ex_name = pd_name p, ex_qtype = pd_qtype p, ex_addr = pd_client_addr p, ex_text = pd_client_text p,
     ex_device = pd_device p, ex_start = pd_start p, ex_log_ignored = pd_log_ignored p\<rparr>"

text \<open>
  Everything about the client and the settings that the steps below share, as the value that
  goes into the upstream leg, with the client's MAC. \<open>client_ip\<close> is the text of the address, or
  nothing when no setting is keyed on the client.
\<close>

definition client_ip_text :: "Pending \<Rightarrow> string" where
  "client_ip_text p = (case pd_client_text p of Some t \<Rightarrow> t | None \<Rightarrow> [])"

definition or_else :: "'a option \<Rightarrow> 'a option \<Rightarrow> 'a option" where
  "or_else a b = (case a of Some _ \<Rightarrow> a | None \<Rightarrow> b)"

definition noted_device :: "('r, 'f, 'c, 'd, 'n, 'o) DnsCtx \<Rightarrow> IpAddr \<Rightarrow> string option \<Rightarrow> ('r, 'f, 'c, 'd, 'n, 'o) DnsCtx" where
  "noted_device cx addr device =
     (case device of
        Some d \<Rightarrow> (let (now, cx) = read_clock cx in cx\<lparr>client_registry := note_device (client_registry cx) now addr d\<rparr>)
      | None \<Rightarrow> cx)"

definition client_scoped :: "Interceptor \<Rightarrow> ('r, 'f, 'c) Blocklist \<Rightarrow> bool" where
  "client_scoped I b \<longleftrightarrow> blocking_enabled b \<and> (has_client_exceptions b \<or> has_profiles b) \<or> has_client_rules I"

definition client_mac_of :: "Registry \<Rightarrow> bool \<Rightarrow> string option \<Rightarrow> IpAddr \<Rightarrow> string option" where
  "client_mac_of rg scoped device addr =
     (if scoped then or_else (Option.bind device (owner_mac rg)) (get_mac rg addr) else None)"

definition filtering_for :: "('r, 'f, 'c) Blocklist \<Rightarrow> bool \<Rightarrow> string option \<Rightarrow> string \<Rightarrow> string option \<Rightarrow> bool" where
  "filtering_for b scoped device client_ip m \<longleftrightarrow> blocking_enabled b \<and>
     \<not> (case device of Some d \<Rightarrow> scoped \<and> client_filtering_off_normalized b d None | None \<Rightarrow> False) \<and>
     \<not> client_filtering_off_normalized b client_ip m"

definition client_profile :: "('r, 'f, 'c) Blocklist \<Rightarrow> bool \<Rightarrow> string option \<Rightarrow> string \<Rightarrow> string option \<Rightarrow> nat option" where
  "client_profile b scoped device client_ip m =
     or_else (if scoped then Option.bind device (\<lambda>d. profile_for b d None) else None) (profile_for b client_ip m)"

definition identify :: "('r, 'f, 'c, 'd, 'n, 'e, 'o) env \<Rightarrow> Interceptor \<Rightarrow> ('r, 'f, 'c, 'd, 'n, 'o) DnsCtx \<Rightarrow> bytes \<Rightarrow> IpAddr \<Rightarrow>
    string option \<Rightarrow> nat \<Rightarrow> string \<Rightarrow> u16 \<Rightarrow> (Pending \<times> string option \<times> ('r, 'f, 'c, 'd, 'n, 'o) DnsCtx) rs" where
  "identify V I cx raw src device start name qtype = do {
     let addr = unmap_v4 src;
     let cx = noted_device cx addr device;
     let b = blocklist cx;
     let scoped = client_scoped I b;
     let client_mac = client_mac_of (client_registry cx) scoped device addr;
     let client_text = (if scoped then Some (ip_to_string addr) else None);
     let client_ip = (case client_text of Some t \<Rightarrow> t | None \<Rightarrow> []);
     let filtering = filtering_for b scoped device client_ip client_mac;
     let profile = (if filtering then client_profile b scoped device client_ip client_mac else None);
     want \<leftarrow> (if sw_dnssec (switches cx) then dnssec_ok (env_hickory V) raw else Some False);
     Some (\<lparr>pd_name = name, pd_qtype = qtype, pd_want_dnssec = want, pd_filtering_enabled = filtering, pd_profile = profile,
        pd_client_addr = addr, pd_client_text = client_text, pd_device = device,
        pd_log_ignored = is_log_ignored name (log_ignore cx), pd_client_ttl = client_ttl cx, pd_start = start,
        pd_rewrite = None\<rparr>, client_mac, cx)
   }"

section \<open>The steps that need no upstream\<close>

text \<open>
  A step either settles the query or leaves it to the next one. Every way to settle a query
  with an answer logs it; \<open>settled\<close> is that common end.
\<close>

definition settled :: "('r, 'f, 'c, 'd, 'n, 'o) DnsCtx \<Rightarrow> Pending \<Rightarrow> QueryStatus \<Rightarrow> string option \<Rightarrow> u8 \<Rightarrow> bytes \<Rightarrow>
    Decision option \<times> ('r, 'f, 'c, 'd, 'n, 'o) DnsCtx" where
  "settled cx p status up rc bs = (Some (D_Answer bs), log_exit cx (exit_of p) status up rc)"

definition insert_answer :: "('r, 'f, 'c, 'd, 'n, 'e, 'o) env \<Rightarrow> ('r, 'f, 'c, 'd, 'n, 'o) DnsCtx \<Rightarrow> string \<Rightarrow> u16 \<Rightarrow> bool \<Rightarrow> DnsResponse \<Rightarrow>
    ('r, 'f, 'c, 'd, 'n, 'o) DnsCtx rs" where
  "insert_answer V cx name qtype dnssec resp =
     (let (now, cx) = read_clock cx in
      map_option (\<lambda>d. cx\<lparr>dns_cache := d\<rparr>) (dns_insert (env_lru V) now (dns_cache cx) name (unat qtype) dnssec resp))"

definition step_custom :: "('r, 'f, 'c, 'd, 'n, 'e, 'o) env \<Rightarrow> bytes \<Rightarrow> Pending \<Rightarrow> ('r, 'f, 'c, 'd, 'n, 'o) DnsCtx \<Rightarrow>
    (Decision option \<times> ('r, 'f, 'c, 'd, 'n, 'o) DnsCtx) rs" where
  "step_custom V raw p cx =
     (case custom_lookup (env_hickory V) (custom_records cx) raw (pd_name p) (pd_qtype p) of
        None \<Rightarrow> Some (None, cx)
      | Some resp \<Rightarrow> do {
          cx \<leftarrow> insert_answer V cx (pd_name p) (pd_qtype p) (pd_want_dnssec p) resp;
          bs \<leftarrow> patch_id (resp_bytes resp) (query_id raw);
          bs \<leftarrow> capped bs (pd_client_ttl p);
          Some (settled cx p Allowed (Some ''custom'') 0 bs)
        })"

definition step_canary :: "('r, 'f, 'c, 'd, 'n, 'e, 'o) env \<Rightarrow> bytes \<Rightarrow> Pending \<Rightarrow> ('r, 'f, 'c, 'd, 'n, 'o) DnsCtx \<Rightarrow>
    (Decision option \<times> ('r, 'f, 'c, 'd, 'n, 'o) DnsCtx) rs" where
  "step_canary V raw p cx =
     (case canary (pd_name p) (switches cx) of
        None \<Rightarrow> Some (None, cx)
      | Some reason \<Rightarrow> do {
          bs \<leftarrow> build_nxdomain (env_hickory V) raw (pd_client_ttl p);
          Some (settled cx p Blocked (Some reason) 3 bs)
        })"

text \<open>The answer of a blocked name, logged with its response code and what blocked it.\<close>

definition answer_blocked :: "('r, 'f, 'c, 'd, 'n, 'e, 'o) env \<Rightarrow> bytes \<Rightarrow> Pending \<Rightarrow> string option \<Rightarrow> ('r, 'f, 'c, 'd, 'n, 'o) DnsCtx \<Rightarrow>
    (Decision option \<times> ('r, 'f, 'c, 'd, 'n, 'o) DnsCtx) rs" where
  "answer_blocked V raw p up cx = do {
     (bs, rc) \<leftarrow> build_blocked (env_hickory V) raw (pd_qtype p) (pd_client_ttl p) (block_answer cx);
     Some (settled cx p Blocked up rc bs)
   }"

definition step_block :: "('r, 'f, 'c, 'd, 'n, 'e, 'o) env \<Rightarrow> bytes \<Rightarrow> Pending \<Rightarrow> ('r, 'f, 'c, 'd, 'n, 'o) DnsCtx \<Rightarrow>
    (Decision option \<times> ('r, 'f, 'c, 'd, 'n, 'o) DnsCtx) rs" where
  "step_block V raw p cx =
     (if \<not> pd_filtering_enabled p then Some (None, cx)
      else
        (case ask_blocklist V cx (pd_name p) (pd_profile p) of
           (True, cx) \<Rightarrow> answer_blocked V raw p None cx
         | (False, cx) \<Rightarrow> Some (None, cx)))"

text \<open>A reading of the cache: two readings of the clock, and the time left of a fresh entry.\<close>

definition cached_answer :: "('r, 'f, 'c, 'd, 'n, 'e, 'o) env \<Rightarrow> ('r, 'f, 'c, 'd, 'n, 'o) DnsCtx \<Rightarrow> string \<Rightarrow> u16 \<Rightarrow> bool \<Rightarrow>
    ((DnsResponse \<times> nat) option \<times> ('r, 'f, 'c, 'd, 'n, 'o) DnsCtx) rs" where
  "cached_answer V cx name qtype dnssec =
     (let (now, cx) = read_clock cx; (now', cx) = read_clock cx in
      map_option (\<lambda>r. (r, cx)) (get_with_remaining (env_lru V) now now' (dns_cache cx) name (unat qtype) dnssec))"

definition ttl_min :: "nat \<Rightarrow> u32 \<Rightarrow> u32" where
  "ttl_min remaining max_ttl = word_of_nat (min remaining (unat max_ttl))"

definition step_safe :: "('r, 'f, 'c, 'd, 'n, 'e, 'o) env \<Rightarrow> bytes \<Rightarrow> Pending \<Rightarrow> ('r, 'f, 'c, 'd, 'n, 'o) DnsCtx \<Rightarrow>
    (Decision option \<times> ('r, 'f, 'c, 'd, 'n, 'o) DnsCtx) rs" where
  "step_safe V raw p cx =
     (case (if pd_filtering_enabled p then safe_search_target (env_blk V) (blocklist cx) (pd_name p) (pd_profile p) else None) of
        None \<Rightarrow> Some (None, cx)
      | Some target \<Rightarrow> do {
          (hit, cx) \<leftarrow> cached_answer V cx target (pd_qtype p) False;
          (case Option.bind hit (\<lambda>(resp, left).
                  map_option (\<lambda>bs. (bs, left)) (rewrite_answer (env_hickory V) raw (pd_name p) target (resp_bytes resp))) of
             Some (bs, left) \<Rightarrow> do {
               bs \<leftarrow> capped bs (ttl_min left (pd_client_ttl p));
               Some (settled cx p Cached (Some (''safesearch:'' @ target)) 0 bs)
             }
           | None \<Rightarrow> Some (Some (D_Upstream (p\<lparr>pd_want_dnssec := False, pd_rewrite := Some target\<rparr>)), cx))
        })"

definition step_route :: "Interceptor \<Rightarrow> bytes \<Rightarrow> Pending \<Rightarrow> string option \<Rightarrow> ('r, 'f, 'c, 'd, 'n, 'o) DnsCtx \<Rightarrow>
    (Decision option \<times> ('r, 'f, 'c, 'd, 'n, 'o) DnsCtx) rs" where
  "step_route I raw p client_mac cx =
     (let away = (\<not> is_local (pd_client_addr p)) in
      case (if \<not> away \<or> pd_device p \<noteq> None
            then maybe_intercept I raw (pd_name p) (pd_qtype p) (client_ip_text p) client_mac (pd_device p) away else None) of
        None \<Rightarrow> Some (None, cx)
      | Some i \<Rightarrow> do {
          bs \<leftarrow> patch_id (resp_bytes (int_response i)) (query_id raw);
          bs \<leftarrow> capped bs (pd_client_ttl p);
          Some (settled cx p Routed (Some (''proxy:'' @ int_egress_id i)) 0 bs)
        })"

text \<open>
  A refresh in the background takes a permit and the mark on its key. The task is put on
  \<open>refreshes\<close>; its end is \<open>refresh_done\<close>.
\<close>

definition refresh_stale :: "('r, 'f, 'c, 'd, 'n, 'e, 'o) env \<Rightarrow> bytes \<Rightarrow> string \<Rightarrow> u16 \<Rightarrow> bool \<Rightarrow> ('r, 'f, 'c, 'd, 'n, 'o) DnsCtx \<Rightarrow>
    ('r, 'f, 'c, 'd, 'n, 'o) DnsCtx rs" where
  "refresh_stale V raw name qtype dnssec cx =
     (let key = cache_key name (unat qtype) dnssec in
      if query_semaphore cx = 0 then Some cx
      else
        (case begin_refresh (dns_cache cx) key of
           (False, d) \<Rightarrow> Some (cx\<lparr>dns_cache := d\<rparr>)
         | (True, d) \<Rightarrow> do {
             let cx = cx\<lparr>dns_cache := d\<rparr>;
             q \<leftarrow> sanitize_query (env_hickory V) raw (sw_strip_ecs (switches cx)) dnssec;
             Some (cx\<lparr>query_semaphore := query_semaphore cx - 1, refreshes := refreshes cx @
               [\<lparr>rf_key = key, rf_name = name, rf_qtype = qtype, rf_dnssec = dnssec, rf_query = q\<rparr>]\<rparr>)
           }))"

definition cache_if_ok :: "('r, 'f, 'c, 'd, 'n, 'e, 'o) env \<Rightarrow> ('r, 'f, 'c, 'd, 'n, 'o) DnsCtx \<Rightarrow> string \<Rightarrow> u16 \<Rightarrow> bool \<Rightarrow> bytes \<Rightarrow>
    ('r, 'f, 'c, 'd, 'n, 'o) DnsCtx rs" where
  "cache_if_ok V cx name qtype dnssec bs = do {
     t \<leftarrow> cache_ttl bs;
     (case t of
        None \<Rightarrow> Some cx
      | Some ttl \<Rightarrow> insert_answer V cx name qtype dnssec \<lparr>resp_bytes = bs, resp_ttl = unat ttl\<rparr>)
   }"

definition refresh_done :: "('r, 'f, 'c, 'd, 'n, 'e, 'o) env \<Rightarrow> Refresh \<Rightarrow> (bytes \<times> string) option \<Rightarrow> ('r, 'f, 'c, 'd, 'n, 'o) DnsCtx \<Rightarrow>
    ('r, 'f, 'c, 'd, 'n, 'o) DnsCtx rs" where
  "refresh_done V f reply cx = do {
     rc \<leftarrow> (case reply of Some (bs, _) \<Rightarrow> rcode bs | None \<Rightarrow> Some None);
     cx \<leftarrow> (case reply of
        Some (bs, _) \<Rightarrow>
          if rc = Some 0 then
            cache_if_ok V cx (rf_name f) (rf_qtype f) (rf_dnssec f)
              (without_ech (env_hickory V) bs (rf_qtype f) (sw_strip_ech (switches cx)))
          else Some cx
      | None \<Rightarrow> Some cx);
     Some (cx\<lparr>dns_cache := end_refresh (dns_cache cx) (rf_key f), query_semaphore := query_semaphore cx + 1,
       refreshes := remove1 f (refreshes cx)\<rparr>)
   }"

definition step_cache :: "('r, 'f, 'c, 'd, 'n, 'e, 'o) env \<Rightarrow> bytes \<Rightarrow> Pending \<Rightarrow> ('r, 'f, 'c, 'd, 'n, 'o) DnsCtx \<Rightarrow>
    (Decision option \<times> ('r, 'f, 'c, 'd, 'n, 'o) DnsCtx) rs" where
  "step_cache V raw p cx = do {
     (fresh, cx) \<leftarrow> cached_answer V cx (pd_name p) (pd_qtype p) (pd_want_dnssec p);
     (hit, cx) \<leftarrow> (case fresh of
        Some (resp, left) \<Rightarrow> Some (Some (resp, left, False), cx)
      | None \<Rightarrow>
          (let (now, cx) = read_clock cx in
           map_option (\<lambda>r. (map_option (\<lambda>resp. (resp, STALE_ANSWER_TTL, True)) r, cx))
             (get_stale (env_lru V) now (dns_cache cx) (pd_name p) (unat (pd_qtype p)) (pd_want_dnssec p))));
     (case hit of
        None \<Rightarrow> Some (None, cx)
      | Some (resp, left, stale) \<Rightarrow> do {
          cx \<leftarrow> (if stale then refresh_stale V raw (pd_name p) (pd_qtype p) (pd_want_dnssec p) cx else Some cx);
          (bad, cx) \<leftarrow> (if pd_filtering_enabled p
            then cname_blocked_target V cx (resp_bytes resp) (pd_name p) (pd_profile p) else Some (None, cx));
          (case bad of
             Some target \<Rightarrow> answer_blocked V raw p (Some (''cname:'' @ target)) cx
           | None \<Rightarrow> do {
               bs \<leftarrow> patch_cached (resp_bytes resp) (query_id raw) (ttl_min left (pd_client_ttl p));
               Some (settled cx p Cached (if stale then Some ''stale'' else None) 0 bs)
             })
        })
   }"

section \<open>Deciding\<close>

definition and_then :: "(Decision option \<times> 's) rs \<Rightarrow> ('s \<Rightarrow> (Decision option \<times> 's) rs) \<Rightarrow> (Decision option \<times> 's) rs" where
  "and_then m f = do {
     (d, s) \<leftarrow> m;
     (case d of Some _ \<Rightarrow> Some (d, s) | None \<Rightarrow> f s)
   }"

definition local_steps :: "('r, 'f, 'c, 'd, 'n, 'e, 'o) env \<Rightarrow> Interceptor \<Rightarrow> bytes \<Rightarrow> Pending \<Rightarrow> string option \<Rightarrow>
    ('r, 'f, 'c, 'd, 'n, 'o) DnsCtx \<Rightarrow> (Decision option \<times> ('r, 'f, 'c, 'd, 'n, 'o) DnsCtx) rs" where
  "local_steps V I raw p client_mac cx =
     and_then (and_then (and_then (and_then (and_then (step_custom V raw p cx)
       (step_canary V raw p))
       (step_block V raw p))
       (step_safe V raw p))
       (step_route I raw p client_mac))
       (step_cache V raw p)"

definition decide_as :: "('r, 'f, 'c, 'd, 'n, 'e, 'o) env \<Rightarrow> Interceptor \<Rightarrow> ('r, 'f, 'c, 'd, 'n, 'o) DnsCtx \<Rightarrow> bytes \<Rightarrow> IpAddr \<Rightarrow>
    string option \<Rightarrow> (Decision \<times> ('r, 'f, 'c, 'd, 'n, 'o) DnsCtx) rs" where
  "decide_as V I cx raw src client_id = do {
     let H = env_hickory V;
     let (start, cx) = read_clock cx;
     let device = device_key client_id;
     let (now, cx) = read_clock cx;
     let (verdict, g) = check (client_gate cx) src now;
     let cx = cx\<lparr>client_gate := g\<rparr>;
     (case verdict of
        Drop \<Rightarrow> Some (D_Drop, cx)
      | Refuse \<Rightarrow> do { bs \<leftarrow> build_error H raw Refused; Some (D_Answer bs, cx) }
      | Pass \<Rightarrow> do {
          if opcode raw \<noteq> Some OPCODE_QUERY then do { bs \<leftarrow> build_servfail H raw; Some (D_Answer bs, cx) }
          else do {
            q \<leftarrow> handler_question H raw;
            (case q of
               None \<Rightarrow>
                 (case message H raw of
                    Some _ \<Rightarrow> do { bs \<leftarrow> build_servfail H raw; Some (D_Answer bs, cx) }
                  | None \<Rightarrow> Some (D_Drop, cx))
             | Some (name, qtype) \<Rightarrow> do {
                 (p, client_mac, cx) \<leftarrow> identify V I cx raw src device start name qtype;
                 (d, cx) \<leftarrow> local_steps V I raw p client_mac cx;
                 Some (case d of Some d \<Rightarrow> d | None \<Rightarrow> D_Upstream p, cx)
               })
          }
        })
   }"

definition decide_unnamed :: "('r, 'f, 'c, 'd, 'n, 'e, 'o) env \<Rightarrow> Interceptor \<Rightarrow> ('r, 'f, 'c, 'd, 'n, 'o) DnsCtx \<Rightarrow> bytes \<Rightarrow> IpAddr \<Rightarrow>
    (Decision \<times> ('r, 'f, 'c, 'd, 'n, 'o) DnsCtx) rs" where
  "decide_unnamed V I cx raw src = decide_as V I cx raw src None"

section \<open>The upstream leg\<close>

text \<open>
  The query sent upstream, and what is done with the outcome, in the state the context has by
  then. The outcome is the bytes with the label of the resolver, or an error.
\<close>

definition upstream_query :: "('r, 'f, 'c, 'd, 'n, 'e, 'o) env \<Rightarrow> ('r, 'f, 'c, 'd, 'n, 'o) DnsCtx \<Rightarrow> bytes \<Rightarrow> Pending \<Rightarrow> bytes option rs" where
  "upstream_query V cx raw p =
     (case pd_rewrite p of
        Some target \<Rightarrow>
          (case target_query (env_hickory V) (query_id raw) target (pd_qtype p) of
             Some q \<Rightarrow> map_option Some (sanitize_query (env_hickory V) q (sw_strip_ecs (switches cx)) False)
           | None \<Rightarrow> Some None)
      | None \<Rightarrow> map_option Some (sanitize_query (env_hickory V) raw (sw_strip_ecs (switches cx)) (pd_want_dnssec p)))"

definition resolve_safe_host :: "('r, 'f, 'c, 'd, 'n, 'e, 'o) env \<Rightarrow> ('r, 'f, 'c, 'd, 'n, 'o) DnsCtx \<Rightarrow> bytes \<Rightarrow> string \<Rightarrow> u16 \<Rightarrow> string \<Rightarrow>
    (bytes \<times> string) option \<Rightarrow> (bytes \<times> ('r, 'f, 'c, 'd, 'n, 'o) DnsCtx) rs" where
  "resolve_safe_host V cx raw name qtype target reply = do {
     servfail \<leftarrow> build_servfail (env_hickory V) raw;
     (case reply of
        None \<Rightarrow> Some (servfail, cx)
      | Some (bs, _) \<Rightarrow> do {
          rc \<leftarrow> rcode bs;
          (case rc of
             None \<Rightarrow> Some (servfail, cx)
           | Some c \<Rightarrow> do {
               cx \<leftarrow> (if c = 0 then cache_if_ok V cx target qtype False bs else Some cx);
               Some (case rewrite_answer (env_hickory V) raw name target bs of Some out \<Rightarrow> out | None \<Rightarrow> servfail, cx)
             })
        })
   }"

definition usable_reply :: "('r, 'f, 'c, 'd, 'n, 'e, 'o) env \<Rightarrow> bytes \<Rightarrow> (bytes \<times> string) option \<Rightarrow> (bytes \<times> u8 \<times> string option) rs" where
  "usable_reply V raw reply = do {
     servfail \<leftarrow> build_servfail (env_hickory V) raw;
     (case reply of
        None \<Rightarrow> Some (servfail, 2, None)
      | Some (bs, label) \<Rightarrow> do {
          rc \<leftarrow> rcode bs;
          Some (case rc of Some c \<Rightarrow> (bs, c, Some label) | None \<Rightarrow> (servfail, 2, None))
        })
   }"

definition resolve_finish :: "('r, 'f, 'c, 'd, 'n, 'e, 'o) env \<Rightarrow> ('r, 'f, 'c, 'd, 'n, 'o) DnsCtx \<Rightarrow> bytes \<Rightarrow> Pending \<Rightarrow>
    (bytes \<times> string) option \<Rightarrow> (bytes \<times> ('r, 'f, 'c, 'd, 'n, 'o) DnsCtx) rs" where
  "resolve_finish V cx raw p reply =
     (case pd_rewrite p of
        Some target \<Rightarrow> do {
          (bs, cx) \<leftarrow> resolve_safe_host V cx raw (pd_name p) (pd_qtype p) target reply;
          rc \<leftarrow> rcode bs;
          let cx = log_exit cx (exit_of p) Upstream (Some (''safesearch:'' @ target)) (case rc of Some c \<Rightarrow> c | None \<Rightarrow> 2);
          out \<leftarrow> capped bs (pd_client_ttl p);
          Some (out, cx)
        }
      | None \<Rightarrow> do {
          (bs, rc, label) \<leftarrow> usable_reply V raw reply;
          let bs = without_ech (env_hickory V) bs (pd_qtype p) (sw_strip_ech (switches cx));
          (bad, cx) \<leftarrow> (if rc = 0 \<and> pd_filtering_enabled p
            then cname_blocked_target V cx bs (pd_name p) (pd_profile p) else Some (None, cx));
          (case bad of
             Some target \<Rightarrow> do {
               (bs, rc) \<leftarrow> build_blocked (env_hickory V) raw (pd_qtype p) (pd_client_ttl p) (block_answer cx);
               Some (bs, log_exit cx (exit_of p) Blocked (Some (''cname:'' @ target)) rc)
             }
           | None \<Rightarrow> do {
               cx \<leftarrow> (if rc = 0 \<and> bs \<noteq> [] then cache_if_ok V cx (pd_name p) (pd_qtype p) (pd_want_dnssec p) bs else Some cx);
               let cx = log_exit cx (exit_of p) Upstream label rc;
               out \<leftarrow> capped bs (pd_client_ttl p);
               Some (out, cx)
             })
        })"

definition resolve_upstream :: "('r, 'f, 'c, 'd, 'n, 'e, 'o) env \<Rightarrow> (bytes \<Rightarrow> (bytes \<times> string) option) \<Rightarrow> ('r, 'f, 'c, 'd, 'n, 'o) DnsCtx \<Rightarrow>
    bytes \<Rightarrow> Pending \<Rightarrow> (bytes \<times> ('r, 'f, 'c, 'd, 'n, 'o) DnsCtx) rs" where
  "resolve_upstream V resolve_raw cx raw p = do {
     q \<leftarrow> upstream_query V cx raw p;
     resolve_finish V cx raw p (Option.bind q resolve_raw)
   }"

definition handle_query_as :: "('r, 'f, 'c, 'd, 'n, 'e, 'o) env \<Rightarrow> Interceptor \<Rightarrow> (bytes \<Rightarrow> (bytes \<times> string) option) \<Rightarrow>
    ('r, 'f, 'c, 'd, 'n, 'o) DnsCtx \<Rightarrow> bytes \<Rightarrow> IpAddr \<Rightarrow> string option \<Rightarrow> (bytes \<times> ('r, 'f, 'c, 'd, 'n, 'o) DnsCtx) rs" where
  "handle_query_as V I resolve_raw cx raw src client_id = do {
     (d, cx) \<leftarrow> decide_as V I cx raw src client_id;
     (case d of
        D_Answer bs \<Rightarrow> Some (bs, cx)
      | D_Upstream p \<Rightarrow> resolve_upstream V resolve_raw cx raw p
      | D_Drop \<Rightarrow> Some ([], cx))
   }"

definition handle_query :: "('r, 'f, 'c, 'd, 'n, 'e, 'o) env \<Rightarrow> Interceptor \<Rightarrow> (bytes \<Rightarrow> (bytes \<times> string) option) \<Rightarrow>
    ('r, 'f, 'c, 'd, 'n, 'o) DnsCtx \<Rightarrow> bytes \<Rightarrow> IpAddr \<Rightarrow> (bytes \<times> ('r, 'f, 'c, 'd, 'n, 'o) DnsCtx) rs" where
  "handle_query V I resolve_raw cx raw src = handle_query_as V I resolve_raw cx raw src None"

end
