(* ===== verification/Handler_Correct.thy ===== *)
theory Handler_Correct
  imports Handler Dns_Reply Dns_Cache_Correct Blocklist_Correct Wire_Correct
begin

text \<open>
  The correctness of the query pipeline. The locale \<open>ctx_invariant\<close> carries a property of the
  context through both halves of the pipeline from the elementary operations on it; it is
  interpreted for the accounting of the cache, the permits and the refreshes, and for the log
  of a server that records nothing.
\<close>

section \<open>Scanning with a decision that has state\<close>

lemma cname_scan_ok:
  fixes s :: 'a
  assumes "P s" and "\<And>target s. P s \<Longrightarrow> P (snd (pred target s))"
  shows "\<exists>r s'. cname_scan msg pred s = Some (r, s') \<and> P s'"
proof -
  obtain c where c: "cursor_new msg = Some c" using cursor_new_total by blast
  show ?thesis
  proof (cases c)
    case (Some cur)
    then have ok: "cursor_ok cur" using c cursor_new_ok by simp
    have "\<exists>x. cursor_loop (cname_record pred) (\<lambda>st. (C_NoMatch, snd st)) (\<lambda>st. (C_NoMatch, snd st)) cur (msg, s) = Some x \<and> P (snd x)"
    proof (rule cursor_loop_rule [where I = "\<lambda>c st. P (snd st)" and Q = "\<lambda>x. P (snd x)"])
      fix c c' r and st :: "bytes \<times> 'a"
      assume "P (snd st)"
      then show "(\<exists>x. cname_record pred r st = Some (Return x) \<and> P (snd x)) \<or>
          (\<exists>st'. cname_record pred r st = Some (Continue st') \<and> P (snd st'))"
        using assms(2) [of "snd st"]
        by (cases st) (auto simp: cname_record_def split: option.splits prod.splits bool.splits, (metis snd_conv)+)
    qed (use ok assms(1) in auto)
    then show ?thesis using c Some by (auto simp: cname_scan_def)
  qed (use assms(1) c in \<open>auto simp: cname_scan_def\<close>)
qed

lemma sanitize_query_total: "\<exists>q. sanitize_query H raw strip want = Some q"
proof -
  obtain e where e: "edns raw = Some e" using edns_total [of raw] by blast
  show ?thesis
  proof (cases e)
    case (Opt opt)
    then obtain rs r where rs: "records raw = Some rs" "find is_opt rs = Some r" and opt: "opt = edns_ref raw r"
      using e by (auto simp: edns_eq split: option.splits)
    from rs(2) have "r \<in> set rs" by (auto simp: find_Some_iff)
    then have "record_in raw r" using records_ordered(2) [OF rs(1)] by blast
    then have "ttl_off r - 2 + 2 \<le> length raw" "ttl_off r + 2 < length raw" by (auto simp: record_in_def)
    then show ?thesis
      using e Opt opt by (simp add: sanitize_query_def set_dnssec_ok_def edns_ref_def rs_simps set_at_def
          set_udp_payload_def copy_at_def u16_bytes_def)
  qed (use e in \<open>auto simp: sanitize_query_def\<close>)
qed

lemma decide_as_eq:
  assumes "check (client_gate cx) src (cx_clock cx (Suc (cx_reads cx))) = (v, g)" and "handler_question (env_hickory V) raw = Some q"
  shows "decide_as V I cx raw src client_id = (case v of
      Drop \<Rightarrow> Some (D_Drop, cx\<lparr>cx_reads := Suc (Suc (cx_reads cx)), client_gate := g\<rparr>)
    | Refuse \<Rightarrow> do { bs \<leftarrow> build_error (env_hickory V) raw Refused; Some (D_Answer bs, cx\<lparr>cx_reads := Suc (Suc (cx_reads cx)), client_gate := g\<rparr>) }
    | Pass \<Rightarrow>
        if opcode raw \<noteq> Some OPCODE_QUERY then do { bs \<leftarrow> build_servfail (env_hickory V) raw; Some (D_Answer bs, cx\<lparr>cx_reads := Suc (Suc (cx_reads cx)), client_gate := g\<rparr>) }
        else (case q of
            None \<Rightarrow>
              (case message (env_hickory V) raw of
                 Some _ \<Rightarrow> do { bs \<leftarrow> build_servfail (env_hickory V) raw; Some (D_Answer bs, cx\<lparr>cx_reads := Suc (Suc (cx_reads cx)), client_gate := g\<rparr>) }
               | None \<Rightarrow> Some (D_Drop, cx\<lparr>cx_reads := Suc (Suc (cx_reads cx)), client_gate := g\<rparr>))
          | Some (name, qtype) \<Rightarrow> do {
              (p, client_mac, cx) \<leftarrow> identify V I (cx\<lparr>cx_reads := Suc (Suc (cx_reads cx)), client_gate := g\<rparr>) raw src (device_key client_id) (cx_clock cx (cx_reads cx)) name qtype;
              (d, cx) \<leftarrow> local_steps V I raw p client_mac cx;
              Some (case d of Some d \<Rightarrow> d | None \<Rightarrow> D_Upstream p, cx)
            }))"
  using assms by (cases v; cases q; cases "message (env_hickory V) raw") (simp_all add: decide_as_def read_clock_def Let_def)

section \<open>Properties carried through the pipeline\<close>

locale ctx_invariant =
  fixes V :: "('r, 'f, 'c, 'd, 'n, 'e, 'o) env"
    and P :: "('r, 'f, 'c, 'd, 'n, 'o) DnsCtx \<Rightarrow> bool"
  assumes P_reads: "P cx \<Longrightarrow> P (cx\<lparr>cx_reads := n\<rparr>)"
    and P_gate: "P cx \<Longrightarrow> P (cx\<lparr>client_gate := g\<rparr>)"
    and P_registry: "P cx \<Longrightarrow> P (cx\<lparr>client_registry := rg\<rparr>)"
    and P_blocklist: "P cx \<Longrightarrow> P (cx\<lparr>blocklist := b\<rparr>)"
    and P_log: "P cx \<Longrightarrow> P (log_exit cx x st up rc)"
    and P_insert: "P cx \<Longrightarrow> \<exists>cx'. insert_answer V cx name qtype dnssec resp = Some cx' \<and> P cx'"
    and P_refresh: "P cx \<Longrightarrow> \<exists>cx'. refresh_stale V raw name qtype dnssec cx = Some cx' \<and> P cx'"
begin

definition good :: "('a \<times> ('r, 'f, 'c, 'd, 'n, 'o) DnsCtx) rs \<Rightarrow> bool" where
  "good m \<longleftrightarrow> (\<exists>a cx. m = Some (a, cx) \<and> P cx)"

lemma good_Some [simp]: "good (Some (a, cx)) \<longleftrightarrow> P cx"
  by (simp add: good_def)

lemma good_bind: "good m \<Longrightarrow> (\<And>a cx. P cx \<Longrightarrow> good (f (a, cx))) \<Longrightarrow> good (Option.bind m f)"
  by (auto simp: good_def)

lemma good_bind': "good m \<Longrightarrow> (\<And>a cx. P cx \<Longrightarrow> good (f a cx)) \<Longrightarrow> good (Option.bind m (\<lambda>(a, cx). f a cx))"
  by (auto simp: good_def)

lemma good_value: "m \<noteq> None \<Longrightarrow> (\<And>a. good (f a)) \<Longrightarrow> good (Option.bind m f)"
  by auto

lemma good_and_then: "good m \<Longrightarrow> (\<And>cx. P cx \<Longrightarrow> good (f cx)) \<Longrightarrow> good (and_then m f)"
  by (auto simp: and_then_def good_def split: option.splits)

lemma read_clock_P: "P cx \<Longrightarrow> read_clock cx = (now, cx') \<Longrightarrow> P cx'"
  using P_reads by (auto simp: read_clock_def)

lemma ask_P: "P cx \<Longrightarrow> P (snd (ask_blocklist V cx name profile))"
  using P_blocklist P_reads by (auto simp: ask_blocklist_def read_clock_def split: prod.splits)

lemma settled_good: "P cx \<Longrightarrow> good (Some (settled cx p st up rc bs))"
  using P_log by (simp add: settled_def)

lemma decoded_P: "P cx \<Longrightarrow> P (snd (decoded_targets V profile rs cx))"
proof (induction rs arbitrary: cx)
  case (Cons r rs)
  have "P (snd (case ask_blocklist V cx t profile of (True, cx) \<Rightarrow> (Some t, cx) | (False, cx) \<Rightarrow> decoded_targets V profile rs cx))" for t
    using ask_P [OF Cons.prems, of t profile] Cons.IH by (auto split: prod.splits bool.splits)
  then show ?case using Cons by (auto simp: Let_def split: RData.splits)
qed simp

lemma cname_good: "P cx \<Longrightarrow> good (cname_blocked_target V cx bs queried profile)"
  using cname_scan_ok [of P cx "\<lambda>target cx. ask_blocklist V cx target profile" bs] ask_P decoded_P
  by (fastforce simp: cname_blocked_target_def cname_blocked_target_decoded_def good_def split: CnameScan.splits option.splits
      intro: prod.collapse [symmetric])

lemma get_stale_total: "\<exists>r. get_stale L now d name (unat (qtype :: u16)) dnssec = Some r"
  using with_key_cache_key [OF unat_u16_less] by (simp add: get_stale_def Let_def)

lemma cached_good: "P cx \<Longrightarrow> good (cached_answer V cx name qtype dnssec)"
  using with_key_cache_key [OF unat_u16_less] P_reads
  by (simp add: cached_answer_def read_clock_def get_with_remaining_def good_def)

lemma blocked_good: "P cx \<Longrightarrow> good (answer_blocked V raw p up cx)"
  using build_blocked_total [of "env_hickory V" raw "pd_qtype p" "pd_client_ttl p" "block_answer cx"] settled_good
  by (auto simp: answer_blocked_def)

lemma deliver_total: "\<exists>out. capped bs ttl = Some out" "\<exists>out. patch_id bs txid = Some out"
    "\<exists>out. patch_cached bs txid ttl = Some out"
proof -
  have rw: "\<exists>r. rewrite_ttls m f = Some r" for m f using rewrite_ttls_total [of m f] by blast
  have txid: "\<exists>out. set_id bs txid = Some out" by (simp add: set_id_def copy_at_def)
  show "\<exists>out. capped bs ttl = Some out" using rw by (force simp: capped_def cap_ttls_def)
  show "\<exists>out. patch_id bs txid = Some out" using txid by (simp add: patch_id_def)
  show "\<exists>out. patch_cached bs txid ttl = Some out" 
  proof -
    obtain out where "set_id bs txid = Some out" using txid by blast
    moreover obtain r where "set_ttls out ttl = Some r" unfolding set_ttls_def using rw by blast
    ultimately show ?thesis by (simp add: patch_cached_def)
  qed
qed

lemma identify_good:
  assumes "P cx"
  shows "\<exists>p m cx'. identify V I cx raw src device start name qtype = Some (p, m, cx') \<and> P cx'"
proof -
  have "P (noted_device cx addr device)" for addr
    using assms P_reads P_registry by (simp add: noted_device_def read_clock_def split: option.splits)
  moreover obtain d where "dnssec_ok (env_hickory V) raw = Some d" using edns_total [of raw] by (auto simp: dnssec_ok_def)
  ultimately show ?thesis by (simp add: identify_def Let_def)
qed

lemma deliver_good:
  assumes "P cx"
  shows "good (do { bs \<leftarrow> patch_id bs txid; bs \<leftarrow> capped bs ttl; Some (settled cx p st up rc bs) })"
    and "good (do { bs \<leftarrow> capped bs ttl; Some (settled cx p st up rc bs) })"
    and "good (do { bs \<leftarrow> patch_cached bs txid ttl; Some (settled cx p st up rc bs) })"
  by (intro good_value settled_good assms; use deliver_total in \<open>simp\<close>)+

lemma custom_good:
  assumes "P cx"
  shows "good (step_custom V raw p cx)"
proof (cases "custom_lookup (env_hickory V) (custom_records cx) raw (pd_name p) (pd_qtype p)")
  case (Some resp)
  obtain cx' where "insert_answer V cx (pd_name p) (pd_qtype p) (pd_want_dnssec p) resp = Some cx'" "P cx'"
    using P_insert [OF assms] by blast
  then show ?thesis using Some deliver_good(1) by (simp add: step_custom_def)
qed (simp add: step_custom_def assms)

lemma canary_good: "P cx \<Longrightarrow> good (step_canary V raw p cx)"
  using build_negative_total [of "env_hickory V" raw "pd_client_ttl p" NXDomain] settled_good
  by (auto simp: step_canary_def build_nxdomain_def split: option.splits)

lemma block_good: "P cx \<Longrightarrow> good (step_block V raw p cx)"
  using ask_P [of cx "pd_name p" "pd_profile p"] blocked_good by (auto simp: step_block_def split: prod.splits bool.splits)

lemma route_good: "P cx \<Longrightarrow> good (step_route I raw p m cx)"
  by (auto simp: step_route_def Let_def split: option.splits intro!: deliver_good)

lemma safe_good: "P cx \<Longrightarrow> good (step_safe V raw p cx)"
  unfolding step_safe_def
  by (auto intro!: good_bind' cached_good deliver_good split: option.splits)

lemma cache_good: "P cx \<Longrightarrow> good (step_cache V raw p cx)"
  unfolding step_cache_def
proof (intro good_bind' cached_good, assumption)
  fix fresh cx
  assume cx: "P cx"
  show "good (case fresh of Some (resp, left) \<Rightarrow> Some (Some (resp, left, False), cx)
      | None \<Rightarrow> let (now, cx) = read_clock cx in
           map_option (\<lambda>r. (map_option (\<lambda>resp. (resp, STALE_ANSWER_TTL, True)) r, cx))
             (get_stale (env_lru V) now (dns_cache cx) (pd_name p) (unat (pd_qtype p)) (pd_want_dnssec p)))"
  proof (cases fresh)
    case None
    obtain r where "get_stale (env_lru V) (cx_clock cx (cx_reads cx)) (dns_cache cx) (pd_name p) (unat (pd_qtype p)) (pd_want_dnssec p) = Some r"
      using get_stale_total by blast
    then show ?thesis using None cx P_reads by (simp add: read_clock_def)
  qed (use cx in \<open>simp split: prod.splits\<close>)
next
  fix hit :: "(DnsResponse \<times> nat \<times> bool) option" and cx
  assume cx: "P cx"
  have serve: "good (do { (bad, cx) \<leftarrow> (if pd_filtering_enabled p
        then cname_blocked_target V cx (resp_bytes resp) (pd_name p) (pd_profile p) else Some (None, cx));
      (case bad of
         Some target \<Rightarrow> answer_blocked V raw p (Some (''cname:'' @ target)) cx
       | None \<Rightarrow> do {
           bs \<leftarrow> patch_cached (resp_bytes resp) (query_id raw) (ttl_min left (pd_client_ttl p));
           Some (settled cx p Cached (if stale then Some ''stale'' else None) 0 bs) }) })"
    if "P cx" for resp left stale cx
    using that by (auto intro!: good_bind' cname_good blocked_good deliver_good split: option.splits)
  show "good (case hit of None \<Rightarrow> Some (None, cx)
      | Some (resp, left, stale) \<Rightarrow> do {
          cx \<leftarrow> (if stale then refresh_stale V raw (pd_name p) (pd_qtype p) (pd_want_dnssec p) cx else Some cx);
          (bad, cx) \<leftarrow> (if pd_filtering_enabled p
            then cname_blocked_target V cx (resp_bytes resp) (pd_name p) (pd_profile p) else Some (None, cx));
          (case bad of
             Some target \<Rightarrow> answer_blocked V raw p (Some (''cname:'' @ target)) cx
           | None \<Rightarrow> do {
               bs \<leftarrow> patch_cached (resp_bytes resp) (query_id raw) (ttl_min left (pd_client_ttl p));
               Some (settled cx p Cached (if stale then Some ''stale'' else None) 0 bs) }) })"
  proof (cases hit)
    case (Some h)
    obtain resp left stale where h: "h = (resp, left, stale)" by (cases h)
    obtain cx' where cx': "(if stale then refresh_stale V raw (pd_name p) (pd_qtype p) (pd_want_dnssec p) cx else Some cx) = Some cx'" "P cx'"
      using P_refresh [OF cx, of raw "pd_name p" "pd_qtype p" "pd_want_dnssec p"] cx by (cases stale) auto
    show ?thesis unfolding Some h option.case prod.case cx'(1) Option.bind.simps by (rule serve [OF cx'(2)])
  qed (simp add: cx)
qed

lemma local_good: "P cx \<Longrightarrow> good (local_steps V I raw p m cx)"
  unfolding local_steps_def
  by (intro good_and_then custom_good canary_good block_good safe_good route_good cache_good)

lemma decide_good:
  assumes "P cx"
  shows "good (decide_as V I cx raw src client_id)"
proof -
  obtain v g where v: "check (client_gate cx) src (cx_clock cx (Suc (cx_reads cx))) = (v, g)" by fastforce
  let ?cx = "cx\<lparr>cx_reads := Suc (Suc (cx_reads cx)), client_gate := g\<rparr>"
  have gate: "P ?cx" using assms P_reads P_gate by simp
  have steps: "good (do { (p, client_mac, cx) \<leftarrow> identify V I cx raw src device start name qtype;
      (d, cx) \<leftarrow> local_steps V I raw p client_mac cx;
      Some (case d of Some d \<Rightarrow> d | None \<Rightarrow> D_Upstream p, cx) })" if cx: "P cx" for cx device start name qtype
  proof -
    obtain p m cx' where "identify V I cx raw src device start name qtype = Some (p, m, cx')" "P cx'"
      using identify_good [OF cx] by blast
    then show ?thesis by (auto intro!: good_bind' local_good)
  qed
  have err: "good (do { bs \<leftarrow> build_error H raw rc; Some (D_Answer bs, cx) })" if "P cx" for H rc cx
    using build_error_total [of H raw rc] that by auto
  obtain q where q: "handler_question (env_hickory V) raw = Some q"
    using question_total [of raw] by (auto simp: handler_question_def)
  note run = decide_as_eq [OF v q, of I client_id]
  show ?thesis
    unfolding run using gate
    by (auto simp: build_servfail_def intro!: err steps split: Verdict.splits option.splits)
qed

lemma cache_if_ok_P:
  assumes "P cx"
  shows "\<exists>cx'. cache_if_ok V cx name qtype dnssec bs = Some cx' \<and> P cx'"
proof -
  obtain t where "cache_ttl bs = Some t" using cache_ttl_total [of bs] by blast
  then show ?thesis using P_insert [OF assms] assms by (cases t) (auto simp: cache_if_ok_def)
qed

lemma log_good: "P cx \<Longrightarrow> good (Some (a, log_exit cx x st up rc))"
  using P_log by simp

lemma servfail_total: "\<exists>bs. build_servfail H raw = Some bs"
  using build_error_total by (simp add: build_servfail_def)

lemma rcode_value: "\<exists>rc. rcode bs = Some rc"
  using rcode_total [of bs] by blast

lemma safe_host_good:
  assumes "P cx"
  shows "good (resolve_safe_host V cx raw name qtype target reply)"
proof -
  obtain sf where sf: "build_servfail (env_hickory V) raw = Some sf" using servfail_total by blast
  show ?thesis
  proof (cases reply)
    case (Some r)
    obtain bs label where r: "r = (bs, label)" by (cases r)
    obtain rc where rc: "rcode bs = Some rc" using rcode_value by blast
    show ?thesis
      using cache_if_ok_P [OF assms, of target qtype False bs] assms sf Some r rc
      by (cases rc) (auto simp: resolve_safe_host_def)
  qed (use assms sf in \<open>simp add: resolve_safe_host_def\<close>)
qed

lemma usable_total: "\<exists>r. usable_reply V raw reply = Some r"
proof -
  obtain sf where "build_servfail (env_hickory V) raw = Some sf" using servfail_total by blast
  moreover obtain rc where "rcode (fst (the reply)) = Some rc" using rcode_value by blast
  ultimately show ?thesis by (cases reply; cases rc) (auto simp: usable_reply_def split: prod.splits)
qed

lemma finish_good:
  assumes "P cx"
  shows "good (resolve_finish V cx raw p reply)"
proof (cases "pd_rewrite p")
  case (Some target)
  have "good (do { rc \<leftarrow> rcode bs; let cx = log_exit cx (exit_of p) Upstream up (case rc of Some c \<Rightarrow> c | None \<Rightarrow> 2);
      out \<leftarrow> capped bs (pd_client_ttl p); Some (out, cx) })" if "P cx" for bs cx up
    unfolding Let_def by (intro good_value log_good that) (use rcode_value deliver_total in simp_all)
  then show ?thesis using Some safe_host_good [OF assms]
    by (auto simp: resolve_finish_def intro!: good_bind')
next
  case None
  obtain bs rc label where u: "usable_reply V raw reply = Some (bs, rc, label)" using usable_total by (metis prod_cases3)
  define out where "out = without_ech (env_hickory V) bs (pd_qtype p) (sw_strip_ech (switches cx))"
  have deliver: "good (do {
      cx \<leftarrow> (if rc = 0 \<and> out \<noteq> [] then cache_if_ok V cx (pd_name p) (pd_qtype p) (pd_want_dnssec p) out else Some cx);
      let cx = log_exit cx (exit_of p) Upstream label rc;
      bs \<leftarrow> capped out (pd_client_ttl p);
      Some (bs, cx) })" if cx: "P cx" for cx
  proof -
    obtain cx' where cx': "(if rc = 0 \<and> out \<noteq> [] then cache_if_ok V cx (pd_name p) (pd_qtype p) (pd_want_dnssec p) out else Some cx) = Some cx'"
      "P cx'" using cache_if_ok_P [OF cx, of "pd_name p" "pd_qtype p" "pd_want_dnssec p" out] cx by (cases "rc = 0 \<and> out \<noteq> []") auto
    show ?thesis unfolding cx'(1) Option.bind.simps Let_def by (intro good_value log_good cx'(2)) (use deliver_total in simp)
  qed
  have blocked: "good (do { (bs, rc) \<leftarrow> build_blocked (env_hickory V) raw (pd_qtype p) (pd_client_ttl p) (block_answer cx);
      Some (bs, log_exit cx (exit_of p) Blocked up rc) })" if "P cx" for cx up
    using build_blocked_total [of "env_hickory V" raw "pd_qtype p" "pd_client_ttl p" "block_answer cx"] P_log [OF that] by auto
  show ?thesis
    unfolding resolve_finish_def None option.case u Option.bind.simps prod.case Let_def out_def [symmetric]
    by (rule good_bind') (use assms cname_good deliver [unfolded Let_def] blocked in \<open>auto split: option.splits\<close>)
qed

lemma upstream_query_total: "\<exists>q. upstream_query V cx raw p = Some q"
  using sanitize_query_total by (force simp: upstream_query_def split: option.splits)

lemma handle_good: "P cx \<Longrightarrow> good (handle_query_as V I up cx raw src client_id)"
  unfolding handle_query_as_def resolve_upstream_def
  using upstream_query_total
  by (intro good_bind' decide_good) (auto split: Decision.splits intro!: good_value finish_good)

end

section \<open>Accounting\<close>

text \<open>
  The cache is within its accounts, the keys marked as being refreshed are those of the tasks
  under way, one task each, and the permits that are left and those of the tasks make \<open>n\<close>.
\<close>

definition pipe_ok :: "('r, 'f, 'c, 'd, 'n, 'e, 'o) env \<Rightarrow> nat \<Rightarrow> ('r, 'f, 'c, 'd, 'n, 'o) DnsCtx \<Rightarrow> bool" where
  "pipe_ok V n cx \<longleftrightarrow> lru_laws (env_lru V) \<and> dns_ok (env_lru V) (dns_cache cx) \<and>
     refreshing (dns_cache cx) = rf_key ` set (refreshes cx) \<and> distinct (map rf_key (refreshes cx)) \<and>
     query_semaphore cx + length (refreshes cx) = n"

lemma log_exit_fields [simp]:
  "dns_cache (log_exit cx x st up rc) = dns_cache cx" "refreshes (log_exit cx x st up rc) = refreshes cx"
  "query_semaphore (log_exit cx x st up rc) = query_semaphore cx" "record_switches (log_exit cx x st up rc) = record_switches cx"
  "blocklist (log_exit cx x st up rc) = blocklist cx" "client_ttl (log_exit cx x st up rc) = client_ttl cx"
  by (simp_all add: log_exit_def emit_def try_send_def make_entry_def read_clock_def Let_def split: option.splits)

lemma dns_ok_refreshing [simp]: "dns_ok L (d\<lparr>refreshing := ks\<rparr>) = dns_ok L d"
  by (simp add: dns_ok_def bounds_ok_def)

lemma insert_answer_ok:
  assumes "lru_laws (env_lru V)" and "dns_ok (env_lru V) (dns_cache cx)"
  shows "\<exists>i. insert_answer V cx name qtype dnssec resp =
      Some (cx\<lparr>cx_reads := Suc (cx_reads cx), dns_cache := (dns_cache cx)\<lparr>inner := i\<rparr>\<rparr>) \<and>
    dns_ok (env_lru V) ((dns_cache cx)\<lparr>inner := i\<rparr>)"
proof -
  obtain i where "dns_insert (env_lru V) (cx_clock cx (cx_reads cx)) (dns_cache cx) name (unat qtype) dnssec resp =
      Some ((dns_cache cx)\<lparr>inner := i\<rparr>)" "dns_ok (env_lru V) ((dns_cache cx)\<lparr>inner := i\<rparr>)"
    using insert_ok [OF assms] by blast
  then show ?thesis by (auto simp: insert_answer_def read_clock_def)
qed

interpretation accounts: ctx_invariant V "pipe_ok V n" for V n
proof unfold_locales
  fix cx :: "('a, 'b, 'c, 'd, 'e, 'g) DnsCtx" and name qtype dnssec resp
  assume "pipe_ok V n cx"
  then show "\<exists>cx'. insert_answer V cx name qtype dnssec resp = Some cx' \<and> pipe_ok V n cx'"
    using insert_answer_ok [of V cx name qtype dnssec resp] by (auto simp: pipe_ok_def)
next
  fix cx :: "('a, 'b, 'c, 'd, 'e, 'g) DnsCtx" and raw name dnssec and qtype :: u16
  assume ok: "pipe_ok V n cx"
  let ?key = "cache_key name (unat qtype) dnssec"
  obtain q where "sanitize_query (env_hickory V) raw (sw_strip_ecs (switches cx)) dnssec = Some q"
    using sanitize_query_total by blast
  then show "\<exists>cx'. refresh_stale V raw name qtype dnssec cx = Some cx' \<and> pipe_ok V n cx'"
    using ok by (cases "?key \<in> refreshing (dns_cache cx)")
      (auto simp: pipe_ok_def refresh_stale_def begin_refresh_def Let_def insert_absorb)
qed (simp_all add: pipe_ok_def)

lemma cache_if_ok_refreshes: "cache_if_ok V cx name qtype dnssec bs = Some cx' \<Longrightarrow> refreshes cx' = refreshes cx"
  by (auto simp: cache_if_ok_def insert_answer_def read_clock_def bind_eq_Some_conv split: option.splits)

lemma refresh_done_ok:
  assumes ok: "pipe_ok V n cx" and f: "f \<in> set (refreshes cx)"
  shows "\<exists>cx'. refresh_done V f reply cx = Some cx' \<and> pipe_ok V n cx'"
proof -
  have stored: "\<exists>cx'. (case reply of
        Some (bs, _) \<Rightarrow>
          if rc = Some 0 then cache_if_ok V cx (rf_name f) (rf_qtype f) (rf_dnssec f)
              (without_ech (env_hickory V) bs (rf_qtype f) (sw_strip_ech (switches cx)))
          else Some cx
      | None \<Rightarrow> Some cx) = Some cx' \<and> pipe_ok V n cx' \<and> refreshes cx' = refreshes cx" for rc
    using ok accounts.cache_if_ok_P [OF ok] cache_if_ok_refreshes by (fastforce split: option.splits)
  obtain rc where rc: "(case reply of Some (bs, _) \<Rightarrow> rcode bs | None \<Rightarrow> Some None) = Some rc"
    using rcode_total by (cases reply) (auto split: prod.splits)
  obtain cx' where run: "refresh_done V f reply cx = Some (cx'\<lparr>dns_cache := end_refresh (dns_cache cx') (rf_key f),
      query_semaphore := query_semaphore cx' + 1, refreshes := remove1 f (refreshes cx')\<rparr>)"
    and cx': "pipe_ok V n cx'" "refreshes cx' = refreshes cx"
    using stored [of rc] rc by (auto simp: refresh_done_def)
  have d: "distinct (map rf_key (refreshes cx))" using ok by (simp add: pipe_ok_def)
  then have "rf_key ` set (remove1 f (refreshes cx)) = rf_key ` set (refreshes cx) - {rf_key f}"
    using f by (auto simp: distinct_map dest: inj_onD)
  moreover have "distinct (map rf_key (remove1 f (refreshes cx)))"
    using d by (auto simp: distinct_map inj_on_diff)
  ultimately have "pipe_ok V n (cx'\<lparr>dns_cache := end_refresh (dns_cache cx') (rf_key f),
      query_semaphore := query_semaphore cx' + 1, refreshes := remove1 f (refreshes cx')\<rparr>)"
    using cx' f length_pos_if_in_set [OF f] by (auto simp: pipe_ok_def end_refresh_def length_remove1)
  then show ?thesis using run by blast
qed

end
