(* ===== verification/Handler_Answers.thy ===== *)
theory Handler_Answers
  imports Handler_Correct
begin

text \<open>
  What the pipeline answers: every answer within the time a client may keep it, and the names
  the filter blocks never asked upstream.
\<close>

section \<open>The time a client keeps an answer\<close>

definition ttl_within :: "u32 \<Rightarrow> bytes \<Rightarrow> bool" where
  "ttl_within c bs \<longleftrightarrow> (\<forall>rs r. records bs = Some rs \<longrightarrow> r \<in> set rs \<longrightarrow> rtype r \<noteq> TYPE_OPT \<longrightarrow> ttl_of bs r \<le> c)"

lemma rewritten_within:
  assumes run: "rewrite_ttls bs f = Some (out, ch)"
    and f: "\<And>t. (case f t of None \<Rightarrow> t | Some w \<Rightarrow> w) \<le> c"
  shows "ttl_within c out"
proof (cases "records bs")
  case None
  then show ?thesis using run by (simp add: rewrite_ttls_malformed ttl_within_def)
next
  case (Some rs)
  then have "records out = Some rs" "\<forall>r \<in> set rs. ttl_of out r = (case new_ttl f bs r of None \<Rightarrow> ttl_of bs r | Some w \<Rightarrow> w)"
    using rewrite_ttls_spec [OF Some, of f] run by auto
  then show ?thesis using f by (auto simp: ttl_within_def new_ttl_def)
qed

lemma capped_within: "capped bs c = Some out \<Longrightarrow> ttl_within c out"
  by (auto simp: capped_def cap_ttls_def intro!: rewritten_within)

lemma patch_cached_within: "patch_cached bs txid t = Some out \<Longrightarrow> t \<le> c \<Longrightarrow> ttl_within c out"
  by (auto simp: patch_cached_def set_ttls_def bind_eq_Some_conv intro!: rewritten_within)

lemma ttl_min_le: "ttl_min left c \<le> c"
  using take_bit_nat_less_eq_self [of 32 "min left (unat c)"]
  by (simp add: ttl_min_def word_le_nat_alt unsigned_of_nat)

lemma within_replies: "replies raw rc rs out \<Longrightarrow> \<forall>r. r \<in> set rs \<longrightarrow> ttl_of out r = c \<Longrightarrow> ttl_within c out"
  by (auto simp: replies_def ttl_within_def)

lemma build_error_within:
  assumes "rcode_laws H" and "answerable raw e" and "rc \<in> {ServFail, Refused}" and "build_error H raw rc = Some out"
  shows "ttl_within c out"
  using build_error_reply [OF assms(1-3)] assms(4) by (auto intro: within_replies)

lemma build_negative_within:
  assumes "rcode_laws H" and "answerable raw e" and "rc \<in> {NoError, NXDomain}" and "build_negative H raw c rc = Some out"
  shows "ttl_within c out"
proof -
  from build_negative_reply [OF assms(1-3), of c] obtain r where "replies raw (h_low H rc) [r] out" "ttl_of out r = c"
    using assms(4) by auto
  then show ?thesis by (auto intro: within_replies)
qed

lemma build_address_within:
  assumes "answerable raw e" and "build_address H raw ip c = Some out"
  shows "ttl_within c out"
proof -
  from build_address_reply [OF assms(1), of H ip c] obtain r where "replies raw 0 [r] out" "ttl_of out r = c"
    using assms(2) by auto
  then show ?thesis by (auto intro: within_replies)
qed

lemma build_blocked_within:
  assumes "rcode_laws H" and "answerable raw e" and "build_blocked H raw qtype c ans = Some (out, rc)"
  shows "ttl_within c out"
  using assms(3) build_error_within [OF assms(1,2), of Refused out c] build_negative_within [OF assms(1,2)] build_address_within [OF assms(2)]
  by (auto simp: build_blocked_def build_nxdomain_def split: BlockResponse.splits option.splits)

text \<open>What a step settles the query with, if it does, whatever the state.\<close>

definition settles :: "(Decision \<Rightarrow> bool) \<Rightarrow> (Decision option \<times> 's) rs \<Rightarrow> bool" where
  "settles Q m \<longleftrightarrow> (\<forall>d s. m = Some (Some d, s) \<longrightarrow> Q d)"

lemma settles_and_then:
  "settles Q m \<Longrightarrow> (\<And>s. settles Q (f s)) \<Longrightarrow> settles Q (and_then m f)"
  unfolding settles_def and_then_def bind_eq_Some_conv by (auto split: option.splits) blast

lemma settles_settled: "Q (D_Answer bs) \<Longrightarrow> settles Q (Some (settled cx p st up rc bs))"
  by (auto simp: settles_def settled_def)

lemma settles_none [simp]: "settles Q (Some (None, cx))"
  by (simp add: settles_def)

lemma settles_bind: "(\<And>x. m = Some x \<Longrightarrow> settles Q (f x)) \<Longrightarrow> settles Q (Option.bind m f)"
  by (cases m) (auto simp: settles_def)

lemma settles_bind_pair: "(\<And>x y. m = Some (x, y) \<Longrightarrow> settles Q (f x y)) \<Longrightarrow> settles Q (Option.bind m (\<lambda>(x, y). f x y))"
  by (cases m) (auto simp: settles_def)

lemmas settles_intros = settles_bind_pair settles_bind settles_settled

definition is_answer :: "Decision \<Rightarrow> bool" where
  "is_answer d \<longleftrightarrow> (\<exists>bs. d = D_Answer bs)"

lemma is_answer_Answer [simp]: "is_answer (D_Answer bs)"
  by (simp add: is_answer_def)

lemma steps_answer:
  "settles is_answer (answer_blocked V raw p up cx)"
  "settles is_answer (step_custom V raw p cx)"
  "settles is_answer (step_canary V raw p cx)"
  "settles is_answer (step_block V raw p cx)"
  "settles is_answer (step_route I raw p m cx)"
  "settles is_answer (step_cache V raw p cx)"
proof -
  show block: "settles is_answer (answer_blocked V raw p up cx)" for up cx
    unfolding answer_blocked_def by (intro settles_intros) simp
  show "settles is_answer (step_custom V raw p cx)"
    by (auto simp: step_custom_def intro!: settles_intros split: option.splits)
  show "settles is_answer (step_canary V raw p cx)"
    by (auto simp: step_canary_def intro!: settles_intros split: option.splits)
  show "settles is_answer (step_block V raw p cx)"
    by (auto simp: step_block_def intro!: block split: prod.splits bool.splits)
  show "settles is_answer (step_route I raw p m cx)"
    by (auto simp: step_route_def Let_def intro!: settles_intros split: option.splits)
  show "settles is_answer (step_cache V raw p cx)"
    unfolding step_cache_def by (auto intro!: settles_intros block split: option.splits)
qed

definition answers_within :: "u32 \<Rightarrow> (Decision option \<times> 's) rs \<Rightarrow> bool" where
  "answers_within c m \<longleftrightarrow> settles (\<lambda>d. \<forall>bs. d = D_Answer bs \<longrightarrow> ttl_within c bs) m"

lemma answers_withinI: "settles (\<lambda>d. \<forall>bs. d = D_Answer bs \<longrightarrow> ttl_within c bs) m \<Longrightarrow> answers_within c m"
  by (simp add: answers_within_def)

lemma answer_blocked_within:
  assumes "rcode_laws (env_hickory V)" and "answerable raw e"
  shows "answers_within (pd_client_ttl p) (answer_blocked V raw p up cx)"
  unfolding answer_blocked_def by (intro answers_withinI settles_intros) (auto intro: build_blocked_within [OF assms])

lemma custom_within: "answers_within (pd_client_ttl p) (step_custom V raw p cx)"
  by (rule answers_withinI) (auto simp: step_custom_def intro!: settles_intros capped_within split: option.splits)

lemma canary_within:
  assumes "rcode_laws (env_hickory V)" and "answerable raw e"
  shows "answers_within (pd_client_ttl p) (step_canary V raw p cx)"
  by (rule answers_withinI) (auto simp: step_canary_def build_nxdomain_def intro!: settles_intros
      build_negative_within [OF assms, of NXDomain] split: option.splits)

lemma block_within:
  assumes "rcode_laws (env_hickory V)" and "answerable raw e"
  shows "answers_within (pd_client_ttl p) (step_block V raw p cx)"
  by (rule answers_withinI) (auto simp: step_block_def intro!: answer_blocked_within [OF assms, unfolded answers_within_def]
      split: prod.splits bool.splits)

lemma within_weaken: "ttl_within c bs \<Longrightarrow> c \<le> c' \<Longrightarrow> ttl_within c' bs"
  unfolding ttl_within_def by (meson order_trans)

lemma safe_within: "answers_within (pd_client_ttl p) (step_safe V raw p cx)"
proof (rule answers_withinI)
  have up: "settles (\<lambda>d. \<forall>bs. d = D_Answer bs \<longrightarrow> ttl_within (pd_client_ttl p) bs) (Some (Some (D_Upstream p'), cx))" for p' cx
    by (simp add: settles_def)
  show "settles (\<lambda>d. \<forall>bs. d = D_Answer bs \<longrightarrow> ttl_within (pd_client_ttl p) bs) (step_safe V raw p cx)"
    unfolding step_safe_def
    by (auto intro!: settles_intros up split: option.splits) (rule within_weaken [OF capped_within ttl_min_le])
qed

lemma route_within: "answers_within (pd_client_ttl p) (step_route I raw p m cx)"
  by (rule answers_withinI) (auto simp: step_route_def Let_def intro!: settles_intros capped_within split: option.splits)

lemma cache_within:
  assumes "rcode_laws (env_hickory V)" and "answerable raw e"
  shows "answers_within (pd_client_ttl p) (step_cache V raw p cx)"
  unfolding step_cache_def
  by (rule answers_withinI) (auto intro!: settles_intros patch_cached_within ttl_min_le
      answer_blocked_within [OF assms, unfolded answers_within_def] split: option.splits)

lemma local_within:
  assumes "rcode_laws (env_hickory V)" and "answerable raw e"
  shows "answers_within (pd_client_ttl p) (local_steps V I raw p m cx)"
  unfolding local_steps_def answers_within_def
  by (intro settles_and_then custom_within [unfolded answers_within_def] canary_within [OF assms, unfolded answers_within_def]
      block_within [OF assms, unfolded answers_within_def] safe_within [unfolded answers_within_def]
      route_within [unfolded answers_within_def] cache_within [OF assms, unfolded answers_within_def])

lemma valid_profile_for: "valid_profile b (profile_for b client m)"
  by (auto simp: valid_profile_def profile_for_def position_less split: option.splits)

lemma valid_client_profile: "valid_profile b (client_profile b scoped device client m)"
  using valid_profile_for [of b client m] valid_profile_for [of b "the device" None]
  by (cases device; cases scoped) (auto simp: client_profile_def or_else_def split: option.splits)

lemma noted_device_fields [simp]:
  "blocklist (noted_device cx addr device) = blocklist cx" "custom_records (noted_device cx addr device) = custom_records cx"
  "switches (noted_device cx addr device) = switches cx" "dns_cache (noted_device cx addr device) = dns_cache cx"
  "block_answer (noted_device cx addr device) = block_answer cx" "client_ttl (noted_device cx addr device) = client_ttl cx"
  by (simp_all add: noted_device_def read_clock_def split: option.splits)

lemma identify_facts:
  assumes "identify V I cx raw src device start name qtype = Some (p, m, cx')"
  shows "pd_client_ttl p = client_ttl cx" "pd_name p = name" "pd_qtype p = qtype" "pd_rewrite p = None"
    "blocklist cx' = blocklist cx" "custom_records cx' = custom_records cx" "switches cx' = switches cx" "dns_cache cx' = dns_cache cx"
    "block_answer cx' = block_answer cx" "valid_profile (blocklist cx) (pd_profile p)"
  using assms valid_client_profile [of "blocklist cx"]
  by (clarsimp simp: identify_def Let_def bind_eq_Some_conv valid_profile_def [of _ None])+

definition rewritten :: "Pending \<Rightarrow> string \<Rightarrow> Pending" where
  "rewritten p target = p\<lparr>pd_want_dnssec := False, pd_rewrite := Some target\<rparr>"

lemma local_upstream:
  assumes "local_steps V I raw p m cx = Some (Some (D_Upstream p'), cx')"
  shows "\<exists>target. p' = rewritten p target"
proof -
  let ?Q = "\<lambda>d. is_answer d \<or> (\<exists>target. d = D_Upstream (rewritten p target))"
  have weak: "settles is_answer m \<Longrightarrow> settles ?Q m" for m :: "(Decision option \<times> 's) rs" by (auto simp: settles_def)
  have up: "settles ?Q (Some (Some (D_Upstream (p\<lparr>pd_want_dnssec := False, pd_rewrite := Some target\<rparr>)), cx))" for cx :: 's and target
    by (auto simp: settles_def rewritten_def)
  have "settles ?Q (local_steps V I raw p m cx)"
    unfolding local_steps_def
    by (intro settles_and_then; (rule weak, rule steps_answer)?)
      (auto simp: step_safe_def intro!: settles_intros up split: option.splits)
  then show ?thesis using assms by (auto simp: settles_def is_answer_def)
qed

lemma finish_within:
  assumes "rcode_laws (env_hickory V)" and "answerable raw e" and run: "resolve_finish V cx raw p reply = Some (out, cx')"
  shows "ttl_within (pd_client_ttl p) out"
  using run capped_within build_blocked_within [OF assms(1,2)]
  by (auto simp: resolve_finish_def bind_eq_Some_conv Let_def split: option.splits prod.splits)

text \<open>The pipeline as a case distinction on the gate, the operation code and the question.\<close>

lemma decide_as_cases:
  assumes run: "decide_as V I cx raw src client_id = Some (d, cx')"
  obtains (Error) rc out where "rc \<in> {ServFail, Refused}" "build_error (env_hickory V) raw rc = Some out" "d = D_Answer out"
  | (Drop) "d = D_Drop"
  | (Query) g start name qtype p m cx1 r where
      "fst (check (client_gate cx) src (cx_clock cx (Suc (cx_reads cx)))) = Pass" "opcode raw = Some OPCODE_QUERY"
      "handler_question (env_hickory V) raw = Some (Some (name, qtype))"
      "identify V I (cx\<lparr>cx_reads := Suc (Suc (cx_reads cx)), client_gate := g\<rparr>) raw src (device_key client_id) start name qtype = Some (p, m, cx1)"
      "local_steps V I raw p m cx1 = Some (r, cx')" "d = (case r of Some d \<Rightarrow> d | None \<Rightarrow> D_Upstream p)"
proof -
  obtain v g where v: "check (client_gate cx) src (cx_clock cx (Suc (cx_reads cx))) = (v, g)" by fastforce
  obtain q where q: "handler_question (env_hickory V) raw = Some q"
    using question_total [of raw] by (auto simp: handler_question_def)
  note eq = run [unfolded decide_as_eq [OF v q]]
  show thesis
  proof (cases "v = Pass \<and> opcode raw = Some OPCODE_QUERY \<and> q \<noteq> None")
    case True
    then obtain name qtype where "q = Some (name, qtype)" by auto
    then show ?thesis using eq v q True by (auto simp: bind_eq_Some_conv intro: Query)
  next
    case False
    then show ?thesis
      using eq by (auto simp: build_servfail_def bind_eq_Some_conv split: Verdict.splits option.splits if_splits
          intro: Error [of Refused] Error [of ServFail] Drop)
  qed
qed

section \<open>Properties\<close>

text \<open>
  C4. Whatever answer a client gets (a local record, a block, a routing redirect, a cached or
  stale answer, an upstream answer, a SafeSearch rewrite or an error), no record of it except
  OPT has a TTL above the ceiling configured for clients.
\<close>

theorem answers_within_client_ttl:
  assumes "rcode_laws (env_hickory V)" and "answerable raw e"
    and "handle_query_as V I resolve_raw cx raw src client_id = Some (bs, cx')" and "records bs = Some rs"
  shows "\<forall>r. r \<in> set rs \<and> rtype r \<noteq> TYPE_OPT \<longrightarrow> ttl_of bs r \<le> client_ttl cx"
proof -
  obtain d cx1 where d: "decide_as V I cx raw src client_id = Some (d, cx1)"
    and fin: "(case d of D_Answer bs \<Rightarrow> Some (bs, cx1) | D_Upstream p \<Rightarrow> resolve_upstream V resolve_raw cx1 raw p | D_Drop \<Rightarrow> Some ([], cx1)) = Some (bs, cx')"
    using assms(3) by (auto simp: handle_query_as_def bind_eq_Some_conv)
  have empty: "records [] = None" by code_simp
  have "ttl_within (client_ttl cx) bs"
    using d
  proof (cases rule: decide_as_cases)
    case (Error rc out)
    then show ?thesis using fin build_error_within [OF assms(1,2)] by auto
  next
    case Drop
    then show ?thesis using fin empty by (simp add: ttl_within_def)
  next
    case (Query g start name qtype p m cx2 r)
    have ttl: "pd_client_ttl p = client_ttl cx" using identify_facts(1) [OF Query(4)] by simp
    have loc: "ttl_within (client_ttl cx) out" if "r = Some (D_Answer out)" for out
      using local_within [OF assms(1,2), of p I m cx2] Query(5) that ttl by (auto simp: answers_within_def settles_def)
    have up: "pd_client_ttl p' = client_ttl cx" if "d = D_Upstream p'" for p'
      using local_upstream [of V I raw p m cx2 p' cx1] Query(5,6) that ttl by (auto simp: rewritten_def split: option.splits)
    show ?thesis
      using fin loc up Query(6) finish_within [OF assms(1,2)]
      by (auto simp: resolve_upstream_def bind_eq_Some_conv empty ttl_within_def [of _ "[]"] split: Decision.splits option.splits) metis+
  qed
  then show ?thesis using assms(4) by (auto simp: ttl_within_def)
qed

section \<open>The filter\<close>

lemma ask_blocklist_decides:
  assumes "lru_laws (b_lru (env_blk V))" and "engine_reach (env_blk V) (blocklist cx)" and "valid_profile (blocklist cx) profile"
  shows "\<exists>b. ask_blocklist V cx name profile =
    (decide (env_blk V) (blocklist cx) name profile, cx\<lparr>cx_reads := Suc (cx_reads cx), blocklist := b\<rparr>) \<and>
    should_block_for (env_blk V) (cx_clock cx (cx_reads cx)) (blocklist cx) name profile = (decide (env_blk V) (blocklist cx) name profile, b)"
proof -
  obtain r b where run: "should_block_for (env_blk V) (cx_clock cx (cx_reads cx)) (blocklist cx) name profile = (r, b)" by fastforce
  from should_block_for_coherent [OF assms(1) engine_reach_coherent [OF assms(2,1)] assms(3) run]
  show ?thesis using run by (simp add: ask_blocklist_def read_clock_def)
qed

lemma local_blocked:
  assumes "custom_lookup (env_hickory V) (custom_records cx) raw (pd_name p) (pd_qtype p) = None" and "canary (pd_name p) (switches cx) = None"
    and "pd_filtering_enabled p" and "ask_blocklist V cx (pd_name p) (pd_profile p) = (True, cx')"
    and "build_blocked (env_hickory V) raw (pd_qtype p) (pd_client_ttl p) (block_answer cx') = Some (bs, rc)"
  shows "local_steps V I raw p m cx = Some (Some (D_Answer bs), log_exit cx' (exit_of p) Blocked None rc)"
  using assms
  by (simp add: local_steps_def and_then_def step_custom_def step_canary_def step_block_def answer_blocked_def settled_def)

text \<open>
  C1. A query that passes the gate, asks for a name the filter blocks for its client, and has
  no local record and no canary, is answered at once with the configured block answer: not
  from the cache, not by a routing rule, not from upstream, and the cache is left alone. The
  engine may be in any state it can reach.
\<close>

theorem blocked_name_answered:
  assumes "lru_laws (b_lru (env_blk V))" and "engine_reach (env_blk V) (blocklist cx)"
    and "check (client_gate cx) src (cx_clock cx (Suc (cx_reads cx))) = (Pass, g)" and "opcode raw = Some OPCODE_QUERY"
    and "handler_question (env_hickory V) raw = Some (Some (name, qtype))"
    and "identify V I (cx\<lparr>cx_reads := Suc (Suc (cx_reads cx)), client_gate := g\<rparr>) raw src (device_key client_id)
      (cx_clock cx (cx_reads cx)) name qtype = Some (p, m, cx1)"
    and "custom_lookup (env_hickory V) (custom_records cx) raw name qtype = None" and "canary name (switches cx) = None"
    and "pd_filtering_enabled p" and "decide (env_blk V) (blocklist cx) name (pd_profile p)"
  shows "\<exists>bs rc b n. build_blocked (env_hickory V) raw qtype (client_ttl cx) (block_answer cx) = Some (bs, rc) \<and>
    decide_as V I cx raw src client_id =
      Some (D_Answer bs, log_exit (cx1\<lparr>cx_reads := n, blocklist := b\<rparr>) (exit_of p) Blocked None rc) \<and> dns_cache cx1 = dns_cache cx"
proof -
  note id = identify_facts [OF assms(6), simplified]
  obtain b where b: "ask_blocklist V cx1 name (pd_profile p) = (True, cx1\<lparr>cx_reads := Suc (cx_reads cx1), blocklist := b\<rparr>)"
    using ask_blocklist_decides [of V cx1 "pd_profile p" name] assms(1,2,10) id by auto
  obtain bs rc where bs: "build_blocked (env_hickory V) raw qtype (client_ttl cx) (block_answer cx) = Some (bs, rc)"
    using build_blocked_total by fastforce
  let ?fin = "log_exit (cx1\<lparr>cx_reads := Suc (cx_reads cx1), blocklist := b\<rparr>) (exit_of p) Blocked None rc"
  have "local_steps V I raw p m cx1 = Some (Some (D_Answer bs), ?fin)"
    using b bs assms(7-9) id by (intro local_blocked) simp_all
  then have "decide_as V I cx raw src client_id = Some (D_Answer bs, ?fin)"
    using decide_as_eq [OF assms(3,5), of I client_id] assms(4,6) by simp
  then show ?thesis using bs id(8) by blast
qed

lemma should_block_for_safe:
  assumes "should_block_for E now b d profile = (r, b')"
  shows "safe_search_target E b' name profile' = safe_search_target E b name profile'"
proof -
  have upd: "p_safe ((xs[i := (xs ! i)\<lparr>p_cache := c\<rparr>]) ! j) = p_safe (xs ! j)" for xs i j c
    by (cases "i < length xs"; cases "i = j") (auto simp: list_update_beyond)
  show ?thesis
    using assms by (auto simp: should_block_for_def is_blocked_for_normalized_def is_blocked_normalized_def safe_search_target_def
        safe_search_def Let_def upd split: if_splits option.splits prod.splits)
qed

lemma and_then_left:
  assumes "and_then m f = Some (r, s')" and "\<forall>bs. r \<noteq> Some (D_Answer bs)" and "settles is_answer m"
  shows "\<exists>s. m = Some (None, s) \<and> f s = Some (r, s')"
  using assms by (cases m; cases "fst (the m)"; cases r) (auto simp: and_then_def settles_def is_answer_def)

lemma and_then_right:
  assumes "and_then m f = Some (r, s')" and r: "\<forall>bs. r \<noteq> Some (D_Answer bs)" and f: "\<And>s. settles is_answer (f s)"
  shows "\<exists>s. m = Some (r, s)"
proof -
  obtain x s where m: "m = Some (x, s)" using assms(1) by (cases m) (auto simp: and_then_def)
  show ?thesis using assms(1) r f [of s] m by (cases x; cases r) (auto simp: and_then_def settles_def is_answer_def)
qed

text \<open>A query the local steps leave to the upstream leg: what each of them found.\<close>

lemma local_left:
  assumes "local_steps V I raw p m cx = Some (r, cx')" and r: "\<forall>bs. r \<noteq> Some (D_Answer bs)"
  shows "\<exists>cx2 cx3. custom_lookup (env_hickory V) (custom_records cx) raw (pd_name p) (pd_qtype p) = None \<and> canary (pd_name p) (switches cx) = None \<and>
    (if pd_filtering_enabled p then ask_blocklist V cx (pd_name p) (pd_profile p) = (False, cx2) else cx2 = cx) \<and>
    step_safe V raw p cx2 = Some (r, cx3)"
proof -
  obtain cx3 where "and_then (and_then (and_then (step_custom V raw p cx) (step_canary V raw p)) (step_block V raw p)) (step_safe V raw p) = Some (r, cx3)"
  proof -
    obtain c where "and_then (and_then (and_then (and_then (step_custom V raw p cx) (step_canary V raw p)) (step_block V raw p)) (step_safe V raw p))
        (step_route I raw p m) = Some (r, c)"
      using and_then_right [OF assms(1) [unfolded local_steps_def] r steps_answer(6)] by blast
    from and_then_right [OF this r steps_answer(5)] show thesis using that by blast
  qed
  from and_then_left [OF this r settles_and_then [OF settles_and_then [OF steps_answer(2,3)] steps_answer(4)]]
  obtain cx2 where block: "and_then (and_then (step_custom V raw p cx) (step_canary V raw p)) (step_block V raw p) = Some (None, cx2)"
    and safe: "step_safe V raw p cx2 = Some (r, cx3)" by blast
  obtain c2 where c2: "and_then (step_custom V raw p cx) (step_canary V raw p) = Some (None, c2)" "step_block V raw p c2 = Some (None, cx2)"
    using and_then_left [OF block _ settles_and_then [OF steps_answer(2,3)]] by blast
  obtain c1 where c1: "step_custom V raw p cx = Some (None, c1)" "step_canary V raw p c1 = Some (None, c2)"
    using and_then_left [OF c2(1) _ steps_answer(2)] by blast
  have "custom_lookup (env_hickory V) (custom_records cx) raw (pd_name p) (pd_qtype p) = None \<and> c1 = cx"
    using c1(1) by (auto simp: step_custom_def settled_def bind_eq_Some_conv split: option.splits)
  moreover have "canary (pd_name p) (switches c1) = None \<and> c2 = c1"
    using c1(2) by (auto simp: step_canary_def settled_def bind_eq_Some_conv split: option.splits)
  moreover have "if pd_filtering_enabled p then ask_blocklist V c2 (pd_name p) (pd_profile p) = (False, cx2) else cx2 = c2"
    using c2(2) by (auto simp: step_block_def answer_blocked_def settled_def bind_eq_Some_conv split: if_splits prod.splits bool.splits)
  ultimately show ?thesis using safe by blast
qed

lemma step_safe_left:
  assumes "step_safe V raw p cx = Some (r, cx')" and "\<forall>bs. r \<noteq> Some (D_Answer bs)"
  shows "r = map_option (\<lambda>target. D_Upstream (rewritten p target))
    (if pd_filtering_enabled p then safe_search_target (env_blk V) (blocklist cx) (pd_name p) (pd_profile p) else None)"
  using assms by (auto simp: step_safe_def settled_def rewritten_def bind_eq_Some_conv split: option.splits if_splits)

text \<open>
  C2. A query goes upstream only after it passed the gate as a standard query that no local
  record and no canary answers; if its client is filtered, only for a name that the filter does
  not block for that client, and with the safe host in place of a search engine's name when
  SafeSearch covers it. The engine may be in any state it can reach.
\<close>

theorem upstream_only_unblocked:
  assumes "lru_laws (b_lru (env_blk V))" and "engine_reach (env_blk V) (blocklist cx)"
    and "decide_as V I cx raw src client_id = Some (D_Upstream p, cx')"
  shows "fst (check (client_gate cx) src (cx_clock cx (Suc (cx_reads cx)))) = Pass \<and> opcode raw = Some OPCODE_QUERY \<and>
    handler_question (env_hickory V) raw = Some (Some (pd_name p, pd_qtype p)) \<and>
    custom_lookup (env_hickory V) (custom_records cx) raw (pd_name p) (pd_qtype p) = None \<and> canary (pd_name p) (switches cx) = None \<and>
    (if pd_filtering_enabled p
     then \<not> decide (env_blk V) (blocklist cx) (pd_name p) (pd_profile p) \<and>
       pd_rewrite p = safe_search_target (env_blk V) (blocklist cx) (pd_name p) (pd_profile p)
     else pd_rewrite p = None)"
  using assms(3)
proof (cases rule: decide_as_cases)
  case (Query g start name qtype p1 m cx1 r)
  note id = identify_facts [OF Query(4), simplified]
  have r: "\<forall>bs. r \<noteq> Some (D_Answer bs)" using Query(6) by auto
  obtain cx2 cx3 where left: "custom_lookup (env_hickory V) (custom_records cx) raw name qtype = None" "canary name (switches cx) = None"
    "if pd_filtering_enabled p1 then ask_blocklist V cx1 name (pd_profile p1) = (False, cx2) else cx2 = cx1"
    "step_safe V raw p1 cx2 = Some (r, cx3)" using local_left [OF Query(5) r] id by auto
  have safe: "safe_search_target (env_blk V) (blocklist cx2) name (pd_profile p1) = safe_search_target (env_blk V) (blocklist cx) name (pd_profile p1) \<and>
      \<not> decide (env_blk V) (blocklist cx) name (pd_profile p1)" if "pd_filtering_enabled p1"
  proof -
    obtain b where "ask_blocklist V cx1 name (pd_profile p1) =
        (decide (env_blk V) (blocklist cx) name (pd_profile p1), cx1\<lparr>cx_reads := Suc (cx_reads cx1), blocklist := b\<rparr>)"
      "should_block_for (env_blk V) (cx_clock cx1 (cx_reads cx1)) (blocklist cx) name (pd_profile p1) = (decide (env_blk V) (blocklist cx) name (pd_profile p1), b)"
      using ask_blocklist_decides [of V cx1 "pd_profile p1" name] assms(1,2) id by auto
    then show ?thesis using left(3) that should_block_for_safe by fastforce
  qed
  define t where "t = (if pd_filtering_enabled p1 then safe_search_target (env_blk V) (blocklist cx) name (pd_profile p1) else None)"
  have "r = map_option (\<lambda>target. D_Upstream (rewritten p1 target)) t"
    using step_safe_left [OF left(4) r] safe id by (auto simp: t_def)
  then have "p = (case t of Some target \<Rightarrow> rewritten p1 target | None \<Rightarrow> p1)" using Query(6) by (cases t) auto
  then have p: "pd_name p = name" "pd_qtype p = qtype" "pd_filtering_enabled p = pd_filtering_enabled p1" "pd_profile p = pd_profile p1" "pd_rewrite p = t"
    using id by (auto simp: rewritten_def split: option.splits)
  show ?thesis unfolding p using Query(1-3) left(1,2) safe by (simp add: t_def)
qed auto

section \<open>A server that records nothing\<close>

definition unrecorded :: "('r, 'f, 'c, 'd, 'n, 'e, 'o) env \<Rightarrow> nat \<Rightarrow> QueryEntry list \<Rightarrow> u64 \<Rightarrow> ('r, 'f, 'c, 'd, 'n, 'o) DnsCtx \<Rightarrow> bool" where
  "unrecorded V n tx c cx \<longleftrightarrow> pipe_ok V n cx \<and> \<not> records_anything (record_switches cx) \<and> query_tx cx = tx \<and> query_counter cx = c"

interpretation unlogged: ctx_invariant V "unrecorded V n tx c" for V n tx c
proof unfold_locales
  fix cx :: "('a, 'b, 'c, 'd, 'e, 'g) DnsCtx" and x st up rc
  assume "unrecorded V n tx c cx"
  then show "unrecorded V n tx c (log_exit cx x st up rc)"
    using accounts.P_log [of V n cx x st up rc] by (auto simp: unrecorded_def log_exit_def emit_def Let_def)
next
  fix cx :: "('a, 'b, 'c, 'd, 'e, 'g) DnsCtx" and name qtype dnssec resp
  assume ok: "unrecorded V n tx c cx"
  then obtain cx' where "insert_answer V cx name qtype dnssec resp = Some cx'" "pipe_ok V n cx'"
    using accounts.P_insert [of V n cx] unfolding unrecorded_def by blast
  then show "\<exists>cx'. insert_answer V cx name qtype dnssec resp = Some cx' \<and> unrecorded V n tx c cx'"
    using ok by (auto simp: unrecorded_def insert_answer_def read_clock_def)
next
  fix cx :: "('a, 'b, 'c, 'd, 'e, 'g) DnsCtx" and raw name dnssec and qtype :: u16
  assume ok: "unrecorded V n tx c cx"
  then obtain cx' where "refresh_stale V raw name qtype dnssec cx = Some cx'" "pipe_ok V n cx'"
    using accounts.P_refresh [of V n cx] unfolding unrecorded_def by blast
  then show "\<exists>cx'. refresh_stale V raw name qtype dnssec cx = Some cx' \<and> unrecorded V n tx c cx'"
    using ok by (auto simp: unrecorded_def refresh_stale_def begin_refresh_def bind_eq_Some_conv Let_def split: if_splits prod.splits bool.splits)
qed (simp_all add: unrecorded_def pipe_ok_def)

text \<open>
  C5. With the query log and the statistics switched off, handling a query, whichever way it
  ends, hands no entry to the statistics writer and draws no identifier for one.
\<close>

theorem nothing_recorded:
  assumes "pipe_ok V n cx" and "\<not> records_anything (record_switches cx)"
  shows "\<exists>bs cx'. handle_query_as V I resolve_raw cx raw src client_id = Some (bs, cx') \<and>
    query_tx cx' = query_tx cx \<and> query_counter cx' = query_counter cx"
  using unlogged.handle_good [of V n "query_tx cx" "query_counter cx" cx I resolve_raw raw src client_id] assms
  by (auto simp: unrecorded_def unlogged.good_def)

section \<open>A context to evaluate\<close>

definition demo_env :: "(string, string list, nat \<times> (string \<times> BlockCacheEntry) list, nat \<times> (string \<times> CacheEntry) list, string, bool, unit) env" where
  "demo_env = \<lparr>env_blk = sample_env, env_lru = list_lru, env_hickory = plain_hickory\<rparr>"

definition demo_hook :: Interceptor where
  "demo_hook = \<lparr>has_client_rules = False, maybe_intercept = \<lambda>_ _ _ _ _ _ _. None\<rparr>"

definition demo_ctx :: "string \<Rightarrow> (string, string list, nat \<times> (string \<times> BlockCacheEntry) list, nat \<times> (string \<times> CacheEntry) list, string, unit) DnsCtx" where
  "demo_ctx blocked = \<lparr>
     switches = \<lparr>sw_strip_ecs = True, sw_dnssec = True, sw_firefox_canary = True, sw_block_private_relay = True, sw_strip_ech = True\<rparr>,
     dns_cache = dns_cache_new list_lru 4 1000 0 0,
     blocklist = blocklist_new sample_env (sample_cfg\<lparr>c_domains := [blocked]\<rparr>) 0,
     block_answer = sinkhole, custom_records = custom_new, client_registry = registry_new True,
     live_stats = \<lparr>total_queries = 0, total_blocked = 0, total_allowed = 0, total_cached = 0, total_upstream = 0, total_routed = 0, total_dropped = 0\<rparr>,
     log_ignore = [], client_ttl = 60, record_switches = \<lparr>scope_queries = False, scope_stats = False\<rparr>,
     query_semaphore = 2, client_gate = gate_new 0 [] [], query_tx = [], query_tx_room = 8, query_tx_open = True, query_counter = 1,
     refreshes = [], cx_clock = (\<lambda>n. n), cx_reads = 0, cx_unix = 0\<rparr>"

abbreviation "home_client \<equiv> V4 0xC0A80005"

lemma demo_pipe_ok: "pipe_ok demo_env 2 (demo_ctx d)"
  using dns_new_ok [OF list_lru_laws, of 4 1000 0 0]
  by (simp add: pipe_ok_def demo_env_def demo_ctx_def list_lru_laws dns_cache_new_def)

lemma demo_reach: "lru_laws (b_lru (env_blk demo_env))" "engine_reach (env_blk demo_env) (blocklist (demo_ctx d))"
  by (simp_all add: demo_env_def demo_ctx_def list_lru_laws engine_reach.Start)

lemma sample_asks: "opcode sample_query = Some OPCODE_QUERY"
    "handler_question plain_hickory sample_query = Some (Some (''ads.io'', 1))"
  by code_simp+

theorem nothing_recorded_witness:
  "\<exists>bs cx'. handle_query_as demo_env demo_hook (\<lambda>_. None) (demo_ctx ''ads.io'') sample_query home_client None = Some (bs, cx') \<and> query_tx cx' = []"
  using nothing_recorded [OF demo_pipe_ok, of "''ads.io''" demo_hook "\<lambda>_. None" sample_query home_client None]
  by (auto simp: demo_ctx_def records_anything_def)

lemma demo_unscoped:
  "\<not> has_client_exceptions (blocklist (demo_ctx d))" "\<not> has_profiles (blocklist (demo_ctx d))" "blocking_enabled (blocklist (demo_ctx d))"
  "\<not> client_filtering_off_normalized (blocklist (demo_ctx d)) x None"
  by (simp_all add: demo_ctx_def blocklist_new_def Let_def sample_cfg_def has_client_exceptions_def
      blocking_enabled_def global_active_def client_filtering_off_normalized_def client_bypasses_blocking_normalized_def
      client_paused_def pauses_default_def normalize_client_keys_def)

lemma demo_identify:
  "\<exists>p. identify demo_env demo_hook ((demo_ctx d)\<lparr>cx_reads := 2, client_gate := client_gate (demo_ctx d)\<rparr>) sample_query home_client None 0 ''ads.io'' 1 =
     Some (p, None, (demo_ctx d)\<lparr>cx_reads := 2\<rparr>) \<and> pd_filtering_enabled p \<and> pd_profile p = None \<and> pd_name p = ''ads.io'' \<and> pd_qtype p = 1 \<and>
     pd_want_dnssec p = False"
proof -
  have dn: "dnssec_ok plain_hickory sample_query = Some False" by code_simp
  note b = demo_unscoped [of d]
  have sc: "\<not> client_scoped demo_hook (blocklist (demo_ctx d))" using b by (simp add: client_scoped_def demo_hook_def)
  show ?thesis
    using b dn sc
    by (simp add: identify_def Let_def noted_device_def filtering_for_def client_profile_def client_mac_of_def profile_for_def or_else_def demo_env_def demo_ctx_def)
qed

lemma demo_gate: "check (client_gate (demo_ctx d)) home_client t = (Pass, client_gate (demo_ctx d))"
  by (simp add: demo_ctx_def check_def gate_new_def set_acl_def Let_def is_loopback_def unmap_v4_def)

lemma demo_lists:
  "blacklist (blocklist (demo_ctx ''ads.io'')) = sample_list ''ads.io''" "blacklist (blocklist (demo_ctx ''x.y'')) = sample_list ''x.y''"
  "whitelist (blocklist (demo_ctx d)) = sample_list ''ok.evil.com''" "s_fst (allow (blocklist (demo_ctx d))) = []"
  "s_fst (block (blocklist (demo_ctx d))) = []" "blocked_services (blocklist (demo_ctx d)) = sb_new [] []"
  "safe_search_target (env_blk demo_env) (blocklist (demo_ctx d)) name None = None"
proof -
  have n: "normalise ''ok.evil.com'' = ''ok.evil.com''" "\<not> is_pattern ''ok.evil.com''"
    "normalise ''ads.io'' = ''ads.io''" "\<not> is_pattern ''ads.io''" "normalise ''x.y'' = ''x.y''" "\<not> is_pattern ''x.y''" by code_simp+
  have "safe_is_off (unpack_safe (pack_safe \<lparr>search = False, youtube = Off\<rparr>))" by code_simp
  then show "safe_search_target (env_blk demo_env) (blocklist (demo_ctx d)) name None = None"
    by (simp add: safe_search_target_def safe_search_def demo_ctx_def blocklist_new_def Let_def sample_cfg_def)
  show "blacklist (blocklist (demo_ctx ''ads.io'')) = sample_list ''ads.io''" "blacklist (blocklist (demo_ctx ''x.y'')) = sample_list ''x.y''"
    "whitelist (blocklist (demo_ctx d)) = sample_list ''ok.evil.com''" "s_fst (allow (blocklist (demo_ctx d))) = []"
    "s_fst (block (blocklist (demo_ctx d))) = []" "blocked_services (blocklist (demo_ctx d)) = sb_new [] []"
    by (simp_all add: demo_ctx_def blocklist_new_def Let_def sample_cfg_def from_entries_def from_entry_def n sample_list_def)
qed

lemma demo_decides:
  "decide (env_blk demo_env) (blocklist (demo_ctx ''ads.io'')) ''ads.io'' None"
  "\<not> decide (env_blk demo_env) (blocklist (demo_ctx ''x.y'')) ''ads.io'' None"
proof -
  have c: "\<not> ml_contains sample_psl literal_rx (sample_list ''ok.evil.com'') ''ads.io''"
    "ml_contains sample_psl literal_rx (sample_list ''ads.io'') ''ads.io''" "\<not> ml_contains sample_psl literal_rx (sample_list ''x.y'') ''ads.io''"
    "\<not> sb_contains sample_psl (sb_new [] []) ''ads.io''" "\<not> map_covers sample_env [] ''ads.io''" by code_simp+
  then show "decide (env_blk demo_env) (blocklist (demo_ctx ''ads.io'')) ''ads.io'' None"
    "\<not> decide (env_blk demo_env) (blocklist (demo_ctx ''x.y'')) ''ads.io'' None"
    by (simp_all add: decide_def is_whitelisted_for_normalized_def demo_lists profile_fst_def demo_env_def)
qed

lemma demo_local: "custom_lookup (env_hickory demo_env) (custom_records (demo_ctx d)) sample_query ''ads.io'' 1 = None"
    "canary ''ads.io'' (switches (demo_ctx d)) = None"
  by (simp_all add: demo_ctx_def custom_new_def custom_lookup_def find_record_def canary_def FIREFOX_CANARY_def PRIVATE_RELAY_CANARIES_def)

theorem blocked_name_answered_witness:
  "\<exists>bs cx'. decide_as demo_env demo_hook (demo_ctx ''ads.io'') sample_query home_client None = Some (D_Answer bs, cx') \<and>
     build_blocked plain_hickory sample_query 1 60 sinkhole = Some (bs, 0)"
proof -
  let ?cx = "demo_ctx ''ads.io''"
  obtain p where p: "identify demo_env demo_hook (?cx\<lparr>cx_reads := 2, client_gate := client_gate ?cx\<rparr>) sample_query home_client None 0 ''ads.io'' 1 =
     Some (p, None, ?cx\<lparr>cx_reads := 2\<rparr>)" "pd_filtering_enabled p" "pd_profile p = None" using demo_identify by blast
  have z: "cx_reads ?cx = 0" "cx_clock ?cx 0 = 0" "client_ttl ?cx = 60" "block_answer ?cx = sinkhole" by (simp_all add: demo_ctx_def)
  have h: "env_hickory demo_env = plain_hickory" by (simp add: demo_env_def)
  have "identify demo_env demo_hook (?cx\<lparr>cx_reads := Suc (Suc (cx_reads ?cx)), client_gate := client_gate ?cx\<rparr>) sample_query home_client (device_key None)
      (cx_clock ?cx (cx_reads ?cx)) ''ads.io'' 1 = Some (p, None, ?cx\<lparr>cx_reads := 2\<rparr>)"
    using p(1) z by (simp add: device_key_def numeral_2_eq_2)
  from blocked_name_answered [OF demo_reach(1) demo_reach(2) demo_gate sample_asks(1) sample_asks(2) [folded h] this demo_local p(2)]
  obtain bs rc cx' where "build_blocked plain_hickory sample_query 1 60 sinkhole = Some (bs, rc)"
    "decide_as demo_env demo_hook ?cx sample_query home_client None = Some (D_Answer bs, cx')"
    using demo_decides(1) p(3) z h by auto
  moreover from this(1) have "rc = 0" by (auto simp: build_blocked_def sinkhole_def)
  ultimately show ?thesis by blast
qed

lemma demo_upstream: "\<exists>p cx'. decide_as demo_env demo_hook (demo_ctx ''x.y'') sample_query home_client None = Some (D_Upstream p, cx')"
proof -
  let ?cx = "demo_ctx ''x.y''" let ?cx2 = "?cx\<lparr>cx_reads := 2\<rparr>"
  obtain p where p: "identify demo_env demo_hook (?cx\<lparr>cx_reads := 2, client_gate := client_gate ?cx\<rparr>) sample_query home_client None 0 ''ads.io'' 1 =
     Some (p, None, ?cx2)" "pd_filtering_enabled p" "pd_profile p = None" "pd_name p = ''ads.io''" "pd_qtype p = 1" using demo_identify by blast
  have h: "env_hickory demo_env = plain_hickory" by (simp add: demo_env_def)
  have z: "cx_reads ?cx = 0" "cx_clock ?cx 0 = 0" "dns_cache ?cx = dns_cache_new list_lru 4 1000 0 0" by (simp_all add: demo_ctx_def)
  obtain b where b: "ask_blocklist demo_env ?cx2 ''ads.io'' None = (False, ?cx2\<lparr>cx_reads := 3, blocklist := b\<rparr>)"
      "should_block_for (env_blk demo_env) (cx_clock ?cx 2) (blocklist ?cx) ''ads.io'' None = (False, b)"
    using ask_blocklist_decides [of demo_env ?cx2 None "''ads.io''"] demo_reach demo_decides(2) by (auto simp: valid_profile_def)
  have "step_custom demo_env sample_query p ?cx2 = Some (None, ?cx2)" "step_canary demo_env sample_query p ?cx2 = Some (None, ?cx2)"
    using demo_local p by (simp_all add: step_custom_def step_canary_def)
  moreover have "step_block demo_env sample_query p ?cx2 = Some (None, ?cx2\<lparr>cx_reads := 3, blocklist := b\<rparr>)"
    using b p by (simp add: step_block_def)
  moreover have "step_safe demo_env sample_query p (?cx2\<lparr>cx_reads := 3, blocklist := b\<rparr>) = Some (None, ?cx2\<lparr>cx_reads := 3, blocklist := b\<rparr>)"
    using demo_lists(7) should_block_for_safe [OF b(2)] p by (simp add: step_safe_def)
  moreover have "step_route demo_hook sample_query p None (?cx2\<lparr>cx_reads := 3, blocklist := b\<rparr>) = Some (None, ?cx2\<lparr>cx_reads := 3, blocklist := b\<rparr>)"
    by (simp add: step_route_def demo_hook_def Let_def)
  moreover have "\<exists>c'. step_cache demo_env sample_query p c = Some (None, c')" if "dns_cache c = dns_cache ?cx" for c
  proof -
    have "with_key ''ads.io'' (unat (1::u16)) f = Some (cache_key ''ads.io'' (unat (1::u16)) f)" for f
      using with_key_cache_key [OF unat_u16_less] by blast
    then show ?thesis
      using that z(3) p by (simp add: step_cache_def cached_answer_def read_clock_def get_with_remaining_def get_stale_def dns_cache_new_def
          demo_env_def list_lru_def)
  qed
  ultimately have "\<exists>c'. local_steps demo_env demo_hook sample_query p None ?cx2 = Some (None, c')"
    by (simp add: local_steps_def and_then_def)
  then show ?thesis
    using decide_as_eq [OF demo_gate sample_asks(2) [folded h], where I = demo_hook and client_id = None] sample_asks(1) p(1) z
    by (auto simp: device_key_def numeral_2_eq_2)
qed

theorem upstream_only_unblocked_witness:
  "\<exists>p cx'. decide_as demo_env demo_hook (demo_ctx ''x.y'') sample_query home_client None = Some (D_Upstream p, cx') \<and>
     pd_name p = ''ads.io'' \<and> (pd_filtering_enabled p \<longrightarrow> \<not> decide sample_env (blocklist (demo_ctx ''x.y'')) ''ads.io'' (pd_profile p))"
proof -
  obtain p cx' where up: "decide_as demo_env demo_hook (demo_ctx ''x.y'') sample_query home_client None = Some (D_Upstream p, cx')"
    using demo_upstream by blast
  note facts = upstream_only_unblocked [OF demo_reach(1) demo_reach(2) up]
  then have "pd_name p = ''ads.io''" using sample_asks(2) by (simp add: demo_env_def)
  then show ?thesis using up facts by (auto simp: demo_env_def)
qed

lemma demo_blocked:
  "\<exists>bs cx'. decide_as demo_env demo_hook (demo_ctx ''ads.io'') sample_query home_client None = Some (D_Answer bs, cx') \<and>
     build_blocked plain_hickory sample_query 1 60 sinkhole = Some (bs, 0)"
proof -
  let ?cx = "demo_ctx ''ads.io''" let ?cx2 = "?cx\<lparr>cx_reads := 2\<rparr>"
  obtain p where p: "identify demo_env demo_hook (?cx\<lparr>cx_reads := 2, client_gate := client_gate ?cx\<rparr>) sample_query home_client None 0 ''ads.io'' 1 =
     Some (p, None, ?cx2)" "pd_filtering_enabled p" "pd_profile p = None" "pd_name p = ''ads.io''" "pd_qtype p = 1" using demo_identify by blast
  have h: "env_hickory demo_env = plain_hickory" by (simp add: demo_env_def)
  have z: "cx_reads ?cx = 0" "cx_clock ?cx 0 = 0" "client_ttl ?cx = 60" "block_answer ?cx = sinkhole" by (simp_all add: demo_ctx_def)
  obtain b where b: "ask_blocklist demo_env ?cx2 ''ads.io'' None = (True, ?cx2\<lparr>cx_reads := 3, blocklist := b\<rparr>)"
    using ask_blocklist_decides [of demo_env ?cx2 None "''ads.io''"] demo_reach demo_decides(1) by (auto simp: valid_profile_def)
  obtain bs rc where bs: "build_blocked plain_hickory sample_query 1 60 sinkhole = Some (bs, rc)" using build_blocked_total by fastforce
  then have rc: "rc = 0" by (auto simp: build_blocked_def sinkhole_def)
  have "\<exists>c'. local_steps demo_env demo_hook sample_query p None ?cx2 = Some (Some (D_Answer bs), c')"
    using local_blocked [where V = demo_env and cx = ?cx2 and raw = sample_query and p = p and cx' = "?cx2\<lparr>cx_reads := 3, blocklist := b\<rparr>" and
        bs = bs and rc = rc and I = demo_hook and m = None]
      demo_local p b bs z h identify_facts(1) [OF p(1)] by auto
  then show ?thesis
    using decide_as_eq [OF demo_gate sample_asks(2) [folded h], where I = demo_hook and client_id = None] sample_asks(1) p(1) z bs rc
    by (auto simp: device_key_def numeral_2_eq_2)
qed

theorem answers_within_client_ttl_witness:
  "\<exists>bs cx' rs. handle_query_as demo_env demo_hook (\<lambda>_. None) (demo_ctx ''ads.io'') sample_query home_client None = Some (bs, cx') \<and>
     records bs = Some rs \<and> rs \<noteq> [] \<and> (\<forall>r. r \<in> set rs \<longrightarrow> rtype r = TYPE_OPT \<or> ttl_of bs r \<le> 60)"
proof -
  obtain bs cx' where d: "decide_as demo_env demo_hook (demo_ctx ''ads.io'') sample_query home_client None = Some (D_Answer bs, cx')"
    "build_blocked plain_hickory sample_query 1 60 sinkhole = Some (bs, 0)" using demo_blocked by blast
  have run: "handle_query_as demo_env demo_hook (\<lambda>_. None) (demo_ctx ''ads.io'') sample_query home_client None = Some (bs, cx')"
    using d(1) by (simp add: handle_query_as_def)
  have "Option.bind (map_option fst (build_blocked plain_hickory sample_query 1 60 sinkhole)) (\<lambda>bs. map_option (\<lambda>rs. rs \<noteq> []) (records bs)) = Some True"
    by code_simp
  then obtain rs where "records bs = Some rs" "rs \<noteq> []" using d(2) by auto
  moreover from answers_within_client_ttl [OF _ sample_query_answerable run this(1)] plain_hickory_laws
  have "\<forall>r. r \<in> set rs \<and> rtype r \<noteq> TYPE_OPT \<longrightarrow> ttl_of bs r \<le> 60" by (simp add: demo_env_def demo_ctx_def)
  ultimately show ?thesis using run by blast
qed

end
