(* ===== verification/Dns_Server.thy ===== *)
theory Dns_Server
  imports Handler
begin

unbundle bit_operations_syntax

text \<open>
  The DNS listeners, \<open>crates/dns/src/server.rs\<close>: what one received datagram or one framed
  query of a TCP connection leads to. The sockets themselves, their batching and the idle
  timeout are not modelled. A query that waits for its upstream answer holds a permit and is a
  task on \<open>srv_tasks\<close>; its end is \<open>task_done\<close>.
\<close>

definition MAX_UDP_PAYLOAD :: nat where "MAX_UDP_PAYLOAD = 4096"

definition MAX_TCP_PAYLOAD :: nat where "MAX_TCP_PAYLOAD = 65535"

definition client_udp_payload :: "bytes \<Rightarrow> nat rs" where
  "client_udp_payload query = map_option (\<lambda>n. min n MAX_UDP_PAYLOAD) (udp_payload query)"

section \<open>Truncation\<close>

definition truncate_response :: "bytes \<Rightarrow> bytes rs" where
  "truncate_response resp =
     (if length resp < 12 then Some resp
      else do {
        out \<leftarrow> get_range resp 0 12;
        b \<leftarrow> index out 2;
        out \<leftarrow> set_at out 2 (b OR 0x02);
        out \<leftarrow> set_at out 6 0;
        out \<leftarrow> set_at out 7 0;
        out \<leftarrow> set_at out 8 0;
        out \<leftarrow> set_at out 9 0;
        out \<leftarrow> set_at out 10 0;
        out \<leftarrow> set_at out 11 0;
        e \<leftarrow> question_end resp;
        (case e of
           Some q_end \<Rightarrow> do { q \<leftarrow> get_range resp 12 q_end; Some (out @ q) }
         | None \<Rightarrow> do { out \<leftarrow> set_at out 4 0; set_at out 5 0 })
      })"

definition for_wire :: "bytes \<Rightarrow> nat \<Rightarrow> bytes option rs" where
  "for_wire resp max_udp =
     (if resp = [] then Some None
      else if length resp > max_udp then map_option Some (truncate_response resp)
      else Some (Some resp))"

section \<open>Tasks and permits\<close>

datatype Reply_to = Udp nat | Tcp

record Task =
  tk_raw :: bytes
  tk_pending :: Pending
  tk_to :: Reply_to

record ('r, 'f, 'c, 'd, 'n, 'o) Server =
  srv_ctx :: "('r, 'f, 'c, 'd, 'n, 'o) DnsCtx"
  srv_tasks :: "Task list"

definition acquire_permit :: "('r, 'f, 'c, 'd, 'n, 'o) DnsCtx \<Rightarrow> ('r, 'f, 'c, 'd, 'n, 'o) DnsCtx option" where
  "acquire_permit cx = (if query_semaphore cx = 0 then None else Some (cx\<lparr>query_semaphore := query_semaphore cx - 1\<rparr>))"

definition release_permit :: "('r, 'f, 'c, 'd, 'n, 'o) DnsCtx \<Rightarrow> ('r, 'f, 'c, 'd, 'n, 'o) DnsCtx" where
  "release_permit cx = cx\<lparr>query_semaphore := query_semaphore cx + 1\<rparr>"

text \<open>The answer to a datagram that comes when every permit is taken.\<close>

definition shed_load :: "bytes \<Rightarrow> bytes option rs" where
  "shed_load raw =
     (if length raw \<ge> 2 then do {
        a \<leftarrow> index raw 0;
        b \<leftarrow> index raw 1;
        let servfail = [a, b, 0x80, 0x02, 0, 0, 0, 0, 0, 0, 0, 0];
        rd \<leftarrow> (if length raw \<ge> 3 then map_option (\<lambda>f. f AND 0x01 \<noteq> 0) (index raw 2) else Some False);
        if rd then do {
          f \<leftarrow> index servfail 2;
          map_option Some (set_at servfail 2 (f OR 0x01))
        }
        else Some (Some servfail)
      }
      else Some None)"

section \<open>The listeners\<close>

definition dispatch :: "('r, 'f, 'c, 'd, 'n, 'e, 'o) env \<Rightarrow> Interceptor \<Rightarrow> ('r, 'f, 'c, 'd, 'n, 'o) Server \<Rightarrow> bytes \<Rightarrow> IpAddr \<Rightarrow>
    (bytes option \<times> ('r, 'f, 'c, 'd, 'n, 'o) Server) rs" where
  "dispatch V I s raw src = do {
     max_udp \<leftarrow> client_udp_payload raw;
     (d, cx) \<leftarrow> decide_unnamed V I (srv_ctx s) raw src;
     (case d of
        D_Answer resp \<Rightarrow> map_option (\<lambda>out. (out, s\<lparr>srv_ctx := cx\<rparr>)) (for_wire resp max_udp)
      | D_Drop \<Rightarrow> Some (None, s\<lparr>srv_ctx := cx\<rparr>)
      | D_Upstream p \<Rightarrow>
          (case acquire_permit cx of
             None \<Rightarrow> map_option (\<lambda>out. (out, s\<lparr>srv_ctx := cx\<rparr>)) (shed_load raw)
           | Some cx \<Rightarrow> Some (None, s\<lparr>srv_ctx := cx, srv_tasks := srv_tasks s @
               [\<lparr>tk_raw = raw, tk_pending = p, tk_to = Udp max_udp\<rparr>]\<rparr>)))
   }"

text \<open>
  One query of a TCP connection, after its length and its bytes were read: the connection is
  closed, goes on with nothing written, gets a framed answer, or waits.
\<close>

datatype TcpStep = T_Close | T_Continue | T_Write bytes | T_Wait

definition framed_reply :: "bytes \<Rightarrow> TcpStep" where
  "framed_reply response = (if response = [] then T_Continue else T_Write (u16_bytes (word_of_nat (length response)) @ response))"

definition tcp_length :: "u8 \<Rightarrow> u8 \<Rightarrow> nat option" where
  "tcp_length a b = (let msg_len = unat (be16 a b) in if msg_len = 0 \<or> msg_len > MAX_TCP_PAYLOAD then None else Some msg_len)"

definition tcp_query :: "('r, 'f, 'c, 'd, 'n, 'e, 'o) env \<Rightarrow> Interceptor \<Rightarrow> ('r, 'f, 'c, 'd, 'n, 'o) Server \<Rightarrow> bytes \<Rightarrow> IpAddr \<Rightarrow>
    (TcpStep \<times> ('r, 'f, 'c, 'd, 'n, 'o) Server) rs" where
  "tcp_query V I s raw src =
     (case acquire_permit (srv_ctx s) of
        None \<Rightarrow> Some (T_Close, s)
      | Some cx \<Rightarrow> do {
          (d, cx) \<leftarrow> decide_unnamed V I cx raw src;
          Some (case d of
            D_Answer resp \<Rightarrow> (framed_reply resp, s\<lparr>srv_ctx := release_permit cx\<rparr>)
          | D_Drop \<Rightarrow> (framed_reply [], s\<lparr>srv_ctx := release_permit cx\<rparr>)
          | D_Upstream p \<Rightarrow> (T_Wait, s\<lparr>srv_ctx := cx, srv_tasks := srv_tasks s @ [\<lparr>tk_raw = raw, tk_pending = p, tk_to = Tcp\<rparr>]\<rparr>))
        })"

text \<open>The end of a waiting query: what is sent to the client, and the permit given back.\<close>

definition task_done :: "('r, 'f, 'c, 'd, 'n, 'e, 'o) env \<Rightarrow> Task \<Rightarrow> (bytes \<times> string) option \<Rightarrow> ('r, 'f, 'c, 'd, 'n, 'o) Server \<Rightarrow>
    (bytes option \<times> ('r, 'f, 'c, 'd, 'n, 'o) Server) rs" where
  "task_done V t reply s = do {
     (resp, cx) \<leftarrow> resolve_finish V (srv_ctx s) (tk_raw t) (tk_pending t) reply;
     out \<leftarrow> (case tk_to t of
        Udp max_udp \<Rightarrow> for_wire resp max_udp
      | Tcp \<Rightarrow> Some (case framed_reply resp of T_Write bs \<Rightarrow> Some bs | _ \<Rightarrow> None));
     Some (out, s\<lparr>srv_ctx := release_permit cx, srv_tasks := remove1 t (srv_tasks s)\<rparr>)
   }"

end
