(* ===== verification/Dns_Server_Correct.thy ===== *)
theory Dns_Server_Correct
  imports Handler_Answers Dns_Server
begin

text \<open>
  What the DNS server does with its permits and tasks over a whole run, and what an answer is
  like when it reaches the wire.
\<close>

section \<open>Truncation\<close>

lemma truncate_response_eq:
  assumes "12 \<le> length resp"
  shows "truncate_response resp = Some (case the (question_end resp) of
      Some e \<Rightarrow> take 2 resp @ [resp ! 2 OR 0x02] @ take 3 (drop 3 resp) @ [0, 0, 0, 0, 0, 0] @ take (e - 12) (drop 12 resp)
    | None \<Rightarrow> take 2 resp @ [resp ! 2 OR 0x02, resp ! 3, 0, 0, 0, 0, 0, 0, 0, 0])"
proof -
  obtain xs ys where r: "resp = xs @ ys" "length xs = 12" using assms by (metis append_take_drop_id length_take min.absorb2)
  then obtain a b c d e f g h i j k l where xs: "xs = [a, b, c, d, e, f, g, h, i, j, k, l]"
    by (auto simp: numeral_eq_Suc length_Suc_conv)
  obtain q where q: "question_end resp = Some q" using question_end_total [of resp] by blast
  have "12 \<le> e \<and> e \<le> length resp" if "q = Some e" for e using question_end_bounds [of resp e] q that by simp
  then show ?thesis
    using q r xs by (cases q) (auto simp: truncate_response_def get_range_def rs_simps set_at_def numeral_eq_Suc)
qed

lemma for_wire_total: "\<exists>out. for_wire resp n = Some out"
  using truncate_response_eq [of resp]
  by (cases "12 \<le> length resp") (auto simp: for_wire_def truncate_response_def)

text \<open>
  C14. An answer too large for the client's UDP limit is replaced by one with its identifier,
  its question and its response code, marked as truncated and as a response when it was one,
  without any record: the bytes after the question are exactly what is dropped.
\<close>

theorem truncated_answer:
  assumes "answerable resp e" and "max_udp < length resp"
  shows "\<exists>bs. for_wire resp max_udp = Some (Some bs) \<and> length bs = e \<and> query_id bs = query_id resp \<and> question bs = question resp \<and>
    records bs = Some [] \<and> bit (bs ! 2) 1 \<and> (\<forall>k. k \<noteq> 1 \<longrightarrow> bit (bs ! 2) k = bit (resp ! 2) k) \<and> bs ! 3 = resp ! 3 \<and> drop 12 bs = drop 12 (take e resp)"
proof -
  let ?bs = "reply_shape resp e (resp ! 2 OR 0x02) (resp ! 3) [0, 0, 0, 0, 0, 0]"
  have q: "question_end resp = Some (Some e)" "17 \<le> e" "e \<le> length resp"
    using assms(1) question_end_bounds by (auto simp: answerable_def)
  have "(b OR 2) OR (b AND 1) = (b OR 2 :: u8)" for b
    by (rule u8_all [of "\<lambda>b. (b OR 2) OR (b AND 1) = (b OR 2 :: u8)"]) code_simp
  then have flags: "?bs = take 2 resp @ [resp ! 2 OR 0x02] @ take 3 (drop 3 resp) @ [0, 0, 0, 0, 0, 0] @ take (e - 12) (drop 12 resp)"
    using q by (simp add: reply_shape_def numeral_eq_Suc take_Suc_conv_app_nth)
  have run: "for_wire resp max_udp = Some (Some ?bs)"
    using q assms(2) truncate_response_eq [of resp] flags by (auto simp: for_wire_def)
  note nth = reply_shape_nth [OF assms(1), where cs = "[0, 0, 0, 0, 0, 0]" and fa = "resp ! 2 OR 0x02" and fb = "resp ! 3"]
  have "?bs ! 2 = resp ! 2 OR 0x02" using q by (simp add: flags nth_append)
  moreover have "records ?bs = Some []"
    using reply_cursor [OF assms(1), where cs = "[0, 0, 0, 0, 0, 0]" and fa = "resp ! 2 OR 0x02" and fb = "resp ! 3" and rest = "[]"]
    by (intro records_none [of _ e]) (simp add: be16_small)
  moreover have "drop 12 ?bs = drop 12 (take e resp)" using q by (simp add: flags drop_take)
  ultimately show ?thesis
    using run nth reply_shape_length [OF assms(1), where cs = "[0, 0, 0, 0, 0, 0]"]
      reply_question [OF assms(1), where cs = "[0, 0, 0, 0, 0, 0]" and rest = "[]"]
    by (intro exI [of _ ?bs]) (auto simp: bit_or_iff bit_2_iff)
qed

theorem truncated_answer_witness:
  "\<exists>bs. for_wire (sample_query @ [0xC0, 0x0C]) 25 = Some (Some bs) \<and> records bs = Some []"
proof -
  have "answerable (sample_query @ [0xC0, 0x0C]) 24" unfolding answerable_def by code_simp
  from truncated_answer [OF this, of 25] show ?thesis by (auto simp: sample_query_def)
qed

section \<open>Permits and tasks\<close>

inductive srv_reach :: "('r, 'f, 'c, 'd, 'n, 'e, 'o) env \<Rightarrow> Interceptor \<Rightarrow> ('r, 'f, 'c, 'd, 'n, 'o) Server \<Rightarrow>
    ('r, 'f, 'c, 'd, 'n, 'o) Server \<Rightarrow> bool" for V I s\<^sub>0 where
  Start: "srv_reach V I s\<^sub>0 s\<^sub>0"
| Datagram: "srv_reach V I s\<^sub>0 s \<Longrightarrow> dispatch V I s raw src = Some (out, s') \<Longrightarrow> srv_reach V I s\<^sub>0 s'"
| Connection: "srv_reach V I s\<^sub>0 s \<Longrightarrow> tcp_query V I s raw src = Some (tstep, s') \<Longrightarrow> srv_reach V I s\<^sub>0 s'"
| Answered: "srv_reach V I s\<^sub>0 s \<Longrightarrow> t \<in> set (srv_tasks s) \<Longrightarrow> task_done V t reply s = Some (out, s') \<Longrightarrow> srv_reach V I s\<^sub>0 s'"
| Refreshed: "srv_reach V I s\<^sub>0 s \<Longrightarrow> f \<in> set (refreshes (srv_ctx s)) \<Longrightarrow> refresh_done V f reply (srv_ctx s) = Some cx \<Longrightarrow>
    srv_reach V I s\<^sub>0 (s\<lparr>srv_ctx := cx\<rparr>)"
| Cache: "srv_reach V I s\<^sub>0 s \<Longrightarrow> \<forall>k. x \<noteq> Begin_refresh k \<and> x \<noteq> End_refresh k \<Longrightarrow>
    dns_step (env_lru V) (dns_cache (srv_ctx s)) x = Some d \<Longrightarrow> srv_reach V I s\<^sub>0 (s\<lparr>srv_ctx := (srv_ctx s)\<lparr>dns_cache := d\<rparr>\<rparr>)"
| Settings: "srv_reach V I s\<^sub>0 s \<Longrightarrow> srv_reach V I s\<^sub>0 (s\<lparr>srv_ctx := (srv_ctx s)\<lparr>switches := sw, blocklist := b, block_answer := ba,
    custom_records := cr, client_registry := rg, log_ignore := li, client_ttl := ttl, record_switches := rec,
    client_gate := g, query_tx := tx, cx_unix := u\<rparr>\<rparr>)"

definition srv_ok :: "('r, 'f, 'c, 'd, 'n, 'e, 'o) env \<Rightarrow> nat \<Rightarrow> ('r, 'f, 'c, 'd, 'n, 'o) Server \<Rightarrow> bool" where
  "srv_ok V n s \<longleftrightarrow> length (srv_tasks s) \<le> n \<and> pipe_ok V (n - length (srv_tasks s)) (srv_ctx s)"

lemma acquire_ok: "pipe_ok V n cx \<Longrightarrow> acquire_permit cx = Some cx' \<Longrightarrow> 0 < n \<and> pipe_ok V (n - 1) cx'"
  by (auto simp: acquire_permit_def pipe_ok_def split: if_splits)

lemma release_ok: "pipe_ok V n cx \<Longrightarrow> pipe_ok V (Suc n) (release_permit cx)"
  by (auto simp: release_permit_def pipe_ok_def)

lemma decide_ok: "pipe_ok V n cx \<Longrightarrow> \<exists>d cx'. decide_unnamed V I cx raw src = Some (d, cx') \<and> pipe_ok V n cx'"
  using accounts.decide_good [of V n cx I raw src None] by (auto simp: decide_unnamed_def accounts.good_def)

lemma shed_load_total: "\<exists>out. shed_load raw = Some out"
  by (auto simp: shed_load_def index_def set_at_def Let_def)

lemma dispatch_ok:
  assumes ok: "srv_ok V n s"
  shows "\<exists>out s'. dispatch V I s raw src = Some (out, s') \<and> srv_ok V n s'"
proof -
  obtain m where m: "client_udp_payload raw = Some m"
    using udp_payload_total [of raw] by (auto simp: client_udp_payload_def)
  obtain d cx where d: "decide_unnamed V I (srv_ctx s) raw src = Some (d, cx)" "pipe_ok V (n - length (srv_tasks s)) cx"
    using decide_ok ok unfolding srv_ok_def by blast
  obtain out shed where o: "for_wire (case d of D_Answer r \<Rightarrow> r | _ \<Rightarrow> []) m = Some out" "shed_load raw = Some shed"
    using for_wire_total shed_load_total by blast
  show ?thesis
    using m d o ok acquire_ok [OF d(2)]
    by (cases d; cases "acquire_permit cx") (auto simp: dispatch_def srv_ok_def)
qed

lemma tcp_query_ok:
  assumes ok: "srv_ok V n s"
  shows "\<exists>out s'. tcp_query V I s raw src = Some (out, s') \<and> srv_ok V n s'"
proof (cases "acquire_permit (srv_ctx s)")
  case (Some cx)
  then have "0 < n - length (srv_tasks s)" "pipe_ok V (n - length (srv_tasks s) - 1) cx"
    using acquire_ok ok unfolding srv_ok_def by blast+
  moreover have "Suc (n - length (srv_tasks s) - 1) = n - length (srv_tasks s)" using calculation(1) by simp
  moreover obtain d cx' where "decide_unnamed V I cx raw src = Some (d, cx')" "pipe_ok V (n - length (srv_tasks s) - 1) cx'"
    using decide_ok calculation(2) by blast
  ultimately show ?thesis
    using Some ok release_ok [of V "n - length (srv_tasks s) - 1" cx'] by (cases d) (auto simp: tcp_query_def srv_ok_def)
qed (use ok in \<open>simp add: tcp_query_def\<close>)

lemma task_done_ok:
  assumes ok: "srv_ok V n s"
  shows "\<exists>out s'. task_done V t reply s = Some (out, s') \<and> (t \<in> set (srv_tasks s) \<longrightarrow> srv_ok V n s')"
proof -
  obtain resp cx where r: "resolve_finish V (srv_ctx s) (tk_raw t) (tk_pending t) reply = Some (resp, cx)"
    "pipe_ok V (n - length (srv_tasks s)) cx"
    using accounts.finish_good [of V "n - length (srv_tasks s)" "srv_ctx s" "tk_raw t" "tk_pending t" reply] ok
    by (auto simp: srv_ok_def accounts.good_def)
  obtain out where "(case tk_to t of Udp m \<Rightarrow> for_wire resp m
      | Tcp \<Rightarrow> Some (case framed_reply resp of T_Write bs \<Rightarrow> Some bs | _ \<Rightarrow> None)) = Some out"
    using for_wire_total by (cases "tk_to t") auto
  moreover have "n - (length (srv_tasks s) - 1) = Suc (n - length (srv_tasks s))" if "t \<in> set (srv_tasks s)"
    using length_pos_if_in_set [OF that] ok unfolding srv_ok_def by linarith
  ultimately show ?thesis
    using r ok release_ok [OF r(2)] by (auto simp: task_done_def srv_ok_def length_remove1)
qed

lemma dns_step_refreshing:
  assumes "dns_step L d x = Some d'" and "\<forall>k. x \<noteq> Begin_refresh k \<and> x \<noteq> End_refresh k"
  shows "refreshing d' = refreshing d"
  using assms by (cases x) (auto simp: dns_insert_def set_ttl_bounds_def set_stale_window_def evict_def evict_domain_def
      evict_expired_def forget_name_def pop_keys_def dns_clear_def dns_resize_def dns_restore_def bind_eq_Some_conv Let_def)

lemma srv_reach_ok:
  assumes "srv_reach V I s\<^sub>0 s" and "srv_ok V n s\<^sub>0"
  shows "srv_ok V n s"
  using assms
proof induction
  case (Datagram s raw src out s')
  then show ?case using dispatch_ok [of V n s I raw src] by auto
next
  case (Connection s raw src tstep s')
  then show ?case using tcp_query_ok [of V n s I raw src] by auto
next
  case (Answered s t reply out s')
  then show ?case using task_done_ok [of V n s t reply] by auto
next
  case (Refreshed s f reply cx)
  then show ?case using refresh_done_ok [of V "n - length (srv_tasks s)" "srv_ctx s" f reply] by (auto simp: srv_ok_def)
next
  case (Cache s x d)
  then show ?case
    using dns_step_ok [of "env_lru V" "dns_cache (srv_ctx s)" x] dns_step_refreshing [of "env_lru V" "dns_cache (srv_ctx s)" x d]
    by (auto simp: srv_ok_def pipe_ok_def)
qed (auto simp: srv_ok_def pipe_ok_def)

text \<open>
  C3. Over any run of the DNS server (datagrams, TCP queries, ends of waiting queries and of
  background refreshes, edits of the settings and operations on the cache, in any order and
  with any upstream answers) no operation panics, every permit is either free or held by
  exactly one waiting query or refresh, and no cache entry is refreshed twice at a time.
\<close>

theorem server_accounts:
  assumes "lru_laws (env_lru V)" and "srv_reach V I s\<^sub>0 s" and "dns_ok (env_lru V) (dns_cache (srv_ctx s\<^sub>0))"
    and "srv_tasks s\<^sub>0 = []" and "refreshes (srv_ctx s\<^sub>0) = []" and "refreshing (dns_cache (srv_ctx s\<^sub>0)) = {}"
  shows "dispatch V I s raw src \<noteq> None \<and> tcp_query V I s raw src \<noteq> None \<and> task_done V t reply s \<noteq> None \<and>
    (\<forall>f. f \<in> set (refreshes (srv_ctx s)) \<longrightarrow> refresh_done V f reply (srv_ctx s) \<noteq> None) \<and>
    query_semaphore (srv_ctx s) + length (srv_tasks s) + length (refreshes (srv_ctx s)) = query_semaphore (srv_ctx s\<^sub>0) \<and>
    distinct (map rf_key (refreshes (srv_ctx s))) \<and> refreshing (dns_cache (srv_ctx s)) = rf_key ` set (refreshes (srv_ctx s))"
proof -
  let ?n = "query_semaphore (srv_ctx s\<^sub>0)"
  have "srv_ok V ?n s\<^sub>0" using assms(1,3-6) by (simp add: srv_ok_def pipe_ok_def)
  from srv_reach_ok [OF assms(2) this] have ok: "srv_ok V ?n s" .
  then have pipe: "pipe_ok V (?n - length (srv_tasks s)) (srv_ctx s)" "length (srv_tasks s) \<le> ?n" by (simp_all add: srv_ok_def)
  have "\<forall>f. f \<in> set (refreshes (srv_ctx s)) \<longrightarrow> refresh_done V f reply (srv_ctx s) \<noteq> None"
    using refresh_done_ok [OF pipe(1)] by fastforce
  moreover have "dispatch V I s raw src \<noteq> None" "tcp_query V I s raw src \<noteq> None" "task_done V t reply s \<noteq> None"
    using dispatch_ok [OF ok] tcp_query_ok [OF ok] task_done_ok [OF ok] by (metis option.distinct(1))+
  ultimately show ?thesis using pipe by (auto simp: pipe_ok_def)
qed

definition demo_server :: "(string, string list, nat \<times> (string \<times> BlockCacheEntry) list, nat \<times> (string \<times> CacheEntry) list, string, unit) Server" where
  "demo_server = \<lparr>srv_ctx = demo_ctx ''ads.io'', srv_tasks = []\<rparr>"

theorem server_accounts_witness:
  "\<exists>out s. dispatch demo_env demo_hook demo_server sample_query home_client = Some (out, s) \<and>
     query_semaphore (srv_ctx s) + length (srv_tasks s) + length (refreshes (srv_ctx s)) = 2"
proof -
  have start: "dns_ok (env_lru demo_env) (dns_cache (srv_ctx demo_server))" "lru_laws (env_lru demo_env)" "srv_tasks demo_server = []"
    "refreshes (srv_ctx demo_server) = []" "refreshing (dns_cache (srv_ctx demo_server)) = {}" "query_semaphore (srv_ctx demo_server) = 2"
    using demo_pipe_ok [of "''ads.io''"] by (simp_all add: pipe_ok_def demo_server_def) (simp_all add: demo_ctx_def)
  note run = server_accounts [OF start(2) _ start(1,3-5)]
  obtain out s where s: "dispatch demo_env demo_hook demo_server sample_query home_client = Some (out, s)"
    using run [OF srv_reach.Start, of demo_hook sample_query home_client undefined undefined] by auto
  with run [OF srv_reach.Datagram [OF srv_reach.Start s]] start(6) show ?thesis by auto
qed

end
