(* ===== verification/Upstream.thy ===== *)
theory Upstream
  imports Dns_Message Dns_Cache
begin

unbundle bit_operations_syntax

text \<open>
  The upstream resolvers of \<open>crates/upstream/src\<close>: the plain resolver (\<open>plain.rs\<close>), the pool of
  stream connections under it and under DNS over TLS (\<open>stream.rs\<close>), the resolver through a tunnel
  (\<open>tunneled.rs\<close>), the round-robin pool (\<open>pool.rs\<close>) and the router by zone (\<open>zone_router.rs\<close>).

  What the network does is an argument. A stream connection is the bytes written to it so far,
  the number of bytes read from it, and its peer: a function from everything written to
  everything the peer sends back. A write to a closed connection is a peer that sends nothing
  more; a read of more than the peer sends fails, at the end of the stream or by the time limit.
  The text of a wrapped error is left out of the error values. Time is in nanoseconds; each
  reading of the clock has its own value.
\<close>

section \<open>Socket addresses\<close>

text \<open>The parser of \<open>SocketAddr\<close> in the standard library, on the readers of \<open>Net\<close>.\<close>

record SocketAddr =
  sa_ip :: IpAddr
  sa_port :: u16
  sa_scope :: nat

definition read_port :: "string \<Rightarrow> (u16 \<times> string) option" where
  "read_port s = do {
     s \<leftarrow> read_given_char (CHR '':'') s;
     (n, s) \<leftarrow> read_number 10 (length s) True 65535 s;
     Some (word_of_nat n, s)
   }"

definition read_scope_id :: "string \<Rightarrow> (nat \<times> string) option" where
  "read_scope_id s = do {
     s \<leftarrow> read_given_char (CHR ''%'') s;
     read_number 10 (length s) True 4294967295 s
   }"

definition read_socket_addr_v4 :: "string \<Rightarrow> (SocketAddr \<times> string) option" where
  "read_socket_addr_v4 s = do {
     (ip, s) \<leftarrow> read_ipv4_addr s;
     (p, s) \<leftarrow> read_port s;
     Some (\<lparr>sa_ip = V4 ip, sa_port = p, sa_scope = 0\<rparr>, s)
   }"

definition read_socket_addr_v6 :: "string \<Rightarrow> (SocketAddr \<times> string) option" where
  "read_socket_addr_v6 s = do {
     s \<leftarrow> read_given_char (CHR ''['') s;
     (ip, s) \<leftarrow> read_ipv6_addr s;
     let (scope, s) = (case read_scope_id s of Some r \<Rightarrow> r | None \<Rightarrow> (0, s));
     s \<leftarrow> read_given_char (CHR '']'') s;
     (p, s) \<leftarrow> read_port s;
     Some (\<lparr>sa_ip = V6 ip, sa_port = p, sa_scope = scope\<rparr>, s)
   }"

definition socket_addr_from_str :: "string \<Rightarrow> SocketAddr option" where
  "socket_addr_from_str s =
     (case (case read_socket_addr_v4 s of Some r \<Rightarrow> Some r | None \<Rightarrow> read_socket_addr_v6 s) of
        Some (a, r) \<Rightarrow> if r = [] then Some a else None
      | None \<Rightarrow> None)"

section \<open>Stream connections\<close>

datatype UpError =
    InvalidUpstream string
  | InvalidZone string string
  | InvalidTlsName string
  | TlsSetup
  | NoUpstreams
  | NoneAvailable
  | UdpFailed
  | UdpMismatch
  | ConnectFailed
  | QueryTooLarge
  | StreamFailed
  | OtherFailure string

record Conn =
  c_sent :: bytes
  c_read :: nat
  c_peer :: "bytes \<Rightarrow> bytes"

definition framed :: "bytes \<Rightarrow> bytes" where
  "framed raw = u16_bytes (word_of_nat (length raw)) @ raw"

definition read_exact :: "Conn \<Rightarrow> nat \<Rightarrow> (UpError + bytes) \<times> Conn" where
  "read_exact c n =
     (let avail = drop (c_read c) (c_peer c (c_sent c)) in
      if length avail < n then (Inl StreamFailed, c) else (Inr (take n avail), c\<lparr>c_read := c_read c + n\<rparr>))"

definition framed_exchange :: "Conn \<Rightarrow> bytes \<Rightarrow> (UpError + bytes) \<times> Conn" where
  "framed_exchange c raw =
     (if length raw > 65535 then (Inl QueryTooLarge, c)
      else
        (let c = c\<lparr>c_sent := c_sent c @ framed raw\<rparr> in
         case read_exact c 2 of
           (Inl e, c) \<Rightarrow> (Inl e, c)
         | (Inr len, c) \<Rightarrow> read_exact c (unat (be16 (len ! 0) (len ! 1)))))"

section \<open>The pool of connections\<close>

record Idle =
  id_conn :: Conn
  id_since :: nat

definition IDLE_TTL :: nat where "IDLE_TTL = 10000000000"
definition MAX_IDLE :: nat where "MAX_IDLE = 4"

type_synonym StreamPool = "Idle list"

text \<open>\<open>Vec::pop\<close> takes the last entry; the \<open>i\<close>-th entry looked at is compared with the \<open>i\<close>-th reading.\<close>

fun take_idle_loop :: "(nat \<Rightarrow> nat) \<Rightarrow> Idle list \<Rightarrow> Conn option \<times> Idle list" where
  "take_idle_loop now [] = (None, [])"
| "take_idle_loop now (e # es) =
     (if now 0 - id_since e < IDLE_TTL then (Some (id_conn e), es)
      else take_idle_loop (\<lambda>i. now (Suc i)) es)"

definition take_idle :: "(nat \<Rightarrow> nat) \<Rightarrow> StreamPool \<Rightarrow> Conn option \<times> StreamPool" where
  "take_idle now pool = (case take_idle_loop now (rev pool) of (c, es) \<Rightarrow> (c, rev es))"

definition put_idle :: "nat \<Rightarrow> Conn \<Rightarrow> StreamPool \<Rightarrow> StreamPool" where
  "put_idle now c pool = (if length pool < MAX_IDLE then pool @ [\<lparr>id_conn = c, id_since = now\<rparr>] else pool)"

text \<open>
  \<open>connect\<close> is the outcome of opening a connection. Between the taking and the returning of a
  connection other queries may use the pool: \<open>others\<close> is the pool as they leave it.
\<close>

definition stream_exchange :: "(nat \<Rightarrow> nat) \<Rightarrow> nat \<Rightarrow> (UpError + Conn) \<Rightarrow> (StreamPool \<Rightarrow> StreamPool) \<Rightarrow> StreamPool \<Rightarrow> bytes \<Rightarrow>
    (UpError + bytes) \<times> StreamPool" where
  "stream_exchange now back connect others pool raw =
     (let (warm, pool) = take_idle now pool;
          fresh = (\<lambda>pool.
            case connect of
              Inl e \<Rightarrow> (Inl e, others pool)
            | Inr c \<Rightarrow>
                (case framed_exchange c raw of
                   (Inl e, _) \<Rightarrow> (Inl e, others pool)
                 | (Inr resp, c) \<Rightarrow> (Inr resp, put_idle back c (others pool)))) in
      case warm of
        None \<Rightarrow> fresh pool
      | Some c \<Rightarrow>
          (case framed_exchange c raw of
             (Inr resp, c) \<Rightarrow> (Inr resp, put_idle back c (others pool))
           | (Inl _, _) \<Rightarrow> fresh pool))"

section \<open>The plain resolver\<close>

definition MAX_UDP_SIZE :: nat where "MAX_UDP_SIZE = 4096"

record PlainResolver =
  pr_addr :: SocketAddr
  pr_label :: string
  pr_pool :: StreamPool

definition plain_new :: "string \<Rightarrow> u16 \<Rightarrow> UpError + PlainResolver" where
  "plain_new address p =
     (let text = address @ '':'' @ dec_text (unat p) in
      case socket_addr_from_str text of
        None \<Rightarrow> Inl (InvalidUpstream text)
      | Some a \<Rightarrow> Inr \<lparr>pr_addr = a, pr_label = text, pr_pool = []\<rparr>)"

definition is_truncated :: "bytes \<Rightarrow> bool" where
  "is_truncated raw \<longleftrightarrow> length raw \<ge> 3 \<and> (raw ! 2) AND 0x02 \<noteq> 0"

definition response_matches_query :: "bytes \<Rightarrow> bytes \<Rightarrow> bool rs" where
  "response_matches_query query response =
     (if length query < 12 \<or> length response < 12 then Some False
      else do {
        q_id \<leftarrow> get_range query 0 2;
        r_id \<leftarrow> get_range response 0 2;
        if q_id \<noteq> r_id then Some False
        else do {
          flags \<leftarrow> index response 2;
          if flags AND 0x80 = 0 then Some False
          else do {
            q_count \<leftarrow> get_range query 4 6;
            r_count \<leftarrow> get_range response 4 6;
            if q_count \<noteq> r_count then Some False
            else do {
              e \<leftarrow> question_end query;
              (case e of
                 None \<Rightarrow> Some True
               | Some q_end \<Rightarrow>
                   if length response < q_end then Some False
                   else do {
                     q \<leftarrow> get_range query 12 q_end;
                     r \<leftarrow> get_range response 12 q_end;
                     Some (q = r)
                   })
            }
          }
        }
      })"

text \<open>\<open>udp\<close> is the outcome of sending a datagram and receiving one; the buffer cuts it off.\<close>

definition send_udp :: "(bytes \<Rightarrow> UpError + bytes) \<Rightarrow> bytes \<Rightarrow> (UpError + bytes) rs" where
  "send_udp udp raw =
     (case udp raw of
        Inl e \<Rightarrow> Some (Inl e)
      | Inr datagram \<Rightarrow> do {
          let response = take MAX_UDP_SIZE datagram;
          ok \<leftarrow> response_matches_query raw response;
          Some (if ok then Inr response else Inl UdpMismatch)
        })"

definition with_id :: "bytes \<Rightarrow> u8 \<Rightarrow> u8 \<Rightarrow> bytes rs" where
  "with_id msg a b = (if length msg \<ge> 2 then do { m \<leftarrow> set_at msg 0 a; set_at m 1 b } else Some msg)"

text \<open>\<open>txid\<close> is the random identifier, \<open>tcp\<close> the exchange over the pool of connections.\<close>

definition plain_resolve_raw :: "u16 \<Rightarrow> (bytes \<Rightarrow> UpError + bytes) \<Rightarrow> (StreamPool \<Rightarrow> bytes \<Rightarrow> (UpError + bytes) \<times> StreamPool) \<Rightarrow>
    PlainResolver \<Rightarrow> bytes \<Rightarrow> ((UpError + (bytes \<times> string)) \<times> PlainResolver) rs" where
  "plain_resolve_raw txid udp tcp r raw = do {
     (id0, id1) \<leftarrow> (if length raw \<ge> 2 then do { a \<leftarrow> index raw 0; b \<leftarrow> index raw 1; Some (a, b) } else Some (0, 0));
     let t = u16_bytes txid;
     query \<leftarrow> with_id raw (t ! 0) (t ! 1);
     first \<leftarrow> send_udp udp query;
     (case first of
        Inl e \<Rightarrow> Some (Inl e, r)
      | Inr response \<Rightarrow>
          (case (if is_truncated response then tcp (pr_pool r) query else (Inr response, pr_pool r)) of
             (Inl e, pool) \<Rightarrow> Some (Inl e, r\<lparr>pr_pool := pool\<rparr>)
           | (Inr response, pool) \<Rightarrow> do {
               response \<leftarrow> with_id response id0 id1;
               Some (Inr (response, pr_label r), r\<lparr>pr_pool := pool\<rparr>)
             }))
   }"

section \<open>DNS over TLS\<close>

text \<open>
  The crates behind the encrypted transports: whether a text is a server name and whether the
  TLS configuration can be built (\<open>rustls\<close>), and the constructors of the resolvers over HTTPS
  and QUIC.
\<close>

record ('h, 'q) transports =
  tp_server_name :: "string \<Rightarrow> bool"
  tp_client_config :: bool
  tp_doh :: "string \<Rightarrow> string option \<Rightarrow> UpError + 'h"
  tp_doq :: "string \<Rightarrow> u16 \<Rightarrow> string \<Rightarrow> UpError + 'q"

record StreamResolver =
  sr_addr :: SocketAddr
  sr_tls_name :: string
  sr_pool :: StreamPool
  sr_label :: string

definition stream_dot :: "('h, 'q) transports \<Rightarrow> string \<Rightarrow> u16 \<Rightarrow> string \<Rightarrow> UpError + StreamResolver" where
  "stream_dot T address p tls_name =
     (let text = address @ '':'' @ dec_text (unat p) in
      case socket_addr_from_str text of
        None \<Rightarrow> Inl (InvalidUpstream text)
      | Some a \<Rightarrow>
          if \<not> tp_server_name T tls_name then Inl (InvalidTlsName tls_name)
          else if \<not> tp_client_config T then Inl TlsSetup
          else Inr \<lparr>sr_addr = a, sr_tls_name = tls_name, sr_pool = [], sr_label = ''dot://'' @ text @ ''#'' @ tls_name\<rparr>)"

definition stream_resolve_raw :: "(StreamPool \<Rightarrow> bytes \<Rightarrow> (UpError + bytes) \<times> StreamPool) \<Rightarrow> StreamResolver \<Rightarrow> bytes \<Rightarrow>
    (UpError + (bytes \<times> string)) \<times> StreamResolver" where
  "stream_resolve_raw exchange r raw =
     (case exchange (sr_pool r) raw of
        (Inl e, pool) \<Rightarrow> (Inl e, r\<lparr>sr_pool := pool\<rparr>)
      | (Inr resp, pool) \<Rightarrow> (Inr (resp, sr_label r), r\<lparr>sr_pool := pool\<rparr>))"

section \<open>The resolver through a tunnel\<close>

datatype EgressConnectError = NotConfigured | Unhealthy | Failed

text \<open>
  \<open>via\<close> is the outcome of connecting through the tunnel, \<open>None\<close> when no connector is bound or the
  attempt runs into the time limit; \<open>direct\<close> the outcome of a direct connection, \<open>tls\<close> that of a
  TLS handshake on a connection.
\<close>

record TunneledResolver =
  tr_egress_id :: string
  tr_ip :: IpAddr
  tr_port :: u16
  tr_tls :: "string option"
  tr_label :: string

definition tunneled_plain :: "string \<Rightarrow> string \<Rightarrow> u16 \<Rightarrow> UpError + TunneledResolver" where
  "tunneled_plain egress_id address p =
     (case ip_from_str address of
        None \<Rightarrow> Inl (InvalidUpstream address)
      | Some ip \<Rightarrow> Inr \<lparr>tr_egress_id = egress_id, tr_ip = ip, tr_port = p, tr_tls = None,
          tr_label = ''tunnel['' @ egress_id @ '']:plain://'' @ address @ '':'' @ dec_text (unat p)\<rparr>)"

definition tunneled_dot :: "('h, 'q) transports \<Rightarrow> string \<Rightarrow> string \<Rightarrow> u16 \<Rightarrow> string \<Rightarrow> UpError + TunneledResolver" where
  "tunneled_dot T egress_id address p tls_name =
     (case ip_from_str address of
        None \<Rightarrow> Inl (InvalidUpstream address)
      | Some ip \<Rightarrow>
          if \<not> tp_server_name T tls_name then Inl (InvalidTlsName tls_name)
          else Inr \<lparr>tr_egress_id = egress_id, tr_ip = ip, tr_port = p, tr_tls = Some tls_name,
            tr_label = ''tunnel['' @ egress_id @ '']:dot://'' @ address @ '':'' @ dec_text (unat p) @ ''#'' @ tls_name\<rparr>)"

definition tunneled_open :: "(EgressConnectError + Conn) option \<Rightarrow> (UpError + Conn) \<Rightarrow> UpError + (Conn \<times> bool)" where
  "tunneled_open via direct =
     (case via of
        Some (Inr c) \<Rightarrow> Inr (c, True)
      | _ \<Rightarrow> (case direct of Inl e \<Rightarrow> Inl e | Inr c \<Rightarrow> Inr (c, False)))"

definition tunneled_resolve_raw :: "(EgressConnectError + Conn) option \<Rightarrow> (UpError + Conn) \<Rightarrow> (Conn \<Rightarrow> UpError + Conn) \<Rightarrow>
    TunneledResolver \<Rightarrow> bytes \<Rightarrow> UpError + (bytes \<times> string)" where
  "tunneled_resolve_raw via direct tls r raw =
     (case tunneled_open via direct of
        Inl e \<Rightarrow> Inl e
      | Inr (c, via_egress) \<Rightarrow>
          (let label = (if via_egress then tr_label r else tr_label r @ '' (direct fallback)'') in
           case (if tr_tls r = None then Inr c else tls c) of
             Inl e \<Rightarrow> Inl e
           | Inr c \<Rightarrow>
               (case fst (framed_exchange c raw) of
                  Inl e \<Rightarrow> Inl e
                | Inr resp \<Rightarrow> Inr (resp, label))))"

section \<open>The round-robin pool\<close>

record 'u UpstreamPool =
  upstreams :: "'u list"
  counter :: u64

datatype UpstreamConfig =
    Cfg_Plain string u16 "string option"
  | Cfg_Tls string u16 string "string option"
  | Cfg_Https string "string option"
  | Cfg_Quic string u16 string

datatype ('h, 'q) UpstreamEntry =
    UE_Plain PlainResolver
  | UE_Tls StreamResolver
  | UE_Https 'h
  | UE_Quic 'q
  | UE_Tunneled TunneledResolver

definition map_ok :: "('a \<Rightarrow> 'b) \<Rightarrow> UpError + 'a \<Rightarrow> UpError + 'b" where
  "map_ok f r = (case r of Inl e \<Rightarrow> Inl e | Inr x \<Rightarrow> Inr (f x))"

fun entry_from_config :: "('h, 'q) transports \<Rightarrow> UpstreamConfig \<Rightarrow> UpError + ('h, 'q) UpstreamEntry" where
  "entry_from_config T (Cfg_Plain address p (Some egress)) = map_ok UE_Tunneled (tunneled_plain egress address p)"
| "entry_from_config T (Cfg_Tls address p tls_name (Some egress)) =
     (if \<not> tp_client_config T then Inl TlsSetup else map_ok UE_Tunneled (tunneled_dot T egress address p tls_name))"
| "entry_from_config T (Cfg_Plain address p None) = map_ok UE_Plain (plain_new address p)"
| "entry_from_config T (Cfg_Tls address p tls_name None) = map_ok UE_Tls (stream_dot T address p tls_name)"
| "entry_from_config T (Cfg_Https url bootstrap) = map_ok UE_Https (tp_doh T url bootstrap)"
| "entry_from_config T (Cfg_Quic address p tls_name) = map_ok UE_Quic (tp_doq T address p tls_name)"

fun build_all :: "('a \<Rightarrow> UpError + 'u) \<Rightarrow> 'a list \<Rightarrow> UpError + 'u list" where
  "build_all build [] = Inr []"
| "build_all build (c # cs) =
     (case build c of
        Inl e \<Rightarrow> Inl e
      | Inr u \<Rightarrow> (case build_all build cs of Inl e \<Rightarrow> Inl e | Inr us \<Rightarrow> Inr (u # us)))"

definition pool_from_config :: "('h, 'q) transports \<Rightarrow> UpstreamConfig list \<Rightarrow> UpError + ('h, 'q) UpstreamEntry UpstreamPool" where
  "pool_from_config T configs =
     (if configs = [] then Inl NoUpstreams
      else case build_all (entry_from_config T) configs of
        Inl e \<Rightarrow> Inl e
      | Inr us \<Rightarrow> Inr \<lparr>upstreams = us, counter = 0\<rparr>)"

text \<open>\<open>ask\<close> is what an upstream returns in this query: each is asked at most once.\<close>

fun pool_try :: "('u \<Rightarrow> bytes \<Rightarrow> UpError + (bytes \<times> string)) \<Rightarrow> 'u list \<Rightarrow> nat \<Rightarrow> bytes \<Rightarrow> UpError \<Rightarrow> nat list \<Rightarrow>
    (UpError + (bytes \<times> string)) rs" where
  "pool_try ask us start raw last_err [] = Some (Inl last_err)"
| "pool_try ask us start raw last_err (i # is') = do {
     u \<leftarrow> index us ((start + i) mod length us);
     (case ask u raw of
        Inr result \<Rightarrow> Some (Inr result)
      | Inl e \<Rightarrow> pool_try ask us start raw e is')
   }"

definition pool_resolve_raw :: "('u \<Rightarrow> bytes \<Rightarrow> UpError + (bytes \<times> string)) \<Rightarrow> 'u UpstreamPool \<Rightarrow> bytes \<Rightarrow>
    ((UpError + (bytes \<times> string)) \<times> 'u UpstreamPool) rs" where
  "pool_resolve_raw ask p raw =
     (let n = length (upstreams p) in
      if n = 0 then None
      else do {
        res \<leftarrow> pool_try ask (upstreams p) (unat (counter p) mod n) raw NoneAvailable [0..<n];
        Some (res, p\<lparr>counter := counter p + 1\<rparr>)
      })"

section \<open>The router by zone\<close>

record ZoneConfig =
  z_name :: string
  z_upstream :: string

record ZoneEntry =
  ze_name :: string
  ze_resolver :: PlainResolver

record 'u Routes =
  zones :: "ZoneEntry list"
  default_pool :: "'u UpstreamPool"

definition zone_entry :: "ZoneConfig \<Rightarrow> UpError + ZoneEntry" where
  "zone_entry z =
     (case socket_addr_from_str (z_upstream z) of
        None \<Rightarrow> Inl (InvalidZone (z_name z) (z_upstream z))
      | Some a \<Rightarrow>
          (case plain_new (ip_to_string (sa_ip a)) (sa_port a) of
             Inl e \<Rightarrow> Inl e
           | Inr r \<Rightarrow> Inr \<lparr>ze_name = lowercase (trim_end_char (\<lambda>c. c = CHR ''.'') (z_name z)), ze_resolver = r\<rparr>))"

definition routes_new :: "ZoneConfig list \<Rightarrow> 'u UpstreamPool \<Rightarrow> UpError + 'u Routes" where
  "routes_new zs dflt =
     (case build_all zone_entry zs of
        Inl e \<Rightarrow> Inl e
      | Inr es \<Rightarrow> Inr \<lparr>zones = sort_key (\<lambda>e. - int (length (ze_name e))) es, default_pool = dflt\<rparr>)"

definition router_replace :: "ZoneConfig list \<Rightarrow> 'u UpstreamPool \<Rightarrow> 'u Routes \<Rightarrow> (UpError + unit) \<times> 'u Routes" where
  "router_replace zs dflt routes =
     (case routes_new zs dflt of
        Inl e \<Rightarrow> (Inl e, routes)
      | Inr r \<Rightarrow> (Inr (), r))"

text \<open>\<open>to_utf8\<close> is the text of a decoded name, of the \<open>hickory\<close> crate.\<close>

definition query_name :: "('n, 'e, 'o) hickory \<Rightarrow> ('n \<Rightarrow> string) \<Rightarrow> bytes \<Rightarrow> string option" where
  "query_name H to_utf8 raw = do {
     m \<leftarrow> h_from_bytes H raw;
     q \<leftarrow> slice_get (queries m) 0;
     Some (lowercase (trim_end_char (\<lambda>c. c = CHR ''.'') (to_utf8 (q_name q))))
   }"

definition matches_zone :: "string \<Rightarrow> string \<Rightarrow> bool" where
  "matches_zone name zone \<longleftrightarrow> name = zone \<or> ends_with name (''.'' @ zone)"

definition zone_route :: "('n, 'e, 'o) hickory \<Rightarrow> ('n \<Rightarrow> string) \<Rightarrow> 'u Routes \<Rightarrow> bytes \<Rightarrow> PlainResolver option" where
  "zone_route H to_utf8 routes raw =
     (if zones routes = [] then None
      else do {
        name \<leftarrow> query_name H to_utf8 raw;
        map_option ze_resolver (find (\<lambda>e. matches_zone name (ze_name e)) (zones routes))
      })"

text \<open>\<open>plain\<close> is what a zone's resolver returns in this query.\<close>

definition router_resolve_raw :: "('n, 'e, 'o) hickory \<Rightarrow> ('n \<Rightarrow> string) \<Rightarrow> (PlainResolver \<Rightarrow> bytes \<Rightarrow> UpError + (bytes \<times> string)) \<Rightarrow>
    ('u \<Rightarrow> bytes \<Rightarrow> UpError + (bytes \<times> string)) \<Rightarrow> 'u Routes \<Rightarrow> bytes \<Rightarrow> ((UpError + (bytes \<times> string)) \<times> 'u Routes) rs" where
  "router_resolve_raw H to_utf8 plain ask routes raw =
     (case zone_route H to_utf8 routes raw of
        Some r \<Rightarrow> Some (plain r raw, routes)
      | None \<Rightarrow> do {
          (res, p) \<leftarrow> pool_resolve_raw ask (default_pool routes) raw;
          Some (res, routes\<lparr>default_pool := p\<rparr>)
        })"

end
