(* ===== verification/Upstream_Correct.thy ===== *)
theory Upstream_Correct
  imports Upstream Dns_Reply
begin

unbundle bit_operations_syntax

text \<open>
  What the upstream resolvers guarantee: an answer over UDP is taken only with the random
  identifier and the question of the query, a pooled connection never gives the answer of
  another query, the round-robin pool answers whenever one of its upstreams does, and a query
  goes to the longest zone that holds its name. A zone whose upstream is an IPv6 address is
  refused.
\<close>

section \<open>The plain resolver\<close>

lemma response_matches_query_iff:
  "response_matches_query query response =
     Some (12 \<le> length query \<and> 12 \<le> length response \<and> take 2 query = take 2 response \<and> response ! 2 AND 0x80 \<noteq> 0 \<and>
       take 2 (drop 4 query) = take 2 (drop 4 response) \<and>
       (\<forall>e. question_end query = Some (Some e) \<longrightarrow>
          e \<le> length response \<and> take (e - 12) (drop 12 query) = take (e - 12) (drop 12 response)))"
proof -
  obtain q where q: "question_end query = Some q" using question_end_total [of query] by blast
  show ?thesis
  proof (cases q)
    case None
    then show ?thesis using q by (auto simp: response_matches_query_def get_range_def index_def)
  next
    case (Some e)
    then show ?thesis using q question_end_bounds [of query e]
      by (auto simp: response_matches_query_def get_range_def index_def)
  qed
qed

lemma response_matches_queryE:
  assumes "response_matches_query query response = Some True"
  obtains "12 \<le> length query" "12 \<le> length response" "take 2 query = take 2 response" "response ! 2 AND 0x80 \<noteq> 0"
    "take 2 (drop 4 query) = take 2 (drop 4 response)"
    "\<forall>e. question_end query = Some (Some e) \<longrightarrow>
       e \<le> length response \<and> take (e - 12) (drop 12 query) = take (e - 12) (drop 12 response)"
  using assms that unfolding response_matches_query_iff option.inject eq_True by blast

lemma response_matches_query_total: "\<exists>ok. response_matches_query query response = Some ok"
  using response_matches_query_iff by blast

lemma with_id_eq: "with_id msg a b = Some (if 2 \<le> length msg then a # b # drop 2 msg else msg)"
proof -
  have "msg[0 := a, Suc 0 := b] = a # b # drop 2 msg" if "2 \<le> length msg"
    using that by (cases msg; cases "tl msg") auto
  then show ?thesis by (simp add: with_id_def set_at_def)
qed

lemma take2: "2 \<le> length xs \<Longrightarrow> take 2 xs = [xs ! 0, xs ! 1]"
  by (cases xs; cases "tl xs") (auto simp: numeral_2_eq_2)

lemma u16_bytes_pair: "[u16_bytes t ! 0, u16_bytes t ! 1] = u16_bytes t"
  by (simp add: u16_bytes_def)

lemma plain_resolve_raw_eq:
  assumes "2 \<le> length raw"
  shows "plain_resolve_raw txid udp tcp r raw =
    (let query = u16_bytes txid @ drop 2 raw in
     case udp query of
       Inl e \<Rightarrow> Some (Inl e, r)
     | Inr d \<Rightarrow>
         if response_matches_query query (take MAX_UDP_SIZE d) = Some True then
           (case (if is_truncated (take MAX_UDP_SIZE d) then tcp (pr_pool r) query else (Inr (take MAX_UDP_SIZE d), pr_pool r)) of
              (Inl e, pool) \<Rightarrow> Some (Inl e, r\<lparr>pr_pool := pool\<rparr>)
            | (Inr resp, pool) \<Rightarrow> Some (Inr (if 2 \<le> length resp then take 2 raw @ drop 2 resp else resp, pr_label r), r\<lparr>pr_pool := pool\<rparr>))
         else Some (Inl UdpMismatch, r))"
proof -
  obtain a b where t: "u16_bytes txid = [a, b]" by (simp add: u16_bytes_def)
  obtain x y rest where raw: "raw = x # y # rest" using assms by (cases raw; cases "tl raw") auto
  show ?thesis
  proof (cases "udp (a # b # rest)")
    case (Inl e)
    then show ?thesis by (simp add: plain_resolve_raw_def send_udp_def with_id_eq raw t index_def Let_def)
  next
    case (Inr d)
    obtain ok where "response_matches_query (a # b # rest) (take MAX_UDP_SIZE d) = Some ok"
      using response_matches_query_total by blast
    then show ?thesis using Inr
      by (simp add: plain_resolve_raw_def send_udp_def with_id_eq raw t index_def Let_def split: sum.split prod.split)
  qed
qed

text \<open>A datagram that matches the query asks the question of the client's bytes.\<close>

lemma matched_question:
  assumes "2 \<le> length raw" and "response_matches_query (u16_bytes txid @ drop 2 raw) d = Some True" and e: "question_end raw = Some (Some e)"
  shows "question (take 2 raw @ drop 2 d) = question raw"
proof -
  let ?q = "u16_bytes txid @ drop 2 raw" and ?resp = "take 2 raw @ drop 2 d"
  have m: "12 \<le> length ?q" "12 \<le> length d" "take 2 (drop 4 ?q) = take 2 (drop 4 d)"
    "\<forall>e. question_end ?q = Some (Some e) \<longrightarrow> e \<le> length d \<and> take (e - 12) (drop 12 ?q) = take (e - 12) (drop 12 d)"
    using response_matches_queryE [OF assms(2)] by blast+
  have qnth: "?q ! k = raw ! k" if "2 \<le> k" "k < length raw" for k
    using that le_add_diff_inverse [OF that(1)] by (simp add: nth_append u16_bytes_def numeral_2_eq_2)
  have b: "17 \<le> e" "e \<le> length raw" using question_end_bounds [OF e] by auto
  have "question_end ?q = Some (Some e)" using question_copied [OF e, of ?q] b assms(1) qnth by (auto simp: u16_bytes_def)
  then have same: "e \<le> length d" "take (e - 12) (drop 12 ?q) = take (e - 12) (drop 12 d)" using m(4) by auto
  have "?resp ! k = raw ! k" if "k = 4 \<or> k = 5 \<or> (12 \<le> k \<and> k < e)" for k
  proof -
    have in_d: "k < length d" "k < length raw" "2 \<le> k" using that same b m(2) by auto
    have "raw ! k = d ! k"
    proof (cases "k < 12")
      case True
      then have k: "k - 4 < 2" "k = 4 + (k - 4)" using that by auto
      then have "take 2 (drop 4 ?q) ! (k - 4) = take 2 (drop 4 d) ! (k - 4)" using m(3) by simp
      then show ?thesis using k m(1,2) by simp
    next
      case False
      then have k: "k - 12 < e - 12" "k = 12 + (k - 12)" using that by auto
      then have "take (e - 12) (drop 12 ?q) ! (k - 12) = take (e - 12) (drop 12 d) ! (k - 12)" using same by simp
      then show ?thesis using k m(1,2) same(1) by simp
    qed
    then show ?thesis using in_d assms(1) le_add_diff_inverse [OF in_d(3)] by (simp add: nth_append)
  qed
  moreover have "e \<le> length ?resp" using same(1) assms(1) m(2) by simp
  ultimately show ?thesis using question_copied [OF e] by blast
qed

text \<open>
  C18. The plain resolver never panics. A datagram that does not carry the random identifier
  of the query is refused, whatever it holds, and no TCP query follows. Whenever an answer is
  returned, the datagram was a response with that identifier and, when the client's query
  has a question, with the same name and type. If the datagram is complete, it is the answer
  with the client's identifier in place. If it is truncated, the answer is what the TCP
  exchange gave with the client's identifier in place; what that holds is not checked again.
\<close>

theorem spoofed_reply_refused:
  assumes "2 \<le> length raw" and "udp (u16_bytes txid @ drop 2 raw) = Inr d"
  shows "\<exists>res r'. plain_resolve_raw txid udp tcp r raw = Some (res, r') \<and>
    (take 2 d \<noteq> u16_bytes txid \<longrightarrow> res = Inl UdpMismatch \<and> r' = r) \<and>
    (\<forall>resp label. res = Inr (resp, label) \<longrightarrow>
       (let reply = take 2 raw @ drop 2 (take MAX_UDP_SIZE d) in
        take 2 d = u16_bytes txid \<and> query_id reply = query_id raw \<and> reply ! 2 AND 0x80 \<noteq> 0 \<and>
        (\<forall>e. question_end raw = Some (Some e) \<longrightarrow> question reply = question raw) \<and>
        (if is_truncated d
         then \<exists>x pool. tcp (pr_pool r) (u16_bytes txid @ drop 2 raw) = (Inr x, pool) \<and> r' = r\<lparr>pr_pool := pool\<rparr> \<and>
           resp = (if 2 \<le> length x then take 2 raw @ drop 2 x else x)
         else resp = reply \<and> r' = r)))"
proof -
  let ?q = "u16_bytes txid @ drop 2 raw" and ?d = "take MAX_UDP_SIZE d"
  note eq = plain_resolve_raw_eq [OF assms(1), of txid udp tcp r, unfolded Let_def assms(2) sum.case]
  have big: "2 < MAX_UDP_SIZE" by (simp add: MAX_UDP_SIZE_def)
  have trunc: "is_truncated ?d = is_truncated d" using big by (auto simp: is_truncated_def)
  show ?thesis
  proof (cases "response_matches_query ?q ?d = Some True")
    case False
    then show ?thesis using eq by (cases "response_matches_query ?q ?d") auto
  next
    case True
    have m: "12 \<le> length ?d" "take 2 ?q = take 2 ?d" "?d ! 2 AND 0x80 \<noteq> 0" using response_matches_queryE [OF True] by blast+
    have ident: "take 2 d = u16_bytes txid" using m(2) big by (simp add: u16_bytes_def min_def)
    define reply where "reply = take 2 raw @ drop 2 ?d"
    have q: "question reply = question raw" if "question_end raw = Some (Some e)" for e
      unfolding reply_def by (rule matched_question [OF assms(1) True that])
    have i: "query_id reply = query_id raw" and b: "reply ! 2 AND 0x80 \<noteq> 0"
      using assms(1) m(1,3) by (cases raw; auto simp: query_id_def reply_def slice_get_def nth_append)+
    have "\<exists>res r'. plain_resolve_raw txid udp tcp r raw = Some (res, r')"
      using eq True by (auto split: prod.split sum.split)
    then obtain res r' where res: "plain_resolve_raw txid udp tcp r raw = Some (res, r')" by blast
    have "if is_truncated d
        then \<exists>x pool. tcp (pr_pool r) ?q = (Inr x, pool) \<and> r' = r\<lparr>pr_pool := pool\<rparr> \<and>
          resp = (if 2 \<le> length x then take 2 raw @ drop 2 x else x)
        else resp = reply \<and> r' = r" if "res = Inr (resp, label)" for resp label
      using eq True res that m(1) unfolding trunc reply_def by (auto split: prod.splits sum.splits if_splits)
    with res q i b ident show ?thesis unfolding reply_def [symmetric] Let_def by blast
  qed
qed

theorem spoofed_reply_refused_witness:
  "\<exists>r'. plain_resolve_raw 7 (\<lambda>_. Inr []) (\<lambda>p _. (Inl ConnectFailed, p))
      \<lparr>pr_addr = \<lparr>sa_ip = V4 1, sa_port = 53, sa_scope = 0\<rparr>, pr_label = [], pr_pool = []\<rparr> (replicate 12 0) =
    Some (Inl UdpMismatch, r')"
  using spoofed_reply_refused [of "replicate 12 0" "\<lambda>_. Inr []" 7 "[]"
      "\<lambda>p _. (Inl ConnectFailed, p)" "\<lparr>pr_addr = \<lparr>sa_ip = V4 1, sa_port = 53, sa_scope = 0\<rparr>, pr_label = [], pr_pool = []\<rparr>"]
  by (auto simp: u16_bytes_def)

section \<open>The round-robin pool\<close>

lemma build_all_Inr: "build_all f xs = Inr ys \<Longrightarrow> list_all2 (\<lambda>x y. f x = Inr y) xs ys"
  by (induction xs arbitrary: ys) (auto split: sum.splits)

lemma pool_from_config_nonempty: "pool_from_config T configs = Inr p \<Longrightarrow> upstreams p \<noteq> []"
  by (auto simp: pool_from_config_def split: if_splits sum.splits dest!: build_all_Inr)

lemma pool_try_spec:
  assumes "us \<noteq> []"
  shows "\<exists>res. pool_try ask us start raw last_err is' = Some res \<and>
    (case res of
       Inr a \<Rightarrow> \<exists>k < length is'. ask (us ! ((start + is' ! k) mod length us)) raw = Inr a \<and>
         (\<forall>j < k. isl (ask (us ! ((start + is' ! j) mod length us)) raw))
     | Inl e \<Rightarrow> (\<forall>i \<in> set is'. isl (ask (us ! ((start + i) mod length us)) raw)))"
proof (induction is' arbitrary: last_err)
  case (Cons i is')
  have u: "index us ((start + i) mod length us) = Some (us ! ((start + i) mod length us))"
    using assms by (simp add: index_in)
  show ?case
  proof (cases "ask (us ! ((start + i) mod length us)) raw")
    case (Inr a)
    then show ?thesis using u by (auto intro!: exI [of _ 0])
  next
    case (Inl e)
    obtain res where res: "pool_try ask us start raw e is' = Some res"
      "case res of Inr a \<Rightarrow> \<exists>k < length is'. ask (us ! ((start + is' ! k) mod length us)) raw = Inr a \<and>
         (\<forall>j < k. isl (ask (us ! ((start + is' ! j) mod length us)) raw))
       | Inl e \<Rightarrow> (\<forall>i \<in> set is'. isl (ask (us ! ((start + i) mod length us)) raw))"
      using Cons by blast
    show ?thesis
    proof (cases res)
      case (Inr a)
      then obtain k where "k < length is'" "ask (us ! ((start + is' ! k) mod length us)) raw = Inr a"
        "\<forall>j < k. isl (ask (us ! ((start + is' ! j) mod length us)) raw)" using res by auto
      then have "Suc k < length (i # is') \<and> ask (us ! ((start + (i # is') ! Suc k) mod length us)) raw = Inr a \<and>
          (\<forall>j < Suc k. isl (ask (us ! ((start + (i # is') ! j) mod length us)) raw))"
        using Inl by (auto simp: less_Suc_eq_0_disj)
      then show ?thesis using Inl Inr res u by (intro exI [of _ "Inr a"]) auto
    qed (use Inl res u in auto)
  qed
qed simp

lemma cyclic_covers:
  assumes "u \<in> set us"
  shows "\<exists>i \<in> set [0..<length us]. us ! ((start + i) mod length us) = u"
proof -
  obtain k where k: "k < length us" "us ! k = u" using assms by (auto simp: in_set_conv_nth)
  let ?i = "(k + (length us - start mod length us)) mod length us"
  have n: "0 < length us" using k by linarith
  then have "start mod length us \<le> length us" by (intro less_imp_le mod_less_divisor)
  then have "(start + ?i) mod length us = (start mod length us + (k + (length us - start mod length us))) mod length us"
    by (metis mod_add_eq mod_mod_trivial)
  also have "\<dots> = k" using k \<open>start mod length us \<le> length us\<close> by simp
  finally show ?thesis using k n by (intro bexI [of _ ?i]) auto
qed

text \<open>
  C22. A pool built from a configuration never panics. It returns an answer exactly when one
  of its upstreams answers the query, and then the answer of the first one in the cyclic
  order that starts at the counter; the counter moves on by one.
\<close>

theorem pool_answers:
  assumes "pool_from_config T configs = Inr p0" and "upstreams p = upstreams p0"
  shows "\<exists>res. pool_resolve_raw ask p raw = Some (res, p\<lparr>counter := counter p + 1\<rparr>) \<and>
    (isl res \<longleftrightarrow> (\<forall>u \<in> set (upstreams p). isl (ask u raw))) \<and>
    (\<forall>a. res = Inr a \<longrightarrow> (\<exists>k < length (upstreams p).
       ask (upstreams p ! ((unat (counter p) + k) mod length (upstreams p))) raw = Inr a \<and>
       (\<forall>j < k. isl (ask (upstreams p ! ((unat (counter p) + j) mod length (upstreams p))) raw))))"
proof -
  let ?us = "upstreams p" and ?n = "length (upstreams p)"
  have ne: "?us \<noteq> []" using pool_from_config_nonempty [OF assms(1)] assms(2) by simp
  obtain res where tried: "pool_try ask ?us (unat (counter p) mod ?n) raw NoneAvailable [0..<?n] = Some res"
    "case res of
       Inr a \<Rightarrow> \<exists>k < length [0..<?n]. ask (?us ! ((unat (counter p) mod ?n + [0..<?n] ! k) mod ?n)) raw = Inr a \<and>
         (\<forall>j < k. isl (ask (?us ! ((unat (counter p) mod ?n + [0..<?n] ! j) mod ?n)) raw))
     | Inl e \<Rightarrow> (\<forall>i \<in> set [0..<?n]. isl (ask (?us ! ((unat (counter p) mod ?n + i) mod ?n)) raw))"
    using pool_try_spec [OF ne] by blast
  have res: "case res of Inr a \<Rightarrow> \<exists>k < ?n. ask (?us ! ((unat (counter p) + k) mod ?n)) raw = Inr a \<and>
         (\<forall>j < k. isl (ask (?us ! ((unat (counter p) + j) mod ?n)) raw))
     | Inl e \<Rightarrow> (\<forall>i \<in> set [0..<?n]. isl (ask (?us ! ((unat (counter p) + i) mod ?n)) raw))"
  proof (cases res)
    case (Inr a)
    then obtain k where "k < ?n" "ask (?us ! ((unat (counter p) mod ?n + [0..<?n] ! k) mod ?n)) raw = Inr a"
      "\<forall>j < k. isl (ask (?us ! ((unat (counter p) mod ?n + [0..<?n] ! j) mod ?n)) raw)" using tried by auto
    then show ?thesis using Inr by (auto simp: mod_add_left_eq)
  qed (use tried in \<open>simp add: mod_add_left_eq\<close>)
  have run: "pool_resolve_raw ask p raw = Some (res, p\<lparr>counter := counter p + 1\<rparr>)"
    using ne tried(1) by (simp add: pool_resolve_raw_def Let_def)
  show ?thesis
  proof (cases res)
    case (Inl e)
    have "isl (ask u raw)" if "u \<in> set ?us" for u
      using cyclic_covers [OF that, of "unat (counter p)"] res Inl by auto
    then show ?thesis using run Inl by simp
  next
    case (Inr a)
    then obtain k where k: "k < ?n" "ask (?us ! ((unat (counter p) + k) mod ?n)) raw = Inr a"
      "\<forall>j < k. isl (ask (?us ! ((unat (counter p) + j) mod ?n)) raw)" using res by auto
    moreover have "?us ! ((unat (counter p) + k) mod ?n) \<in> set ?us" using ne by simp
    ultimately show ?thesis using run Inr by fastforce
  qed
qed

text \<open>Two upstreams over HTTPS; the first one fails.\<close>

definition sample_transports :: "(string, unit) transports" where
  "sample_transports = \<lparr>tp_server_name = \<lambda>_. True, tp_client_config = True, tp_doh = \<lambda>url _. Inr url, tp_doq = \<lambda>_ _ _. Inr ()\<rparr>"

theorem pool_answers_witness:
  "pool_resolve_raw (\<lambda>u raw. if u = UE_Https ''b'' then Inr (raw, ''b'') else Inl UdpFailed)
      \<lparr>upstreams = [UE_Https ''a'', UE_Https ''b'' :: (string, unit) UpstreamEntry], counter = 4\<rparr> [5] =
    Some (Inr ([5], ''b''), \<lparr>upstreams = [UE_Https ''a'', UE_Https ''b''], counter = 5\<rparr>)"
proof -
  let ?ask = "\<lambda>u raw. if u = (UE_Https ''b'' :: (string, unit) UpstreamEntry) then Inr (raw, ''b'') else Inl UdpFailed"
  let ?us = "[UE_Https ''a'', UE_Https ''b'' :: (string, unit) UpstreamEntry]"
  have "pool_from_config sample_transports [Cfg_Https ''a'' None, Cfg_Https ''b'' None] = Inr \<lparr>upstreams = ?us, counter = 0\<rparr>"
    by (simp add: pool_from_config_def sample_transports_def map_ok_def)
  from pool_answers [OF this, of "\<lparr>upstreams = ?us, counter = 4\<rparr>" ?ask "[5]"]
  obtain res where "pool_resolve_raw ?ask \<lparr>upstreams = ?us, counter = 4\<rparr> [5] = Some (res, \<lparr>upstreams = ?us, counter = 5\<rparr>)"
    "\<not> isl res" "\<forall>a. res = Inr a \<longrightarrow> (\<exists>u. ?ask u [5] = Inr a)"
    by fastforce
  then show ?thesis by (cases res) (auto split: if_splits)
qed

section \<open>Pooled connections\<close>

text \<open>
  A peer that answers each query \<open>q\<close> with \<open>srv q\<close>, in order, and may stop anywhere: a connection
  reset or a time limit in the middle of an answer. A clean connection is one whose answers
  have all been read.
\<close>

definition frames :: "bytes list \<Rightarrow> bytes" where
  "frames ms = concat (map framed ms)"

definition answers_with :: "(bytes \<Rightarrow> bytes) \<Rightarrow> Conn \<Rightarrow> bool" where
  "answers_with srv c \<longleftrightarrow> (\<forall>qs. list_all (\<lambda>q. length q \<le> 65535) qs \<longrightarrow> prefix (c_peer c (frames qs)) (frames (map srv qs)))"

definition clean :: "(bytes \<Rightarrow> bytes) \<Rightarrow> Conn \<Rightarrow> bool" where
  "clean srv c \<longleftrightarrow> answers_with srv c \<and> (\<exists>qs. list_all (\<lambda>q. length q \<le> 65535) qs \<and> c_sent c = frames qs \<and> c_read c = length (frames (map srv qs)))"

definition clean_pool :: "(bytes \<Rightarrow> bytes) \<Rightarrow> StreamPool \<Rightarrow> bool" where
  "clean_pool srv pool \<longleftrightarrow> length pool \<le> MAX_IDLE \<and> (\<forall>e. e \<in> set pool \<longrightarrow> clean srv (id_conn e))"

lemma frames_snoc: "frames (qs @ [q]) = frames qs @ framed q"
  by (simp add: frames_def)

lemma prefix_drop_append: "prefix xs (ys @ zs) \<Longrightarrow> prefix (drop (length ys) xs) zs"
proof -
  assume "prefix xs (ys @ zs)"
  then obtain w where "ys @ zs = xs @ w" by (rule prefixE)
  then have "zs = drop (length ys) (xs @ w)" by (metis append_eq_conv_conj)
  then show ?thesis by (simp add: prefixI)
qed

lemma framed_exchange_clean:
  assumes "clean srv c" and "\<forall>q. length q \<le> 65535 \<longrightarrow> length (srv q) \<le> 65535" and "framed_exchange c raw = (res, c')"
  shows "res = Inr x \<Longrightarrow> x = srv raw \<and> clean srv c'"
proof -
  assume x: "res = Inr x"
  have short: "length raw \<le> 65535" using assms(3) x by (auto simp: framed_exchange_def split: if_splits)
  obtain qs where qs: "c_sent c = frames qs" "c_read c = length (frames (map srv qs))" "list_all (\<lambda>q. length q \<le> 65535) qs"
    and honest: "answers_with srv c"
    using assms(1) by (auto simp: clean_def)
  define c1 where "c1 = c\<lparr>c_sent := c_sent c @ framed raw\<rparr>"
  define avail where "avail = drop (c_read c) (c_peer c (frames (qs @ [raw])))"
  have "prefix (c_peer c (frames (qs @ [raw]))) (frames (map srv qs) @ framed (srv raw))"
    using honest [unfolded answers_with_def, rule_format, of "qs @ [raw]"] qs(3) short by (simp add: frames_snoc)
  then have avail: "prefix avail (framed (srv raw))"
    unfolding avail_def qs(2) by (rule prefix_drop_append)
  obtain len c2 where first: "read_exact c1 2 = (Inr len, c2)" and second: "read_exact c2 (unat (be16 (len ! 0) (len ! 1))) = (Inr x, c')"
    using assms(3) x by (auto simp: framed_exchange_def c1_def Let_def split: if_splits sum.splits prod.splits)
  have c1: "c_sent c1 = frames (qs @ [raw])" "c_peer c1 = c_peer c" "c_read c1 = c_read c"
    by (simp_all add: c1_def qs frames_snoc)
  have len: "len = take 2 avail" "2 \<le> length avail" "c2 = c1\<lparr>c_read := c_read c + 2\<rparr>"
    using first c1 by (auto simp: read_exact_def Let_def avail_def split: if_splits)
  obtain a b where ab: "u16_bytes (word_of_nat (length (srv raw))) = [a, b]" by (simp add: u16_bytes_def)
  then have pre: "prefix avail ([a, b] @ srv raw)" using avail by (simp add: framed_def)
  moreover obtain x' y' rest where "avail = x' # y' # rest" using len(2) by (cases avail; cases "tl avail") auto
  ultimately have "len = [a, b]" using len(1) by simp
  then have n: "unat (be16 (len ! 0) (len ! 1)) = length (srv raw)"
    using ab assms(2) [rule_format, OF short] be16_u16_bytes [of "word_of_nat (length (srv raw))"]
    by (simp add: unat_of_nat)
  have "drop (c_read c2) (c_peer c2 (c_sent c2)) = drop 2 avail" using len c1 by (simp add: avail_def add.commute)
  then have snd: "length (srv raw) \<le> length (drop 2 avail)" "x = take (length (srv raw)) (drop 2 avail)"
    "c' = c2\<lparr>c_read := c_read c2 + length (srv raw)\<rparr>"
    using second n by (auto simp: read_exact_def Let_def split: if_splits)
  have "length ([a, b] @ srv raw) \<le> length avail" using snd(1) len(2) by simp
  moreover obtain w where "[a, b] @ srv raw = avail @ w" using pre by (rule prefixE)
  ultimately have "avail = [a, b] @ srv raw" by (cases w) (auto dest: arg_cong [of _ _ length])
  then have "x = srv raw" using snd(2) by simp
  moreover have "clean srv c'"
    unfolding clean_def using honest snd(3) len(3) c1 qs short
    by (auto simp: answers_with_def frames_snoc framed_def u16_bytes_def intro!: exI [of _ "qs @ [raw]"])
  ultimately show ?thesis by simp
qed

lemma take_idle_loop_set:
  "take_idle_loop now es = (c, es') \<Longrightarrow> set es' \<subseteq> set es \<and> length es' \<le> length es \<and> (\<forall>x. c = Some x \<longrightarrow> x \<in> id_conn ` set es)"
  by (induction now es rule: take_idle_loop.induct) (auto split: if_splits)

lemma take_idle_set:
  assumes "take_idle now pool = (c, pool')"
  shows "set pool' \<subseteq> set pool \<and> length pool' \<le> length pool \<and> (\<forall>x. c = Some x \<longrightarrow> x \<in> id_conn ` set pool)"
proof -
  obtain es where "take_idle_loop now (rev pool) = (c, es)" "pool' = rev es"
    using assms by (auto simp: take_idle_def split: prod.splits)
  then show ?thesis using take_idle_loop_set [of now "rev pool" c es] by simp
qed

lemma put_idle_clean: "clean_pool srv pool \<Longrightarrow> clean srv c \<Longrightarrow> clean_pool srv (put_idle now c pool)"
  by (auto simp: clean_pool_def put_idle_def)

text \<open>
  C24. However many queries share the pool, and wherever a peer stops answering, an exchange
  over a pooled or a fresh connection returns the peer's answer to this very query or an
  error, never bytes of another answer; every connection it leaves in the pool has been
  read to the end, and the pool keeps to its limit.
\<close>

theorem pooled_exchange_answers:
  assumes "clean_pool srv pool" and "\<forall>q. length q \<le> 65535 \<longrightarrow> length (srv q) \<le> 65535"
    and "\<forall>c. connect = Inr c \<longrightarrow> answers_with srv c \<and> c_sent c = [] \<and> c_read c = 0"
    and "\<forall>p. clean_pool srv p \<longrightarrow> clean_pool srv (others p)"
    and "stream_exchange now back connect others pool raw = (res, pool')"
  shows "clean_pool srv pool' \<and> (\<forall>x. res = Inr x \<longrightarrow> x = srv raw)"
proof -
  obtain warm rest where t: "take_idle now pool = (warm, rest)" by fastforce
  have rest: "clean_pool srv rest" "\<forall>c. warm = Some c \<longrightarrow> clean srv c"
    using take_idle_set [OF t] assms(1) by (auto simp: clean_pool_def)
  have start: "clean srv c" if "connect = Inr c" for c
    using assms(3) that by (auto simp: clean_def frames_def intro!: exI [of _ "[]"])
  have fresh: ?thesis if "(case connect of
      Inl e \<Rightarrow> (Inl e, others rest)
    | Inr c \<Rightarrow> (case framed_exchange c raw of
        (Inl e, _) \<Rightarrow> (Inl e, others rest)
      | (Inr resp, c) \<Rightarrow> (Inr resp, put_idle back c (others rest)))) = (res, pool')"
    using that assms(4) rest(1) framed_exchange_clean [OF start assms(2)]
    by (auto split: sum.splits prod.splits intro!: put_idle_clean)
  show ?thesis
  proof (cases warm)
    case None
    then show ?thesis using assms(5) t by (intro fresh) (simp add: stream_exchange_def)
  next
    case (Some c)
    obtain r c' where ex: "framed_exchange c raw = (r, c')" by fastforce
    show ?thesis
    proof (cases r)
      case (Inl e)
      then show ?thesis using assms(5) t Some ex by (intro fresh) (simp add: stream_exchange_def)
    next
      case (Inr x)
      then show ?thesis
        using assms(4,5) t Some ex rest framed_exchange_clean [OF _ assms(2) ex, of x]
        by (auto simp: stream_exchange_def intro!: put_idle_clean)
    qed
  qed
qed

text \<open>An echo server, a pool with one connection to it that has answered a query, and the next query.\<close>

definition echo_conn :: "bytes list \<Rightarrow> Conn" where
  "echo_conn qs = \<lparr>c_sent = frames qs, c_read = length (frames qs), c_peer = id\<rparr>"

lemma echo_clean: "list_all (\<lambda>q. length q \<le> 65535) qs \<Longrightarrow> clean id (echo_conn qs)"
  by (auto simp: clean_def answers_with_def echo_conn_def)

theorem pooled_exchange_answers_witness:
  "\<exists>pool'. stream_exchange (\<lambda>_. 5) 6 (Inl ConnectFailed) id [\<lparr>id_conn = echo_conn [[1, 2]], id_since = 0\<rparr>] [7, 8, 9] =
     (Inr [7, 8, 9], pool') \<and> clean_pool id pool'"
proof -
  let ?pool = "[\<lparr>id_conn = echo_conn [[1, 2]], id_since = 0\<rparr>]"
  obtain x pool' where run: "stream_exchange (\<lambda>_. 5) 6 (Inl ConnectFailed) id ?pool [7, 8, 9] = (Inr x, pool')"
    by (auto simp: stream_exchange_def take_idle_def IDLE_TTL_def framed_exchange_def echo_conn_def read_exact_def
        frames_def framed_def u16_bytes_def be16_def)
  moreover have "clean_pool id ?pool" by (simp add: clean_pool_def MAX_IDLE_def echo_clean)
  ultimately have "clean_pool id pool' \<and> x = [7, 8, 9]"
    using pooled_exchange_answers [of id ?pool "Inl ConnectFailed" id "\<lambda>_. 5" 6 "[7, 8, 9]" "Inr x" pool'] by simp
  then show ?thesis using run by blast
qed

section \<open>Tunnels\<close>

lemma direct_use_is_labelled:
  assumes "tunneled_resolve_raw via direct tls r raw = Inr (resp, label)"
  shows "label = (if \<exists>c. via = Some (Inr c) then tr_label r else tr_label r @ '' (direct fallback)'')"
  using assms by (auto simp: tunneled_resolve_raw_def tunneled_open_def Let_def split: sum.splits option.splits if_splits prod.splits)

section \<open>Zones\<close>

definition zone_name :: "ZoneConfig \<Rightarrow> string" where
  "zone_name z = lowercase (trim_end_char (\<lambda>c. c = CHR ''.'') (z_name z))"

lemma zone_entry_name: "zone_entry z = Inr e \<Longrightarrow> ze_name e = zone_name z"
  by (auto simp: zone_entry_def zone_name_def split: option.splits sum.splits)

lemma find_first_sorted:
  assumes "sorted (map k es)" and "find P es = Some e" and "e' \<in> set es" and "P e'"
  shows "k e \<le> (k e' :: int)"
  using assms by (induction es) (auto split: if_splits)

text \<open>
  C36. A query whose name lies in configured zones goes to the resolver of the longest of
  them; a query whose name lies in none goes to the default pool.
\<close>

theorem query_goes_to_its_zone:
  assumes "routes_new zs dflt = Inr routes" and "query_name H to_utf8 raw = Some name"
  shows "case zone_route H to_utf8 routes raw of
      Some r \<Rightarrow> \<exists>z e. z \<in> set zs \<and> zone_entry z = Inr e \<and> ze_resolver e = r \<and> matches_zone name (zone_name z) \<and>
        (\<forall>z'. z' \<in> set zs \<and> matches_zone name (zone_name z') \<longrightarrow> length (zone_name z') \<le> length (zone_name z))
    | None \<Rightarrow> \<forall>z. z \<in> set zs \<longrightarrow> \<not> matches_zone name (zone_name z)"
proof -
  obtain es where es: "build_all zone_entry zs = Inr es" "zones routes = sort_key (\<lambda>e. - int (length (ze_name e))) es"
    using assms(1) by (auto simp: routes_new_def split: sum.splits)
  note all = build_all_Inr [OF es(1)]
  have to: "\<exists>e. e \<in> set (zones routes) \<and> zone_entry z = Inr e \<and> ze_name e = zone_name z" if "z \<in> set zs" for z
    using all that es(2) zone_entry_name by (fastforce simp: list_all2_conv_all_nth in_set_conv_nth)
  have conv: "\<exists>z. z \<in> set zs \<and> zone_entry z = Inr e \<and> ze_name e = zone_name z" if "e \<in> set (zones routes)" for e
    using all that es(2) zone_entry_name by (fastforce simp: list_all2_conv_all_nth in_set_conv_nth)
  have route: "zone_route H to_utf8 routes raw = map_option ze_resolver (find (\<lambda>e. matches_zone name (ze_name e)) (zones routes))"
    using assms(2) by (auto simp: zone_route_def)
  show ?thesis
  proof (cases "find (\<lambda>e. matches_zone name (ze_name e)) (zones routes)")
    case None
    then have "\<not> matches_zone name (ze_name e)" if "e \<in> set (zones routes)" for e using that by (auto simp: find_None_iff)
    then show ?thesis using None route to by (simp, metis)
  next
    case (Some e)
    then have e: "e \<in> set (zones routes)" "matches_zone name (ze_name e)" by (auto simp: find_Some_iff)
    have "length (ze_name e') \<le> length (ze_name e)" if "e' \<in> set (zones routes)" "matches_zone name (ze_name e')" for e'
      using find_first_sorted [of "\<lambda>e. - int (length (ze_name e))" "zones routes", OF _ Some that] es(2) by simp
    then have "length (zone_name z') \<le> length (ze_name e)" if "z' \<in> set zs" "matches_zone name (zone_name z')" for z'
      using to [OF that(1)] that(2) by metis
    moreover obtain z where "z \<in> set zs" "zone_entry z = Inr e" "ze_name e = zone_name z" using conv [OF e(1)] by blast
    ultimately show ?thesis using e(2) Some route by auto
  qed
qed

section \<open>Zones with an IPv6 upstream\<close>

definition v6_char :: "char \<Rightarrow> bool" where
  "v6_char c \<longleftrightarrow> radix_digit 16 c \<noteq> None \<or> c = CHR '':''"

lemma v6_char_others: "\<not> v6_char (CHR ''.'')" "\<not> v6_char (CHR ''['')" "radix_digit 10 (CHR '':'') = None"
  by code_simp+

lemma group_text_chars: "g < 65536 \<Longrightarrow> list_all v6_char (group_text g)"
proof -
  assume "g < 65536"
  then have "g div 4096 < 16" by auto
  then show ?thesis by (simp add: group_text_def v6_char_def radix_digit_hex)
qed

lemma subslice_text_chars: "list_all (\<lambda>g. g < 65536) gs \<Longrightarrow> list_all v6_char (subslice_text gs)"
  by (induction gs rule: subslice_text.induct) (auto simp: group_text_chars, simp add: v6_char_def)

lemma segments_small: "list_all (\<lambda>g. g < 65536) (segments a)"
proof -
  have "unat (w :: u16) < 65536" for w using unsigned_less [of w, where 'a = nat] by simp
  then show ?thesis by (simp add: segments_def)
qed

text \<open>The text of an IPv6 address has a colon before any dot, and no bracket before that.\<close>

lemma ipv6_text_colon: "\<exists>p rest. ipv6_text a = p @ '':'' @ rest \<and> list_all v6_char p"
proof (cases "to_ipv4_mapped a")
  case (Some v4)
  then show ?thesis by - (rule exI [of _ "[]"], simp add: Let_def ipv6_text_def v6_char_def)
next
  case None
  obtain start len where z: "zero_span 0 (segments a) (0, 0) (0, 0) = (start, len)" by fastforce
  show ?thesis
  proof (cases "len > 1")
    case True
    have "list_all (\<lambda>g. g < 65536) (take start (segments a))"
      using segments_small [of a] by (auto simp: list_all_iff dest: in_set_takeD)
    then show ?thesis using None z True subslice_text_chars
      by - (rule exI [of _ "subslice_text (take start (segments a))"], simp add: Let_def ipv6_text_def)
  next
    case False
    obtain g g' gs where g: "segments a = g # g' # gs" by (simp add: segments_def)
    then have "g < 65536" using segments_small [of a] by simp
    then show ?thesis using None z False g group_text_chars [of g]
      by - (rule exI [of _ "group_text g"], simp add: Let_def ipv6_text_def)
  qed
qed

lemma take_digits_split: "\<exists>rest. s = take_digits radix s @ rest"
  by (induction s) auto

lemma take_digits_digits: "list_all (\<lambda>c. radix_digit radix c \<noteq> None) (take_digits radix s)"
  by (induction s) auto

lemma read_ipv4_dot:
  assumes "read_ipv4_addr s = Some r"
  shows "\<exists>ds rest. s = ds @ ''.'' @ rest \<and> list_all (\<lambda>c. radix_digit 10 c \<noteq> None) ds"
proof -
  let ?ds = "take_digits 10 s"
  have "read_given_char (CHR ''.'') (drop (length ?ds) s) \<noteq> None"
    using assms by (auto simp: read_ipv4_addr_def read_separator_def bind_eq_Some_conv read_number_def Let_def
        split: if_splits option.splits)
  then obtain rest where "drop (length ?ds) s = CHR ''.'' # rest"
    by (auto simp: read_given_char_def split: list.splits if_splits)
  moreover obtain rest' where "s = ?ds @ rest'" using take_digits_split by blast
  ultimately have "s = ?ds @ ''.'' @ rest" by (metis append.simps append_eq_conv_conj)
  then show ?thesis using take_digits_digits by blast
qed

lemma ipv6_text_no_socket_addr: "socket_addr_from_str (ipv6_text a @ '':'' @ port) = None"
proof -
  let ?s = "ipv6_text a @ '':'' @ port"
  obtain p rest where p: "ipv6_text a = p @ '':'' @ rest" "list_all v6_char p" using ipv6_text_colon by blast
  have "read_ipv4_addr ?s = None"
  proof (rule ccontr)
    assume "read_ipv4_addr ?s \<noteq> None"
    then obtain ds r where ds: "?s = ds @ ''.'' @ r" "list_all (\<lambda>c. radix_digit 10 c \<noteq> None) ds" using read_ipv4_dot by blast
    then have "p @ CHR '':'' # rest @ '':'' @ port = ds @ CHR ''.'' # r" using p by simp
    then show False using p(2) ds(2) v6_char_others
      by (auto simp: append_eq_append_conv2 append_eq_Cons_conv Cons_eq_append_conv)
  qed
  moreover have "read_given_char (CHR ''['') ?s = None"
    using p v6_char_others by (cases p) (auto simp: read_given_char_def)
  ultimately show ?thesis
    by (simp add: socket_addr_from_str_def read_socket_addr_v4_def read_socket_addr_v6_def)
qed

lemma build_all_Inl: "x \<in> set xs \<Longrightarrow> isl (f x) \<Longrightarrow> isl (build_all f xs)"
  by (induction xs) (auto split: sum.splits)

text \<open>
  C40. A configuration with a zone whose upstream is an IPv6 address, in the only form the
  parser of socket addresses reads, is refused, and the running routes stay: the address is
  printed without its brackets and read again.
\<close>

theorem zone_ipv6_rejected:
  assumes "z \<in> set zs" and "socket_addr_from_str (z_upstream z) = Some a" and "sa_ip a = V6 ip"
  shows "\<exists>e. router_replace zs dflt routes = (Inl e, routes)"
proof -
  have "isl (zone_entry z)"
    using assms(2,3) by (simp add: zone_entry_def plain_new_def ip_to_string_def ipv6_text_no_socket_addr [simplified] Let_def)
  then have "isl (build_all zone_entry zs)" using build_all_Inl [OF assms(1)] by blast
  then show ?thesis by (auto simp: router_replace_def routes_new_def isl_def)
qed

theorem zone_ipv6_rejected_witness:
  "\<exists>e. router_replace [\<lparr>z_name = ''lan'', z_upstream = ''[::]:53''\<rparr>] \<lparr>upstreams = [()], counter = 0\<rparr>
      \<lparr>zones = [], default_pool = \<lparr>upstreams = [()], counter = 7\<rparr>\<rparr> =
    (Inl e, \<lparr>zones = [], default_pool = \<lparr>upstreams = [()], counter = 7\<rparr>\<rparr>)"
proof -
  have zeros: "((\<lambda>acc. acc * 65536) ^^ n) 0 = (0 :: nat)" for n by (induction n) simp_all
  have "socket_addr_from_str ''[::]:53'' = Some \<lparr>sa_ip = V6 0, sa_port = 53, sa_scope = 0\<rparr>"
    by (simp add: socket_addr_from_str_def read_socket_addr_v4_def read_ipv4_addr_def read_separator_def read_number_def
        radix_digit_def hex_digits_def read_socket_addr_v6_def read_given_char_def read_ipv6_addr_def read_groups.simps
        groups_value_def read_port_def read_scope_id_def zeros)
  then show ?thesis
    by (intro zone_ipv6_rejected [where z = "\<lparr>z_name = ''lan'', z_upstream = ''[::]:53''\<rparr>"
        and a = "\<lparr>sa_ip = V6 0, sa_port = 53, sa_scope = 0\<rparr>"]) simp_all
qed

section \<open>Zones with an IPv4 upstream\<close>

lemma radix_value_append: "radix_value r acc (xs @ ys) = Option.bind (radix_value r acc xs) (\<lambda>a. radix_value r a ys)"
  by (induction r acc xs rule: radix_value.induct) (auto split: option.splits)

lemma digit_char_hex: "d < 10 \<Longrightarrow> digit_char d = hex_char d"
proof -
  have "list_all (\<lambda>d. digit_char d = hex_char d) [0..<10]" by code_simp
  then show "d < 10 \<Longrightarrow> digit_char d = hex_char d" by (simp add: list_all_iff)
qed

lemma dec_text_step: "dec_text n = (if n div 10 = 0 then [] else dec_text (n div 10)) @ [hex_char (n mod 10)]"
  by (simp add: dec_text_def dec_rev.simps [of n] digit_char_hex)

lemma dec_text_number: "radix_value 10 0 (dec_text n) = Some n \<and> list_all (\<lambda>c. radix_digit 10 c \<noteq> None) (dec_text n) \<and> dec_text n \<noteq> []"
proof (induction n rule: less_induct)
  case (less n)
  show ?case
  proof (cases "n div 10 = 0")
    case True
    then show ?thesis by (simp add: dec_text_step [of n] radix_digit_dec)
  next
    case False
    then have "n div 10 < n" by auto
    then show ?thesis using less [of "n div 10"] False
      by (simp add: dec_text_step [of n] radix_digit_dec radix_value_append)
  qed
qed

text \<open>An IPv4 address and a port are read back from their text.\<close>

lemma ipv4_socket_addr:
  "socket_addr_from_str (ipv4_text a @ '':'' @ dec_text (unat (p :: u16))) = Some \<lparr>sa_ip = V4 a, sa_port = p, sa_scope = 0\<rparr>"
proof -
  have "unat p \<le> 65535" using unsigned_less [of p, where 'a = nat] by simp
  then have "read_port ('':'' @ dec_text (unat p)) = Some (p, [])"
    using dec_text_number [of "unat p"] take_digits_append [of 10 "dec_text (unat p)" "[]"]
    by (simp add: read_port_def read_given_char_def read_number_def Let_def)
  then show ?thesis
    using read_ipv4_text [of "'':'' @ dec_text (unat p)" a] v6_char_others
    by (simp add: socket_addr_from_str_def read_socket_addr_v4_def)
qed

lemma ipv4_zone_entry:
  "z_upstream z = ipv4_text a @ '':'' @ dec_text (unat (p :: u16)) \<Longrightarrow> \<exists>r. zone_entry z = Inr \<lparr>ze_name = zone_name z, ze_resolver = r\<rparr>"
  by (simp add: zone_entry_def zone_name_def plain_new_def ip_to_string_def ipv4_socket_addr [simplified] Let_def)

text \<open>A decoder that finds one question, for the name \<open>pc.lan\<close>.\<close>

definition lan_hickory :: "(string, bool, unit) hickory" where
  "lan_hickory = plain_hickory\<lparr>h_from_bytes := \<lambda>_. Some (h_query plain_hickory 0\<lparr>queries := [\<lparr>q_name = ''PC.lan.'', q_type = 1\<rparr>]\<rparr>)\<rparr>"

definition lan_zones :: "ZoneConfig list" where
  "lan_zones = [\<lparr>z_name = ''Lan.'', z_upstream = ipv4_text 1 @ '':'' @ dec_text (unat (53 :: u16))\<rparr>, \<lparr>z_name = ''b.lan'', z_upstream = ipv4_text 2 @ '':'' @ dec_text (unat (53 :: u16))\<rparr>]"

theorem query_goes_to_its_zone_witness:
  "\<exists>routes r. routes_new lan_zones \<lparr>upstreams = [()], counter = 0\<rparr> = Inr routes \<and>
     zone_route lan_hickory id routes [] = Some r \<and>
     (\<exists>z e. z \<in> set lan_zones \<and> zone_entry z = Inr e \<and> ze_resolver e = r \<and> matches_zone ''pc.lan'' (zone_name z))"
proof -
  obtain r1 r2 where "zone_entry (lan_zones ! 0) = Inr r1" "zone_entry (lan_zones ! 1) = Inr r2"
    using ipv4_zone_entry [of "lan_zones ! 0" 1 53] ipv4_zone_entry [of "lan_zones ! 1" 2 53] by (auto simp: lan_zones_def)
  then obtain routes where r: "routes_new lan_zones \<lparr>upstreams = [()], counter = 0\<rparr> = Inr routes"
    by (simp add: routes_new_def lan_zones_def)
  have n: "query_name lan_hickory id [] = Some ''pc.lan''" by code_simp
  have z: "hd lan_zones \<in> set lan_zones" "matches_zone ''pc.lan'' (zone_name (hd lan_zones))"
    by (simp add: lan_zones_def) code_simp
  show ?thesis
    using query_goes_to_its_zone [OF r n] z r by (cases "zone_route lan_hickory id routes []") auto
qed

end
