(* ===== verification/Peek.thy ===== *)
theory Peek
  imports Upstream Dhcp_Message
begin

unbundle bit_operations_syntax

text \<open>
  What the proxy listeners read from the first bytes of a connection: the server name of a TLS
  ClientHello (\<open>crates/edge/src/peek/sni.rs\<close>), the header a trusted reverse proxy puts in front
  (\<open>proxy_protocol.rs\<close>) and the host of a plain HTTP request (\<open>crates/proxy/src/http_host.rs\<close>).
  The cursor over the bytes fails where the source returns \<open>None\<close>; indexing that would panic is
  a value \<open>None\<close> of the enclosing \<open>rs\<close> type.
\<close>

section \<open>The cursor\<close>

record Reader =
  rd_b :: bytes
  rd_pos :: nat

definition reader :: "bytes \<Rightarrow> Reader" where
  "reader b = \<lparr>rd_b = b, rd_pos = 0\<rparr>"

definition remaining :: "Reader \<Rightarrow> nat" where
  "remaining r = length (rd_b r) - rd_pos r"

definition rd_u8 :: "Reader \<Rightarrow> (u8 \<times> Reader) option" where
  "rd_u8 r = do { v \<leftarrow> slice_get (rd_b r) (rd_pos r); Some (v, r\<lparr>rd_pos := rd_pos r + 1\<rparr>) }"

definition rd_u16 :: "Reader \<Rightarrow> (u16 \<times> Reader) option" where
  "rd_u16 r = do {
     hi \<leftarrow> slice_get (rd_b r) (rd_pos r);
     lo \<leftarrow> slice_get (rd_b r) (rd_pos r + 1);
     Some (be16 hi lo, r\<lparr>rd_pos := rd_pos r + 2\<rparr>)
   }"

definition rd_u24 :: "Reader \<Rightarrow> (nat \<times> Reader) option" where
  "rd_u24 r = do {
     a \<leftarrow> slice_get (rd_b r) (rd_pos r);
     b \<leftarrow> slice_get (rd_b r) (rd_pos r + 1);
     c \<leftarrow> slice_get (rd_b r) (rd_pos r + 2);
     Some ((unat a * 256 + unat b) * 256 + unat c, r\<lparr>rd_pos := rd_pos r + 3\<rparr>)
   }"

definition rd_skip :: "Reader \<Rightarrow> nat \<Rightarrow> Reader option" where
  "rd_skip r n = (if rd_pos r + n > length (rd_b r) then None else Some (r\<lparr>rd_pos := rd_pos r + n\<rparr>))"

definition rd_slice :: "Reader \<Rightarrow> nat \<Rightarrow> (bytes \<times> Reader) option" where
  "rd_slice r n = do { s \<leftarrow> get_range (rd_b r) (rd_pos r) (rd_pos r + n); Some (s, r\<lparr>rd_pos := rd_pos r + n\<rparr>) }"

section \<open>The server name of a ClientHello\<close>

datatype SniResult = SniFound string | SniIncomplete | SniNotFound

definition TLS_HANDSHAKE :: u8 where "TLS_HANDSHAKE = 0x16"
definition CLIENT_HELLO :: u8 where "CLIENT_HELLO = 0x01"
definition EXT_SERVER_NAME :: u16 where "EXT_SERVER_NAME = 0"
definition SNI_HOST_NAME :: u8 where "SNI_HOST_NAME = 0"

definition host_text :: "bytes \<Rightarrow> string" where
  "host_text name = lowercase (trim_end_char (\<lambda>c. c = CHR ''.'') (map byte_char name))"

function server_name_loop :: "Reader \<Rightarrow> string option" where
  "server_name_loop r =
     (if remaining r < 3 then None
      else case rd_u8 r of
        None \<Rightarrow> None
      | Some (name_type, r1) \<Rightarrow>
          (case rd_u16 r1 of
             None \<Rightarrow> None
           | Some (name_len, r2) \<Rightarrow>
               (case rd_slice r2 (unat name_len) of
                  None \<Rightarrow> None
                | Some (name, r3) \<Rightarrow>
                    if name_type = SNI_HOST_NAME then
                      (if \<not> utf8_valid name then None
                       else if name = [] then None
                       else Some (host_text name))
                    else server_name_loop r3)))"
  by pat_completeness auto
termination
  by (relation "measure remaining")
    (auto simp: remaining_def rd_u8_def rd_u16_def rd_slice_def bind_eq_Some_conv get_range_Some)

declare server_name_loop.simps [simp del]

definition parse_server_name :: "bytes \<Rightarrow> string option" where
  "parse_server_name data = (case rd_u16 (reader data) of None \<Rightarrow> None | Some (_, r) \<Rightarrow> server_name_loop r)"

function extension_loop :: "Reader \<Rightarrow> string option option" where
  "extension_loop r =
     (if remaining r < 4 then Some None
      else case rd_u16 r of
        None \<Rightarrow> None
      | Some (ext_type, r1) \<Rightarrow>
          (case rd_u16 r1 of
             None \<Rightarrow> None
           | Some (ext_len, r2) \<Rightarrow>
               (case rd_slice r2 (unat ext_len) of
                  None \<Rightarrow> None
                | Some (data, r3) \<Rightarrow>
                    if ext_type = EXT_SERVER_NAME then Some (parse_server_name data) else extension_loop r3)))"
  by pat_completeness auto
termination
  by (relation "measure remaining")
    (auto simp: remaining_def rd_u16_def rd_slice_def bind_eq_Some_conv get_range_Some)

declare extension_loop.simps [simp del]

text \<open>
  Both readers of the ClientHello skip the same fields up to the length of the extensions:
  version, random, session, cipher suites and compression methods.
\<close>

definition skip_hello :: "Reader \<Rightarrow> (nat \<times> Reader) option" where
  "skip_hello r = do {
     r \<leftarrow> rd_skip r 2;
     r \<leftarrow> rd_skip r 32;
     (session_id_len, r) \<leftarrow> rd_u8 r;
     r \<leftarrow> rd_skip r (unat session_id_len);
     (cipher_suites_len, r) \<leftarrow> rd_u16 r;
     r \<leftarrow> rd_skip r (unat cipher_suites_len);
     (compression_len, r) \<leftarrow> rd_u8 r;
     r \<leftarrow> rd_skip r (unat compression_len);
     (ext_total, r) \<leftarrow> rd_u16 r;
     Some (unat ext_total, r)
   }"

definition parse_client_hello :: "bytes \<Rightarrow> string option option" where
  "parse_client_hello rec = do {
     (t, r) \<leftarrow> rd_u8 (reader rec);
     if t \<noteq> CLIENT_HELLO then Some None
     else do {
       (_, r) \<leftarrow> rd_u24 r;
       (ext_total, r) \<leftarrow> skip_hello r;
       (ext_block, r) \<leftarrow> rd_slice r ext_total;
       extension_loop (reader ext_block)
     }
   }"

definition parse_sni :: "bytes \<Rightarrow> SniResult rs" where
  "parse_sni buf =
     (if length buf < 5 then Some SniIncomplete
      else do {
        b0 \<leftarrow> index buf 0;
        if b0 \<noteq> TLS_HANDSHAKE then Some SniNotFound
        else do {
          b3 \<leftarrow> index buf 3;
          b4 \<leftarrow> index buf 4;
          let record_end = 5 + unat (be16 b3 b4);
          if length buf < record_end then Some SniIncomplete
          else do {
            rec \<leftarrow> get_range buf 5 record_end;
            Some (case parse_client_hello rec of
              Some (Some host) \<Rightarrow> SniFound host
            | _ \<Rightarrow> SniNotFound)
          }
        }
      })"

section \<open>The place of the server name\<close>

function host_range_loop :: "Reader \<Rightarrow> nat \<Rightarrow> (nat \<times> nat) option" where
  "host_range_loop r fin =
     (if rd_pos r + 3 > fin then None
      else case rd_u8 r of
        None \<Rightarrow> None
      | Some (name_type, r1) \<Rightarrow>
          (case rd_u16 r1 of
             None \<Rightarrow> None
           | Some (name_len, r2) \<Rightarrow>
               if rd_pos r2 + unat name_len > fin then None
               else if name_type = SNI_HOST_NAME \<and> unat name_len > 0 then Some (rd_pos r2, unat name_len)
               else host_range_loop (r2\<lparr>rd_pos := rd_pos r2 + unat name_len\<rparr>) fin))"
  by pat_completeness auto
termination
  by (relation "measure (\<lambda>(r, fin). fin - rd_pos r)")
    (auto simp: rd_u8_def rd_u16_def bind_eq_Some_conv)

declare host_range_loop.simps [simp del]

definition host_name_range :: "bytes \<Rightarrow> nat \<Rightarrow> nat \<Rightarrow> (nat \<times> nat) option" where
  "host_name_range rec data_start data_len =
     (case rd_u16 \<lparr>rd_b = rec, rd_pos = data_start\<rparr> of
        None \<Rightarrow> None
      | Some (_, r) \<Rightarrow> host_range_loop r (min (data_start + data_len) (length rec)))"

function extension_range_loop :: "Reader \<Rightarrow> nat \<Rightarrow> (nat \<times> nat) option" where
  "extension_range_loop r ext_end =
     (if rd_pos r + 4 > ext_end then None
      else case rd_u16 r of
        None \<Rightarrow> None
      | Some (ext_type, r1) \<Rightarrow>
          (case rd_u16 r1 of
             None \<Rightarrow> None
           | Some (ext_len, r2) \<Rightarrow>
               (case rd_skip r2 (unat ext_len) of
                  None \<Rightarrow> None
                | Some r3 \<Rightarrow>
                    if ext_type = EXT_SERVER_NAME then host_name_range (rd_b r) (rd_pos r2) (unat ext_len)
                    else extension_range_loop r3 ext_end)))"
  by pat_completeness auto
termination
  by (relation "measure (\<lambda>(r, ext_end). ext_end - rd_pos r)")
    (auto simp: rd_u16_def rd_skip_def bind_eq_Some_conv split: if_splits)

declare extension_range_loop.simps [simp del]

definition sni_host_range :: "bytes \<Rightarrow> (nat \<times> nat) option rs" where
  "sni_host_range buf =
     (if length buf < 5 then Some None
      else do {
        b0 \<leftarrow> index buf 0;
        if b0 \<noteq> TLS_HANDSHAKE then Some None
        else do {
          b3 \<leftarrow> index buf 3;
          b4 \<leftarrow> index buf 4;
          let record_end = 5 + unat (be16 b3 b4);
          if length buf < record_end then Some None
          else do {
            rec \<leftarrow> get_range buf 0 record_end;
            Some (do {
              r \<leftarrow> rd_skip (reader rec) 5;
              (t, r) \<leftarrow> rd_u8 r;
              if t \<noteq> CLIENT_HELLO then None
              else do {
                (_, r) \<leftarrow> rd_u24 r;
                (ext_total, r) \<leftarrow> skip_hello r;
                extension_range_loop r (min (rd_pos r + ext_total) record_end)
              }
            })
          }
        }
      })"

section \<open>The header of a reverse proxy\<close>

datatype Header = HdrIncomplete | HdrAbsent | HdrPresent "(IpAddr \<times> u16) option" nat | HdrInvalid

definition V2_SIG :: bytes where
  "V2_SIG = [0x0D, 0x0A, 0x0D, 0x0A, 0, 0x0D, 0x0A, 0x51, 0x55, 0x49, 0x54, 0x0A]"

definition V1_SIG :: bytes where
  "V1_SIG = [0x50, 0x52, 0x4F, 0x58, 0x59, 0x20]"

definition V1_MAX :: nat where "V1_MAX = 107"

text \<open>\<open>windows(n).position(..)\<close>: the first place a non-empty text occurs.\<close>

fun find_sub :: "bytes \<Rightarrow> bytes \<Rightarrow> nat option" where
  "find_sub needle [] = None"
| "find_sub needle (x # xs) =
     (if take (length needle) (x # xs) = needle then Some 0 else map_option Suc (find_sub needle xs))"

definition v1_from :: "string \<Rightarrow> string \<Rightarrow> nat \<Rightarrow> Header" where
  "v1_from src sport len =
     (case (ip_from_str src, parse_unsigned 65535 sport) of
        (Some ip, Some p) \<Rightarrow> HdrPresent (Some (ip, word_of_nat p)) len
      | _ \<Rightarrow> HdrInvalid)"

definition v1_line :: "bytes \<Rightarrow> Header rs" where
  "v1_line buf =
     (case find_sub [0x0D, 0x0A] buf of
        None \<Rightarrow> Some (if length buf \<ge> V1_MAX then HdrInvalid else HdrIncomplete)
      | Some e \<Rightarrow>
          (let len = e + 2 in
           if len > V1_MAX then Some HdrInvalid
           else do {
             line \<leftarrow> get_range buf 0 e;
             Some (if \<not> utf8_valid line then HdrInvalid
               else (case split_on (CHR '' '') (map byte_char line) of
                 a # b # rest \<Rightarrow>
                   if a = ''PROXY'' \<and> b = ''UNKNOWN'' then HdrPresent None len
                   else if a = ''PROXY'' \<and> (b = ''TCP4'' \<or> b = ''TCP6'') then
                     (case rest of [src, _, sport, _] \<Rightarrow> v1_from src sport len | _ \<Rightarrow> HdrInvalid)
                   else HdrInvalid
               | _ \<Rightarrow> HdrInvalid))
           }))"

definition v2_header :: "bytes \<Rightarrow> Header rs" where
  "v2_header buf =
     (if length buf < 16 then Some HdrIncomplete
      else do {
        ver_cmd \<leftarrow> index buf 12;
        family \<leftarrow> index buf 13;
        b14 \<leftarrow> index buf 14;
        b15 \<leftarrow> index buf 15;
        let len = 16 + unat (be16 b14 b15);
        if drop_bit 4 ver_cmd \<noteq> 2 then Some HdrInvalid
        else if length buf < len then Some HdrIncomplete
        else if ver_cmd AND 0x0F = 0 then Some (HdrPresent None len)
        else do {
          a \<leftarrow> get_range buf 16 len;
          if family = 0x11 \<and> length a \<ge> 12 then do {
            a0 \<leftarrow> index a 0; a1 \<leftarrow> index a 1; a2 \<leftarrow> index a 2; a3 \<leftarrow> index a 3;
            p0 \<leftarrow> index a 8; p1 \<leftarrow> index a 9;
            Some (HdrPresent (Some (V4 (be32 a0 a1 a2 a3), be16 p0 p1)) len)
          }
          else if family = 0x21 \<and> length a \<ge> 36 then do {
            ip \<leftarrow> get_range a 0 16;
            p0 \<leftarrow> index a 32; p1 \<leftarrow> index a 33;
            Some (HdrPresent (Some (V6 (word_of_nat (fold (\<lambda>b acc. acc * 256 + unat b) ip 0)), be16 p0 p1)) len)
          }
          else Some (HdrPresent None len)
        }
      })"

definition parse_header :: "bytes \<Rightarrow> Header rs" where
  "parse_header buf =
     (let prefix = (\<lambda>sg. length buf < length sg \<and> take (length buf) sg = buf) in
      if prefix V1_SIG \<or> prefix V2_SIG \<or> buf = [] then Some HdrIncomplete
      else if take (length V1_SIG) buf = V1_SIG then v1_line buf
      else if take (length V2_SIG) buf = V2_SIG then v2_header buf
      else Some HdrAbsent)"

definition v6_mapped :: "Ipv4Addr \<Rightarrow> Ipv6Addr" where
  "v6_mapped a = push_bit 32 0xFFFF OR ucast a"

definition v1_header :: "IpAddr \<times> u16 \<Rightarrow> IpAddr \<times> u16 \<Rightarrow> string" where
  "v1_header from dest =
     (let from_ip = unmap_v4 (fst from); to_ip = unmap_v4 (fst dest);
          is_v4 = (\<lambda>ip. case ip of V4 _ \<Rightarrow> True | V6 _ \<Rightarrow> False);
          family = (if is_v4 from_ip \<and> is_v4 to_ip then ''TCP4'' else ''TCP6'');
          show_ip = (\<lambda>ip. ip_to_string (case ip of V4 v4 \<Rightarrow> if family = ''TCP6'' then V6 (v6_mapped v4) else ip | V6 _ \<Rightarrow> ip)) in
      ''PROXY '' @ family @ '' '' @ show_ip from_ip @ '' '' @ show_ip to_ip @ '' '' @
      dec_text (unat (snd from)) @ '' '' @ dec_text (unat (snd dest)) @ [CHR 0x0D, CHR 0x0A])"

section \<open>The host of an HTTP request\<close>

datatype HostResult = HostFound string | HostIncomplete | HostNotFound

definition MAX_HEAD :: nat where "MAX_HEAD = 8192"

function split_crlf :: "string \<Rightarrow> string list" where
  "split_crlf s =
     (case s of
        [] \<Rightarrow> [[]]
      | c # cs \<Rightarrow>
          if c = CHR 0x0D \<and> take 1 cs = [CHR 0x0A] then [] # split_crlf (drop 1 cs)
          else (case split_crlf cs of p # ps \<Rightarrow> (c # p) # ps | [] \<Rightarrow> [[c]]))"
  by pat_completeness auto
termination
  by (relation "measure length") auto

declare split_crlf.simps [simp del]

definition looks_like_http :: "string \<Rightarrow> bool" where
  "looks_like_http line \<longleftrightarrow>
     starts_with (last (split_on (CHR '' '') line)) ''HTTP/'' \<and> length (split_on (CHR '' '') line) = 3"

definition rsplit_once :: "char \<Rightarrow> string \<Rightarrow> (string \<times> string) option" where
  "rsplit_once c s = map_option (\<lambda>(a, b). (rev b, rev a)) (split_once c (rev s))"

definition host_without_port :: "string \<Rightarrow> string" where
  "host_without_port value =
     (let h = trim value;
          bare = (case strip_prefix h ''['' of
            Some rest \<Rightarrow> hd (split_on (CHR '']'') rest)
          | None \<Rightarrow>
              (case rsplit_once (CHR '':'') h of
                 Some (host, p) \<Rightarrow> if p \<noteq> [] \<and> list_all (\<lambda>c. c \<in> set ''0123456789'') p then host else h
               | None \<Rightarrow> h)) in
      lowercase (trim_end_char (\<lambda>c. c = CHR ''.'') bare))"

fun find_host :: "string list \<Rightarrow> HostResult" where
  "find_host [] = HostNotFound"
| "find_host (line # lines) =
     (case split_once (CHR '':'') line of
        Some (name, value) \<Rightarrow>
          if lowercase (trim name) = ''host'' then
            (let host = host_without_port value in if host = [] then HostNotFound else HostFound host)
          else find_host lines
      | None \<Rightarrow> find_host lines)"

definition parse_http_host :: "bytes \<Rightarrow> HostResult rs" where
  "parse_http_host buf =
     (case find_sub [0x0D, 0x0A, 0x0D, 0x0A] buf of
        None \<Rightarrow> Some (if length buf > MAX_HEAD then HostNotFound else HostIncomplete)
      | Some head_end \<Rightarrow> do {
          head \<leftarrow> get_range buf 0 head_end;
          Some (if \<not> utf8_valid head then HostNotFound
            else (case split_crlf (map byte_char head) of
              request_line # lines \<Rightarrow> if \<not> looks_like_http request_line then HostNotFound else find_host lines
            | [] \<Rightarrow> HostNotFound))
        })"

end
