(* ===== verification/Proxy.thy ===== *)
theory Proxy
  imports Handler Peek
begin

text \<open>
  Selective routing, from \<open>crates/proxy/src\<close>: the compiled rules (\<open>rules.rs\<close>), the routing
  snapshot and the hook of the DNS pipeline (\<open>lib.rs\<close>), the circuit breaker (\<open>health.rs\<close>), the
  probe and rule counters (\<open>stats.rs\<close>), and what a listener does with a connection
  (\<open>intercept.rs\<close>): the bytes it peeks and where it sends the connection.

  An egress is a value of a type of its own; its constructor, identifier and readiness are the
  record \<open>egress_lib\<close>. The outcome of a connection attempt is an argument, and so is the clock:
  seconds for the breaker and the probes, nanoseconds for the downtime and the registry.
\<close>

section \<open>Configuration\<close>

record RuleConfig =
  rc_pattern :: string
  rc_service :: "string option"
  rc_egress :: string
  rc_fail_closed :: bool
  rc_clients :: "string list"

definition hit_key :: "RuleConfig \<Rightarrow> string" where
  "hit_key r = (case rc_service r of Some i \<Rightarrow> ''service:'' @ i | None \<Rightarrow> rc_pattern r)"

record EgressConfig =
  ec_id :: string
  ec_name :: string
  ec_enabled :: bool
  ec_kind :: string
  ec_address :: "string option"
  ec_port :: "u16 option"
  ec_username :: "string option"
  ec_password :: "string option"
  ec_config :: "string option"
  ec_seg_position :: "u16 option"
  ec_buffer_kb :: "u32 option"
  ec_tx_buffer_kb :: "u32 option"
  ec_backend :: "string option"

record ProxyConfig =
  pc_enabled :: bool
  pc_http_port :: u16
  pc_https_port :: u16
  pc_advertise_ipv4 :: "Ipv4Addr option"
  pc_advertise_ipv6 :: "Ipv6Addr option"
  pc_route_away :: bool
  pc_away_ipv4 :: "Ipv4Addr option"
  pc_away_ipv6 :: "Ipv6Addr option"
  pc_max_connections :: nat
  pc_egresses :: "EgressConfig list"
  pc_rules :: "RuleConfig list"

section \<open>Rules\<close>

datatype 'r Matcher = Exact string | Wildcard 'r

record 'r CompiledRule =
  matcher :: "'r Matcher"
  rule_pattern :: string
  egress_idx :: nat
  fail_closed :: bool
  rule_clients :: "string list"
  specificity :: nat

definition rule_matches :: "'r regex_lib \<Rightarrow> 'r CompiledRule \<Rightarrow> string \<Rightarrow> bool" where
  "rule_matches L r name =
     (case matcher r of
        Exact p \<Rightarrow> name = p \<or> (length name > length p \<and> ends_with name p \<and> name ! (length name - length p - 1) = CHR ''.'')
      | Wildcard re \<Rightarrow> rx_is_match L re name)"

definition rule_matches_client :: "'r CompiledRule \<Rightarrow> string \<Rightarrow> string option \<Rightarrow> string option \<Rightarrow> bool" where
  "rule_matches_client r ip mac device =
     (if rule_clients r = [] then True
      else list_ex (\<lambda>c. lowercase c = lowercase ip \<or> (case mac of Some m \<Rightarrow> lowercase c = lowercase m | None \<Rightarrow> False) \<or>
        (case device of Some d \<Rightarrow> lowercase c = lowercase d | None \<Rightarrow> False)) (rule_clients r))"

definition label_count :: "string \<Rightarrow> nat" where
  "label_count pat = length (filter (\<lambda>l. l \<noteq> [] \<and> l \<noteq> ''*'') (split_on (CHR ''.'') pat))"

definition compile_rule :: "'r regex_lib \<Rightarrow> Service list \<Rightarrow> (string \<rightharpoonup> nat) \<Rightarrow> RuleConfig \<Rightarrow> 'r CompiledRule list" where
  "compile_rule L catalog idx r =
     (case idx (rc_egress r) of
        None \<Rightarrow> []
      | Some i \<Rightarrow>
          (let cs = filter (\<lambda>c. c \<noteq> []) (map (\<lambda>c. lowercase (trim c)) (rc_clients r)) in
           case rc_service r of
             Some s \<Rightarrow>
               (case find_service catalog s of
                  None \<Rightarrow> []
                | Some svc \<Rightarrow>
                    if \<not> svc_routable svc then []
                    else map (\<lambda>d. \<lparr>matcher = Exact d, rule_pattern = hit_key r, egress_idx = i, fail_closed = rc_fail_closed r,
                      rule_clients = cs, specificity = label_count d * 2 + 1\<rparr>) (svc_domains svc))
           | None \<Rightarrow>
               (let labels = label_count (rc_pattern r);
                    rule = (\<lambda>m s. \<lparr>matcher = m, rule_pattern = rc_pattern r, egress_idx = i, fail_closed = rc_fail_closed r,
                      rule_clients = cs, specificity = s\<rparr>) in
                if CHR ''*'' \<in> set (rc_pattern r) then
                  (case wildcard_to_regex L (rc_pattern r) of
                     Inr re \<Rightarrow> [rule (Wildcard re) (labels * 2)]
                   | Inl _ \<Rightarrow> [])
                else [rule (Exact (rc_pattern r)) (labels * 2 + 1)])))"

definition compile_rules :: "'r regex_lib \<Rightarrow> Service list \<Rightarrow> (string \<rightharpoonup> nat) \<Rightarrow> RuleConfig list \<Rightarrow> 'r CompiledRule list" where
  "compile_rules L catalog idx rs =
     sort_key (\<lambda>r. - int (specificity r)) (concat (map (compile_rule L catalog idx) rs))"

section \<open>The snapshot\<close>

record 'g egress_lib =
  eg_new :: "EgressConfig \<Rightarrow> UpError + 'g"
  eg_id :: "'g \<Rightarrow> string"
  eg_is_healthy :: "'g \<Rightarrow> bool"

record ('r, 'g) Snapshot =
  sn_enabled :: bool
  advertise_ipv4 :: "Ipv4Addr option"
  advertise_ipv6 :: "Ipv6Addr option"
  route_away :: bool
  away_ipv4 :: "Ipv4Addr option"
  away_ipv6 :: "Ipv6Addr option"
  egresses :: "'g list"
  egress_configs :: "EgressConfig list"
  sn_rules :: "'r CompiledRule list"

definition egress_runtime_eq :: "EgressConfig \<Rightarrow> EgressConfig \<Rightarrow> bool" where
  "egress_runtime_eq a b \<longleftrightarrow> ec_kind a = ec_kind b \<and> ec_address a = ec_address b \<and> ec_port a = ec_port b \<and>
     ec_username a = ec_username b \<and> ec_password a = ec_password b \<and> ec_config a = ec_config b \<and>
     ec_seg_position a = ec_seg_position b \<and> ec_buffer_kb a = ec_buffer_kb b \<and> ec_tx_buffer_kb a = ec_tx_buffer_kb b \<and>
     ec_backend a = ec_backend b"

definition reused_egress :: "('r, 'g) Snapshot option \<Rightarrow> EgressConfig \<Rightarrow> 'g option rs" where
  "reused_egress prev e =
     (case prev of
        None \<Rightarrow> Some None
      | Some p \<Rightarrow>
          (case position (\<lambda>pc. ec_id pc = ec_id e \<and> egress_runtime_eq pc e) (egress_configs p) of
             None \<Rightarrow> Some None
           | Some i \<Rightarrow> map_option Some (index (egresses p) i)))"

text \<open>The egresses built so far, with the configuration of each and the index of each identifier.\<close>

fun build_egresses :: "'g egress_lib \<Rightarrow> ('r, 'g) Snapshot option \<Rightarrow> EgressConfig list \<Rightarrow> 'g list \<Rightarrow> EgressConfig list \<Rightarrow> (string \<rightharpoonup> nat) \<Rightarrow>
    ('g list \<times> EgressConfig list \<times> (string \<rightharpoonup> nat)) rs" where
  "build_egresses G prev [] gs cs by_id = Some (gs, cs, by_id)"
| "build_egresses G prev (e # es) gs cs by_id =
     (if \<not> ec_enabled e then build_egresses G prev es gs cs by_id
      else do {
        reused \<leftarrow> reused_egress prev e;
        (case (case reused of Some g \<Rightarrow> Inr g | None \<Rightarrow> eg_new G e) of
           Inl _ \<Rightarrow> build_egresses G prev es gs cs by_id
         | Inr g \<Rightarrow> build_egresses G prev es (gs @ [g]) (cs @ [e]) (by_id(eg_id G g \<mapsto> length gs)))
      })"

text \<open>\<open>local_v4\<close> is the address the system would use towards the internet.\<close>

definition build_snapshot :: "'r regex_lib \<Rightarrow> Service list \<Rightarrow> 'g egress_lib \<Rightarrow> Ipv4Addr option \<Rightarrow> ProxyConfig \<Rightarrow> bool \<Rightarrow>
    ('r, 'g) Snapshot option \<Rightarrow> ('r, 'g) Snapshot rs" where
  "build_snapshot L catalog G local_v4 cfg on prev = do {
     (gs, cs, by_id) \<leftarrow> build_egresses G prev (pc_egresses cfg) [] [] Map.empty;
     Some \<lparr>sn_enabled = on, advertise_ipv4 = or_else (pc_advertise_ipv4 cfg) local_v4, advertise_ipv6 = pc_advertise_ipv6 cfg,
       route_away = pc_route_away cfg, away_ipv4 = pc_away_ipv4 cfg, away_ipv6 = pc_away_ipv6 cfg, egresses = gs,
       egress_configs = cs, sn_rules = compile_rules L catalog by_id (pc_rules cfg)\<rparr>
   }"

definition snapshot_route :: "'r regex_lib \<Rightarrow> ('r, 'g) Snapshot \<Rightarrow> string \<Rightarrow> string \<Rightarrow> string option \<Rightarrow> string option \<Rightarrow> 'r CompiledRule option" where
  "snapshot_route L s name client_ip client_mac device =
     find (\<lambda>r. rule_matches L r name \<and> rule_matches_client r client_ip client_mac device) (sn_rules s)"

section \<open>Health\<close>

definition FAILURE_THRESHOLD :: u32 where "FAILURE_THRESHOLD = 3"
definition COOLDOWN_SECS :: u64 where "COOLDOWN_SECS = 30"
definition PROBE_FAIL_THRESHOLD :: u32 where "PROBE_FAIL_THRESHOLD = 3"
definition ALERT_GRACE :: nat where "ALERT_GRACE = 60000000000"

record Breaker =
  consecutive_failures :: u32
  opened_until :: u64

definition breaker_default :: Breaker where
  "breaker_default = \<lparr>consecutive_failures = 0, opened_until = 0\<rparr>"

definition breaker_is_healthy :: "u64 \<Rightarrow> Breaker \<Rightarrow> bool" where
  "breaker_is_healthy now b \<longleftrightarrow> opened_until b = 0 \<or> now \<ge> opened_until b"

definition record_success :: "Breaker \<Rightarrow> Breaker" where
  "record_success b = b\<lparr>consecutive_failures := 0, opened_until := 0\<rparr>"

definition record_failure :: "u64 \<Rightarrow> Breaker \<Rightarrow> Breaker" where
  "record_failure now b =
     (let n = consecutive_failures b + 1; b = b\<lparr>consecutive_failures := n\<rparr> in
      if n \<ge> FAILURE_THRESHOLD then b\<lparr>opened_until := now + COOLDOWN_SECS\<rparr> else b)"

record ProbeState =
  rtt_ms :: "u32 option"
  probe_ok :: bool
  consecutive_fails :: u32
  last_probe_secs :: u64

record DownState =
  down_since :: nat
  alerted :: bool

datatype AlertEvent = EvDown nat | EvUp nat

record ListenerCfg =
  lc_enabled :: bool
  lc_http_port :: u16
  lc_https_port :: u16
  lc_max_connections :: nat

definition listener_from :: "ProxyConfig \<Rightarrow> ListenerCfg" where
  "listener_from cfg = \<lparr>lc_enabled = pc_enabled cfg, lc_http_port = pc_http_port cfg, lc_https_port = pc_https_port cfg,
     lc_max_connections = max (pc_max_connections cfg) 1\<rparr>"

definition listener_differs :: "ListenerCfg \<Rightarrow> ListenerCfg \<Rightarrow> bool" where
  "listener_differs a b \<longleftrightarrow> lc_enabled a \<noteq> lc_enabled b \<or> lc_http_port a \<noteq> lc_http_port b \<or> lc_https_port a \<noteq> lc_https_port b \<or>
     lc_max_connections a \<noteq> lc_max_connections b"

section \<open>Counters\<close>

record EgressStats =
  total_conns :: u64
  connect_fails :: u64
  fail_closed_drops :: u64

record ProxyStats =
  st_egresses :: "string \<rightharpoonup> EgressStats"
  rule_hits :: "string \<times> string \<rightharpoonup> u64"
  probes :: "string \<rightharpoonup> ProbeState"

definition egress_stats_new :: EgressStats where
  "egress_stats_new = \<lparr>total_conns = 0, connect_fails = 0, fail_closed_drops = 0\<rparr>"

definition stats_egress :: "ProxyStats \<Rightarrow> string \<Rightarrow> EgressStats" where
  "stats_egress s i = (case st_egresses s i of Some e \<Rightarrow> e | None \<Rightarrow> egress_stats_new)"

definition update_egress :: "(EgressStats \<Rightarrow> EgressStats) \<Rightarrow> string \<Rightarrow> ProxyStats \<Rightarrow> ProxyStats" where
  "update_egress f i s = s\<lparr>st_egresses := (st_egresses s)(i \<mapsto> f (stats_egress s i))\<rparr>"

definition record_rule_hit :: "ProxyStats \<Rightarrow> string \<Rightarrow> string \<Rightarrow> ProxyStats" where
  "record_rule_hit s pat i =
     s\<lparr>rule_hits := (rule_hits s)((pat, i) \<mapsto> (case rule_hits s (pat, i) of Some n \<Rightarrow> n | None \<Rightarrow> 0) + 1)\<rparr>"

definition stats_prune :: "ProxyStats \<Rightarrow> ProxyConfig \<Rightarrow> ProxyStats" where
  "stats_prune s cfg =
     (let known = (\<lambda>i. list_ex (\<lambda>e. ec_id e = i) (pc_egresses cfg)) in
      s\<lparr>st_egresses := (\<lambda>i. if known i then st_egresses s i else None),
        rule_hits := (\<lambda>(key, eg). if list_ex (\<lambda>r. hit_key r = key \<and> rc_egress r = eg) (pc_rules cfg) then rule_hits s (key, eg) else None),
        probes := (\<lambda>i. if known i then probes s i else None)\<rparr>)"

text \<open>\<open>rtt\<close> is the round trip of a successful probe in milliseconds.\<close>

definition record_probe :: "u64 \<Rightarrow> ProxyStats \<Rightarrow> string \<Rightarrow> nat option \<Rightarrow> ProxyStats" where
  "record_probe now s i rtt =
     (let e = (case probes s i of Some e \<Rightarrow> e | None \<Rightarrow> \<lparr>rtt_ms = None, probe_ok = False, consecutive_fails = 0, last_probe_secs = 0\<rparr>);
          e = e\<lparr>last_probe_secs := now\<rparr>;
          e = (case rtt of
            Some d \<Rightarrow> e\<lparr>rtt_ms := Some (word_of_nat (min d 4294967295)), probe_ok := True, consecutive_fails := 0\<rparr>
          | None \<Rightarrow> e\<lparr>rtt_ms := None, probe_ok := False,
              consecutive_fails := (if consecutive_fails e = - 1 then - 1 else consecutive_fails e + 1)\<rparr>) in
      s\<lparr>probes := (probes s)(i \<mapsto> e)\<rparr>)"

definition probe_unhealthy :: "ProxyStats \<Rightarrow> string \<Rightarrow> bool" where
  "probe_unhealthy s i = (case probes s i of Some e \<Rightarrow> consecutive_fails e \<ge> PROBE_FAIL_THRESHOLD | None \<Rightarrow> False)"

section \<open>The state\<close>

record ('r, 'g) ProxyState =
  registry :: "('r, 'g) Snapshot"
  breakers :: "string \<rightharpoonup> Breaker"
  listeners :: ListenerCfg
  reload_notified :: bool
  pstats :: ProxyStats
  down :: "string \<rightharpoonup> DownState"
  https_up :: bool
  away_found :: "Ipv4Addr option \<times> Ipv6Addr option"

definition state_from_config :: "'r regex_lib \<Rightarrow> Service list \<Rightarrow> 'g egress_lib \<Rightarrow> Ipv4Addr option \<Rightarrow> ProxyConfig \<Rightarrow> ('r, 'g) ProxyState rs" where
  "state_from_config L catalog G local_v4 cfg = do {
     snap \<leftarrow> build_snapshot L catalog G local_v4 cfg (pc_enabled cfg) None;
     Some \<lparr>registry = snap, breakers = Map.empty, listeners = listener_from cfg, reload_notified = False,
       pstats = \<lparr>st_egresses = Map.empty, rule_hits = Map.empty, probes = Map.empty\<rparr>, down = Map.empty, https_up = False,
       away_found = (None, None)\<rparr>
   }"

definition reload :: "'r regex_lib \<Rightarrow> Service list \<Rightarrow> 'g egress_lib \<Rightarrow> Ipv4Addr option \<Rightarrow> ProxyConfig \<Rightarrow> ('r, 'g) ProxyState \<Rightarrow> ('r, 'g) ProxyState rs" where
  "reload L catalog G local_v4 cfg st = do {
     snap \<leftarrow> build_snapshot L catalog G local_v4 cfg (pc_enabled cfg) (Some (registry st));
     let fresh = listener_from cfg;
     let changed = listener_differs fresh (listeners st);
     Some (st\<lparr>registry := snap, listeners := fresh, reload_notified := reload_notified st \<or> changed,
       pstats := stats_prune (pstats st) cfg\<rparr>)
   }"

definition rule_key_for :: "'r regex_lib \<Rightarrow> ('r, 'g) ProxyState \<Rightarrow> string \<Rightarrow> string option" where
  "rule_key_for L st name = map_option rule_pattern (find (\<lambda>r. rule_matches L r name) (sn_rules (registry st)))"

definition routes_away :: "('r, 'g) ProxyState \<Rightarrow> bool" where
  "routes_away st \<longleftrightarrow> sn_enabled (registry st) \<and> route_away (registry st)"

definition away_address :: "('r, 'g) ProxyState \<Rightarrow> Ipv4Addr option \<times> Ipv6Addr option" where
  "away_address st =
     (let snap = registry st in
      if \<not> sn_enabled snap \<or> \<not> route_away snap then (None, None)
      else (or_else (away_ipv4 snap) (fst (away_found st)), or_else (away_ipv6 snap) (snd (away_found st))))"

text \<open>\<open>v4\<close> and \<open>v6\<close> are what the A and the AAAA query gave.\<close>

definition find_away_address :: "IpAddr option \<Rightarrow> IpAddr option \<Rightarrow> ('r, 'g) ProxyState \<Rightarrow>
    (Ipv4Addr option \<times> Ipv6Addr option) \<times> ('r, 'g) ProxyState" where
  "find_away_address v4 v6 st =
     (let a = (case v4 of Some (V4 x) \<Rightarrow> if is_local (V4 x) then None else Some x | _ \<Rightarrow> None);
          b = (case v6 of Some (V6 x) \<Rightarrow> if is_local (V6 x) then None else Some x | _ \<Rightarrow> None) in
      ((a, b), st\<lparr>away_found := (a, b)\<rparr>))"

definition note_health :: "('r, 'g) ProxyState \<Rightarrow> string \<Rightarrow> bool \<Rightarrow> nat \<Rightarrow> AlertEvent option \<times> ('r, 'g) ProxyState" where
  "note_health st i healthy now =
     (if healthy then
        (case down st i of
           None \<Rightarrow> (None, st)
         | Some d \<Rightarrow> (if alerted d then Some (EvUp (now - down_since d)) else None, st\<lparr>down := (down st)(i := None)\<rparr>))
      else
        (let d = (case down st i of Some d \<Rightarrow> d | None \<Rightarrow> \<lparr>down_since = now, alerted = False\<rparr>);
             down_for = now - down_since d in
         if \<not> alerted d \<and> down_for \<ge> ALERT_GRACE
         then (Some (EvDown down_for), st\<lparr>down := (down st)(i \<mapsto> d\<lparr>alerted := True\<rparr>)\<rparr>)
         else (None, st\<lparr>down := (down st)(i \<mapsto> d)\<rparr>)))"

definition clear_health_watch :: "('r, 'g) ProxyState \<Rightarrow> ('r, 'g) ProxyState" where
  "clear_health_watch st = st\<lparr>down := Map.empty\<rparr>"

definition retain_health_watch :: "('r, 'g) ProxyState \<Rightarrow> (string \<Rightarrow> bool) \<Rightarrow> ('r, 'g) ProxyState" where
  "retain_health_watch st keep = st\<lparr>down := (\<lambda>i. if keep i then down st i else None)\<rparr>"

definition find_egress :: "'g egress_lib \<Rightarrow> ('r, 'g) ProxyState \<Rightarrow> string \<Rightarrow> 'g option" where
  "find_egress G st i = find (\<lambda>g. eg_id G g = i) (egresses (registry st))"

definition route_egress :: "'r regex_lib \<Rightarrow> 'g egress_lib \<Rightarrow> ('r, 'g) ProxyState \<Rightarrow> string \<Rightarrow> (string \<times> bool) option rs" where
  "route_egress L G st name =
     (case find (\<lambda>r. rule_matches L r name) (sn_rules (registry st)) of
        None \<Rightarrow> Some None
      | Some r \<Rightarrow> map_option (\<lambda>g. Some (eg_id G g, rule_clients r \<noteq> [])) (index (egresses (registry st)) (egress_idx r)))"

definition is_egress_healthy :: "'g egress_lib \<Rightarrow> u64 \<Rightarrow> ('r, 'g) ProxyState \<Rightarrow> string \<Rightarrow> bool" where
  "is_egress_healthy G now st i \<longleftrightarrow>
     (case breakers st i of Some b \<Rightarrow> breaker_is_healthy now b | None \<Rightarrow> True) \<and>
     (case find_egress G st i of Some g \<Rightarrow> eg_is_healthy G g | None \<Rightarrow> True) \<and> \<not> probe_unhealthy (pstats st) i"

definition breaker_of :: "('r, 'g) ProxyState \<Rightarrow> string \<Rightarrow> Breaker" where
  "breaker_of st i = (case breakers st i of Some b \<Rightarrow> b | None \<Rightarrow> breaker_default)"

definition note_success :: "('r, 'g) ProxyState \<Rightarrow> string \<Rightarrow> ('r, 'g) ProxyState" where
  "note_success st i = st\<lparr>breakers := (breakers st)(i \<mapsto> record_success (breaker_of st i))\<rparr>"

definition note_failure :: "u64 \<Rightarrow> ('r, 'g) ProxyState \<Rightarrow> string \<Rightarrow> ('r, 'g) ProxyState" where
  "note_failure now st i = st\<lparr>breakers := (breakers st)(i \<mapsto> record_failure now (breaker_of st i))\<rparr>"

text \<open>\<open>attempt\<close> is the outcome of connecting through the egress.\<close>

definition connect_via :: "'g egress_lib \<Rightarrow> u64 \<Rightarrow> ('r, 'g) ProxyState \<Rightarrow> string \<Rightarrow> ('g \<Rightarrow> UpError + Conn) \<Rightarrow> EgressConnectError + Conn" where
  "connect_via G now st i attempt =
     (if \<not> is_egress_healthy G now st i then Inl Unhealthy
      else case find_egress G st i of
        None \<Rightarrow> Inl NotConfigured
      | Some g \<Rightarrow> (case attempt g of Inl _ \<Rightarrow> Inl Failed | Inr c \<Rightarrow> Inr c))"

section \<open>The hook of the DNS pipeline\<close>

definition SYNTH_TTL :: u32 where "SYNTH_TTL = 60"

definition synth_response :: "('n, 'e, 'o) hickory \<Rightarrow> ('n, 'e, 'o) Message \<Rightarrow> u16 \<Rightarrow> Ipv4Addr option \<Rightarrow> Ipv6Addr option \<Rightarrow> DnsResponse" where
  "synth_response H query qtype v4 v6 =
     (let resp = (h_response H (msg_id query))\<lparr>authoritative := True, recursion_desired := recursion_desired query,
            recursion_available := True, response_code := NoError\<rparr>;
          resp = resp\<lparr>queries := queries resp @ queries query\<rparr>;
          resp = (case slice_get (queries query) 0 of
            None \<Rightarrow> resp
          | Some q \<Rightarrow>
              if qtype = 1 then
                (case v4 of Some ip \<Rightarrow> resp\<lparr>answers := answers resp @ [\<lparr>r_name = q_name q, r_ttl = SYNTH_TTL, r_data = RD_A ip\<rparr>]\<rparr> | None \<Rightarrow> resp)
              else if qtype = 28 then
                (case v6 of Some ip \<Rightarrow> resp\<lparr>answers := answers resp @ [\<lparr>r_name = q_name q, r_ttl = SYNTH_TTL, r_data = RD_AAAA ip\<rparr>]\<rparr> | None \<Rightarrow> resp)
              else resp) in
      \<lparr>resp_bytes = (case h_to_bytes H resp of Some bs \<Rightarrow> bs | None \<Rightarrow> []), resp_ttl = unat SYNTH_TTL\<rparr>)"

definition any_client_rules :: "('r, 'g) ProxyState \<Rightarrow> bool" where
  "any_client_rules st = list_ex (\<lambda>r. rule_clients r \<noteq> []) (sn_rules (registry st))"

definition proxy_intercept :: "('n, 'e, 'o) hickory \<Rightarrow> 'r regex_lib \<Rightarrow> 'g egress_lib \<Rightarrow> ('r, 'g) ProxyState \<Rightarrow> bytes \<Rightarrow> string \<Rightarrow> u16 \<Rightarrow>
    string \<Rightarrow> string option \<Rightarrow> string option \<Rightarrow> bool \<Rightarrow> Intercept option rs" where
  "proxy_intercept H L G st raw name qtype client_ip client_mac device away =
     (let snap = registry st in
      if \<not> sn_enabled snap then Some None
      else
        (let (v4, v6) = (if away then away_address st else (advertise_ipv4 snap, advertise_ipv6 snap)) in
         if away \<and> v4 = None \<and> v6 = None then Some None
         else case snapshot_route L snap name client_ip client_mac device of
           None \<Rightarrow> Some None
         | Some r \<Rightarrow> do {
             g \<leftarrow> index (egresses snap) (egress_idx r);
             Some (map_option (\<lambda>q. \<lparr>int_response = synth_response H q qtype v4 v6, int_egress_id = eg_id G g\<rparr>) (message H raw))
           }))"

text \<open>The hook as the pipeline takes it; \<open>Proxy_Correct\<close> shows that it does not panic.\<close>

definition proxy_hook :: "('n, 'e, 'o) hickory \<Rightarrow> 'r regex_lib \<Rightarrow> 'g egress_lib \<Rightarrow> ('r, 'g) ProxyState \<Rightarrow> Interceptor" where
  "proxy_hook H L G st = \<lparr>has_client_rules = any_client_rules st,
     maybe_intercept = (\<lambda>raw name qtype client_ip client_mac device away.
       case proxy_intercept H L G st raw name qtype client_ip client_mac device away of Some r \<Rightarrow> r | None \<Rightarrow> None)\<rparr>"

section \<open>Connections\<close>

definition PEEK_CAP :: nat where "PEEK_CAP = 16384"

text \<open>A service that shares the TLS port.\<close>

record handoff =
  ho_claims :: "string \<Rightarrow> bool"
  ho_claims_unnamed :: "IpAddr \<times> u16 \<Rightarrow> bool"
  ho_trusts :: "IpAddr \<Rightarrow> bool"

datatype Peeked =
    PeekClosed
  | PeekUnnamed bytes "(IpAddr \<times> u16) option"
  | PeekHost string bytes "(IpAddr \<times> u16) option"

definition canonical :: "IpAddr \<times> u16 \<Rightarrow> IpAddr \<times> u16" where
  "canonical a = (unmap_v4 (fst a), snd a)"

text \<open>
  The loop that peeks, over the pieces the connection delivers: the end of the pieces is a
  closed connection or the time limit. \<open>peek_host\<close> is the part of an iteration after the header.
\<close>

fun peek_loop :: "bool \<Rightarrow> bool \<Rightarrow> (IpAddr \<times> u16) option \<Rightarrow> bytes \<Rightarrow> bytes list \<Rightarrow> Peeked rs" where
  "peek_loop tls header_read peer buf [] = Some PeekClosed"
| "peek_loop tls header_read peer buf (c # cs) =
     (let buf = buf @ c;
          peek_host = (\<lambda>peer buf. do {
            r \<leftarrow> (if tls then
                map_option (\<lambda>x. case x of SniFound h \<Rightarrow> Some (PeekHost h buf peer) | SniIncomplete \<Rightarrow> None | SniNotFound \<Rightarrow> Some (PeekUnnamed buf peer))
                  (parse_sni buf)
              else
                map_option (\<lambda>x. case x of HostFound h \<Rightarrow> Some (PeekHost h buf peer) | HostIncomplete \<Rightarrow> None | HostNotFound \<Rightarrow> Some PeekClosed)
                  (parse_http_host buf));
            (case r of Some p \<Rightarrow> Some p | None \<Rightarrow> peek_loop tls True peer buf cs)
          }) in
      if length buf > PEEK_CAP then Some PeekClosed
      else if header_read then peek_host peer buf
      else do {
        h \<leftarrow> parse_header buf;
        (case h of
           HdrIncomplete \<Rightarrow> peek_loop tls False peer buf cs
         | HdrAbsent \<Rightarrow> peek_host peer buf
         | HdrPresent client len \<Rightarrow>
             (let peer = (case client of Some a \<Rightarrow> Some (canonical a) | None \<Rightarrow> peer) in
              if len > length buf then None
              else if drop len buf = [] then peek_loop tls True peer [] cs
              else peek_host peer (drop len buf))
         | HdrInvalid \<Rightarrow> Some PeekClosed)
      })"

datatype ConnEnd = CE_Closed | CE_Handoff bytes "IpAddr \<times> u16" | CE_Route string bytes "IpAddr option"

definition handle_conn :: "handoff option \<Rightarrow> bool \<Rightarrow> (IpAddr \<times> u16) option \<Rightarrow> bytes list \<Rightarrow> ConnEnd rs" where
  "handle_conn service tls peer_addr chunks = do {
     let via = map_option canonical peer_addr;
     let trusted = (case (via, service) of (Some v, Some h) \<Rightarrow> ho_trusts h (fst v) | _ \<Rightarrow> False);
     p \<leftarrow> peek_loop tls (\<not> trusted) via [] chunks;
     Some (case p of
       PeekClosed \<Rightarrow> CE_Closed
     | PeekUnnamed buf peer \<Rightarrow>
         (case (service, via, peer) of
            (Some h, Some v, Some p) \<Rightarrow> if ho_claims_unnamed h v then CE_Handoff buf p else CE_Closed
          | _ \<Rightarrow> CE_Closed)
     | PeekHost host buf peer \<Rightarrow>
         if tls \<and> (case service of Some h \<Rightarrow> ho_claims h host | None \<Rightarrow> False)
         then (case peer of Some p \<Rightarrow> CE_Handoff buf p | None \<Rightarrow> CE_Closed)
         else CE_Route host buf (map_option fst peer))
   }"

definition admitted :: "bool \<Rightarrow> string option \<Rightarrow> bool \<Rightarrow> bool" where
  "admitted away device on \<longleftrightarrow> \<not> away \<or> (device \<noteq> None \<and> on)"

definition host_blocked_for_client :: "('r, 'f, 'c) blk_env \<Rightarrow> Instant \<Rightarrow> ('r, 'f, 'c) Blocklist \<Rightarrow> string \<Rightarrow> string \<Rightarrow> string option \<Rightarrow>
    string option \<Rightarrow> bool \<times> ('r, 'f, 'c) Blocklist" where
  "host_blocked_for_client E now b host client_ip client_mac device =
     (if \<not> blocking_enabled b \<or> (case device of Some d \<Rightarrow> client_filtering_off_normalized b d None | None \<Rightarrow> False) \<or>
        client_filtering_off_normalized b client_ip client_mac
      then (False, b)
      else
        (let profile = or_else (Option.bind device (\<lambda>d. profile_for b d None)) (profile_for b client_ip client_mac) in
         should_block_for E now b host profile))"

datatype ConnectResult = Connected | TransportFailed | DestinationFailed

datatype SpliceEnd = Dropped | ViaEgress string | ViaDirect

text \<open>
  \<open>attempt\<close> is the outcome of connecting through the egress of the rule, \<open>direct_ok\<close> whether a direct
  connection succeeds. Of the counters of an egress the number of connections, of failed ones and
  of drops is kept.
\<close>

record moment =
  at_blocklist :: Instant
  at_registry :: nat
  at_secs :: u64

definition splice_decision :: "'r regex_lib \<Rightarrow> 'g egress_lib \<Rightarrow> ('r, 'g) ProxyState \<Rightarrow> string \<Rightarrow> string \<Rightarrow> string option \<Rightarrow> string option \<Rightarrow>
    ('g \<times> bool \<times> string) option rs" where
  "splice_decision L G st host client_ip client_mac device =
     (case snapshot_route L (registry st) host client_ip client_mac device of
        None \<Rightarrow> Some None
      | Some r \<Rightarrow> map_option (\<lambda>g. Some (g, fail_closed r, rule_pattern r)) (index (egresses (registry st)) (egress_idx r)))"

definition splice_egress :: "'g egress_lib \<Rightarrow> u64 \<Rightarrow> ConnectResult \<Rightarrow> bool \<Rightarrow> 'g \<Rightarrow> bool \<Rightarrow> string \<Rightarrow> ('r, 'g) ProxyState \<Rightarrow>
    SpliceEnd \<times> ('r, 'g) ProxyState" where
  "splice_egress G now attempt direct_ok g strict pat st =
     (let i = eg_id G g;
          st = st\<lparr>pstats := update_egress (\<lambda>e. e) i (record_rule_hit (pstats st) pat i)\<rparr>;
          dropped = (\<lambda>st. st\<lparr>pstats := update_egress (\<lambda>e. e\<lparr>fail_closed_drops := fail_closed_drops e + 1\<rparr>) i (pstats st)\<rparr>) in
      if strict \<and> \<not> is_egress_healthy G now st i then (Dropped, dropped st)
      else if attempt = Connected then
        (ViaEgress i, (note_success st i)\<lparr>pstats := update_egress (\<lambda>e. e\<lparr>total_conns := total_conns e + 1\<rparr>) i (pstats st)\<rparr>)
      else
        (let st = st\<lparr>pstats := update_egress (\<lambda>e. e\<lparr>connect_fails := connect_fails e + 1\<rparr>) i (pstats st)\<rparr>;
             st = (if attempt = TransportFailed then note_failure now st i else st) in
         if strict then (Dropped, dropped st)
         else (if direct_ok then ViaDirect else Dropped, st)))"

text \<open>
  Who connects: the text of the address, whether it is away from home, the device known at the
  address and the MAC, looked up only where something depends on them.
\<close>

definition connection_identity :: "Registry \<Rightarrow> nat \<Rightarrow> IpAddr option \<Rightarrow> ('r, 'g) ProxyState \<Rightarrow> ('r, 'f, 'c) Blocklist \<Rightarrow>
    string \<times> bool \<times> string option \<times> string option" where
  "connection_identity rg now client_addr st b =
     (let client_ip = (case client_addr of Some ip \<Rightarrow> ip_to_string ip | None \<Rightarrow> []);
          need_mac = (any_client_rules st \<or> (blocking_enabled b \<and> (has_client_exceptions b \<or> has_profiles b)));
          away = (case client_addr of Some ip \<Rightarrow> \<not> is_local ip | None \<Rightarrow> False);
          device = (if need_mac \<or> away then Option.bind client_addr (device_at rg now) else None);
          client_mac = (if need_mac then or_else (Option.bind device (owner_mac rg)) (Option.bind client_addr (get_mac rg)) else None) in
      (client_ip, away, device, client_mac))"

definition splice_unblocked :: "('r, 'f, 'c) blk_env \<Rightarrow> 'g egress_lib \<Rightarrow> u64 \<Rightarrow> ConnectResult \<Rightarrow> bool \<Rightarrow> string \<Rightarrow>
    string \<times> bool \<times> string option \<times> string option \<Rightarrow> ('r, 'g) ProxyState \<Rightarrow> (SpliceEnd \<times> ('r, 'g) ProxyState) rs" where
  "splice_unblocked E G now attempt direct_ok host who st =
     (case who of (client_ip, away, device, client_mac) \<Rightarrow> do {
        d \<leftarrow> splice_decision (b_rx E) G st host client_ip client_mac device;
        Some (case d of
          Some (g, strict, pat) \<Rightarrow> splice_egress G now attempt direct_ok g strict pat st
        | None \<Rightarrow> if away then (Dropped, st) else (if direct_ok then ViaDirect else Dropped, st))
      })"

definition splice_through :: "('r, 'f, 'c) blk_env \<Rightarrow> 'g egress_lib \<Rightarrow> moment \<Rightarrow> Registry \<Rightarrow> ConnectResult \<Rightarrow> bool \<Rightarrow> string \<Rightarrow> IpAddr option \<Rightarrow>
    ('r, 'g) ProxyState \<Rightarrow> ('r, 'f, 'c) Blocklist \<Rightarrow> (SpliceEnd \<times> ('r, 'g) ProxyState \<times> ('r, 'f, 'c) Blocklist) rs" where
  "splice_through E G t rg attempt direct_ok host client_addr st b =
     (case connection_identity rg (at_registry t) client_addr st b of (client_ip, away, device, client_mac) \<Rightarrow>
        if \<not> admitted away device (routes_away st) then Some (Dropped, st, b)
        else
          (case host_blocked_for_client E (at_blocklist t) b host client_ip client_mac device of (blocked, b') \<Rightarrow>
             if blocked then Some (Dropped, st, b')
             else map_option (\<lambda>(e, st'). (e, st', b'))
               (splice_unblocked E G (at_secs t) attempt direct_ok host (client_ip, away, device, client_mac) st)))"

end
