(* ===== verification/Peek_Correct.thy ===== *)
theory Peek_Correct
  imports Peek Upstream_Correct Dns_Cache_Correct
begin

unbundle bit_operations_syntax

text \<open>
  The peekers are total, read the name a ClientHello carries, and do not change their mind when
  more bytes arrive; the place of the server name is the place of the name that was read; a
  written proxy header reads back.
\<close>

section \<open>No panics\<close>

lemma find_sub_bound: "find_sub needle xs = Some i \<Longrightarrow> i + length needle \<le> length xs \<and> take (length needle) (drop i xs) = needle"
  by (induction xs arbitrary: i) (auto split: if_splits, (metis length_take length_Cons min.cobounded1)+)

lemma get_range_total: "i \<le> j \<Longrightarrow> j \<le> length xs \<Longrightarrow> get_range xs i j \<noteq> None"
  by (simp add: get_range_def)

lemma peekers_total:
  "parse_sni buf \<noteq> None \<and> sni_host_range buf \<noteq> None \<and> parse_header buf \<noteq> None \<and> parse_http_host buf \<noteq> None"
proof -
  have "v1_line buf \<noteq> None" "parse_http_host buf \<noteq> None"
    using find_sub_bound [of _ buf] by (force simp: v1_line_def parse_http_host_def Let_def get_range_def split: option.split)+
  moreover have "v2_header buf \<noteq> None"
    by (auto simp: v2_header_def Let_def index_def get_range_def)
  ultimately show ?thesis
    by (auto simp: parse_sni_def sni_host_range_def parse_header_def Let_def index_def get_range_def)
qed

text \<open>
  No peeker panics, whatever bytes a client sends.
\<close>

theorem peek_never_panics:
  "parse_sni buf \<noteq> None \<and> sni_host_range buf \<noteq> None \<and> parse_header buf \<noteq> None \<and> parse_http_host buf \<noteq> None"
  by (rule peekers_total)

section \<open>The place of the server name\<close>

text \<open>A cursor over a part of the bytes of another one.\<close>

definition within :: "nat \<Rightarrow> Reader \<Rightarrow> Reader \<Rightarrow> bool" where
  "within k r R \<longleftrightarrow> (\<exists>n. rd_b r = take n (drop k (rd_b R))) \<and> k \<le> length (rd_b R) \<and> rd_pos R = k + rd_pos r"

lemma slice_get_within:
  assumes "within k r R" and "slice_get (rd_b r) (rd_pos r + i) = Some v"
  shows "slice_get (rd_b R) (rd_pos R + i) = Some v"
  using assms by (auto simp: within_def slice_get_def add.assoc split: if_splits)

lemma within_move: "within k r R \<Longrightarrow> within k (r\<lparr>rd_pos := rd_pos r + n\<rparr>) (R\<lparr>rd_pos := rd_pos R + n\<rparr>)"
  by (simp add: within_def)

lemma rd_u8_within:
  assumes "within k r R" and "rd_u8 r = Some (v, r')"
  shows "\<exists>R'. rd_u8 R = Some (v, R') \<and> within k r' R' \<and> rd_b R' = rd_b R \<and> rd_b r' = rd_b r"
  using assms slice_get_within [OF assms(1), of 0] within_move [OF assms(1), of 1] by (auto simp: rd_u8_def bind_eq_Some_conv)

lemma rd_u16_within:
  assumes "within k r R" and "rd_u16 r = Some (v, r')"
  shows "\<exists>R'. rd_u16 R = Some (v, R') \<and> within k r' R' \<and> rd_b R' = rd_b R \<and> rd_b r' = rd_b r"
  using assms slice_get_within [OF assms(1), of 0] slice_get_within [OF assms(1), of 1] within_move [OF assms(1), of 2]
  by (auto simp: rd_u16_def bind_eq_Some_conv)

lemma rd_u24_within:
  assumes "within k r R" and "rd_u24 r = Some (v, r')"
  shows "\<exists>R'. rd_u24 R = Some (v, R') \<and> within k r' R' \<and> rd_b R' = rd_b R \<and> rd_b r' = rd_b r"
  using assms slice_get_within [OF assms(1), of 0] slice_get_within [OF assms(1), of 1] slice_get_within [OF assms(1), of 2]
    within_move [OF assms(1), of 3]
  by (auto simp: rd_u24_def bind_eq_Some_conv)

lemma rd_skip_within:
  assumes "within k r R" and "rd_skip r n = Some r'"
  shows "\<exists>R'. rd_skip R n = Some R' \<and> within k r' R' \<and> rd_b R' = rd_b R \<and> rd_b r' = rd_b r"
proof -
  have "rd_pos r + n \<le> length (rd_b r)" using assms(2) by (auto simp: rd_skip_def split: if_splits)
  moreover have "length (rd_b r) \<le> length (rd_b R) - k" using assms(1) by (auto simp: within_def)
  moreover have "rd_pos R = k + rd_pos r" "k \<le> length (rd_b R)" using assms(1) by (simp_all add: within_def)
  ultimately show ?thesis
    using assms(2) within_move [OF assms(1), of n] by (auto simp: rd_skip_def split: if_splits)
qed

text \<open>A slice of the part is a part of its own, and can be skipped in the whole.\<close>

lemma rd_slice_within:
  assumes "within k r R" and "rd_slice r n = Some (s, r')"
  shows "within (rd_pos R) (reader s) R \<and> length s = n \<and> s = take n (drop (rd_pos R) (rd_b R)) \<and> rd_b r' = rd_b r \<and>
    (\<exists>R'. rd_skip R n = Some R' \<and> within k r' R' \<and> rd_b R' = rd_b R)"
proof -
  obtain m where m: "rd_b r = take m (drop k (rd_b R))" "k \<le> length (rd_b R)" "rd_pos R = k + rd_pos r"
    using assms(1) by (auto simp: within_def)
  have s: "rd_pos r + n \<le> length (rd_b r)" "s = take n (drop (rd_pos r) (rd_b r))" "r' = r\<lparr>rd_pos := rd_pos r + n\<rparr>"
    using assms(2) by (auto simp: rd_slice_def bind_eq_Some_conv get_range_Some)
  have eq: "s = take n (drop (rd_pos R) (rd_b R))"
  proof -
    have "rd_pos r + n \<le> m" using s(1) m(1) by simp
    then have "min n (m - rd_pos r) = n" by (simp add: min_def)
    then show ?thesis using s(2) m by (simp add: drop_take add.commute)
  qed
  moreover have "rd_pos R + n \<le> length (rd_b R)"
  proof -
    have "rd_pos r + n \<le> length (rd_b R) - k" using s(1) m(1) by simp
    then show ?thesis using m(2,3) by linarith
  qed
  moreover have "rd_skip r n = Some r'" using s by (simp add: rd_skip_def)
  then obtain R' where "rd_skip R n = Some R'" "within k r' R'" "rd_b R' = rd_b R" using rd_skip_within [OF assms(1)] by blast
  moreover have "within (rd_pos R) (reader s) R" using eq calculation(2) by (auto simp: within_def reader_def)
  ultimately show ?thesis using s(3) by auto
qed

lemma server_name_within:
  assumes "within k r R" and "server_name_loop r = Some h" and "fin = k + length (rd_b r)"
  shows "\<exists>s l. host_range_loop R fin = Some (s, l) \<and> 0 < l \<and> s + l \<le> fin \<and> h = host_text (take l (drop s (rd_b R)))"
  using assms
proof (induction r arbitrary: R rule: server_name_loop.induct)
  case (1 r)
  obtain ty r1 where r1: "rd_u8 r = Some (ty, r1)" and room: "\<not> remaining r < 3"
    using "1.prems"(2) by (auto simp: server_name_loop.simps [of r] split: if_splits option.splits)
  then obtain len r2 where r2: "rd_u16 r1 = Some (len, r2)"
    using "1.prems"(2) by (auto simp: server_name_loop.simps [of r] split: if_splits option.splits)
  then obtain name r3 where r3: "rd_slice r2 (unat len) = Some (name, r3)"
    using "1.prems"(2) r1 by (auto simp: server_name_loop.simps [of r] split: if_splits option.splits)
  have step: "(if ty = SNI_HOST_NAME then if \<not> utf8_valid name then None else if name = [] then None else Some (host_text name)
      else server_name_loop r3) = Some h"
    using "1.prems"(2) room r1 r2 r3 by (simp add: server_name_loop.simps [of r])
  obtain R1 where R1: "rd_u8 R = Some (ty, R1)" "within k r1 R1" "rd_b R1 = rd_b R" "rd_b r1 = rd_b r"
    using rd_u8_within [OF "1.prems"(1) r1] by blast
  obtain R2 where R2: "rd_u16 R1 = Some (len, R2)" "within k r2 R2" "rd_b R2 = rd_b R" "rd_b r2 = rd_b r"
    using rd_u16_within [OF R1(2) r2] R1 by auto
  note slice = rd_slice_within [OF R2(2) r3]
  then obtain R3 where R3: "rd_skip R2 (unat len) = Some R3" "within k r3 R3" "rd_b R3 = rd_b R" "rd_b r3 = rd_b r"
    using R2 by auto
  have pos: "rd_pos R = k + rd_pos r" using "1.prems"(1) by (simp add: within_def)
  have here: "rd_pos R + 3 \<le> fin" using room pos "1.prems"(3) by (simp add: remaining_def)
  have fits: "rd_pos R2 + unat len \<le> fin"
    using r3 R2(2,4) "1.prems"(3) by (auto simp: rd_slice_def bind_eq_Some_conv get_range_Some within_def)
  have moved: "R2\<lparr>rd_pos := rd_pos R2 + unat len\<rparr> = R3" using R3(1) by (auto simp: rd_skip_def split: if_splits)
  show ?case
  proof (cases "ty = SNI_HOST_NAME")
    case True
    then have "name \<noteq> []" "h = host_text name" using step by (auto split: if_splits)
    then show ?thesis
      using True R1(1) R2(1,3) here fits slice by (auto simp: host_range_loop.simps [of R])
  next
    case False
    have more: "server_name_loop r3 = Some h" using step False by simp
    have "\<exists>s l. host_range_loop R3 fin = Some (s, l) \<and> 0 < l \<and> s + l \<le> fin \<and> h = host_text (take l (drop s (rd_b R3)))"
      using False R3 "1.prems"(3) by (intro "1.IH" [OF room r1 _ r2 _ r3 _ False _ more]) auto
    then show ?thesis using False R1(1) R2(1) R3(3) here fits moved by (simp add: host_range_loop.simps [of R])
  qed
qed

lemma extension_within:
  assumes "within k r R" and "extension_loop r = Some (Some h)" and "ext_end = k + length (rd_b r)"
  shows "\<exists>s l. extension_range_loop R ext_end = Some (s, l) \<and> 0 < l \<and> s + l \<le> length (rd_b R) \<and> h = host_text (take l (drop s (rd_b R)))"
  using assms
proof (induction r arbitrary: R rule: extension_loop.induct)
  case (1 r)
  obtain ty r1 where r1: "rd_u16 r = Some (ty, r1)" and room: "\<not> remaining r < 4"
    using "1.prems"(2) by (auto simp: extension_loop.simps [of r] split: if_splits option.splits)
  then obtain len r2 where r2: "rd_u16 r1 = Some (len, r2)"
    using "1.prems"(2) by (auto simp: extension_loop.simps [of r] split: if_splits option.splits)
  then obtain data r3 where r3: "rd_slice r2 (unat len) = Some (data, r3)"
    using "1.prems"(2) r1 by (auto simp: extension_loop.simps [of r] split: if_splits option.splits)
  have step: "(if ty = EXT_SERVER_NAME then Some (parse_server_name data) else extension_loop r3) = Some (Some h)"
    using "1.prems"(2) room r1 r2 r3 by (simp add: extension_loop.simps [of r])
  obtain R1 where R1: "rd_u16 R = Some (ty, R1)" "within k r1 R1" "rd_b R1 = rd_b R" "rd_b r1 = rd_b r"
    using rd_u16_within [OF "1.prems"(1) r1] by blast
  obtain R2 where R2: "rd_u16 R1 = Some (len, R2)" "within k r2 R2" "rd_b R2 = rd_b R" "rd_b r2 = rd_b r"
    using rd_u16_within [OF R1(2) r2] R1 by auto
  note slice = rd_slice_within [OF R2(2) r3]
  then obtain R3 where R3: "rd_skip R2 (unat len) = Some R3" "within k r3 R3" "rd_b R3 = rd_b R" "rd_b r3 = rd_b r"
    using R2 by auto
  have here: "rd_pos R + 4 \<le> ext_end" using room "1.prems"(1,3) by (simp add: within_def remaining_def)
  show ?case
  proof (cases "ty = EXT_SERVER_NAME")
    case True
    then have "parse_server_name data = Some h" using step by simp
    then obtain v d where d: "rd_u16 (reader data) = Some (v, d)" "server_name_loop d = Some h"
      by (auto simp: parse_server_name_def split: option.splits)
    obtain D where D: "rd_u16 R2 = Some (v, D)" "within (rd_pos R2) d D" "rd_b D = rd_b R" "rd_b d = data"
      using rd_u16_within [OF _ d(1)] slice R2(3) by (fastforce simp: reader_def)
    have len: "length data = unat len" "rd_pos R2 + unat len \<le> length (rd_b R)"
      using slice R3(1) R2(3) by (auto simp: rd_skip_def split: if_splits)
    have R2_eq: "\<lparr>rd_b = rd_b R, rd_pos = rd_pos R2\<rparr> = R2" using R2(3) by simp
    obtain s l where "host_range_loop D (rd_pos R2 + unat len) = Some (s, l)" "0 < l" "s + l \<le> rd_pos R2 + unat len"
      "h = host_text (take l (drop s (rd_b R)))"
      using server_name_within [OF D(2) d(2), of "rd_pos R2 + unat len"] D(3,4) len(1) by auto
    then show ?thesis
      using True R1(1) R2(1) R3(1) D(1) R2_eq here len by (auto simp: extension_range_loop.simps [of R] host_name_range_def min_def)
  next
    case False
    have more: "extension_loop r3 = Some (Some h)" using step False by simp
    have "\<exists>s l. extension_range_loop R3 ext_end = Some (s, l) \<and> 0 < l \<and> s + l \<le> length (rd_b R3) \<and> h = host_text (take l (drop s (rd_b R3)))"
      using False R3 "1.prems"(3) by (intro "1.IH" [OF room r1 _ r2 _ r3 _ False _ more]) auto
    then show ?thesis using False R1(1) R2(1) R3 here by (simp add: extension_range_loop.simps [of R])
  qed
qed

lemma skip_hello_within:
  assumes "within k r R" and "skip_hello r = Some (n, r')"
  shows "\<exists>R'. skip_hello R = Some (n, R') \<and> within k r' R' \<and> rd_b R' = rd_b R \<and> rd_b r' = rd_b r"
proof -
  obtain r1 r2 a r3 r4 b r5 r6 c r7 r8 d where r:
    "rd_skip r 2 = Some r1" "rd_skip r1 32 = Some r2" "rd_u8 r2 = Some (a, r3)" "rd_skip r3 (unat a) = Some r4"
    "rd_u16 r4 = Some (b, r5)" "rd_skip r5 (unat b) = Some r6" "rd_u8 r6 = Some (c, r7)" "rd_skip r7 (unat c) = Some r8"
    "rd_u16 r8 = Some (d, r')" "n = unat d"
    using assms(2) by (auto simp: skip_hello_def bind_eq_Some_conv)
  obtain R1 where R1: "rd_skip R 2 = Some R1" "within k r1 R1" "rd_b R1 = rd_b R" "rd_b r1 = rd_b r"
    using rd_skip_within [OF assms(1) r(1)] by blast
  obtain R2 where R2: "rd_skip R1 32 = Some R2" "within k r2 R2" "rd_b R2 = rd_b R" "rd_b r2 = rd_b r"
    using rd_skip_within [OF R1(2) r(2)] R1 by auto
  obtain R3 where R3: "rd_u8 R2 = Some (a, R3)" "within k r3 R3" "rd_b R3 = rd_b R" "rd_b r3 = rd_b r"
    using rd_u8_within [OF R2(2) r(3)] R2 by auto
  obtain R4 where R4: "rd_skip R3 (unat a) = Some R4" "within k r4 R4" "rd_b R4 = rd_b R" "rd_b r4 = rd_b r"
    using rd_skip_within [OF R3(2) r(4)] R3 by auto
  obtain R5 where R5: "rd_u16 R4 = Some (b, R5)" "within k r5 R5" "rd_b R5 = rd_b R" "rd_b r5 = rd_b r"
    using rd_u16_within [OF R4(2) r(5)] R4 by auto
  obtain R6 where R6: "rd_skip R5 (unat b) = Some R6" "within k r6 R6" "rd_b R6 = rd_b R" "rd_b r6 = rd_b r"
    using rd_skip_within [OF R5(2) r(6)] R5 by auto
  obtain R7 where R7: "rd_u8 R6 = Some (c, R7)" "within k r7 R7" "rd_b R7 = rd_b R" "rd_b r7 = rd_b r"
    using rd_u8_within [OF R6(2) r(7)] R6 by auto
  obtain R8 where R8: "rd_skip R7 (unat c) = Some R8" "within k r8 R8" "rd_b R8 = rd_b R" "rd_b r8 = rd_b r"
    using rd_skip_within [OF R7(2) r(8)] R7 by auto
  obtain R9 where "rd_u16 R8 = Some (d, R9)" "within k r' R9" "rd_b R9 = rd_b R" "rd_b r' = rd_b r"
    using rd_u16_within [OF R8(2) r(9)] R8 by auto
  then show ?thesis using R1 R2 R3 R4 R5 R6 R7 R8 r(10) by (simp add: skip_hello_def)
qed

text \<open>
  C34. When a ClientHello gives a server name, the place computed for splitting it is the
  place of exactly that name: non-empty, inside the bytes received, and the same name in
  its spelling on the wire.
\<close>

theorem sni_range_agrees:
  assumes "parse_sni buf = Some (SniFound h)"
  shows "\<exists>s l. sni_host_range buf = Some (Some (s, l)) \<and> 0 < l \<and> s + l \<le> length buf \<and> h = host_text (take l (drop s buf))"
proof -
  define e where "e = 5 + unat (be16 (buf ! 3) (buf ! 4))"
  have b: "5 \<le> length buf" "buf ! 0 = TLS_HANDSHAKE" "e \<le> length buf"
    and hello: "parse_client_hello (take (e - 5) (drop 5 buf)) = Some (Some h)"
    using assms by (auto simp: parse_sni_def Let_def index_def get_range_def e_def split: if_splits option.splits)
  define R where "R = \<lparr>rd_b = take e buf, rd_pos = 5\<rparr>"
  have "5 \<le> e" by (simp add: e_def)
  have start: "within 5 (reader (take (e - 5) (drop 5 buf))) R"
    using b \<open>5 \<le> e\<close> by (auto simp: within_def reader_def R_def drop_take intro!: exI [of _ e])
  obtain r1 u r2 n r3 block r4 where r: "rd_u8 (reader (take (e - 5) (drop 5 buf))) = Some (CLIENT_HELLO, r1)"
    "rd_u24 r1 = Some (u, r2)" "skip_hello r2 = Some (n, r3)" "rd_slice r3 n = Some (block, r4)" "extension_loop (reader block) = Some (Some h)"
    using hello by (auto simp: parse_client_hello_def bind_eq_Some_conv split: if_splits)
  obtain R1 where R1: "rd_u8 R = Some (CLIENT_HELLO, R1)" "within 5 r1 R1" "rd_b R1 = take e buf"
    using rd_u8_within [OF start r(1)] by (auto simp: R_def)
  obtain R2 where R2: "rd_u24 R1 = Some (u, R2)" "within 5 r2 R2" "rd_b R2 = take e buf"
    using rd_u24_within [OF R1(2) r(2)] R1(3) by auto
  obtain R3 where R3: "skip_hello R2 = Some (n, R3)" "within 5 r3 R3" "rd_b R3 = take e buf"
    using skip_hello_within [OF R2(2) r(3)] R2(3) by auto
  note slice = rd_slice_within [OF R3(2) r(4)]
  have block: "within (rd_pos R3) (reader block) R3" "length block = n" using slice by blast+
  have fits: "rd_pos R3 + n \<le> e" using slice R3(3) b(3) by (auto simp: rd_skip_def split: if_splits)
  obtain s l where "extension_range_loop R3 (rd_pos R3 + n) = Some (s, l)" "0 < l" "s + l \<le> e" "h = host_text (take l (drop s (take e buf)))"
    using extension_within [OF block(1) r(5), of "rd_pos R3 + n"] block(2) R3(3) b(3) by (auto simp: reader_def)
  moreover have "rd_skip (reader (take e buf)) 5 = Some R" using b \<open>5 \<le> e\<close> by (simp add: rd_skip_def reader_def R_def)
  ultimately show ?thesis
    using b R1(1) R2(1) R3(1) fits
    by (auto simp: sni_host_range_def Let_def index_def get_range_def e_def [symmetric] min_def drop_take)
qed

section \<open>The name a ClientHello carries\<close>

text \<open>
  The wire form of an extension, of a ClientHello and of its record: type, version and
  length of the record, then type and 24-bit length of the handshake message, then its body.
\<close>

definition ext_wire :: "u16 \<times> bytes \<Rightarrow> bytes" where
  "ext_wire e = u16_bytes (fst e) @ u16_bytes (word_of_nat (length (snd e))) @ snd e"

definition exts_wire :: "(u16 \<times> bytes) list \<Rightarrow> bytes" where
  "exts_wire es = concat (map ext_wire es)"

definition hello_wire :: "bytes \<Rightarrow> bytes \<Rightarrow> bytes \<Rightarrow> bytes \<Rightarrow> (u16 \<times> bytes) list \<Rightarrow> bytes" where
  "hello_wire lead session ciphers compression es =
     lead @ [word_of_nat (length session)] @ session @ u16_bytes (word_of_nat (length ciphers)) @ ciphers @
     [word_of_nat (length compression)] @ compression @ u16_bytes (word_of_nat (length (exts_wire es))) @ exts_wire es"

definition u24_bytes :: "u32 \<Rightarrow> bytes" where
  "u24_bytes n = [ucast (drop_bit 16 n), ucast (drop_bit 8 n), ucast n]"

definition tls_record :: "u16 \<Rightarrow> bytes \<Rightarrow> bytes" where
  "tls_record version hello =
     [0x16] @ u16_bytes version @ u16_bytes (word_of_nat (length hello + 4)) @ [0x01] @ u24_bytes (word_of_nat (length hello)) @ hello"

definition server_name_wire :: "bytes \<Rightarrow> bytes" where
  "server_name_wire host =
     u16_bytes (word_of_nat (length host + 3)) @ [0] @ u16_bytes (word_of_nat (length host)) @ host"

definition at :: "Reader \<Rightarrow> bytes \<Rightarrow> bool" where
  "at r s \<longleftrightarrow> rd_pos r \<le> length (rd_b r) \<and> drop (rd_pos r) (rd_b r) = s"

lemma at_reader: "at (reader b) b"
  by (simp add: at_def reader_def)

lemma at_nth: "at r s \<Longrightarrow> i < length s \<Longrightarrow> slice_get (rd_b r) (rd_pos r + i) = Some (s ! i)"
  by (auto simp: at_def slice_get_def)

lemma at_moved: "at r (p @ s) \<Longrightarrow> at (r\<lparr>rd_pos := rd_pos r + length p\<rparr>) s"
proof -
  assume a: "at r (p @ s)"
  then have "length (drop (rd_pos r) (rd_b r)) = length p + length s" by (simp add: at_def)
  moreover have "rd_pos r \<le> length (rd_b r)" using a by (simp add: at_def)
  ultimately have "rd_pos r + length p \<le> length (rd_b r)" by simp
  moreover have "drop (length p) (drop (rd_pos r) (rd_b r)) = s" using a by (simp add: at_def)
  ultimately show ?thesis by (simp add: at_def add.commute)
qed

lemma rd_u8_at: "at r (v # s) \<Longrightarrow> \<exists>r'. rd_u8 r = Some (v, r') \<and> at r' s"
  using at_nth [of r "v # s" 0] at_moved [of r "[v]" s] by (simp add: rd_u8_def)

lemma rd_u16_at: "at r (u16_bytes v @ s) \<Longrightarrow> \<exists>r'. rd_u16 r = Some (v, r') \<and> at r' s"
proof -
  assume a: "at r (u16_bytes v @ s)"
  obtain x y where v: "u16_bytes v = [x, y]" "be16 x y = v" by (rule u16_bytesE)
  show ?thesis
    using at_nth [OF a, of 0] at_nth [OF a, of 1] at_moved [OF a] by (simp add: rd_u16_def v)
qed

lemma rd_u24_at: "at r (x # y # z # s) \<Longrightarrow> \<exists>n r'. rd_u24 r = Some (n, r') \<and> at r' s"
  using at_nth [of r "x # y # z # s" 0] at_nth [of r "x # y # z # s" 1] at_nth [of r "x # y # z # s" 2]
    at_moved [of r "[x, y, z]" s] by (simp add: rd_u24_def numeral_3_eq_3)

lemma at_room: "at r s \<Longrightarrow> remaining r = length s \<and> length (rd_b r) = rd_pos r + length s"
  by (auto simp: at_def remaining_def)

lemma rd_skip_at: "at r (p @ s) \<Longrightarrow> length p = n \<Longrightarrow> \<exists>r'. rd_skip r n = Some r' \<and> at r' s"
  using at_room [of r "p @ s"] at_moved [of r p s] by (simp add: rd_skip_def)

lemma rd_slice_at: "at r (p @ s) \<Longrightarrow> length p = n \<Longrightarrow> \<exists>r'. rd_slice r n = Some (p, r') \<and> at r' s"
proof -
  assume a: "at r (p @ s)" and n: "length p = n"
  have "take n (drop (rd_pos r) (rd_b r)) = p" using a n by (simp add: at_def)
  then show ?thesis using at_room [OF a] at_moved [OF a] n by (simp add: rd_slice_def get_range_def)
qed

lemma unat16: "n < 65536 \<Longrightarrow> unat (word_of_nat n :: u16) = n"
  by (simp add: unat_of_nat)

lemma unat_length: "length xs < 65536 \<Longrightarrow> unat (word_of_nat (length xs) :: u16) = length xs"
  by (simp add: unat_of_nat)

lemma unat_length8: "length xs < 256 \<Longrightarrow> unat (word_of_nat (length xs) :: u8) = length xs"
  by (simp add: unat_of_nat)

lemma extension_loop_at:
  assumes "at r (exts_wire pre @ ext_wire (EXT_SERVER_NAME, d) @ s)" and "length d < 65536"
    and "list_all (\<lambda>e. fst e \<noteq> EXT_SERVER_NAME \<and> length (snd e) < 65536) pre"
  shows "extension_loop r = Some (parse_server_name d)"
  using assms
proof (induction pre arbitrary: r)
  case Nil
  then have a: "at r (u16_bytes EXT_SERVER_NAME @ u16_bytes (word_of_nat (length d)) @ d @ s)" by (simp add: exts_wire_def ext_wire_def)
  obtain r1 where r1: "rd_u16 r = Some (EXT_SERVER_NAME, r1)" "at r1 (u16_bytes (word_of_nat (length d)) @ d @ s)"
    using rd_u16_at [OF a] by blast
  obtain r2 where r2: "rd_u16 r1 = Some (word_of_nat (length d), r2)" "at r2 (d @ s)" using rd_u16_at [OF r1(2)] by blast
  obtain r3 where "rd_slice r2 (length d) = Some (d, r3)" using rd_slice_at [OF r2(2) refl] by blast
  then show ?case using at_room [OF a] r1 r2 Nil(2) by (simp add: extension_loop.simps [of r] unat_length)
next
  case (Cons e pre)
  let ?rest = "exts_wire pre @ ext_wire (EXT_SERVER_NAME, d) @ s"
  have a: "at r (u16_bytes (fst e) @ u16_bytes (word_of_nat (length (snd e))) @ snd e @ ?rest)"
    using Cons.prems(1) by (simp add: exts_wire_def ext_wire_def)
  have e: "fst e \<noteq> EXT_SERVER_NAME" "length (snd e) < 65536" using Cons.prems(3) by auto
  obtain r1 where r1: "rd_u16 r = Some (fst e, r1)" "at r1 (u16_bytes (word_of_nat (length (snd e))) @ snd e @ ?rest)"
    using rd_u16_at [OF a] by blast
  obtain r2 where r2: "rd_u16 r1 = Some (word_of_nat (length (snd e)), r2)" "at r2 (snd e @ ?rest)" using rd_u16_at [OF r1(2)] by blast
  obtain r3 where r3: "rd_slice r2 (length (snd e)) = Some (snd e, r3)" "at r3 ?rest" using rd_slice_at [OF r2(2) refl] by blast
  have "extension_loop r3 = Some (parse_server_name d)" using Cons.prems r3(2) by (intro Cons.IH) auto
  then show ?case using at_room [OF a] r1 r2 r3 e by (simp add: extension_loop.simps [of r] unat_length)
qed

lemma parse_server_name_wire:
  assumes "host \<noteq> []" and "utf8_valid host" and "length host < 65536"
  shows "parse_server_name (server_name_wire host) = Some (host_text host)"
proof -
  have a: "at (reader (server_name_wire host)) (u16_bytes (word_of_nat (length host + 3)) @ 0 # u16_bytes (word_of_nat (length host)) @ host @ [])"
    using at_reader [of "server_name_wire host"] by (simp add: server_name_wire_def)
  obtain r1 where r1: "rd_u16 (reader (server_name_wire host)) = Some (word_of_nat (length host + 3), r1)"
    "at r1 (0 # u16_bytes (word_of_nat (length host)) @ host @ [])" using rd_u16_at [OF a] by blast
  obtain r2 where r2: "rd_u8 r1 = Some (0, r2)" "at r2 (u16_bytes (word_of_nat (length host)) @ host @ [])" using rd_u8_at [OF r1(2)] by blast
  obtain r3 where r3: "rd_u16 r2 = Some (word_of_nat (length host), r3)" "at r3 (host @ [])" using rd_u16_at [OF r2(2)] by blast
  obtain r4 where "rd_slice r3 (length host) = Some (host, r4)" using rd_slice_at [OF r3(2) refl] by blast
  then show ?thesis
    using r1 r2 r3 at_room [OF r1(2)] assms
    by (simp add: parse_server_name_def server_name_loop.simps [of r1] SNI_HOST_NAME_def unat_length)
qed

lemma skip_hello_at:
  assumes "at r (hello_wire lead session ciphers compression es)" and "length lead = 34" and "length session < 256"
    and "length ciphers < 65536" and "length compression < 256" and "length (exts_wire es) < 65536"
  shows "\<exists>r'. skip_hello r = Some (length (exts_wire es), r') \<and> at r' (exts_wire es)"
proof -
  define s4 where "s4 = u16_bytes (word_of_nat (length (exts_wire es))) @ exts_wire es"
  define s3 where "s3 = word_of_nat (length compression) # compression @ s4"
  define s2 where "s2 = u16_bytes (word_of_nat (length ciphers)) @ ciphers @ s3"
  define s1 where "s1 = word_of_nat (length session) # session @ s2"
  have a: "at r (take 2 lead @ drop 2 lead @ s1)"
    using assms(1) by (simp add: hello_wire_def s1_def s2_def s3_def s4_def flip: append_assoc)
  have l: "length (take 2 lead) = 2" "length (drop 2 lead) = 32" using assms(2) by auto
  obtain r1 where r1: "rd_skip r 2 = Some r1" "at r1 (drop 2 lead @ s1)" using rd_skip_at [OF a l(1)] by blast
  obtain r2 where r2: "rd_skip r1 32 = Some r2" "at r2 (word_of_nat (length session) # session @ s2)"
    using rd_skip_at [OF r1(2) l(2)] by (auto simp: s1_def)
  obtain r3 where r3: "rd_u8 r2 = Some (word_of_nat (length session), r3)" "at r3 (session @ s2)" using rd_u8_at [OF r2(2)] by blast
  obtain r4 where r4: "rd_skip r3 (length session) = Some r4" "at r4 (u16_bytes (word_of_nat (length ciphers)) @ ciphers @ s3)"
    using rd_skip_at [OF r3(2) refl] by (auto simp: s2_def)
  obtain r5 where r5: "rd_u16 r4 = Some (word_of_nat (length ciphers), r5)" "at r5 (ciphers @ s3)" using rd_u16_at [OF r4(2)] by blast
  obtain r6 where r6: "rd_skip r5 (length ciphers) = Some r6" "at r6 (word_of_nat (length compression) # compression @ s4)"
    using rd_skip_at [OF r5(2) refl] by (auto simp: s3_def)
  obtain r7 where r7: "rd_u8 r6 = Some (word_of_nat (length compression), r7)" "at r7 (compression @ s4)" using rd_u8_at [OF r6(2)] by blast
  obtain r8 where r8: "rd_skip r7 (length compression) = Some r8" "at r8 (u16_bytes (word_of_nat (length (exts_wire es))) @ exts_wire es)"
    using rd_skip_at [OF r7(2) refl] by (auto simp: s4_def)
  obtain r9 where "rd_u16 r8 = Some (word_of_nat (length (exts_wire es)), r9)" "at r9 (exts_wire es)" using rd_u16_at [OF r8(2)] by blast
  then show ?thesis
    using r1(1) r2(1) r3(1) r4(1) r5(1) r6(1) r7(1) r8(1) assms
    by (simp add: skip_hello_def unat_length unat_length8)
qed

lemma client_hello_name:
  assumes "length lead = 34" and "length session < 256" and "length compression < 256"
    and "list_all (\<lambda>e. fst e \<noteq> EXT_SERVER_NAME \<and> length (snd e) < 65536) pre" and "host \<noteq> []" and "utf8_valid host"
    and "hello = hello_wire lead session ciphers compression (pre @ (EXT_SERVER_NAME, server_name_wire host) # post)"
    and "length hello + 4 < 65536"
  shows "parse_sni (tls_record version hello @ rest) = Some (SniFound (host_text host))"
proof -
  let ?es = "pre @ (EXT_SERVER_NAME, server_name_wire host) # post"
  have exts: "exts_wire ?es = exts_wire pre @ ext_wire (EXT_SERVER_NAME, server_name_wire host) @ exts_wire post" by (simp add: exts_wire_def)
  have small: "length (exts_wire ?es) < 65536" "length ciphers < 65536" using assms(7,8) by (auto simp: hello_wire_def)
  then have host: "length (server_name_wire host) < 65536" "length host < 65536" using exts by (auto simp: ext_wire_def server_name_wire_def)
  obtain a b c where abc: "u24_bytes (word_of_nat (length hello)) = [a, b, c]" by (simp add: u24_bytes_def)
  obtain v w where vw: "u16_bytes version = [v, w]" by (rule u16_bytesE)
  obtain r1 where r1: "rd_u8 (reader (0x01 # a # b # c # hello)) = Some (0x01, r1)" "at r1 (a # b # c # hello)"
    using rd_u8_at [OF at_reader] by blast
  obtain n r2 where r2: "rd_u24 r1 = Some (n, r2)" "at r2 hello" using rd_u24_at [OF r1(2)] by blast
  obtain r3 where r3: "skip_hello r2 = Some (length (exts_wire ?es), r3)" "at r3 (exts_wire ?es)"
    using skip_hello_at [of r2 lead session ciphers compression ?es] r2(2) assms(1-3,7) small by blast
  obtain r4 where r4: "rd_slice r3 (length (exts_wire ?es)) = Some (exts_wire ?es, r4)" using rd_slice_at [of r3 _ "[]"] r3(2) by fastforce
  have "extension_loop (reader (exts_wire ?es)) = Some (Some (host_text host))"
    using extension_loop_at [of "reader (exts_wire ?es)" pre "server_name_wire host" "exts_wire post"] at_reader exts host assms(4-6)
    by (simp add: parse_server_name_wire)
  then have parsed: "parse_client_hello (0x01 # a # b # c # hello) = Some (Some (host_text host))"
    using r1 r2 r3 r4 by (simp add: parse_client_hello_def CLIENT_HELLO_def)
  obtain x y where xy: "u16_bytes (word_of_nat (length hello + 4)) = [x, y]" "be16 x y = word_of_nat (length hello + 4)" by (rule u16_bytesE)
  then have "unat (be16 x y) = length hello + 4" using unat16 [OF assms(8)] by simp
  moreover have "tls_record version hello @ rest = 0x16 # v # w # x # y # 0x01 # a # b # c # hello @ rest"
    unfolding tls_record_def xy(1) vw abc by simp
  moreover have "take (4 + length hello) (0x01 # a # b # c # hello @ rest) = 0x01 # a # b # c # hello" by (simp add: eval_nat_numeral)
  ultimately show ?thesis using parsed by (simp add: parse_sni_def index_def get_range_def TLS_HANDSHAKE_def Let_def)
qed

text \<open>
  C25. From a record, of any version, that holds a ClientHello with a server name, whatever
  its other fields and extensions and whatever follows the record, the name is read, in
  lower case and without its final dots. Every length field of the record, the handshake
  message and the ClientHello gives the length of what follows it.
\<close>

theorem sni_of_client_hello:
  assumes "length lead = 34" and "length session < 256" and "length compression < 256"
    and "list_all (\<lambda>e. fst e \<noteq> EXT_SERVER_NAME \<and> length (snd e) < 65536) pre" and "host \<noteq> []" and "utf8_valid host"
    and "hello = hello_wire lead session ciphers compression (pre @ (EXT_SERVER_NAME, server_name_wire host) # post)"
    and "length hello + 4 < 65536"
  shows "parse_sni (tls_record version hello @ rest) = Some (SniFound (host_text host))"
  using assms by (rule client_hello_name)

text \<open>A ClientHello with one extension before the name \<open>Ab.\<close>, and bytes after the record.\<close>

definition sample_hello :: bytes where
  "sample_hello = hello_wire (replicate 34 0) [] [0, 47] [0] [(10, [1]), (EXT_SERVER_NAME, server_name_wire [65, 98, 46])]"

theorem sni_of_client_hello_witness:
  "parse_sni (tls_record 0x0301 sample_hello @ [1, 2]) = Some (SniFound ''ab'')"
proof -
  have "utf8_valid [65, 98, 46]" "host_text [65, 98, 46] = ''ab''" by code_simp+
  moreover have "length sample_hello + 4 < 65536"
    by (simp add: sample_hello_def hello_wire_def exts_wire_def ext_wire_def server_name_wire_def)
  ultimately show ?thesis
    using sni_of_client_hello [of "replicate 34 0" "[]" "[0]" "[(10, [1])]" "[65, 98, 46]" sample_hello "[0, 47]" "[]" "0x0301" "[1, 2]"]
    by (simp add: EXT_SERVER_NAME_def sample_hello_def)
qed

lemma sample_hello_found: "parse_sni (tls_record 0x0301 sample_hello @ []) = Some (SniFound ''ab'')"
proof -
  have "utf8_valid [65, 98, 46]" "host_text [65, 98, 46] = ''ab''" by code_simp+
  moreover have "length sample_hello + 4 < 65536"
    by (simp add: sample_hello_def hello_wire_def exts_wire_def ext_wire_def server_name_wire_def)
  ultimately show ?thesis
    using client_hello_name [of "replicate 34 0" "[]" "[0]" "[(10, [1])]" "[65, 98, 46]" sample_hello "[0, 47]" "[]" "0x0301" "[]"]
    by (simp add: EXT_SERVER_NAME_def sample_hello_def)
qed

theorem sni_range_agrees_witness:
  "\<exists>s l. sni_host_range (tls_record 0x0301 sample_hello) = Some (Some (s, l)) \<and> ''ab'' = host_text (take l (drop s (tls_record 0x0301 sample_hello)))"
  using sni_range_agrees [OF sample_hello_found] by auto

text \<open>
  The place of a server name is also reported where no server name can be read: for a
  name that is not UTF-8, while the place is documented to be absent for anything that would
  not parse to a host.
\<close>

theorem range_without_name:
  "let buf = tls_record 0x0301 (hello_wire (replicate 34 0) [] [0, 47] [0] [(EXT_SERVER_NAME, server_name_wire [0xFF])]) in
   parse_sni buf = Some SniNotFound \<and> sni_host_range buf = Some (Some (61, 1))"
  by code_simp

section \<open>More bytes\<close>

lemma find_sub_append: "find_sub needle xs = Some i \<Longrightarrow> find_sub needle (xs @ ys) = Some i"
proof (induction xs arbitrary: i)
  case (Cons x xs)
  show ?case
  proof (cases "take (length needle) (x # xs) = needle")
    case True
    then have "length needle \<le> length (x # xs)" by (metis length_take min.cobounded1)
    then have "take (length needle) ((x # xs) @ ys) = needle" using True unfolding take_append by simp
    then show ?thesis using True Cons.prems by simp
  next
    case False
    then obtain j where j: "find_sub needle xs = Some j" "i = Suc j" using Cons.prems by auto
    then have "length needle \<le> length xs" using find_sub_bound by fastforce
    then have "take (length needle) ((x # xs) @ ys) \<noteq> needle" using False by (cases "length needle") auto
    then show ?thesis using False j Cons.IH by auto
  qed
qed simp

lemma get_range_suffix: "get_range xs i j = Some zs \<Longrightarrow> get_range (xs @ ys) i j = Some zs"
  by (auto simp: get_range_def split: if_splits)

lemma index_append: "index xs i = Some x \<Longrightarrow> index (xs @ ys) i = Some x"
  by (auto simp: index_def nth_append split: if_splits)

lemma parse_sni_append:
  assumes "parse_sni buf = Some r" and "r \<noteq> SniIncomplete"
  shows "parse_sni (buf @ ext) = Some r"
  using assms
  by (auto simp: parse_sni_def Let_def bind_eq_Some_conv index_def get_range_def nth_append split: if_splits)

lemma v2_append:
  assumes "v2_header buf = Some r" and "r \<noteq> HdrIncomplete"
  shows "v2_header (buf @ ext) = Some r"
proof -
  have len: "16 \<le> length buf" using assms by (auto simp: v2_header_def split: if_splits)
  define n where "n = 16 + unat (be16 (buf ! 14) (buf ! 15))"
  have body: "get_range (buf @ ext) 16 n = get_range buf 16 n" if "n \<le> length buf" using that by (simp add: get_range_def)
  show ?thesis
    using assms len body n_def
    by (auto simp: v2_header_def Let_def index_def nth_append split: if_splits)
qed

lemma find_sub_NoneD: "find_sub needle xs = None \<Longrightarrow> i < length xs \<Longrightarrow> take (length needle) (drop i xs) \<noteq> needle"
proof (induction xs arbitrary: i)
  case (Cons x xs)
  then show ?case by (cases i) (auto split: if_splits)
qed simp

lemma v1_append:
  assumes "v1_line buf = Some r" and "r \<noteq> HdrIncomplete"
  shows "v1_line (buf @ ext) = Some r"
proof (cases "find_sub [0x0D, 0x0A] buf")
  case (Some e)
  have "e + 2 \<le> length buf" using find_sub_bound [OF Some] by simp
  then have "get_range (buf @ ext) 0 e = get_range buf 0 e" by (simp add: get_range_def)
  then have "v1_line (buf @ ext) = v1_line buf" by (simp add: v1_line_def Some find_sub_append [OF Some, of ext])
  then show ?thesis using assms(1) by simp
next
  case None
  then have r: "V1_MAX \<le> length buf" "r = HdrInvalid" using assms by (auto simp: v1_line_def split: if_splits)
  show ?thesis
  proof (cases "find_sub [0x0D, 0x0A] (buf @ ext)")
    case (Some e)
    have "length buf < e + 2"
    proof (rule ccontr)
      assume "\<not> length buf < e + 2"
      then have "take 2 (drop e buf) = take 2 (drop e (buf @ ext))" by simp
      moreover have "length [0x0D, 0x0A :: u8] = 2" by simp
      ultimately have "take 2 (drop e buf) = [0x0D, 0x0A]" using find_sub_bound [OF Some] by metis
      then show False using find_sub_NoneD [OF None, of e] \<open>\<not> length buf < e + 2\<close> by (simp add: numeral_2_eq_2)
    qed
    then show ?thesis using Some r by (simp add: v1_line_def)
  qed (use r in \<open>simp add: v1_line_def\<close>)
qed

lemma parse_header_append:
  assumes "parse_header buf = Some r" and "r \<noteq> HdrIncomplete"
  shows "parse_header (buf @ ext) = Some r"
proof -
  have started: "\<not> (length buf < length sg \<and> take (length buf) sg = buf)" if "sg \<in> {V1_SIG, V2_SIG}" for sg
    using assms that by (auto simp: parse_header_def Let_def split: if_splits)
  have ne: "buf \<noteq> []" using assms by (auto simp: parse_header_def split: if_splits)
  have same: "take (length sg) (buf @ ext) = sg \<longleftrightarrow> take (length sg) buf = sg" if "sg \<in> {V1_SIG, V2_SIG}" for sg
  proof (cases "length buf < length sg")
    case True
    then have "take (length buf) sg \<noteq> buf" using started [OF that] by simp
    moreover have "take (length buf) (take (length sg) (buf @ ext)) = buf" using True by simp
    ultimately have "take (length sg) (buf @ ext) \<noteq> sg" by metis
    moreover have "take (length sg) buf \<noteq> sg" using True by (metis length_take min.absorb1 less_imp_le min.commute nat_neq_iff)
    ultimately show ?thesis by simp
  qed simp
  have later: "\<not> (length (buf @ ext) < length sg \<and> take (length (buf @ ext)) sg = buf @ ext)" if "sg \<in> {V1_SIG, V2_SIG}" for sg
  proof
    assume a: "length (buf @ ext) < length sg \<and> take (length (buf @ ext)) sg = buf @ ext"
    then have "take (length buf) (take (length (buf @ ext)) sg) = buf" by simp
    then have "take (length buf) sg = buf" by (simp add: min_def)
    then show False using started [OF that] a by simp
  qed
  have eq: "parse_header b = (if take (length V1_SIG) b = V1_SIG then v1_line b else if take (length V2_SIG) b = V2_SIG then v2_header b else Some HdrAbsent)"
    if "b \<noteq> []" "\<And>sg. sg \<in> {V1_SIG, V2_SIG} \<Longrightarrow> \<not> (length b < length sg \<and> take (length b) sg = b)" for b
  proof -
    have "\<not> (length b < length V1_SIG \<and> take (length b) V1_SIG = b)" "\<not> (length b < length V2_SIG \<and> take (length b) V2_SIG = b)"
      using that(2) [of V1_SIG] that(2) [of V2_SIG] by simp_all
    then show ?thesis using that(1) by (simp only: parse_header_def Let_def simp_thms if_False)
  qed
  show ?thesis
    using assms(1) eq [OF ne started] eq [of "buf @ ext", OF _ later] ne same v1_append [OF _ assms(2)] v2_append [OF _ assms(2)]
    by (auto split: if_splits)
qed

text \<open>
  What a peeking loop needs of a reader: it returns on every bytes, and a verdict stands when
  more bytes arrive, so that it does not matter after which piece the reader is asked.
\<close>

locale stable_reader =
  fixes read_prefix :: "bytes \<Rightarrow> 'v rs" and pending :: 'v
  assumes total: "read_prefix buf \<noteq> None"
    and stands: "read_prefix buf = Some v \<Longrightarrow> v \<noteq> pending \<Longrightarrow> read_prefix (buf @ ext) = Some v"
begin

lemma prefixes_agree:
  assumes "read_prefix (take i buf) = Some v" and "read_prefix (take j buf) = Some w" and "v \<noteq> pending" and "w \<noteq> pending"
  shows "v = w"
proof -
  have "read_prefix buf = Some v" using stands [OF assms(1,3), of "drop i buf"] by simp
  moreover have "read_prefix buf = Some w" using stands [OF assms(2,4), of "drop j buf"] by simp
  ultimately show ?thesis by simp
qed

lemma pending_before: "read_prefix (buf @ ext) = Some pending \<Longrightarrow> read_prefix buf = Some pending"
  using total [of buf] stands [of buf] by fastforce

end

interpretation sni_reader: stable_reader parse_sni SniIncomplete
  by unfold_locales (use peekers_total parse_sni_append in blast)+

interpretation header_reader: stable_reader parse_header HdrIncomplete
  by unfold_locales (use peekers_total parse_header_append in blast)+

text \<open>
  What a peeker has decided stands when more bytes arrive: a server name found or ruled
  out, a proxy header read, absent or invalid, and an HTTP host found do not depend on how
  the connection's bytes were split.
\<close>

theorem peek_stable:
  "(parse_sni buf = Some r \<and> r \<noteq> SniIncomplete \<longrightarrow> parse_sni (buf @ ext) = Some r) \<and>
   (parse_header buf = Some h \<and> h \<noteq> HdrIncomplete \<longrightarrow> parse_header (buf @ ext) = Some h) \<and>
   (parse_http_host buf = Some (HostFound host) \<longrightarrow> parse_http_host (buf @ ext) = Some (HostFound host))"
proof (intro conjI impI)
  assume found: "parse_http_host buf = Some (HostFound host)"
  then obtain e where e: "find_sub [0x0D, 0x0A, 0x0D, 0x0A] buf = Some e" by (auto simp: parse_http_host_def split: option.splits if_splits)
  have "e \<le> length buf" using find_sub_bound [OF e] by simp
  then have "get_range (buf @ ext) 0 e = get_range buf 0 e" by (simp add: get_range_def)
  then have "parse_http_host (buf @ ext) = parse_http_host buf" by (simp add: parse_http_host_def e find_sub_append [OF e, of ext])
  then show "parse_http_host (buf @ ext) = Some (HostFound host)" using found by simp
qed (use sni_reader.stands header_reader.stands in blast)+

theorem peek_stable_witness:
  "parse_header [1] = Some HdrAbsent \<and> parse_header ([1] @ [2, 3]) = Some HdrAbsent"
proof -
  have "parse_header [1] = Some HdrAbsent" by (simp add: parse_header_def V1_SIG_def V2_SIG_def)
  then show ?thesis using peek_stable [of "[1]" SniIncomplete "[2, 3]" HdrAbsent "[]"] by simp
qed

section \<open>Written headers\<close>

definition text_bytes :: "string \<Rightarrow> bytes" where
  "text_bytes s = map (\<lambda>c. word_of_nat (of_char c)) s"

definition line_char :: "char \<Rightarrow> bool" where
  "line_char c \<longleftrightarrow> of_char c < (128 :: nat) \<and> of_char c \<noteq> (13 :: nat)"

lemma unat_char_byte: "unat (word_of_nat (of_char c) :: u8) = of_char c"
proof -
  have "of_char c < (256 :: nat)" by (metis of_char_mod_256 mod_less_divisor zero_less_numeral)
  then show ?thesis by (simp add: unat_of_nat)
qed

lemma byte_char_text [simp]: "map byte_char (text_bytes s) = s"
  by (simp add: text_bytes_def byte_char_def unat_char_byte comp_def)

lemma utf8_valid_line: "list_all line_char s \<Longrightarrow> utf8_valid (text_bytes s)"
proof (induction s)
  case (Cons c s)
  have "(word_of_nat (of_char c) :: u8) < 0x80" using Cons.prems by (simp add: word_less_nat_alt unat_char_byte line_char_def)
  then have "utf8_step (text_bytes (c # s)) = (1, True)"
    by (simp add: utf8_step_def utf8_char_width_def text_bytes_def safe_get_def Let_def)
  then show ?case using Cons by (subst utf8_valid.simps) (simp add: text_bytes_def)
qed (simp add: text_bytes_def)

lemma find_crlf_line: "list_all line_char s \<Longrightarrow> find_sub [0x0D, 0x0A] (text_bytes s @ 0x0D # 0x0A # rest) = Some (length s)"
proof (induction s)
  case (Cons c s)
  have "unat (word_of_nat (of_char c) :: u8) \<noteq> 13" using Cons.prems by (simp add: unat_char_byte line_char_def)
  then have "(word_of_nat (of_char c) :: u8) \<noteq> 0x0D" by (auto dest: arg_cong [of _ _ unat])
  then show ?case using Cons by (simp add: text_bytes_def)
qed (simp add: text_bytes_def)

lemma decimal_char: "radix_digit 10 c \<noteq> None \<Longrightarrow> line_char c \<and> c \<noteq> CHR '' '' \<and> c \<noteq> CHR ''+'' \<and> digit c = radix_digit 10 c"
  by (auto simp: radix_digit_def hex_digits_def line_char_def digit_def split: if_splits option.splits)

lemma digits_radix: "list_all (\<lambda>c. radix_digit 10 c \<noteq> None) ds \<Longrightarrow> digits acc ds = radix_value 10 acc ds"
  using decimal_char by (induction ds arbitrary: acc) (auto split: option.splits)

lemma parse_dec_text: "n \<le> m \<Longrightarrow> parse_unsigned m (dec_text n) = Some n"
proof -
  assume "n \<le> m"
  moreover have "(case dec_text n of c # cs \<Rightarrow> if c = CHR ''+'' then cs else dec_text n | [] \<Rightarrow> []) = dec_text n"
    using dec_text_number [of n] decimal_char by (cases "dec_text n") auto
  ultimately show ?thesis using dec_text_number [of n] digits_radix [of "dec_text n" 0] by (simp add: parse_unsigned_def)
qed

lemma decimal_line: "list_all (\<lambda>c. radix_digit 10 c \<noteq> None) ds \<Longrightarrow> list_all line_char ds \<and> CHR '' '' \<notin> set ds"
  using decimal_char by (induction ds) auto

lemma dec_text_line: "list_all line_char (dec_text n) \<and> CHR '' '' \<notin> set (dec_text n)"
  using dec_text_number [of n] by (intro decimal_line) simp

lemma octet_text_line: "list_all line_char (octet_text b) \<and> CHR '' '' \<notin> set (octet_text b)"
  using octet_text_digits [of b] by (rule decimal_line)

lemma ipv4_text_line: "list_all line_char (ipv4_text a) \<and> CHR '' '' \<notin> set (ipv4_text a) \<and> length (ipv4_text a) \<le> 15"
proof -
  obtain w x y z where b: "u32_bytes a = [w, x, y, z]" by (rule u32_bytesE)
  have "line_char (CHR ''.'')" by code_simp
  then show ?thesis
    using octet_text_line [of w] octet_text_line [of x] octet_text_line [of y] octet_text_line [of z]
      octet_text_length(2) [of w] octet_text_length(2) [of x] octet_text_length(2) [of y] octet_text_length(2) [of z]
    by (simp add: ipv4_text_def b)
qed

lemma parse_header_v1: "take (length V1_SIG) b = V1_SIG \<Longrightarrow> parse_header b = v1_line b"
proof -
  assume a: "take (length V1_SIG) b = V1_SIG"
  then obtain c where "b = V1_SIG @ c" by (metis append_take_drop_id)
  then show ?thesis by (simp add: parse_header_def V1_SIG_def V2_SIG_def)
qed

lemma port_text_length: "length (dec_text (unat (p :: u16))) \<le> 5"
  using dec_rev_length [of "unat p" 4] unat_u16_less [of p] by simp

text \<open>
  The header written for a connection between IPv4 endpoints, mapped into IPv6 or not,
  is read back: it names the client's address and port, and its length is the length
  written, whatever bytes follow.
\<close>

theorem header_reads_back:
  assumes "unmap_v4 (fst origin) = V4 a" and "unmap_v4 (fst dest) = V4 b"
  shows "parse_header (text_bytes (v1_header origin dest) @ rest) =
    Some (HdrPresent (Some (V4 a, snd origin)) (length (v1_header origin dest)))"
proof -
  let ?p = "dec_text (unat (snd origin))" and ?q = "dec_text (unat (snd dest))"
  define line where "line = ''PROXY'' @ '' '' @ ''TCP4'' @ '' '' @ ipv4_text a @ '' '' @ ipv4_text b @ '' '' @ ?p @ '' '' @ ?q"
  have written: "v1_header origin dest = line @ [CHR 0x0D, CHR 0x0A]"
    using assms by (simp add: v1_header_def ip_to_string_def line_def)
  have chars: "list_all line_char ''PROXY TCP4''" by code_simp
  have ok: "list_all line_char line"
    using chars ipv4_text_line [of a] ipv4_text_line [of b] dec_text_line [of "unat (snd origin)"] dec_text_line [of "unat (snd dest)"]
    by (simp add: line_def)
  have parts: "split_on (CHR '' '') line = [''PROXY'', ''TCP4'', ipv4_text a, ipv4_text b, ?p, ?q]"
    using ipv4_text_line [of a] ipv4_text_line [of b] dec_text_line [of "unat (snd origin)"] dec_text_line [of "unat (snd dest)"]
    by (simp add: line_def split_on_append split_on_none)
  have len: "length line + 2 \<le> V1_MAX"
    using ipv4_text_line [of a] ipv4_text_line [of b] port_text_length [of "snd origin"] port_text_length [of "snd dest"]
    by (simp add: line_def V1_MAX_def)
  have ends: "text_bytes [CHR 0x0D, CHR 0x0A] = [0x0D, 0x0A]" by (simp add: text_bytes_def)
  define buf where "buf = text_bytes line @ 0x0D # 0x0A # rest"
  have buf: "text_bytes (v1_header origin dest) @ rest = buf" using ends by (simp add: buf_def written text_bytes_def)
  have "unat (snd origin) \<le> 65535" using unat_u16_less [of "snd origin"] by simp
  then have src: "v1_from (ipv4_text a) ?p n = HdrPresent (Some (V4 a, snd origin)) n" for n
    using read_ipv4_text [of "[]" a] by (simp add: v1_from_def ip_from_str_def parse_dec_text)
  have "get_range buf 0 (length line) = Some (text_bytes line)" by (simp add: get_range_def buf_def text_bytes_def)
  moreover have "find_sub [0x0D, 0x0A] buf = Some (length line)" using find_crlf_line [OF ok] by (simp add: buf_def)
  ultimately have "v1_line buf = Some (HdrPresent (Some (V4 a, snd origin)) (length line + 2))"
    using len parts src utf8_valid_line [OF ok] by (simp add: v1_line_def)
  moreover have "take (length V1_SIG) buf = V1_SIG"
    by (simp add: buf_def line_def text_bytes_def V1_SIG_def)
  then have "parse_header (text_bytes (v1_header origin dest) @ rest) = v1_line buf" unfolding buf by (rule parse_header_v1)
  ultimately show ?thesis by (simp add: written)
qed

theorem header_reads_back_witness:
  "parse_header (text_bytes (v1_header (V4 5, 40000) (V6 (v6_mapped 1), 443)) @ [0x16]) =
    Some (HdrPresent (Some (V4 5, 40000)) (length (v1_header (V4 5, 40000) (V6 (v6_mapped 1), 443))))"
proof -
  have "unmap_v4 (V6 (v6_mapped 1)) = V4 1" by (simp add: unmap_v4_def to_ipv4_mapped_def v6_mapped_def)
  then show ?thesis using header_reads_back [of "(V4 5, 40000)" 5 "(V6 (v6_mapped 1), 443)" 1 "[0x16]"] by (simp add: unmap_v4_def)
qed

end
