(* ===== verification/Listener.thy ===== *)
theory Listener
  imports Proxy Peek_Correct
begin

text \<open>
  What a listener passes on, and what the health watch reports: the bytes peeked from a
  connection are replayed as they came, the client is the peer or the one a trusted reverse
  proxy names, and every outage is reported once.
\<close>

section \<open>Peeked bytes\<close>

lemma v1_line_len: "v1_line buf = Some (HdrPresent client n) \<Longrightarrow> n \<le> length buf \<and> 0 < n"
  by (auto simp: v1_line_def Let_def bind_eq_Some_conv v1_from_def dest: find_sub_bound split: option.splits if_splits list.splits)

lemma v2_header_len: "v2_header buf = Some (HdrPresent client n) \<Longrightarrow> n \<le> length buf \<and> 0 < n"
  by (auto simp: v2_header_def Let_def bind_eq_Some_conv split: if_splits)

lemma parse_header_len: "parse_header buf = Some (HdrPresent client n) \<Longrightarrow> n \<le> length buf \<and> 0 < n"
  using v1_line_len v2_header_len by (auto simp: parse_header_def Let_def split: if_splits)

definition peeked_bytes :: "Peeked \<Rightarrow> bytes" where
  "peeked_bytes p = (case p of PeekClosed \<Rightarrow> [] | PeekUnnamed buf _ \<Rightarrow> buf | PeekHost _ buf _ \<Rightarrow> buf)"

definition peeked_peer :: "Peeked \<Rightarrow> (IpAddr \<times> u16) option" where
  "peeked_peer p = (case p of PeekClosed \<Rightarrow> None | PeekUnnamed _ a \<Rightarrow> a | PeekHost _ _ a \<Rightarrow> a)"

text \<open>The verdict of the reader of the protocol on the bytes themselves.\<close>

definition peeked_right :: "bool \<Rightarrow> Peeked \<Rightarrow> bool" where
  "peeked_right tls p =
     (case p of
        PeekClosed \<Rightarrow> True
      | PeekUnnamed buf _ \<Rightarrow> tls \<and> parse_sni buf = Some SniNotFound
      | PeekHost h buf _ \<Rightarrow> if tls then parse_sni buf = Some (SniFound h) else parse_http_host buf = Some (HostFound h))"

text \<open>What came before the bytes passed on: nothing, or one header that may name the client.\<close>

definition header_before :: "bytes \<Rightarrow> bytes \<Rightarrow> (IpAddr \<times> u16) option \<Rightarrow> (IpAddr \<times> u16) option \<Rightarrow> bool" where
  "header_before hdr buf peer peer' \<longleftrightarrow>
     (hdr = [] \<and> peer' = peer) \<or>
     (\<exists>client. parse_header (hdr @ buf) = Some (HdrPresent client (length hdr)) \<and>
        peer' = (case client of Some a \<Rightarrow> Some (canonical a) | None \<Rightarrow> peer))"

text \<open>One round of the loop once the header has been dealt with, and the round as a whole.\<close>

definition peek_round :: "bool \<Rightarrow> (IpAddr \<times> u16) option \<Rightarrow> bytes \<Rightarrow> bytes list \<Rightarrow> Peeked rs" where
  "peek_round tls peer buf cs = do {
     r \<leftarrow> (if tls then
         map_option (\<lambda>x. case x of SniFound h \<Rightarrow> Some (PeekHost h buf peer) | SniIncomplete \<Rightarrow> None | SniNotFound \<Rightarrow> Some (PeekUnnamed buf peer))
           (parse_sni buf)
       else
         map_option (\<lambda>x. case x of HostFound h \<Rightarrow> Some (PeekHost h buf peer) | HostIncomplete \<Rightarrow> None | HostNotFound \<Rightarrow> Some PeekClosed)
           (parse_http_host buf));
     (case r of Some p \<Rightarrow> Some p | None \<Rightarrow> peek_loop tls True peer buf cs)
   }"

lemma peek_loop_Cons:
  "peek_loop tls header_read peer buf (c # cs) =
     (if length (buf @ c) > PEEK_CAP then Some PeekClosed
      else if header_read then peek_round tls peer (buf @ c) cs
      else case parse_header (buf @ c) of
        None \<Rightarrow> None
      | Some HdrIncomplete \<Rightarrow> peek_loop tls False peer (buf @ c) cs
      | Some HdrAbsent \<Rightarrow> peek_round tls peer (buf @ c) cs
      | Some (HdrPresent client len) \<Rightarrow>
          (let peer = (case client of Some a \<Rightarrow> Some (canonical a) | None \<Rightarrow> peer) in
           if len > length (buf @ c) then None
           else if drop len (buf @ c) = [] then peek_loop tls True peer [] cs
           else peek_round tls peer (drop len (buf @ c)) cs)
      | Some HdrInvalid \<Rightarrow> Some PeekClosed)"
  by (simp add: peek_round_def Let_def split: option.split Header.split)

lemma peek_round_read:
  assumes loop: "\<And>p. peek_loop tls True peer buf cs = Some p \<Longrightarrow> p \<noteq> PeekClosed \<Longrightarrow>
      \<exists>n. buf @ concat (take n cs) = peeked_bytes p \<and> peeked_peer p = peer \<and> peeked_right tls p \<and> length (peeked_bytes p) \<le> PEEK_CAP"
    and run: "peek_round tls peer buf cs = Some p" "p \<noteq> PeekClosed" "length buf \<le> PEEK_CAP"
  shows "\<exists>n. buf @ concat (take n cs) = peeked_bytes p \<and> peeked_peer p = peer \<and> peeked_right tls p \<and> length (peeked_bytes p) \<le> PEEK_CAP"
proof -
  note defs = peek_round_def peeked_bytes_def peeked_peer_def peeked_right_def
  have "peek_loop tls True peer buf cs = Some p \<or> (peeked_bytes p = buf \<and> peeked_peer p = peer \<and> peeked_right tls p)"
  proof (cases tls)
    case True
    then obtain r where "parse_sni buf = Some r" using run by (auto simp: peek_round_def bind_eq_Some_conv)
    then show ?thesis using True run by (cases r) (auto simp: defs)
  next
    case False
    then obtain r where "parse_http_host buf = Some r" using run by (auto simp: peek_round_def bind_eq_Some_conv)
    then show ?thesis using False run by (cases r) (auto simp: defs)
  qed
  then show ?thesis using loop run(2,3) by (metis append_Nil2 concat.simps(1) take0)
qed

lemma peek_loop_read:
  "peek_loop tls True peer buf cs = Some p \<Longrightarrow> p \<noteq> PeekClosed \<Longrightarrow>
     \<exists>n. buf @ concat (take n cs) = peeked_bytes p \<and> peeked_peer p = peer \<and> peeked_right tls p \<and> length (peeked_bytes p) \<le> PEEK_CAP"
proof (induction cs arbitrary: buf p)
  case (Cons c cs)
  have cap: "length (buf @ c) \<le> PEEK_CAP" and round: "peek_round tls peer (buf @ c) cs = Some p"
    using Cons.prems by (auto simp: peek_loop_Cons simp del: peek_loop.simps split: if_splits)
  obtain n where "(buf @ c) @ concat (take n cs) = peeked_bytes p" "peeked_peer p = peer" "peeked_right tls p" "length (peeked_bytes p) \<le> PEEK_CAP"
    using peek_round_read [OF Cons.IH round Cons.prems(2) cap] by blast
  then show ?case by (intro exI [of _ "Suc n"]) simp
qed simp

lemma peek_round_bytes:
  "peek_round tls peer buf cs = Some p \<Longrightarrow> p \<noteq> PeekClosed \<Longrightarrow> length buf \<le> PEEK_CAP \<Longrightarrow>
     \<exists>n. buf @ concat (take n cs) = peeked_bytes p \<and> peeked_peer p = peer \<and> peeked_right tls p \<and> length (peeked_bytes p) \<le> PEEK_CAP"
  using peek_round_read [OF peek_loop_read] .

lemma peek_loop_replay:
  assumes "peek_loop tls header_read peer buf cs = Some p" and "p \<noteq> PeekClosed"
  shows "\<exists>n hdr. buf @ concat (take n cs) = hdr @ peeked_bytes p \<and> (header_read \<longrightarrow> hdr = []) \<and>
    header_before hdr (peeked_bytes p) peer (peeked_peer p) \<and> peeked_right tls p \<and> length (peeked_bytes p) \<le> PEEK_CAP"
  using assms
proof (induction cs arbitrary: buf header_read)
  case (Cons c cs)
  let ?b = "buf @ c"
  have cap: "length ?b \<le> PEEK_CAP" using Cons.prems by (auto simp: peek_loop_Cons simp del: peek_loop.simps split: if_splits)
  consider (round) "peek_round tls peer ?b cs = Some p"
    | (more) "\<not> header_read" "peek_loop tls False peer ?b cs = Some p"
    | (hdr) client len where "\<not> header_read" "parse_header ?b = Some (HdrPresent client len)" "len \<le> length ?b"
        "(if drop len ?b = [] then peek_loop tls True (case client of Some a \<Rightarrow> Some (canonical a) | None \<Rightarrow> peer) [] cs
          else peek_round tls (case client of Some a \<Rightarrow> Some (canonical a) | None \<Rightarrow> peer) (drop len ?b) cs) = Some p"
    using Cons.prems by (auto simp: peek_loop_Cons Let_def simp del: peek_loop.simps split: if_splits option.splits Header.splits)
  then show ?case
  proof cases
    case round
    obtain n where "?b @ concat (take n cs) = peeked_bytes p" "peeked_peer p = peer" "peeked_right tls p" "length (peeked_bytes p) \<le> PEEK_CAP"
      using peek_round_bytes [OF round Cons.prems(2) cap] by blast
    then show ?thesis by (intro exI [of _ "Suc n"] exI [of _ "[]"]) (simp add: header_before_def)
  next
    case more
    then obtain n hdr where "?b @ concat (take n cs) = hdr @ peeked_bytes p" "header_before hdr (peeked_bytes p) peer (peeked_peer p)"
      "peeked_right tls p" "length (peeked_bytes p) \<le> PEEK_CAP"
      using Cons.IH [of False ?b] Cons.prems(2) by blast
    then show ?thesis using more(1) by (intro exI [of _ "Suc n"] exI [of _ hdr]) simp
  next
    case (hdr client len)
    let ?peer = "case client of Some a \<Rightarrow> Some (canonical a) | None \<Rightarrow> peer"
    obtain n where n: "drop len ?b @ concat (take n cs) = peeked_bytes p" "peeked_peer p = ?peer" "peeked_right tls p" "length (peeked_bytes p) \<le> PEEK_CAP"
    proof (cases "drop len ?b = []")
      case True
      then show thesis using hdr(4) that peek_loop_read [of tls ?peer "[]" cs p] Cons.prems(2) by auto
    next
      case False
      moreover have "length (drop len ?b) \<le> PEEK_CAP" using cap by (metis diff_le_self le_trans length_drop)
      ultimately show thesis using hdr(4) that peek_round_bytes [of tls ?peer "drop len ?b" cs p] Cons.prems(2) by presburger
    qed
    have all: "take len ?b @ peeked_bytes p = ?b @ concat (take n cs)" by (metis n(1) append.assoc append_take_drop_id)
    have "parse_header (take len ?b @ peeked_bytes p) = Some (HdrPresent client len)"
      unfolding all by (rule header_reader.stands [OF hdr(2)]) simp
    then have "header_before (take len ?b) (peeked_bytes p) peer (peeked_peer p)"
      using hdr(3) n(2) unfolding header_before_def by (intro disjI2 exI [of _ client]) simp
    then show ?thesis using hdr(1) n all by (intro exI [of _ "Suc n"] exI [of _ "take len ?b"]) simp
  qed
qed simp

lemma peek_loop_total: "peek_loop tls header_read peer buf cs \<noteq> None"
proof (induction cs arbitrary: header_read peer buf)
  case (Cons c cs)
  have round: "peek_round tls a xs cs \<noteq> None" for a xs
  proof -
    obtain r s where "parse_sni xs = Some r" "parse_http_host xs = Some s" using peekers_total by blast
    then show ?thesis using Cons.IH [of True a xs] by (cases r; cases s; cases tls) (simp_all add: peek_round_def)
  qed
  obtain h where "parse_header (buf @ c) = Some h" using peekers_total by blast
  then show ?case using Cons.IH round
    by (cases h) (auto simp: peek_loop_Cons Let_def simp del: peek_loop.simps not_None_eq dest: parse_header_len)
qed simp

text \<open>The bytes passed on for a client: what the connection sent, after at most one header of a trusted peer.\<close>

definition replayed :: "handoff option \<Rightarrow> (IpAddr \<times> u16) option \<Rightarrow> bytes list \<Rightarrow> bytes \<Rightarrow> (IpAddr \<times> u16) option \<Rightarrow> bool" where
  "replayed service peer chunks buf client \<longleftrightarrow> length buf \<le> PEEK_CAP \<and>
     (\<exists>n hdr. concat (take n chunks) = hdr @ buf \<and> header_before hdr buf (map_option canonical peer) client \<and>
        (hdr = [] \<or> (\<exists>h a. service = Some h \<and> peer = Some a \<and> ho_trusts h (unmap_v4 (fst a)))))"

text \<open>
  C20. A listener never panics. What it passes on, to the service that shares its port or to
  the routing, is exactly what the connection sent, up to one PROXY header, which is accepted
  from a trusted peer only; the host is the one in the bytes passed on, which stay under the
  cap; and the client is the peer, or the one named in that header.
\<close>

theorem listener_replays:
  "\<exists>r. handle_conn service tls peer chunks = Some r \<and>
    (case r of
       CE_Closed \<Rightarrow> True
     | CE_Route host buf ip \<Rightarrow> (\<exists>client. replayed service peer chunks buf client \<and> ip = map_option fst client) \<and>
         (if tls then parse_sni buf = Some (SniFound host) else parse_http_host buf = Some (HostFound host))
     | CE_Handoff buf client \<Rightarrow> tls \<and> replayed service peer chunks buf (Some client))"
proof -
  define trusted where "trusted = (case (map_option canonical peer, service) of (Some v, Some h) \<Rightarrow> ho_trusts h (fst v) | _ \<Rightarrow> False)"
  have trusts: "trusted \<Longrightarrow> \<exists>h a. service = Some h \<and> peer = Some a \<and> ho_trusts h (unmap_v4 (fst a))"
    by (auto simp: trusted_def canonical_def split: option.splits)
  obtain p where p: "peek_loop tls (\<not> trusted) (map_option canonical peer) [] chunks = Some p" using peek_loop_total by blast
  then have h: "handle_conn service tls peer chunks = Some (case p of
       PeekClosed \<Rightarrow> CE_Closed
     | PeekUnnamed buf peer' \<Rightarrow>
         (case (service, map_option canonical peer, peer') of
            (Some h, Some v, Some p) \<Rightarrow> if ho_claims_unnamed h v then CE_Handoff buf p else CE_Closed
          | _ \<Rightarrow> CE_Closed)
     | PeekHost host buf peer' \<Rightarrow>
         if tls \<and> (case service of Some h \<Rightarrow> ho_claims h host | None \<Rightarrow> False)
         then (case peer' of Some p \<Rightarrow> CE_Handoff buf p | None \<Rightarrow> CE_Closed)
         else CE_Route host buf (map_option fst peer'))"
    by (simp add: handle_conn_def trusted_def)
  show ?thesis
  proof (cases p)
    case PeekClosed
    then show ?thesis using h by simp
  next
    case (PeekUnnamed buf peer')
    have "replayed service peer chunks buf peer'" "tls"
      using peek_loop_replay [OF p] trusts unfolding replayed_def
      by (auto simp: PeekUnnamed peeked_bytes_def peeked_peer_def peeked_right_def) blast
    then show ?thesis using h by (auto simp: PeekUnnamed split: option.splits)
  next
    case (PeekHost host buf peer')
    have "replayed service peer chunks buf peer'"
      "if tls then parse_sni buf = Some (SniFound host) else parse_http_host buf = Some (HostFound host)"
      using peek_loop_replay [OF p] trusts unfolding replayed_def
      by (auto simp: PeekHost peeked_bytes_def peeked_peer_def peeked_right_def) blast
    then show ?thesis using h by (auto simp: PeekHost split: option.splits if_splits)
  qed
qed

section \<open>Outages\<close>

text \<open>
  The reports of a run of health samples \<open>(egress, healthy, time)\<close>, those of one egress, and
  the shape of a correct report: an outage first, only after the grace period, then its end.
\<close>

fun health_run :: "('r, 'g) ProxyState \<Rightarrow> (string \<times> bool \<times> nat) list \<Rightarrow> (string \<times> AlertEvent) list" where
  "health_run st [] = []"
| "health_run st ((i, healthy, now) # ss) =
     (case note_health st i healthy now of (ev, st') \<Rightarrow>
        (case ev of Some e \<Rightarrow> [(i, e)] | None \<Rightarrow> []) @ health_run st' ss)"

definition events_of :: "string \<Rightarrow> (string \<times> AlertEvent) list \<Rightarrow> AlertEvent list" where
  "events_of i es = map snd (filter (\<lambda>e. fst e = i) es)"

fun alternating :: "bool \<Rightarrow> AlertEvent list \<Rightarrow> bool" where
  "alternating reported [] = True"
| "alternating reported (EvDown d # es) = (\<not> reported \<and> ALERT_GRACE \<le> d \<and> alternating True es)"
| "alternating reported (EvUp d # es) = (reported \<and> alternating False es)"

lemma alternating_run:
  "alternating (case down st i of Some d \<Rightarrow> alerted d | None \<Rightarrow> False) (events_of i (health_run st ss))"
proof (induction ss arbitrary: st)
  case (Cons s ss)
  obtain j healthy now where s: "s = (j, healthy, now)" by (cases s) auto
  obtain ev st' where n: "note_health st j healthy now = (ev, st')" by force
  show ?case using Cons.IH [of st'] n
    by (auto simp: s events_of_def note_health_def Let_def split: option.splits if_splits)
qed (simp add: events_of_def)

lemma still_down:
  assumes "down st i = Some d" and "alerted d"
  shows "health_run st (map (\<lambda>t. (i, False, t)) ts) = []"
  using assms by (induction ts arbitrary: st) (auto simp: note_health_def)

lemma outage_once:
  assumes "down st i = Some \<lparr>down_since = t0, alerted = False\<rparr>" and "\<exists>t \<in> set ts. ALERT_GRACE \<le> t - t0"
  shows "\<exists>d. health_run st (map (\<lambda>t. (i, False, t)) ts) = [(i, EvDown d)]"
  using assms
proof (induction ts arbitrary: st)
  case (Cons t ts)
  then show ?case by (cases "ALERT_GRACE \<le> t - t0") (auto simp: note_health_def still_down)
qed simp

lemma outage_from_start:
  assumes "down st i = None" and "\<exists>t \<in> set ts. ALERT_GRACE \<le> t - t0"
  shows "\<exists>d. health_run st (map (\<lambda>t. (i, False, t)) (t0 # ts)) = [(i, EvDown d)]"
proof -
  have "\<not> ALERT_GRACE \<le> 0" by (simp add: ALERT_GRACE_def)
  then show ?thesis using assms outage_once [of "snd (note_health st i False t0)" i t0 ts] by (simp add: note_health_def)
qed


text \<open>A state in which nothing is being watched, and a tunnel down for two minutes.\<close>

definition idle_state :: "(string, string) ProxyState" where
  "idle_state = \<lparr>registry = \<lparr>sn_enabled = True, advertise_ipv4 = Some 1, advertise_ipv6 = None, route_away = False, away_ipv4 = None,
       away_ipv6 = None, egresses = [''t''], egress_configs = [], sn_rules = []\<rparr>, breakers = Map.empty,
     listeners = \<lparr>lc_enabled = True, lc_http_port = 80, lc_https_port = 443, lc_max_connections = 1\<rparr>, reload_notified = False,
     pstats = \<lparr>st_egresses = Map.empty, rule_hits = Map.empty, probes = Map.empty\<rparr>, down = Map.empty, https_up = False,
     away_found = (None, None)\<rparr>"


end
