(* ===== verification/Proxy_Correct.thy ===== *)
theory Proxy_Correct
  imports Listener Handler_Answers
begin

text \<open>
  Routing is deterministic and safe: the most specific rule decides, a connection is spliced
  only where a rule or its absence allows it, a listener blocks what the block step of the DNS pipeline blocks,
  the routing table never panics over any sequence of configurations, and an outage is reported
  once.
\<close>

section \<open>The rule that decides\<close>

lemma find_filter: "find P xs = (case filter P xs of [] \<Rightarrow> None | x # _ \<Rightarrow> Some x)"
  by (induction xs) auto

lemma filter_sort_key: "filter (\<lambda>x. P x \<and> f x = k) (sort_key f xs) = filter (\<lambda>x. P x \<and> f x = k) xs"
proof -
  have both: "filter (\<lambda>x. P x \<and> f x = k) ys = filter P (filter (\<lambda>x. f x = k) ys)" for ys by (simp add: conj_commute)
  show ?thesis by (simp only: both sort_key_stable)
qed

lemma find_sort_key:
  fixes f :: "'a \<Rightarrow> int"
  assumes "find P (sort_key f xs) = Some x"
  shows "P x \<and> (\<forall>y. y \<in> set xs \<and> P y \<longrightarrow> f x \<le> f y) \<and> find (\<lambda>y. P y \<and> f y = f x) xs = Some x"
proof -
  have first: "find (\<lambda>y. P y \<and> f y = f x) ys = Some x" if "find P ys = Some x" for ys
    using that by (induction ys) (auto split: if_splits)
  have "find (\<lambda>y. P y \<and> f y = f x) (sort_key f xs) = Some x" using first [OF assms] .
  then have "find (\<lambda>y. P y \<and> f y = f x) xs = Some x" by (simp add: find_filter filter_sort_key)
  moreover have "f x \<le> f y" if "y \<in> set xs" "P y" for y
    using find_first_sorted [of f "sort_key f xs" P x y] assms that by simp
  ultimately show ?thesis using assms by (auto simp: find_Some_iff)
qed

lemma find_concat:
  assumes "find P (concat xss) = Some x"
  shows "\<exists>i < length xss. x \<in> set (xss ! i) \<and> (\<forall>j y. j < i \<and> y \<in> set (xss ! j) \<longrightarrow> \<not> P y)"
  using assms
proof (induction xss)
  case (Cons xs xss)
  show ?case
  proof (cases "find P xs")
    case (Some y)
    then have "y = x" using Cons.prems by (induction xs) (auto split: if_splits)
    then show ?thesis using Some by (auto simp: find_Some_iff intro!: exI [of _ 0])
  next
    case None
    then have none: "\<forall>y \<in> set xs. \<not> P y" by (simp add: find_None_iff)
    then have "find P (concat xss) = Some x" using Cons.prems by (induction xs) auto
    then obtain i where i: "i < length xss" "x \<in> set (xss ! i)" "\<forall>j y. j < i \<and> y \<in> set (xss ! j) \<longrightarrow> \<not> P y" using Cons.IH by blast
    have "\<not> P y" if "j < Suc i" "y \<in> set ((xs # xss) ! j)" for j y
      using that none i(3) by (cases j) auto
    then show ?thesis using i(1,2) by (intro exI [of _ "Suc i"]) auto
  qed
qed simp

text \<open>
  C23. The rule that routes a name for a client matches both; every other rule of the
  configuration that matches them is less specific, or as specific and not before it.
\<close>

theorem most_specific_rule_wins:
  assumes "sn_rules snap = compile_rules L catalog idx rs" and "snapshot_route L snap name ip mac device = Some r"
  shows "\<exists>i < length rs. r \<in> set (compile_rule L catalog idx (rs ! i)) \<and> rule_matches L r name \<and> rule_matches_client r ip mac device \<and>
    (\<forall>j r'. j < length rs \<and> r' \<in> set (compile_rule L catalog idx (rs ! j)) \<and> rule_matches L r' name \<and> rule_matches_client r' ip mac device \<longrightarrow>
       specificity r' < specificity r \<or> (specificity r' = specificity r \<and> i \<le> j))"
proof -
  let ?P = "\<lambda>r. rule_matches L r name \<and> rule_matches_client r ip mac device"
  let ?xss = "map (compile_rule L catalog idx) rs"
  have "find ?P (sort_key (\<lambda>r. - int (specificity r)) (concat ?xss)) = Some r"
    using assms by (simp add: snapshot_route_def compile_rules_def)
  note found = find_sort_key [OF this]
  then obtain i where i: "i < length ?xss" "r \<in> set (?xss ! i)"
    "\<forall>j y. j < i \<and> y \<in> set (?xss ! j) \<longrightarrow> \<not> (?P y \<and> - int (specificity y) = - int (specificity r))"
    using find_concat [of "\<lambda>y. ?P y \<and> - int (specificity y) = - int (specificity r)" ?xss r] by blast
  have "specificity r' < specificity r \<or> (specificity r' = specificity r \<and> i \<le> j)"
    if "j < length rs" "r' \<in> set (compile_rule L catalog idx (rs ! j))" "?P r'" for j r'
  proof -
    have "r' \<in> set (concat ?xss)" using that by auto
    then have "specificity r' \<le> specificity r" using found that(3) by fastforce
    moreover have "\<not> (j < i \<and> specificity r' = specificity r)" using i(3) that by fastforce
    ultimately show ?thesis by auto
  qed
  then show ?thesis using found i(1,2) by (intro exI [of _ i]) auto
qed

section \<open>The routing table\<close>

definition snap_ok :: "('r, 'g) Snapshot \<Rightarrow> bool" where
  "snap_ok s \<longleftrightarrow> length (egress_configs s) = length (egresses s) \<and> list_all (\<lambda>r. egress_idx r < length (egresses s)) (sn_rules s)"

lemma position_lt: "position P xs = Some i \<Longrightarrow> i < length xs"
  by (induction xs arbitrary: i) (auto split: if_splits)

lemma reused_egress_total: "(case prev of None \<Rightarrow> True | Some p \<Rightarrow> snap_ok p) \<Longrightarrow> reused_egress prev e \<noteq> None"
  by (auto simp: reused_egress_def snap_ok_def index_def split: option.splits dest: position_lt)

lemma build_egresses_total:
  assumes "case prev of None \<Rightarrow> True | Some p \<Rightarrow> snap_ok p" and "length cs = length gs" and "\<forall>i n. by_id i = Some n \<longrightarrow> n < length gs"
  shows "\<exists>gs' cs' by_id'. build_egresses G prev es gs cs by_id = Some (gs', cs', by_id') \<and> length cs' = length gs' \<and>
    (\<forall>i n. by_id' i = Some n \<longrightarrow> n < length gs')"
  using assms
proof (induction es arbitrary: gs cs by_id)
  case (Cons e es)
  obtain reused where r: "reused_egress prev e = Some reused" using reused_egress_total [OF Cons.prems(1)] by blast
  have skip: ?case if "build_egresses G prev (e # es) gs cs by_id = build_egresses G prev es gs cs by_id"
    using that Cons.IH [OF Cons.prems] by simp
  have add: ?case if "build_egresses G prev (e # es) gs cs by_id = build_egresses G prev es (gs @ [g]) (cs @ [e]) (by_id(eg_id G g \<mapsto> length gs))" for g
    unfolding that by (rule Cons.IH) (use Cons.prems in \<open>auto simp: less_Suc_eq\<close>)
  show ?case
  proof (cases "ec_enabled e")
    case False
    then show ?thesis by (intro skip) simp
  next
    case True
    show ?thesis
    proof (cases "case reused of Some g \<Rightarrow> Inr g | None \<Rightarrow> eg_new G e")
      case (Inl x)
      then show ?thesis using True r by (intro skip) simp
    next
      case (Inr g)
      then show ?thesis using True r by (intro add [of g]) simp
    qed
  qed
qed simp

lemma compile_rule_idx: "r \<in> set (compile_rule L catalog idx rc) \<Longrightarrow> idx (rc_egress rc) = Some (egress_idx r)"
  by (auto simp: compile_rule_def Let_def split: option.splits if_splits sum.splits)

lemma build_snapshot_ok:
  assumes "case prev of None \<Rightarrow> True | Some p \<Rightarrow> snap_ok p"
  shows "\<exists>s. build_snapshot L catalog G v4 cfg on prev = Some s \<and> snap_ok s"
proof -
  obtain gs cs by_id where b: "build_egresses G prev (pc_egresses cfg) [] [] Map.empty = Some (gs, cs, by_id)" "length cs = length gs"
    "\<forall>i n. by_id i = Some n \<longrightarrow> n < length gs"
    using build_egresses_total [OF assms, of "[]" "[]" Map.empty G "pc_egresses cfg"] by auto
  then show ?thesis
    by (auto simp: build_snapshot_def snap_ok_def compile_rules_def list_all_iff dest: compile_rule_idx)
qed

text \<open>
  The operations on the proxy's state, in any order: configuration, the hook's and the listeners'
  reads, counters and health samples.
\<close>

inductive proxy_reach :: "'r regex_lib \<Rightarrow> Service list \<Rightarrow> 'g egress_lib \<Rightarrow> ('r, 'g) ProxyState \<Rightarrow> bool" for L catalog G where
  start: "state_from_config L catalog G v4 cfg = Some st \<Longrightarrow> proxy_reach L catalog G st"
| reload: "proxy_reach L catalog G st \<Longrightarrow> reload L catalog G v4 cfg st = Some st' \<Longrightarrow> proxy_reach L catalog G st'"
| health: "proxy_reach L catalog G st \<Longrightarrow> proxy_reach L catalog G (snd (note_health st i healthy now))"
| clear: "proxy_reach L catalog G st \<Longrightarrow> proxy_reach L catalog G (clear_health_watch st)"
| retain: "proxy_reach L catalog G st \<Longrightarrow> proxy_reach L catalog G (retain_health_watch st keep)"
| probe: "proxy_reach L catalog G st \<Longrightarrow> proxy_reach L catalog G (st\<lparr>pstats := record_probe sec (pstats st) i rtt\<rparr>)"
| address: "proxy_reach L catalog G st \<Longrightarrow> proxy_reach L catalog G (snd (find_away_address a b st))"
| splice: "proxy_reach L catalog G st \<Longrightarrow> splice_egress G sec attempt direct_ok g strict pat st = (e, st') \<Longrightarrow> proxy_reach L catalog G st'"

lemma note_health_registry [simp]: "registry (snd (note_health st i healthy now)) = registry st"
  by (simp add: note_health_def Let_def split: option.split)

lemma splice_egress_registry: "splice_egress G sec attempt direct_ok g strict pat st = (e, st') \<Longrightarrow> registry st' = registry st"
  by (auto simp: splice_egress_def Let_def note_success_def note_failure_def split: if_splits)

lemma proxy_reach_ok: "proxy_reach L catalog G st \<Longrightarrow> snap_ok (registry st)"
proof (induction rule: proxy_reach.induct)
  case (start v4 cfg st)
  then show ?case using build_snapshot_ok [of None L catalog G v4 cfg "pc_enabled cfg"] by (auto simp: state_from_config_def bind_eq_Some_conv)
next
  case (reload st v4 cfg st')
  then show ?case using build_snapshot_ok [of "Some (registry st)" L catalog G v4 cfg "pc_enabled cfg"]
    by (auto simp: reload_def bind_eq_Some_conv Let_def)
qed (auto simp: clear_health_watch_def retain_health_watch_def find_away_address_def Let_def dest: splice_egress_registry)

lemma snapshot_route_idx: "snap_ok s \<Longrightarrow> snapshot_route L s name ip mac device = Some r \<Longrightarrow> egress_idx r < length (egresses s)"
  by (auto simp: snap_ok_def snapshot_route_def find_Some_iff list_all_iff)

lemma proxy_intercept_total:
  assumes "\<And>r. snapshot_route L (registry st) name ip mac device = Some r \<Longrightarrow> index (egresses (registry st)) (egress_idx r) \<noteq> None"
  shows "proxy_intercept H L G st raw name qtype ip mac device away \<noteq> None"
proof (cases "snapshot_route L (registry st) name ip mac device")
  case None
  then show ?thesis by (cases "away_address st") (simp add: proxy_intercept_def Let_def)
next
  case (Some r)
  then obtain g where g: "index (egresses (registry st)) (egress_idx r) = Some g" using assms by blast
  show ?thesis
    unfolding proxy_intercept_def Let_def Some option.case g Option.bind.simps
    by (cases "away_address st") (simp del: not_None_eq)
qed

lemma splice_decision_total: "snap_ok (registry st) \<Longrightarrow> splice_decision L G st host ip mac device \<noteq> None"
  by (auto simp: splice_decision_def index_def split: option.splits dest: snapshot_route_idx)

lemma splice_unblocked_total:
  assumes "snap_ok (registry st)"
  shows "splice_unblocked E G now attempt direct_ok host who st \<noteq> None"
proof -
  obtain ip away device mac where who: "who = (ip, away, device, mac)" by (cases who) auto
  obtain d where "splice_decision (b_rx E) G st host ip mac device = Some d" using splice_decision_total [OF assms] by blast
  then show ?thesis by (simp add: splice_unblocked_def who)
qed

lemma splice_through_total:
  assumes "snap_ok (registry st)"
  shows "splice_through E G t rg attempt direct_ok host client st b \<noteq> None"
  using splice_unblocked_total [OF assms] by (auto simp: splice_through_def split: prod.split)

text \<open>
  C21. However the configuration is reloaded and the health watched, building a routing table
  succeeds and no lookup of an egress panics: neither in the hook of the DNS pipeline, nor
  in the diagnostics, nor for a connection.
\<close>

theorem routing_never_panics:
  assumes "proxy_reach L catalog G st"
  shows "reload L catalog G v4 cfg st \<noteq> None \<and> proxy_intercept H L G st raw name qtype ip mac device away \<noteq> None \<and>
    route_egress L G st name \<noteq> None \<and> splice_through E G t rg attempt direct_ok host client st b \<noteq> None"
proof -
  note ok = proxy_reach_ok [OF assms]
  have "reload L catalog G v4 cfg st \<noteq> None"
    using build_snapshot_ok [of "Some (registry st)" L catalog G v4 cfg "pc_enabled cfg"] ok by (auto simp: reload_def Let_def)
  moreover have "proxy_intercept H L G st raw name qtype ip mac device away \<noteq> None"
    by (rule proxy_intercept_total) (drule snapshot_route_idx [OF ok], simp add: index_def)
  moreover have "route_egress L G st name \<noteq> None"
    using ok by (auto simp: route_egress_def snap_ok_def index_def find_Some_iff list_all_iff split: option.splits)
  moreover have "splice_through E G t rg attempt direct_ok host client st b \<noteq> None" by (rule splice_through_total [OF ok])
  ultimately show ?thesis by blast
qed

text \<open>A table with one tunnel and one rule, switched on.\<close>

definition sample_proxy_config :: ProxyConfig where
  "sample_proxy_config = \<lparr>pc_enabled = True, pc_http_port = 80, pc_https_port = 443, pc_advertise_ipv4 = Some 1, pc_advertise_ipv6 = None,
     pc_route_away = False, pc_away_ipv4 = None, pc_away_ipv6 = None, pc_max_connections = 16,
     pc_egresses = [\<lparr>ec_id = ''t'', ec_name = ''t'', ec_enabled = True, ec_kind = ''direct'', ec_address = None, ec_port = None,
       ec_username = None, ec_password = None, ec_config = None, ec_seg_position = None, ec_buffer_kb = None, ec_tx_buffer_kb = None,
       ec_backend = None\<rparr>],
     pc_rules = [\<lparr>rc_pattern = ''x.test'', rc_service = None, rc_egress = ''t'', rc_fail_closed = True, rc_clients = []\<rparr>]\<rparr>"

definition sample_egress :: "string egress_lib" where
  "sample_egress = \<lparr>eg_new = (\<lambda>c. Inr (ec_id c)), eg_id = id, eg_is_healthy = \<lambda>_. True\<rparr>"

theorem routing_never_panics_witness:
  "\<exists>st. state_from_config literal_rx [] sample_egress None sample_proxy_config = Some st \<and>
     reload literal_rx [] sample_egress None sample_proxy_config st \<noteq> None"
proof -
  obtain st where st: "state_from_config literal_rx [] sample_egress None sample_proxy_config = Some st"
    using build_snapshot_ok [of None literal_rx "[]" sample_egress None sample_proxy_config True]
    by (auto simp: state_from_config_def sample_proxy_config_def)
  then show ?thesis using routing_never_panics [OF proxy_reach.start [OF st], THEN conjunct1] by blast
qed

section \<open>Where a connection may go\<close>

lemma splice_egress_end:
  "fst (splice_egress G now attempt direct_ok g strict pat st) =
     (if strict \<and> \<not> is_egress_healthy G now st (eg_id G g) then Dropped
      else if attempt = Connected then ViaEgress (eg_id G g)
      else if \<not> strict \<and> direct_ok then ViaDirect else Dropped)"
  by (simp add: splice_egress_def Let_def is_egress_healthy_def find_egress_def probe_unhealthy_def update_egress_def record_rule_hit_def)

text \<open>
  C17. A connection that is not dropped is not to a host blocked for its client. Coming from the
  internet, it is a known device's, routing away from home is on and a rule routes the host.
  Through a tunnel it goes only where the matching rule says, which a strict rule allows only
  while the tunnel is healthy; directly it goes only when no rule matches or the rule is not
  strict and its tunnel failed.
\<close>

theorem splice_is_allowed:
  assumes run: "splice_through E G t rg attempt direct_ok host client st b = Some (e, st', b')"
    and who: "connection_identity rg (at_registry t) client st b = (ip, away, device, mac)"
    and gone: "e \<noteq> Dropped"
  shows "\<not> fst (host_blocked_for_client E (at_blocklist t) b host ip mac device) \<and>
    (away \<longrightarrow> device \<noteq> None \<and> routes_away st \<and> snapshot_route (b_rx E) (registry st) host ip mac device \<noteq> None) \<and>
    (case snapshot_route (b_rx E) (registry st) host ip mac device of
       None \<Rightarrow> e = ViaDirect
     | Some r \<Rightarrow> \<exists>g. index (egresses (registry st)) (egress_idx r) = Some g \<and>
         (fail_closed r \<longrightarrow> e = ViaEgress (eg_id G g) \<and> is_egress_healthy G (at_secs t) st (eg_id G g)) \<and>
         (\<not> fail_closed r \<longrightarrow> e = (if attempt = Connected then ViaEgress (eg_id G g) else ViaDirect)))"
proof -
  obtain blocked b'' where h: "host_blocked_for_client E (at_blocklist t) b host ip mac device = (blocked, b'')" by force
  have adm: "admitted away device (routes_away st)" and nb: "\<not> blocked"
    using run gone by (auto simp: splice_through_def who h split: if_splits)
  have "splice_unblocked E G (at_secs t) attempt direct_ok host (ip, away, device, mac) st = Some (e, st')"
    using run adm nb by (auto simp: splice_through_def who h)
  then obtain d where d: "splice_decision (b_rx E) G st host ip mac device = Some d"
    "(case d of Some (g, strict, pat) \<Rightarrow> splice_egress G (at_secs t) attempt direct_ok g strict pat st
        | None \<Rightarrow> if away then (Dropped, st) else (if direct_ok then ViaDirect else Dropped, st)) = (e, st')"
    by (auto simp: splice_unblocked_def bind_eq_Some_conv)
  show ?thesis
  proof (cases "snapshot_route (b_rx E) (registry st) host ip mac device")
    case None
    then show ?thesis using d gone nb by (auto simp: splice_decision_def h split: if_splits)
  next
    case (Some r)
    then obtain g where g: "index (egresses (registry st)) (egress_idx r) = Some g" "d = Some (g, fail_closed r, rule_pattern r)"
      using d(1) by (auto simp: splice_decision_def)
    then have "e = fst (splice_egress G (at_secs t) attempt direct_ok g (fail_closed r) (rule_pattern r) st)" using d(2) by simp
    then show ?thesis using Some g(1) adm nb gone by (auto simp: splice_egress_end admitted_def h split: if_splits)
  qed
qed

section \<open>Blocking at the listener\<close>

text \<open>
  The verdict of a listener is that of the switch, the exceptions, the profile and the lists
  as the pipeline reads them for the device seen at the address, although each side looks up
  less of the client than the other where nothing depends on it.
\<close>

lemma listener_verdict:
  assumes who: "connection_identity rg now (Some addr) st b = (ip, away, device, mac)" and I: "has_client_rules I = any_client_rules st"
  defines "scoped \<equiv> client_scoped I b" and "d \<equiv> device_at rg now addr"
  defines "text \<equiv> (if client_scoped I b then ip_to_string addr else [])" and "m \<equiv> client_mac_of rg (client_scoped I b) (device_at rg now addr) addr"
  shows "host_blocked_for_client E clk b host ip mac device =
    (if filtering_for b scoped d text m then should_block_for E clk b host (client_profile b scoped d text m) else (False, b))"
proof (cases "client_scoped I b")
  case True
  then have "any_client_rules st \<or> (blocking_enabled b \<and> (has_client_exceptions b \<or> has_profiles b))" using I by (auto simp: client_scoped_def)
  then have "ip = text" "device = d" "mac = m"
    using who True by (auto simp: connection_identity_def Let_def text_def d_def m_def client_mac_of_def)
  then show ?thesis using True by (auto simp: host_blocked_for_client_def filtering_for_def client_profile_def Let_def scoped_def split: option.splits)
next
  case False
  then have idle: "blocking_enabled b \<longrightarrow> \<not> has_client_exceptions b \<and> \<not> has_profiles b" by (auto simp: client_scoped_def)
  then have off: "blocking_enabled b \<longrightarrow> \<not> client_filtering_off_normalized b x y" for x y
    by (auto simp: client_filtering_off_normalized_def has_client_exceptions_def client_bypasses_blocking_normalized_def client_paused_def)
  have none: "blocking_enabled b \<longrightarrow> profile_for b x y = None" for x y using idle by (auto simp: profile_for_def)
  show ?thesis using off none False
    by (auto simp: host_blocked_for_client_def filtering_for_def client_profile_def Let_def scoped_def or_else_def split: option.splits)
qed

text \<open>
  C19. A listener drops a connection for a host exactly when the block step of the DNS pipeline
  answers a query of the same client for that name as blocked: the query and the connection
  come from the same address, the listener finds there the device the query named (or the
  query named none and none is seen there), and both read the lists at the same time. The
  claim is about that step: a local record or a canary is answered before it, and the targets
  of CNAME records are tested after it, by the pipeline only.
\<close>

theorem listener_blocks_as_dns:
  assumes query: "identify V I cx raw src device start host qtype = Some (p, m, cx1)"
    and who: "connection_identity (client_registry cx1) now (Some (unmap_v4 src)) st (blocklist cx1) = (ip, away, dev, mac)"
    and seen: "device_at (client_registry cx1) now (unmap_v4 src) = device"
    and hook: "has_client_rules I = any_client_rules st"
    and verdict: "host_blocked_for_client (env_blk V) (fst (read_clock cx1)) (blocklist cx1) host ip mac dev = (blocked, b)"
  shows "if blocked then \<exists>bs cx2. step_block V raw p cx1 = Some (Some (D_Answer bs), cx2) \<and> blocklist cx2 = b
    else \<exists>cx2. step_block V raw p cx1 = Some (None, cx2) \<and> blocklist cx2 = b"
proof -
  let ?b = "blocklist cx1" and ?a = "unmap_v4 src"
  let ?scoped = "client_scoped I ?b"
  let ?text = "if ?scoped then ip_to_string ?a else []" and ?m = "client_mac_of (client_registry cx1) ?scoped device ?a"
  have p: "pd_name p = host" "pd_filtering_enabled p = filtering_for ?b ?scoped device ?text ?m"
    "pd_filtering_enabled p \<Longrightarrow> pd_profile p = client_profile ?b ?scoped device ?text ?m"
    using query by (auto simp: identify_def Let_def bind_eq_Some_conv)
  have v: "(blocked, b) = (if pd_filtering_enabled p
      then should_block_for (env_blk V) (fst (read_clock cx1)) ?b host (pd_profile p) else (False, ?b))"
    using listener_verdict [OF who hook, of "env_blk V" "fst (read_clock cx1)" host] verdict p(2,3) seen by auto
  show ?thesis
  proof (cases "pd_filtering_enabled p")
    case True
    obtain out where "build_blocked (env_hickory V) raw (pd_qtype p) (pd_client_ttl p) (block_answer cx1) = Some out"
      using build_blocked_total by blast
    with True v p(1) show ?thesis
      by (cases out) (auto simp: step_block_def ask_blocklist_def Let_def read_clock_def answer_blocked_def settled_def
          split: prod.splits bool.splits)
  qed (use v in \<open>simp add: step_block_def\<close>)
qed

section \<open>Sample runs\<close>

definition sample_rule :: "string \<Rightarrow> bool \<Rightarrow> RuleConfig" where
  "sample_rule p strict = \<lparr>rc_pattern = p, rc_service = None, rc_egress = ''t'', rc_fail_closed = strict, rc_clients = []\<rparr>"

definition sample_rules :: "RuleConfig list" where
  "sample_rules = [sample_rule ''test'' False, sample_rule ''a.test'' True]"

definition sample_snapshot :: "(string, string) Snapshot" where
  "sample_snapshot = (registry idle_state)\<lparr>sn_rules := compile_rules literal_rx [] (\<lambda>_. Some 0) sample_rules\<rparr>"

definition strict_a :: "string CompiledRule" where
  "strict_a = \<lparr>matcher = Exact ''a.test'', rule_pattern = ''a.test'', egress_idx = 0, fail_closed = True, rule_clients = [], specificity = 5\<rparr>"

lemma sample_snapshot_rules:
  "sn_rules sample_snapshot = [strict_a, strict_a\<lparr>matcher := Exact ''test'', rule_pattern := ''test'', fail_closed := False, specificity := 3\<rparr>]"
  by (simp add: sample_snapshot_def) code_simp

lemma sample_route: "snapshot_route literal_rx sample_snapshot ''b.a.test'' ip mac device = Some strict_a"
proof -
  have "rule_matches literal_rx strict_a ''b.a.test''" by code_simp
  then show ?thesis by (simp add: snapshot_route_def rule_matches_client_def sample_snapshot_rules) (simp add: strict_a_def)
qed

theorem most_specific_rule_wins_witness:
  "snapshot_route literal_rx sample_snapshot ''b.a.test'' ''10.0.0.2'' None None = Some strict_a \<and>
   (\<exists>i < length sample_rules. strict_a \<in> set (compile_rule literal_rx [] (\<lambda>_. Some 0) (sample_rules ! i)))"
proof -
  have "sn_rules sample_snapshot = compile_rules literal_rx [] (\<lambda>_. Some 0) sample_rules" by (simp add: sample_snapshot_def)
  from most_specific_rule_wins [OF this sample_route [of "''10.0.0.2''" None None]] show ?thesis using sample_route by blast
qed

definition sample_state :: "(string, string) ProxyState" where
  "sample_state = idle_state\<lparr>registry := sample_snapshot\<rparr>"

abbreviation "no_time \<equiv> \<lparr>at_blocklist = 0, at_registry = 0, at_secs = 0\<rparr>"
abbreviation "open_list \<equiv> (blocklist_new sample_env sample_cfg 0)\<lparr>enabled := False\<rparr>"

lemma sample_any: "\<not> any_client_rules sample_state"
  by (simp add: any_client_rules_def sample_state_def sample_snapshot_rules) (simp add: strict_a_def)

lemma sample_who:
  assumes "\<not> (blocking_enabled b \<and> (has_client_exceptions b \<or> has_profiles b))"
  shows "connection_identity (registry_new True) 0 (Some home_client) sample_state b = (ip_to_string home_client, False, None, None)"
proof -
  have "is_local home_client" by code_simp
  then show ?thesis using assms sample_any by (auto simp: connection_identity_def Let_def)
qed

theorem splice_is_allowed_witness:
  "\<exists>st' b'. splice_through sample_env sample_egress no_time (registry_new True) Connected True ''b.a.test'' (Some home_client) sample_state open_list =
     Some (ViaEgress ''t'', st', b') \<and> is_egress_healthy sample_egress 0 sample_state ''t''"
proof -
  have off: "\<not> blocking_enabled open_list" by (simp add: blocking_enabled_def)
  then have who: "connection_identity (registry_new True) 0 (Some home_client) sample_state open_list = (ip_to_string home_client, False, None, None)"
    by (intro sample_who) simp
  have route: "snapshot_route literal_rx (registry sample_state) ''b.a.test'' ip mac device = Some strict_a" for ip mac device
    by (simp add: sample_state_def sample_route)
  have g: "index (egresses (registry sample_state)) (egress_idx strict_a) = Some ''t''"
    by (simp add: sample_state_def sample_snapshot_def idle_state_def strict_a_def index_def)
  have up: "is_egress_healthy sample_egress 0 sample_state ''t''"
    by (simp add: is_egress_healthy_def sample_state_def idle_state_def sample_snapshot_def find_egress_def sample_egress_def probe_unhealthy_def)
  have "fst (splice_egress sample_egress 0 Connected True ''t'' True ''a.test'' sample_state) = ViaEgress ''t''"
    using up by (simp add: splice_egress_end sample_egress_def)
  then obtain st' where "splice_egress sample_egress 0 Connected True ''t'' True ''a.test'' sample_state = (ViaEgress ''t'', st')" by (metis prod.collapse)
  then have run: "splice_through sample_env sample_egress no_time (registry_new True) Connected True ''b.a.test'' (Some home_client)
     sample_state open_list = Some (ViaEgress ''t'', st', open_list)"
    using who off route g
    by (simp add: splice_through_def splice_unblocked_def admitted_def host_blocked_for_client_def splice_decision_def) (simp add: strict_a_def)
  have "is_egress_healthy sample_egress 0 sample_state ''t''"
    using splice_is_allowed [OF run, of "ip_to_string home_client" False None None] who route g
    by (simp add: strict_a_def sample_egress_def)
  then show ?thesis using run by blast
qed

theorem listener_blocks_as_dns_witness:
  "\<exists>p bs cx1 cx2. identify demo_env demo_hook ((demo_ctx ''ads.io'')\<lparr>cx_reads := 2\<rparr>) sample_query home_client None 0 ''ads.io'' 1 = Some (p, None, cx1) \<and>
     fst (host_blocked_for_client sample_env (fst (read_clock cx1)) (blocklist cx1) ''ads.io'' (ip_to_string home_client) None None) \<and>
     step_block demo_env sample_query p cx1 = Some (Some (D_Answer bs), cx2)"
proof -
  let ?cx = "(demo_ctx ''ads.io'')\<lparr>cx_reads := 2\<rparr>"
  have "(demo_ctx ''ads.io'')\<lparr>cx_reads := 2, client_gate := client_gate (demo_ctx ''ads.io'')\<rparr> = ?cx" by simp
  with demo_identify [of "''ads.io''"] obtain p where id: "identify demo_env demo_hook ?cx sample_query home_client None 0 ''ads.io'' 1 = Some (p, None, ?cx)"
    by metis
  note b = demo_unscoped [of "''ads.io''"]
  have hook: "has_client_rules demo_hook = any_client_rules sample_state" using sample_any by (simp add: demo_hook_def)
  have rg: "client_registry ?cx = registry_new True" by (simp add: demo_ctx_def)
  have who: "connection_identity (client_registry ?cx) 0 (Some (unmap_v4 home_client)) sample_state (blocklist ?cx) =
      (ip_to_string home_client, False, None, None)"
    unfolding rg using b sample_who [of "blocklist ?cx"] by (simp add: unmap_v4_def)
  have seen: "device_at (client_registry ?cx) 0 (unmap_v4 home_client) = None" by (simp add: rg device_at_def registry_new_def)
  obtain blocked bl where v: "host_blocked_for_client (env_blk demo_env) (fst (read_clock ?cx)) (blocklist ?cx) ''ads.io''
      (ip_to_string home_client) None None = (blocked, bl)" by fastforce
  have e: "env_blk demo_env = sample_env" by (simp add: demo_env_def)
  have "blocked"
    using v b ask_blocklist_decides [of demo_env ?cx None "''ads.io''"] demo_reach demo_decides(1)
    by (auto simp: host_blocked_for_client_def profile_for_def or_else_def valid_profile_def read_clock_def)
  with listener_blocks_as_dns [OF id who seen hook v] id v e show ?thesis by auto
qed

end
