(* ===== verification/Stats.thy ===== *)
theory Stats
  imports Handler "HOL-Library.AList" "HOL-Library.Product_Lexorder"
begin

text \<open>
  Live statistics, \<open>crates/stats/src\<close>: the counters of the busiest keys (\<open>top_list.rs\<close>), the ring
  of recent queries (\<open>recent.rs\<close>), the timeseries of the last day (\<open>timeseries.rs\<close>), what an entry
  of the query log changes in them (\<open>live.rs\<close>) and the writer that receives the entries
  (\<open>writer.rs\<close>). The anonymous totals of \<open>live.rs\<close> are in \<open>Handler\<close>.

  A hash map is an association list with distinct keys. Where the result can depend on the
  order of an iteration, the pairs in that order are an argument. The clock is an argument, and
  the database is the list of batches written to it.
\<close>

section \<open>The busiest keys\<close>

record TopNCounter =
  counts :: "(string \<times> u64) list"
  max_keys :: nat

definition top_new :: "nat \<Rightarrow> TopNCounter" where
  "top_new n = \<lparr>counts = [], max_keys = n\<rparr>"

definition increment :: "string \<Rightarrow> TopNCounter \<Rightarrow> TopNCounter" where
  "increment key c =
     (case map_of (counts c) key of
        Some n \<Rightarrow> c\<lparr>counts := AList.update key (n + 1) (counts c)\<rparr>
      | None \<Rightarrow> if length (counts c) < max_keys c then c\<lparr>counts := AList.update key 1 (counts c)\<rparr> else c)"

text \<open>
  The heap of the best pairs so far, kept in order: its root is the least pair of a count and a
  key. The pairs come out of it in some order and are then sorted by count; here pairs with the
  same count keep the order of the heap.
\<close>

fun top_scan :: "nat \<Rightarrow> (u64 \<times> string) list \<Rightarrow> (string \<times> u64) list \<Rightarrow> (u64 \<times> string) list" where
  "top_scan n heap [] = heap"
| "top_scan n heap ((key, cnt) # rest) =
     (if length heap < n then top_scan n (insort (cnt, key) heap) rest
      else case heap of
        (low, _) # others \<Rightarrow> if cnt > low then top_scan n (insort (cnt, key) others) rest else top_scan n heap rest
      | [] \<Rightarrow> top_scan n heap rest)"

definition top_n :: "nat \<Rightarrow> (string \<times> u64) list \<Rightarrow> (string \<times> u64) list" where
  "top_n n pairs = (if n = 0 then [] else sort_key (\<lambda>(_, cnt). - int (unat cnt)) (map (\<lambda>(cnt, key). (key, cnt)) (top_scan n [] pairs)))"

definition top_get :: "TopNCounter \<Rightarrow> string \<Rightarrow> u64" where
  "top_get c key = (case map_of (counts c) key of Some n \<Rightarrow> n | None \<Rightarrow> 0)"

definition top_seed :: "(string \<times> u64) list \<Rightarrow> TopNCounter \<Rightarrow> TopNCounter" where
  "top_seed entries c =
     fold (\<lambda>(key, n) c. c\<lparr>counts := AList.update key (top_get c key + n) (counts c)\<rparr>) entries c"

definition top_clear :: "TopNCounter \<Rightarrow> TopNCounter" where
  "top_clear c = c\<lparr>counts := []\<rparr>"

section \<open>Recent queries\<close>

record QueryRingBuffer =
  ring :: "QueryEntry list"
  capacity :: nat

definition ring_new :: "nat \<Rightarrow> QueryRingBuffer" where
  "ring_new n = \<lparr>ring = [], capacity = n\<rparr>"

definition ring_push :: "QueryEntry \<Rightarrow> QueryRingBuffer \<Rightarrow> QueryRingBuffer" where
  "ring_push e r = r\<lparr>ring := (if length (ring r) \<ge> capacity r then drop 1 (ring r) else ring r) @ [e]\<rparr>"

definition recent :: "QueryRingBuffer \<Rightarrow> nat \<Rightarrow> QueryEntry list" where
  "recent r n = take n (rev (ring r))"

definition recent_after :: "QueryRingBuffer \<Rightarrow> u64 \<Rightarrow> nat \<Rightarrow> QueryEntry list" where
  "recent_after r after_id n = take n (sort_key (\<lambda>e. - int (unat (qe_id e))) (filter (\<lambda>e. qe_id e > after_id) (ring r)))"

definition recent_filtered :: "QueryRingBuffer \<Rightarrow> nat \<Rightarrow> nat \<Rightarrow> (QueryEntry \<Rightarrow> bool) \<Rightarrow> QueryEntry list" where
  "recent_filtered r n scan_limit p = take n (filter p (take scan_limit (rev (ring r))))"

definition ring_seed :: "QueryEntry list \<Rightarrow> QueryRingBuffer \<Rightarrow> QueryRingBuffer" where
  "ring_seed entries r = fold ring_push entries r"

definition ring_clear :: "QueryRingBuffer \<Rightarrow> QueryRingBuffer" where
  "ring_clear r = r\<lparr>ring := []\<rparr>"

section \<open>The timeseries\<close>

record TimeseriesBucket =
  tb_bucket :: u64
  tb_total :: u64
  tb_blocked :: u64
  tb_cached :: u64
  tb_upstream :: u64

type_synonym timeseries = "(u64 \<times> TimeseriesBucket) list"

definition BUCKET_SECS :: u64 where "BUCKET_SECS = 600"
definition WINDOW_SECS :: u64 where "WINDOW_SECS = 86400 + BUCKET_SECS"

fun bucket_count :: "QueryStatus \<Rightarrow> TimeseriesBucket \<Rightarrow> TimeseriesBucket" where
  "bucket_count Blocked b = b\<lparr>tb_blocked := tb_blocked b + 1\<rparr>"
| "bucket_count Cached b = b\<lparr>tb_cached := tb_cached b + 1\<rparr>"
| "bucket_count Upstream b = b\<lparr>tb_upstream := tb_upstream b + 1\<rparr>"
| "bucket_count Allowed b = b"
| "bucket_count Routed b = b"

definition series_increment :: "u64 \<Rightarrow> QueryStatus \<Rightarrow> timeseries \<Rightarrow> timeseries" where
  "series_increment timestamp_secs status m =
     (let bucket_ts = (timestamp_secs div BUCKET_SECS) * BUCKET_SECS;
          is_new = (map_of m bucket_ts = None);
          b = (case map_of m bucket_ts of Some b \<Rightarrow> b
            | None \<Rightarrow> \<lparr>tb_bucket = bucket_ts, tb_total = 0, tb_blocked = 0, tb_cached = 0, tb_upstream = 0\<rparr>);
          m = AList.update bucket_ts (bucket_count status (b\<lparr>tb_total := tb_total b + 1\<rparr>)) m in
      if is_new then
        (let cutoff = (if bucket_ts \<ge> WINDOW_SECS then bucket_ts - WINDOW_SECS else 0) in filter (\<lambda>(ts, _). ts \<ge> cutoff) m)
      else m)"

definition buckets_24h :: "u64 \<Rightarrow> timeseries \<Rightarrow> TimeseriesBucket list" where
  "buckets_24h now m =
     (let cutoff = (if now \<ge> 86400 then now - 86400 else 0) in
      sort_key (\<lambda>b. unat (tb_bucket b)) (filter (\<lambda>b. tb_bucket b \<ge> cutoff) (map snd m)))"

definition series_seed :: "TimeseriesBucket list \<Rightarrow> timeseries \<Rightarrow> timeseries" where
  "series_seed bs m = fold (\<lambda>b. AList.update (tb_bucket b) b) bs m"

section \<open>The statistics an entry changes\<close>

record History =
  top_domains :: TopNCounter
  top_blocked :: TopNCounter
  top_clients :: TopNCounter
  client_blocked :: TopNCounter
  recent_queries :: QueryRingBuffer
  series :: timeseries

definition history_new :: History where
  "history_new = \<lparr>top_domains = top_new 10000, top_blocked = top_new 10000, top_clients = top_new 1000, client_blocked = top_new 1000,
     recent_queries = ring_new 2000, series = []\<rparr>"

definition entry_key :: "QueryEntry \<Rightarrow> string" where
  "entry_key e = (if qe_device e = [] then qe_client_ip e else qe_device e)"

definition push_entry :: "QueryEntry \<Rightarrow> RecordScope \<Rightarrow> History \<Rightarrow> History" where
  "push_entry e scope h =
     (let h = (if scope_stats scope then
            (let h = h\<lparr>top_domains := increment (qe_domain e) (top_domains h)\<rparr>;
                 h = (if qe_status e = Blocked then h\<lparr>top_blocked := increment (qe_domain e) (top_blocked h)\<rparr> else h);
                 h = h\<lparr>top_clients := increment (entry_key e) (top_clients h)\<rparr>;
                 h = (if qe_status e = Blocked then h\<lparr>client_blocked := increment (entry_key e) (client_blocked h)\<rparr> else h) in
             h\<lparr>series := series_increment (word_of_int (qe_timestamp e)) (qe_status e) (series h)\<rparr>)
          else h) in
      if scope_queries scope then h\<lparr>recent_queries := ring_push e (recent_queries h)\<rparr> else h)"

definition forget_recent :: "History \<Rightarrow> History" where
  "forget_recent h = h\<lparr>recent_queries := ring_clear (recent_queries h)\<rparr>"

definition forget_history :: "History \<Rightarrow> History" where
  "forget_history h = h\<lparr>top_domains := top_clear (top_domains h), top_blocked := top_clear (top_blocked h),
     top_clients := top_clear (top_clients h), client_blocked := top_clear (client_blocked h), series := []\<rparr>"

text \<open>
  What the start of the server seeds from the database: the names and the blocked names, each
  with the count of its own query, and for each device its total and blocked count.
\<close>

definition seed_live :: "(string \<times> u64) list \<Rightarrow> (string \<times> u64) list \<Rightarrow> (string \<times> u64 \<times> u64) list \<Rightarrow> History \<Rightarrow> History" where
  "seed_live domains blocked_domains clients h =
     (let h = h\<lparr>top_domains := top_seed domains (top_domains h)\<rparr>;
          h = h\<lparr>top_blocked := top_seed blocked_domains (top_blocked h)\<rparr>;
          blocked = map (\<lambda>(device, total, blocked). (device, blocked)) clients;
          pairs = map (\<lambda>(device, total, blocked). (device, total)) clients;
          h = h\<lparr>top_clients := top_seed pairs (top_clients h)\<rparr> in
      h\<lparr>client_blocked := top_seed blocked (client_blocked h)\<rparr>)"

definition reset_all :: "LiveStats \<times> History \<Rightarrow> LiveStats \<times> History" where
  "reset_all s = (\<lparr>total_queries = 0, total_blocked = 0, total_allowed = 0, total_cached = 0, total_upstream = 0, total_routed = 0, total_dropped = 0\<rparr>,
     forget_recent (forget_history (snd s)))"

section \<open>The writer\<close>

definition BATCH_SIZE :: nat where "BATCH_SIZE = 500"

definition tag_device :: "Registry \<Rightarrow> QueryEntry \<Rightarrow> QueryEntry" where
  "tag_device rg e =
     (if qe_device e \<noteq> [] then e
      else e\<lparr>qe_device := (case Option.bind (parse_ip (qe_client_ip e)) (get_mac rg) of Some m \<Rightarrow> m | None \<Rightarrow> qe_client_ip e)\<rparr>)"

record Writer =
  w_history :: History
  w_batch :: "QueryEntry list"
  w_written :: "(QueryEntry list \<times> RecordScope) list"

text \<open>The batch goes to the database with the switches of the moment, or nowhere when both are off.\<close>

definition flush_batch :: "RecordScope \<Rightarrow> Writer \<Rightarrow> Writer" where
  "flush_batch scope w =
     (if w_batch w = [] then w
      else if \<not> records_anything scope then w\<lparr>w_batch := []\<rparr>
      else w\<lparr>w_batch := [], w_written := w_written w @ [(w_batch w, scope)]\<rparr>)"

text \<open>One entry received in the loop: with \<open>scope\<close> when it is counted and \<open>later\<close> when the batch is written.\<close>

definition receive :: "Registry \<Rightarrow> RecordScope \<Rightarrow> RecordScope \<Rightarrow> QueryEntry \<Rightarrow> Writer \<Rightarrow> Writer" where
  "receive rg scope later e w =
     (let e = tag_device rg e;
          w = w\<lparr>w_history := push_entry e scope (w_history w), w_batch := w_batch w @ [e]\<rparr> in
      if length (w_batch w) \<ge> BATCH_SIZE then flush_batch later w else w)"

text \<open>
  The flush at shutdown: what is still queued, each entry with the switches of its moment, then
  the batch.
\<close>

definition drain :: "Registry \<Rightarrow> RecordScope \<Rightarrow> (QueryEntry \<times> RecordScope) list \<Rightarrow> Writer \<Rightarrow> Writer" where
  "drain rg later queued w =
     flush_batch later
       (fold (\<lambda>(e, scope) w. let e = tag_device rg e in w\<lparr>w_history := push_entry e scope (w_history w), w_batch := w_batch w @ [e]\<rparr>) queued w)"

end
