(* ===== verification/Stats_Correct.thy ===== *)
theory Stats_Correct
  imports Stats
begin

text \<open>
  The live statistics tell the truth: the list of the busiest keys holds the highest counts in
  order, a device never shows more blocked queries than queries, the ring holds the latest
  entries, the timeseries stays within its window, and the writer loses no entry.
\<close>

section \<open>The busiest keys\<close>

text \<open>What a scan has kept and dropped: the dropped counts are not above the kept ones.\<close>

lemma top_scan_split:
  assumes "0 < n" and "sorted heap" and "length heap \<le> n \<and> (dropped = [] \<or> length heap = n)"
    and "\<forall>d \<in> set dropped. \<forall>h \<in> set heap. fst d \<le> fst h"
  shows "\<exists>dropped'. mset (top_scan n heap pairs) + mset dropped' = mset heap + mset dropped + mset (map prod.swap pairs) \<and>
    length (top_scan n heap pairs) = min n (length heap + length dropped + length pairs) \<and>
    (\<forall>d \<in> set dropped'. \<forall>h \<in> set (top_scan n heap pairs). fst d \<le> fst h)"
  using assms
proof (induction pairs arbitrary: heap dropped)
  case Nil
  then show ?case by (intro exI [of _ dropped]) auto
next
  case (Cons p pairs)
  obtain key cnt where p: "p = (key, cnt)" by (cases p)
  show ?case
  proof (cases "length heap < n")
    case True
    then have "dropped = []" using Cons.prems(3) by auto
    then obtain d' where d': "mset (top_scan n (insort (cnt, key) heap) pairs) + mset d' = mset (insort (cnt, key) heap) + mset (map prod.swap pairs)"
      "length (top_scan n (insort (cnt, key) heap) pairs) = min n (length (insort (cnt, key) heap) + length pairs)"
      "\<forall>d \<in> set d'. \<forall>h \<in> set (top_scan n (insort (cnt, key) heap) pairs). fst d \<le> fst h"
      using Cons.IH [of "insort (cnt, key) heap" "[]"] Cons.prems True by (auto simp: sorted_insort)
    then show ?thesis using True \<open>dropped = []\<close> by (intro exI [of _ d']) (simp add: p)
  next
    case False
    obtain low k others where h: "heap = (low, k) # others" using False Cons.prems(1) by (cases heap) auto
    have least: "\<forall>x \<in> set others. low \<le> fst x" using Cons.prems(2) by (auto simp: h less_eq_prod_def)
    define heap' dropped' where "heap' = (if cnt > low then insort (cnt, key) others else heap)"
      and "dropped' = (if cnt > low then (low, k) else (cnt, key)) # dropped"
    have "top_scan n heap (p # pairs) = top_scan n heap' pairs" using False by (simp add: p h heap'_def)
    moreover have "mset heap' + mset dropped' = mset heap + mset dropped + {#(cnt, key)#}" by (simp add: heap'_def dropped'_def h)
    moreover have "sorted heap'" "length heap' \<le> n \<and> (dropped' = [] \<or> length heap' = n)"
      using Cons.prems(2,3) False by (auto simp: heap'_def h dropped'_def sorted_insort)
    moreover have "\<forall>d \<in> set dropped'. \<forall>x \<in> set heap'. fst d \<le> fst x"
      using Cons.prems(4) least by (auto simp: heap'_def dropped'_def h set_insort_key)
    moreover have "length heap' + length dropped' = length heap + length dropped + 1" by (simp add: heap'_def dropped'_def h)
    ultimately show ?thesis using Cons.IH [of heap' dropped'] Cons.prems(1) by (auto simp: p ac_simps)
  qed
qed

text \<open>
  C37. In whatever order the counters are visited, the list of the \<open>n\<close> busiest keys holds \<open>n\<close> of
  the pairs, or all of them when there are fewer, each key once and the highest counts first;
  no key left out has a higher count than one listed.
\<close>

theorem top_list_exact:
  assumes "distinct (map fst pairs)"
  shows "length (top_n n pairs) = min n (length pairs) \<and> set (top_n n pairs) \<subseteq> set pairs \<and> distinct (map fst (top_n n pairs)) \<and>
    sorted_wrt (\<lambda>x y. snd y \<le> snd x) (top_n n pairs) \<and>
    (\<forall>x y. x \<in> set (top_n n pairs) \<and> y \<in> set pairs - set (top_n n pairs) \<longrightarrow> snd y \<le> snd x)"
proof (cases "n = 0")
  case False
  define heap where "heap = top_scan n [] pairs"
  obtain d where d: "mset heap + mset d = mset (map prod.swap pairs)" "length heap = min n (length pairs)"
    "\<forall>x \<in> set d. \<forall>h \<in> set heap. fst x \<le> fst h"
    using top_scan_split [of n "[]" "[]" pairs] False by (auto simp: heap_def)
  define out where "out = top_n n pairs"
  have swap: "prod.swap = (\<lambda>p. (snd p, fst p))" by auto
  have out: "out = sort_key (\<lambda>x. - int (unat (snd x))) (map prod.swap heap)"
    using False by (simp add: out_def top_n_def heap_def case_prod_unfold swap)
  have "image_mset prod.swap (mset heap + mset d) = image_mset prod.swap (mset (map prod.swap pairs))" by (simp only: d(1))
  then have all: "mset pairs = mset (out @ map prod.swap d)" by (simp add: out multiset.map_comp o_def)
  have "distinct (map fst (out @ map prod.swap d))"
    using assms mset_eq_imp_distinct_iff [of "map fst pairs" "map fst (out @ map prod.swap d)"] all by (simp only: mset_map)
  then have "distinct (map fst out)" by simp
  moreover have "set pairs = set out \<union> prod.swap ` set d" using arg_cong [OF all, of set_mset] by simp
  moreover have "length out = min n (length pairs)" using d(2) by (simp add: out)
  moreover have "sorted_wrt (\<lambda>x y. snd y \<le> snd x) out"
    using sorted_sort_key [of "\<lambda>x :: string \<times> u64. - int (unat (snd x))" "map prod.swap heap"]
    by (simp add: out sorted_map word_le_def)
  moreover have "\<forall>x \<in> prod.swap ` set d. \<forall>h \<in> set out. snd x \<le> snd h" using d(3) by (auto simp: out)
  ultimately show ?thesis unfolding out_def [symmetric] by blast
qed (simp add: top_n_def)

theorem top_list_exact_witness:
  "top_n 2 [(''a'', 3), (''b'', 9), (''c'', 5)] = [(''b'', 9), (''c'', 5)] \<and> length (top_n 2 [(''a'', 3), (''b'', 9), (''c'', 5)]) = 2"
proof -
  have "distinct (map fst [(''a'', 3 :: u64), (''b'', 9), (''c'', 5)])" by simp
  note exact = top_list_exact [OF this, of 2]
  have "top_n 2 [(''a'', 3), (''b'', 9), (''c'', 5)] = [(''b'', 9), (''c'', 5)]" by code_simp
  then show ?thesis using exact by simp
qed

section \<open>Shares\<close>

lemma length_update: "length (AList.update k v al) = (if map_of al k = None then Suc (length al) else length al)"
  by (induction al) auto

text \<open>
  A counter of everything and a counter of a part of it, after at most \<open>n\<close> increments: for a
  key that is counted the part is not above the whole, and a key that is not counted cannot be
  counted later, or is in neither.
\<close>

definition part_ok :: "nat \<Rightarrow> TopNCounter \<Rightarrow> TopNCounter \<Rightarrow> bool" where
  "part_ok n a b \<longleftrightarrow>
     (\<forall>k. map_of (counts a) k = None \<longrightarrow> max_keys a \<le> length (counts a) \<or> map_of (counts b) k = None) \<and>
     (\<forall>k t. map_of (counts a) k = Some t \<longrightarrow> unat t \<le> n \<and> unat (top_get b k) \<le> unat t)"

lemma unat_Suc_bound: "unat (t :: u64) \<le> n \<Longrightarrow> Suc n < 2 ^ 64 \<Longrightarrow> unat (t + 1) = Suc (unat t)"
  by (subst unat_plus_simple [THEN iffD1]) (auto simp: word_le_nat_alt unat_word_ariths)

lemma top_get_increment:
  "unat (top_get (increment k b) x) \<le> unat (top_get b x) + (if x = k then 1 else 0)"
proof -
  have "unat (m + 1 :: u64) \<le> Suc (unat m)" for m by (simp add: unat_word_ariths)
  then show ?thesis by (auto simp: top_get_def increment_def update_conv' split: option.splits)
qed

lemma part_okD:
  assumes "part_ok n a b"
  shows "map_of (counts a) k = None \<Longrightarrow> max_keys a \<le> length (counts a) \<or> map_of (counts b) k = None"
    and "map_of (counts a) k = Some t \<Longrightarrow> unat t \<le> n \<and> unat (top_get b k) \<le> unat t"
  using assms by (simp_all add: part_ok_def)

lemma part_ok_counted:
  assumes ok: "part_ok n a b" and t: "map_of (counts a) k = None \<longrightarrow> length (counts a) < max_keys a \<and> t = 1"
    and s: "\<forall>s. map_of (counts a) k = Some s \<longrightarrow> unat t = Suc (unat s)"
    and grow: "\<And>x. unat (top_get b' x) \<le> unat (top_get b x) + (if x = k then 1 else 0)"
    and other: "\<And>x. x \<noteq> k \<Longrightarrow> map_of (counts b') x = map_of (counts b) x"
  shows "part_ok (Suc n) (a\<lparr>counts := AList.update k t (counts a)\<rparr>) b'"
proof -
  have new: "unat t \<le> Suc n \<and> unat (top_get b' k) \<le> unat t"
  proof (cases "map_of (counts a) k")
    case None
    then have "top_get b k = 0" using t part_okD(1) [OF ok None] by (auto simp: top_get_def)
    then show ?thesis using None t grow [of k] by simp
  next
    case (Some r)
    then show ?thesis using s part_okD(2) [OF ok Some] grow [of k] by simp
  qed
  have old: "unat v \<le> Suc n \<and> unat (top_get b' x) \<le> unat v" if "x \<noteq> k" "map_of (counts a) x = Some v" for x v
    using part_okD(2) [OF ok that(2)] grow [of x] that(1) by simp
  have "max_keys a \<le> length (AList.update k t (counts a)) \<or> map_of (counts b') x = None" if "x \<noteq> k" "map_of (counts a) x = None" for x
    using part_okD(1) [OF ok that(2)] other [OF that(1)] by (auto simp: length_update)
  then show ?thesis using new old by (auto simp: part_ok_def update_conv')
qed

lemma part_ok_increment:
  assumes ok: "part_ok n a b" and small: "Suc n < 2 ^ 64" and b': "b' = b \<or> b' = increment k b"
  shows "part_ok (Suc n) (increment k a) b'"
proof -
  have grow: "unat (top_get b' x) \<le> unat (top_get b x) + (if x = k then 1 else 0)" for x
    using b' top_get_increment [of k b x] by auto
  have other: "map_of (counts b') x = map_of (counts b) x" if "x \<noteq> k" for x
    using b' that by (auto simp: increment_def update_conv' split: option.splits)
  consider (counted) t where "map_of (counts a) k = Some t" | (room) "map_of (counts a) k = None" "length (counts a) < max_keys a"
    | (full) "map_of (counts a) k = None" "max_keys a \<le> length (counts a)" by fastforce
  then show ?thesis
  proof cases
    case (counted t)
    then show ?thesis using part_ok_counted [OF ok _ _ grow other, of "t + 1"] unat_Suc_bound [OF _ small] part_okD(2) [OF ok counted]
      by (simp add: increment_def)
  next
    case room
    then show ?thesis using part_ok_counted [OF ok _ _ grow other, of 1] by (simp add: increment_def)
  next
    case full
    have "unat t \<le> Suc n \<and> unat (top_get b' x) \<le> unat t" if "map_of (counts a) x = Some t" for x t
      using part_okD(2) [OF ok that] grow [of x] that full(1) by (cases "x = k") auto
    then show ?thesis using full by (auto simp: part_ok_def increment_def)
  qed
qed

text \<open>The operations on the live statistics: an entry, and the switches and the reset of the API.\<close>

datatype history_op = PushEntry QueryEntry RecordScope | ForgetRecent | ForgetHistory

fun history_step :: "history_op \<Rightarrow> History \<Rightarrow> History" where
  "history_step (PushEntry e scope) h = push_entry e scope h"
| "history_step ForgetRecent h = forget_recent h"
| "history_step ForgetHistory h = forget_history h"

definition shares_ok :: "nat \<Rightarrow> History \<Rightarrow> bool" where
  "shares_ok n h \<longleftrightarrow> part_ok n (top_clients h) (client_blocked h)"

lemma part_ok_mono: "part_ok n a b \<Longrightarrow> part_ok (Suc n) a b"
  by (fastforce simp: part_ok_def)

lemma part_ok_clear: "part_ok n (top_clear a) (top_clear b)"
  by (simp add: part_ok_def top_clear_def)

lemma shares_step:
  assumes "shares_ok n h" and "Suc n < 2 ^ 64"
  shows "shares_ok (Suc n) (history_step act h)"
proof (cases act)
  case (PushEntry e scope)
  have "part_ok (Suc n) (increment k a) b \<and> part_ok (Suc n) (increment k a) (increment k b)" if "part_ok n a b" for a b k
    using part_ok_increment [OF that assms(2)] by simp
  then show ?thesis
    using assms(1) part_ok_mono by (simp add: PushEntry push_entry_def shares_ok_def Let_def)
qed (use assms(1) in \<open>simp_all add: shares_ok_def forget_recent_def forget_history_def part_ok_mono part_ok_clear\<close>)

text \<open>Seeding counts each device in both lists, so that neither has a device the other lacks.\<close>

definition seeded :: "nat \<Rightarrow> TopNCounter \<Rightarrow> TopNCounter \<Rightarrow> bool" where
  "seeded n a b \<longleftrightarrow> (\<forall>k. (map_of (counts a) k = None \<longrightarrow> map_of (counts b) k = None) \<and>
     unat (top_get a k) \<le> n \<and> top_get b k \<le> top_get a k)"

lemma seeded_part_ok: "seeded n a b \<Longrightarrow> part_ok n a b"
  by (auto simp: seeded_def part_ok_def top_get_def word_le_nat_alt split: option.splits)

lemma top_get_update: "top_get (c\<lparr>counts := AList.update k v (counts c)\<rparr>) x = (if x = k then v else top_get c x)"
  by (simp add: top_get_def update_conv')

lemma seeded_step:
  assumes "seeded n a b" and "n + unat t < 2 ^ 64" and "s \<le> t"
  shows "seeded (n + unat t) (a\<lparr>counts := AList.update k (top_get a k + t) (counts a)\<rparr>)
    (b\<lparr>counts := AList.update k (top_get b k + s) (counts b)\<rparr>)"
proof -
  have ab: "unat (top_get a x) \<le> n" "unat (top_get b x) \<le> unat (top_get a x)" for x
    using assms(1) by (auto simp: seeded_def word_le_nat_alt)
  have "unat (top_get a k + t) = unat (top_get a k) + unat t" "unat (top_get b k + s) = unat (top_get b k) + unat s"
    using ab [of k] assms(2,3) by (auto simp: unat_word_ariths word_le_nat_alt intro!: mod_less)
  then have "unat (top_get b k + s) \<le> unat (top_get a k + t)" "unat (top_get a k + t) \<le> n + unat t"
    using ab [of k] assms(3) by (simp_all add: word_le_nat_alt)
  moreover have "unat (top_get a x) \<le> n + unat t" for x using ab(1) [of x] by simp
  moreover have "\<forall>x. map_of (counts a) x = None \<longrightarrow> map_of (counts b) x = None" using assms(1) by (simp add: seeded_def)
  ultimately show ?thesis using ab(2) by (auto simp: seeded_def top_get_update update_conv' word_le_nat_alt)
qed

lemma seeded_rows:
  assumes "list_all (\<lambda>(_, t, s). s \<le> t) rows" and "seeded n a b" and "n + sum_list (map (\<lambda>(_, t, _). unat t) rows) < 2 ^ 64"
  shows "seeded (n + sum_list (map (\<lambda>(_, t, _). unat t) rows))
    (top_seed (map (\<lambda>(d, t, _). (d, t)) rows) a) (top_seed (map (\<lambda>(d, _, s). (d, s)) rows) b)"
  using assms
proof (induction rows arbitrary: n a b)
  case (Cons row rows)
  obtain d t s where row: "row = (d, t, s)" by (cases row)
  have "seeded (n + unat t) (a\<lparr>counts := AList.update d (top_get a d + t) (counts a)\<rparr>)
      (b\<lparr>counts := AList.update d (top_get b d + s) (counts b)\<rparr>)"
    using Cons.prems row by (intro seeded_step) auto
  from Cons.IH [OF _ this] show ?case using Cons.prems row by (simp add: top_seed_def add.assoc)
qed (simp add: top_seed_def)

lemma shares_run:
  assumes "list_all (\<lambda>(_, t, s). s \<le> t) clients"
    and "sum_list (map (\<lambda>(_, t, _). unat t) clients) + length ops < 2 ^ 64"
  shows "shares_ok (sum_list (map (\<lambda>(_, t, _). unat t) clients) + length ops)
    (fold history_step ops (seed_live domains blocked_domains clients history_new))"
  using assms(2)
proof (induction ops rule: rev_induct)
  case Nil
  have "seeded 0 (top_new 1000) (top_new 1000)" by (simp add: seeded_def top_new_def top_get_def)
  from seeded_rows [OF assms(1) this] Nil show ?case
    by (simp add: shares_ok_def seed_live_def history_new_def Let_def seeded_part_ok)
next
  case (snoc act ops)
  then show ?case using shares_step by simp
qed

text \<open>
  C38. The server starts with what the database counted for each device, with at most as many
  blocked queries as queries for each. After any entries, with whatever recording switched on
  and off, and any clearing of the history in between, a device on the list of clients has at
  most as many blocked queries as queries, although the list of blocked ones is kept apart and
  each list stops taking in devices when it is full. A device that came when the list of
  clients was full is not on it, and the claim does not extend to it.
\<close>

theorem device_shares_within_total:
  assumes "\<forall>(d, total, blocked) \<in> set clients. blocked \<le> total"
    and "sum_list (map (\<lambda>(_, total, _). unat total) clients) + length ops < 2 ^ 64"
    and "h = fold history_step ops (seed_live domains blocked_domains clients history_new)"
    and "k \<in> fst ` set (counts (top_clients h))"
  shows "top_get (client_blocked h) k \<le> top_get (top_clients h) k"
proof -
  have "list_all (\<lambda>(_, t, s). s \<le> t) clients" using assms(1) by (auto simp: list_all_iff)
  from shares_run [OF this assms(2)] have ok: "part_ok (sum_list (map (\<lambda>(_, t, _). unat t) clients) + length ops)
      (top_clients h) (client_blocked h)"
    unfolding shares_ok_def assms(3) .
  obtain t where "map_of (counts (top_clients h)) k = Some t" using assms(4) by (metis map_of_eq_None_iff not_None_eq)
  then show ?thesis using part_okD(2) [OF ok, of k t] by (simp add: top_get_def word_le_nat_alt)
qed

definition blocked_entry :: QueryEntry where
  "blocked_entry = \<lparr>qe_id = 1, qe_timestamp = 0, qe_domain = ''ads.io'', qe_query_type = 1, qe_client_ip = ''10.0.0.2'', qe_device = [],
     qe_status = Blocked, qe_latency_ms = 0, qe_upstream = None, qe_rcode = 0\<rparr>"

abbreviation "all_on \<equiv> \<lparr>scope_queries = True, scope_stats = True\<rparr>"

theorem device_shares_within_total_witness:
  "let h = fold history_step [PushEntry blocked_entry all_on] (seed_live [] [] [(''10.0.0.2'', 7, 3)] history_new) in
   top_get (top_clients h) ''10.0.0.2'' = 8 \<and> top_get (client_blocked h) ''10.0.0.2'' \<le> top_get (top_clients h) ''10.0.0.2''"
proof -
  let ?h = "fold history_step [PushEntry blocked_entry all_on] (seed_live [] [] [(''10.0.0.2'', 7, 3)] history_new)"
  have "map_of (counts (top_clients ?h)) ''10.0.0.2'' = Some 8"
    by (simp add: push_entry_def blocked_entry_def entry_key_def increment_def history_new_def top_new_def Let_def
        seed_live_def top_seed_def top_get_def)
  moreover from this have "''10.0.0.2'' \<in> fst ` set (counts (top_clients ?h))" by (metis map_of_eq_None_iff option.distinct(1))
  ultimately show ?thesis
    using device_shares_within_total [of "[(''10.0.0.2'', 7, 3)]" "[PushEntry blocked_entry all_on]" ?h "[]" "[]" "''10.0.0.2''"]
    by (simp add: top_get_def)
qed

text \<open>
  For names there is no such bound: the names and the blocked names are seeded from two
  queries, each cut off at its own length. A name that is among the blocked ones only, and is
  then asked once more, shows more blocked queries than queries.
\<close>

theorem seeded_names_disagree:
  "let h = fold history_step [PushEntry blocked_entry all_on] (seed_live [] [(''ads.io'', 30)] [] history_new) in
   top_get (top_domains h) ''ads.io'' = 1 \<and> top_get (top_blocked h) ''ads.io'' = 31"
  by (simp add: push_entry_def blocked_entry_def entry_key_def increment_def history_new_def top_new_def Let_def
      seed_live_def top_seed_def top_get_def)

section \<open>The ring and the writer\<close>

lemma ring_run:
  assumes "0 < c"
  shows "fold ring_push es (ring_new c) = \<lparr>ring = drop (length es - c) es, capacity = c\<rparr>"
proof (induction es rule: rev_induct)
  case (snoc e es)
  show ?case using assms snoc by (cases "c \<le> length es") (simp_all add: ring_push_def Suc_diff_le)
qed (simp add: ring_new_def)

text \<open>
  The ring holds the latest entries: asked for up to as many as it holds, it returns the
  newest ones, newest first.
\<close>

theorem ring_keeps_latest:
  assumes "0 < c" and "n \<le> c"
  shows "recent (fold ring_push es (ring_new c)) n = take n (rev es)"
  using assms by (simp add: ring_run recent_def rev_drop min_def)

theorem ring_keeps_latest_witness:
  "recent (fold ring_push [blocked_entry, blocked_entry\<lparr>qe_id := 2\<rparr>, blocked_entry\<lparr>qe_id := 3\<rparr>] (ring_new 2)) 2 =
     [blocked_entry\<lparr>qe_id := 3\<rparr>, blocked_entry\<lparr>qe_id := 2\<rparr>]"
  using ring_keeps_latest [of 2 2 "[blocked_entry, blocked_entry\<lparr>qe_id := 2\<rparr>, blocked_entry\<lparr>qe_id := 3\<rparr>]"] by simp

definition received :: "Registry \<Rightarrow> (QueryEntry \<times> RecordScope \<times> RecordScope) list \<Rightarrow> Writer \<Rightarrow> Writer" where
  "received rg es w = fold (\<lambda>(e, scope, later). receive rg scope later e) es w"

definition written_entries :: "Writer \<Rightarrow> QueryEntry list" where
  "written_entries w = concat (map fst (w_written w))"

lemma flush_keeps: "records_anything s \<Longrightarrow> written_entries (flush_batch s w) = written_entries w @ w_batch w \<and> w_batch (flush_batch s w) = []"
  by (simp add: flush_batch_def written_entries_def)

lemma receive_keeps:
  assumes "records_anything later" and "length (w_batch w) < BATCH_SIZE"
  shows "written_entries (receive rg scope later e w) @ w_batch (receive rg scope later e w) = written_entries w @ w_batch w @ [tag_device rg e] \<and>
    length (w_batch (receive rg scope later e w)) < BATCH_SIZE"
  using assms flush_keeps [OF assms(1)] by (simp add: receive_def Let_def) (simp add: written_entries_def BATCH_SIZE_def)

lemma drain_batch:
  fixes w :: Writer
  shows "w_batch (fold (\<lambda>(e, scope) w. let e = tag_device rg e in w\<lparr>w_history := push_entry e scope (w_history w), w_batch := w_batch w @ [e]\<rparr>) queued w) =
      w_batch w @ map (\<lambda>q. tag_device rg (fst q)) queued \<and>
    w_written (fold (\<lambda>(e, scope) w. let e = tag_device rg e in w\<lparr>w_history := push_entry e scope (w_history w), w_batch := w_batch w @ [e]\<rparr>) queued w) = w_written w"
  by (induction queued arbitrary: w) (auto simp: Let_def)

text \<open>
  While something is recorded, the writer hands every entry it receives to the database,
  in order and once, with its device filled in: what it has written and what it still collects
  is what it received, it never collects a full batch, and the flush at shutdown writes the
  rest with what is still queued.
\<close>

theorem writer_loses_nothing:
  assumes "length (w_batch w) < BATCH_SIZE" and "list_all (\<lambda>(_, _, later). records_anything later) es" and "records_anything final"
  shows "written_entries (received rg es w) @ w_batch (received rg es w) = written_entries w @ w_batch w @ map (\<lambda>x. tag_device rg (fst x)) es \<and>
    length (w_batch (received rg es w)) < BATCH_SIZE \<and>
    written_entries (drain rg final queued (received rg es w)) =
      written_entries w @ w_batch w @ map (\<lambda>x. tag_device rg (fst x)) es @ map (\<lambda>q. tag_device rg (fst q)) queued"
proof -
  have run: "written_entries (received rg es w) @ w_batch (received rg es w) = written_entries w @ w_batch w @ map (\<lambda>x. tag_device rg (fst x)) es \<and>
    length (w_batch (received rg es w)) < BATCH_SIZE"
    using assms(1,2)
  proof (induction es arbitrary: w)
    case (Cons x es)
    obtain e scope later where x: "x = (e, scope, later)" by (cases x) auto
    note k = receive_keeps [of later w rg scope e]
    have "received rg (x # es) w = received rg es (receive rg scope later e w)" by (simp add: received_def x)
    then show ?case using Cons.IH [of "receive rg scope later e w"] Cons.prems k by (simp add: x)
  qed (simp add: received_def)
  moreover have "written_entries (drain rg final queued v) = written_entries v @ w_batch v @ map (\<lambda>q. tag_device rg (fst q)) queued" for v
    using flush_keeps [OF assms(3)] drain_batch [of rg queued v] by (simp add: drain_def) (simp add: written_entries_def)
  ultimately show ?thesis by simp
qed

theorem writer_loses_nothing_witness:
  "written_entries (drain (registry_new True) all_on [(blocked_entry, all_on)]
     (received (registry_new True) [(blocked_entry, all_on, all_on)] \<lparr>w_history = history_new, w_batch = [], w_written = []\<rparr>)) =
   [tag_device (registry_new True) blocked_entry, tag_device (registry_new True) blocked_entry]"
  using writer_loses_nothing [of "\<lparr>w_history = history_new, w_batch = [], w_written = []\<rparr>" "[(blocked_entry, all_on, all_on)]" all_on
      "registry_new True" "[(blocked_entry, all_on)]"]
  by (simp add: BATCH_SIZE_def records_anything_def written_entries_def)

section \<open>The timeseries\<close>

definition bucket_start :: "u64 \<Rightarrow> u64" where
  "bucket_start t = (t div BUCKET_SECS) * BUCKET_SECS"

lemma unat_bucket_start: "unat (bucket_start t) = (unat t div 600) * 600"
proof -
  have "unat t < 2 ^ 64" by (rule less_le_trans [OF unsigned_less]) simp
  then have "unat t div 600 * 600 < 2 ^ 64" by (meson div_times_less_eq_dividend le_less_trans)
  then show ?thesis by (simp add: bucket_start_def BUCKET_SECS_def unat_mult_lem [THEN iffD1] unat_div)
qed

text \<open>The keys of a timeseries whose latest bucket is \<open>newest\<close>.\<close>

definition series_ok :: "u64 \<Rightarrow> timeseries \<Rightarrow> bool" where
  "series_ok newest m \<longleftrightarrow> distinct (map fst m) \<and> newest \<in> fst ` set m \<and>
     (\<forall>k \<in> fst ` set m. k \<le> newest \<and> unat newest \<le> unat k + 87000 \<and> 600 dvd unat k)"

lemma keys_filter: "fst ` set (filter (\<lambda>(k, _). c \<le> k) m) = {k \<in> fst ` set m. c \<le> k}"
  by force

lemma series_increment_keys:
  "fst ` set (series_increment t st m) = (if bucket_start t \<in> fst ` set m then fst ` set m
     else {k \<in> insert (bucket_start t) (fst ` set m). (if bucket_start t \<ge> WINDOW_SECS then bucket_start t - WINDOW_SECS else 0) \<le> k})"
proof (cases "bucket_start t \<in> fst ` set m")
  case True
  then obtain b where "map_of m (bucket_start t) = Some b" by (metis map_of_eq_None_iff not_None_eq)
  then show ?thesis using True by (simp add: series_increment_def Let_def bucket_start_def [symmetric] dom_update insert_absorb)
next
  case False
  then have "map_of m (bucket_start t) = None" by (simp add: map_of_eq_None_iff)
  then show ?thesis using False
    by (auto simp: series_increment_def Let_def bucket_start_def [symmetric] dom_update keys_filter simp del: set_filter)
qed

lemma series_increment_distinct: "distinct (map fst m) \<Longrightarrow> distinct (map fst (series_increment t st m))"
  by (simp add: series_increment_def Let_def distinct_update distinct_map_filter)

lemma series_ok_step:
  assumes ok: "m = [] \<or> series_ok newest m" and mono: "m = [] \<or> newest \<le> bucket_start t"
  shows "series_ok (bucket_start t) (series_increment t st m)"
proof -
  let ?b = "bucket_start t"
  have dist: "distinct (map fst m)" using ok by (auto simp: series_ok_def)
  have win: "unat WINDOW_SECS = 87000" by (simp add: WINDOW_SECS_def BUCKET_SECS_def)
  have dvd: "600 dvd unat ?b" by (simp add: unat_bucket_start)
  have keys: "k \<le> ?b \<and> 600 dvd unat k" if "k \<in> fst ` set m" for k
    using ok mono that by (auto simp: series_ok_def dest: order.trans)
  show ?thesis
  proof (cases "?b \<in> fst ` set m")
    case True
    then have "newest = ?b" using ok mono by (auto simp: series_ok_def)
    then show ?thesis using ok True series_increment_distinct [OF dist] series_increment_keys [of t st m] by (auto simp: series_ok_def)
  next
    case False
    have "unat ?b \<le> unat k + 87000" if "(if ?b \<ge> WINDOW_SECS then ?b - WINDOW_SECS else 0) \<le> k" for k
      using that win by (auto simp: word_le_nat_alt unat_sub split: if_splits)
    moreover have "(if ?b \<ge> WINDOW_SECS then ?b - WINDOW_SECS else 0) \<le> ?b" by (simp add: word_sub_le)
    ultimately show ?thesis using False keys dvd series_increment_distinct [OF dist] by (auto simp: series_ok_def series_increment_keys)
  qed
qed

lemma series_run:
  assumes "es \<noteq> []" and "sorted (map fst es)"
  shows "series_ok (bucket_start (fst (last es))) (fold (\<lambda>(t, st). series_increment t st) es [])"
  using assms
proof (induction es rule: rev_induct)
  case (snoc e es)
  obtain t st where e: "e = (t, st)" by (cases e)
  show ?case
  proof (cases "es = []")
    case True
    then show ?thesis using series_ok_step [of "[]" 0 t st] by (simp add: e)
  next
    case False
    then have "fst (last es) \<le> t" using snoc.prems(2) by (simp add: sorted_append e)
    then have "bucket_start (fst (last es)) \<le> bucket_start t"
      by (simp add: word_le_nat_alt unat_bucket_start div_le_mono)
    then show ?thesis using False snoc series_ok_step [of "fold (\<lambda>(t, st). series_increment t st) es []" "bucket_start (fst (last es))" t st]
      by (simp add: e sorted_append)
  qed
qed simp

text \<open>
  Over any entries in the order of their times the timeseries holds at most 146 buckets,
  each key once, all within 24 hours and ten minutes of the latest.
\<close>

theorem timeseries_bounded:
  assumes "es \<noteq> []" and "sorted (map fst es)"
  defines "m \<equiv> fold (\<lambda>(t, st). series_increment t st) es []"
  shows "distinct (map fst m) \<and> length m \<le> 146 \<and> (\<forall>k \<in> fst ` set m. unat (bucket_start (fst (last es))) \<le> unat k + 87000)"
proof -
  define newest where "newest = bucket_start (fst (last es))"
  have ok: "series_ok newest m" unfolding newest_def m_def by (rule series_run [OF assms(1,2)])
  let ?j = "\<lambda>k :: u64. unat k div 600" and ?lo = "unat newest div 600 - 145"
  have "inj_on ?j (fst ` set m)"
  proof (rule inj_onI)
    fix a b assume k: "a \<in> fst ` set m" "b \<in> fst ` set m" and same: "unat a div 600 = unat b div 600"
    have "unat a = unat a div 600 * 600" "unat b = unat b div 600 * 600" using ok k unfolding series_ok_def by (metis dvd_div_mult_self)+
    then show "a = b" using same by (metis unsigned_word_eqI)
  qed
  moreover have "?j ` (fst ` set m) \<subseteq> {?lo..<?lo + 146}"
  proof
    fix j assume "j \<in> ?j ` (fst ` set m)"
    then obtain k where j: "j = unat k div 600" and mem: "k \<in> fst ` set m" by (rule imageE)
    have k: "unat k \<le> unat newest" "unat newest \<le> unat k + 87000" using ok mem unfolding series_ok_def word_le_nat_alt by metis+
    have "unat newest div 600 \<le> unat k div 600 + 145"
      using div_le_mono [OF k(2), of 600] div_mult_self1 [of 600 "unat k" 145] by simp
    then show "j \<in> {?lo..<?lo + 146}" using j div_le_mono [OF k(1), of 600] by (simp, linarith)
  qed
  ultimately have "card (fst ` set m) \<le> 146" using card_inj_on_le [of ?j "fst ` set m" "{?lo..<?lo + 146}"] by simp
  then show ?thesis using ok distinct_card [of "map fst m"] unfolding newest_def by (simp add: series_ok_def)
qed

theorem timeseries_bounded_witness:
  "length (fold (\<lambda>(t, st). series_increment t st) [(0, Blocked), (700, Cached), (90000, Upstream)] []) \<le> 146"
  using timeseries_bounded [of "[(0, Blocked), (700, Cached), (90000, Upstream)]"] by simp

end
