(* ===== verification/Router_Advert.thy ===== *)
theory Router_Advert
  imports Net
begin

text \<open>
  IPv6 router advertisements, \<open>crates/dhcp/src/ra.rs\<close>: the message with its options, the filter of
  the raw socket, and when the announcer sends. Sockets are not modelled: an event of the loop
  is a tick of the interval or the packets read when the socket became readable, each with the
  time in nanoseconds, which stands for both readings of the clock in one turn.
\<close>

section \<open>The message\<close>

definition ND_ROUTER_SOLICIT :: u8 where "ND_ROUTER_SOLICIT = 133"
definition ND_ROUTER_ADVERT :: u8 where "ND_ROUTER_ADVERT = 134"
definition OPT_PREFIX_INFO :: u8 where "OPT_PREFIX_INFO = 3"
definition OPT_MTU :: u8 where "OPT_MTU = 5"
definition OPT_RDNSS :: u8 where "OPT_RDNSS = 25"
definition MIN_DELAY_BETWEEN_RAS :: nat where "MIN_DELAY_BETWEEN_RAS = 3000000000"

record PrefixInfo =
  pi_prefix :: Ipv6Addr
  pi_prefix_len :: u8
  pi_valid_lifetime :: u32
  pi_preferred_lifetime :: u32

record RaConfig =
  ra_cur_hop_limit :: u8
  ra_router_lifetime :: u16
  ra_mtu :: "u32 option"
  ra_prefixes :: "PrefixInfo list"
  ra_rdnss :: "Ipv6Addr list"
  ra_rdnss_lifetime :: u32

definition ra_mtu_option :: "RaConfig \<Rightarrow> bytes" where
  "ra_mtu_option c = (case ra_mtu c of Some mtu \<Rightarrow> [OPT_MTU, 1, 0, 0] @ u32_bytes mtu | None \<Rightarrow> [])"

definition ra_prefix_option :: "PrefixInfo \<Rightarrow> bytes" where
  "ra_prefix_option p = [OPT_PREFIX_INFO, 4, pi_prefix_len p, 0xC0] @ u32_bytes (pi_valid_lifetime p) @
     u32_bytes (pi_preferred_lifetime p) @ u32_bytes 0 @ v6_octets (pi_prefix p)"

text \<open>The length of the option is computed in eight bits.\<close>

definition ra_rdnss_option :: "RaConfig \<Rightarrow> bytes" where
  "ra_rdnss_option c =
     (if ra_rdnss c = [] then []
      else [OPT_RDNSS, 1 + 2 * word_of_nat (length (ra_rdnss c)), 0, 0] @ u32_bytes (ra_rdnss_lifetime c) @ concat (map v6_octets (ra_rdnss c)))"

definition ra_build :: "RaConfig \<Rightarrow> bytes" where
  "ra_build c = [ND_ROUTER_ADVERT, 0, 0, 0, ra_cur_hop_limit c, 0] @ u16_bytes (ra_router_lifetime c) @ u32_bytes 0 @ u32_bytes 0 @
     ra_mtu_option c @ concat (map ra_prefix_option (ra_prefixes c)) @ ra_rdnss_option c"

section \<open>The announcer\<close>

definition icmp6_filter_pass_only :: "u8 \<Rightarrow> u32 list rs" where
  "icmp6_filter_pass_only pass_type =
     (let filt = replicate 8 (0xFFFFFFFF :: u32); t = unat pass_type in do {
        w \<leftarrow> index filt (t div 32);
        set_at filt (t div 32) (w AND NOT (push_bit (t mod 32) 1))
      })"

datatype RaEvent = Tick nat | Readable "bytes list" nat

text \<open>One turn of the loop: whether an advertisement is sent, and the time of the last one.\<close>

fun ra_step :: "nat option \<Rightarrow> RaEvent \<Rightarrow> bool \<times> nat option" where
  "ra_step last_sent (Tick now) = (True, Some now)"
| "ra_step last_sent (Readable packets now) =
     (let solicited = list_ex (\<lambda>p. p \<noteq> [] \<and> hd p = ND_ROUTER_SOLICIT) packets;
          due = (case last_sent of None \<Rightarrow> True | Some t \<Rightarrow> now - t \<ge> MIN_DELAY_BETWEEN_RAS) in
      if solicited \<and> due then (True, Some now) else (False, last_sent))"

section \<open>Reading an advertisement\<close>

text \<open>What a host does (RFC 4861): options of a type, a length in units of eight bytes, and a body.\<close>

function nd_options :: "bytes \<Rightarrow> (u8 \<times> bytes) list option" where
  "nd_options bs =
     (if bs = [] then Some []
      else if length bs < 2 \<or> bs ! 1 = 0 \<or> length bs < 8 * unat (bs ! 1) then None
      else map_option (\<lambda>opts. (bs ! 0, take (8 * unat (bs ! 1) - 2) (drop 2 bs)) # opts) (nd_options (drop (8 * unat (bs ! 1)) bs)))"
  by pat_completeness auto
termination
  by (relation "measure length") (auto simp: unat_gt_0)

declare nd_options.simps [simp del]

lemma nd_options_Nil [simp]: "nd_options [] = Some []"
  by (simp add: nd_options.simps)

lemma nd_options_append:
  assumes "8 * unat l = length body + 2" and "0 < l"
  shows "nd_options (t # l # body @ rest) = map_option (\<lambda>opts. (t, body) # opts) (nd_options rest)"
  using assms by (subst nd_options.simps) (auto simp: unat_gt_0)

lemma length_concat_octets: "length (concat (map v6_octets as)) = 16 * length as"
  by (induction as) simp_all

lemma unat_rdnss_units: "n \<le> 127 \<Longrightarrow> unat (1 + 2 * word_of_nat n :: u8) = 1 + 2 * n"
  by (simp add: unat_word_ariths unat_of_nat)

text \<open>
  A host reads from the advertisement exactly what was configured: the header with the
  router lifetime, then the link MTU, each prefix with its lifetimes and the flags for
  addresses of its own, and the DNS servers with their lifetime, as long as there are at most
  127 servers.
\<close>

theorem advertisement_reads_back:
  assumes "length (ra_rdnss c) \<le> 127"
  shows "take 16 (ra_build c) = [ND_ROUTER_ADVERT, 0, 0, 0, ra_cur_hop_limit c, 0] @ u16_bytes (ra_router_lifetime c) @ replicate 8 0 \<and>
    nd_options (drop 16 (ra_build c)) = Some (
      (case ra_mtu c of Some mtu \<Rightarrow> [(OPT_MTU, [0, 0] @ u32_bytes mtu)] | None \<Rightarrow> []) @
      map (\<lambda>p. (OPT_PREFIX_INFO, [pi_prefix_len p, 0xC0] @ u32_bytes (pi_valid_lifetime p) @ u32_bytes (pi_preferred_lifetime p) @
        [0, 0, 0, 0] @ v6_octets (pi_prefix p))) (ra_prefixes c) @
      (if ra_rdnss c = [] then []
       else [(OPT_RDNSS, [0, 0] @ u32_bytes (ra_rdnss_lifetime c) @ concat (map v6_octets (ra_rdnss c)))]))"
proof -
  have rdnss: "nd_options (ra_rdnss_option c) = Some (if ra_rdnss c = [] then []
       else [(OPT_RDNSS, [0, 0] @ u32_bytes (ra_rdnss_lifetime c) @ concat (map v6_octets (ra_rdnss c)))])"
    using nd_options_append [of "1 + 2 * word_of_nat (length (ra_rdnss c))" "[0, 0] @ u32_bytes (ra_rdnss_lifetime c) @ concat (map v6_octets (ra_rdnss c))"
        OPT_RDNSS "[]"] unat_rdnss_units [OF assms]
    by (simp add: ra_rdnss_option_def length_concat_octets word_less_nat_alt)
  have zero: "u32_bytes 0 = [0, 0, 0, 0]" by (simp add: u32_bytes_def)
  have prefix: "nd_options (ra_prefix_option p @ rest) = map_option ((#) (OPT_PREFIX_INFO, [pi_prefix_len p, 0xC0] @ u32_bytes (pi_valid_lifetime p) @
      u32_bytes (pi_preferred_lifetime p) @ [0, 0, 0, 0] @ v6_octets (pi_prefix p))) (nd_options rest)" for p rest
    using nd_options_append [of 4 "[pi_prefix_len p, 0xC0] @ u32_bytes (pi_valid_lifetime p) @ u32_bytes (pi_preferred_lifetime p) @
      [0, 0, 0, 0] @ v6_octets (pi_prefix p)" OPT_PREFIX_INFO rest] by (simp add: ra_prefix_option_def zero)
  have prefixes: "nd_options (concat (map ra_prefix_option ps) @ rest) = map_option ((@) (map (\<lambda>p. (OPT_PREFIX_INFO, [pi_prefix_len p, 0xC0] @
      u32_bytes (pi_valid_lifetime p) @ u32_bytes (pi_preferred_lifetime p) @ [0, 0, 0, 0] @ v6_octets (pi_prefix p))) ps)) (nd_options rest)" for ps rest
    by (induction ps) (simp_all add: prefix option.map_comp o_def option.map_id [unfolded id_def])
  have mtu: "nd_options (ra_mtu_option c @ rest) = map_option ((@) (case ra_mtu c of Some mtu \<Rightarrow> [(OPT_MTU, [0, 0] @ u32_bytes mtu)] | None \<Rightarrow> [])) (nd_options rest)" for rest
    using nd_options_append [of 1 "[0, 0] @ u32_bytes m" OPT_MTU rest for m]
    by (cases "nd_options rest") (simp_all add: ra_mtu_option_def split: option.split)
  define hdr where "hdr = [ND_ROUTER_ADVERT, 0, 0, 0, ra_cur_hop_limit c, 0] @ u16_bytes (ra_router_lifetime c) @ replicate 8 0"
  have len: "length hdr = 16" by (simp add: hdr_def)
  have eight: "replicate 8 0 = u32_bytes 0 @ u32_bytes 0" by (simp add: zero eval_nat_numeral)
  have "ra_build c = hdr @ ra_mtu_option c @ concat (map ra_prefix_option (ra_prefixes c)) @ ra_rdnss_option c"
    by (simp add: ra_build_def hdr_def eight)
  then have "take 16 (ra_build c) = hdr" "drop 16 (ra_build c) = ra_mtu_option c @ concat (map ra_prefix_option (ra_prefixes c)) @ ra_rdnss_option c"
    using len by simp_all
  then show ?thesis unfolding hdr_def by (simp add: mtu prefixes rdnss)
qed

definition sidecar :: RaConfig where
  "sidecar = \<lparr>ra_cur_hop_limit = 64, ra_router_lifetime = 0, ra_mtu = None, ra_prefixes = [], ra_rdnss = [1], ra_rdnss_lifetime = 1800\<rparr>"

theorem advertisement_reads_back_witness:
  "nd_options (drop 16 (ra_build sidecar)) = Some [(OPT_RDNSS, [0, 0] @ u32_bytes 1800 @ v6_octets 1)]"
  using advertisement_reads_back [of sidecar] by (simp add: sidecar_def)

section \<open>The announcer\<close>

text \<open>
  The filter of the raw socket lets exactly one type of message through, and building it
  does not panic.
\<close>

theorem filter_passes_only:
  "\<exists>filt. icmp6_filter_pass_only t = Some filt \<and> length filt = 8 \<and>
    (\<forall>x :: u8. bit (filt ! (unat x div 32)) (unat x mod 32) \<longleftrightarrow> x \<noteq> t)"
proof -
  have less: "unat x div 32 < 8" for x :: u8 using unat_u8_less [of x] by (simp add: less_mult_imp_div_less)
  have ones: "bit (0xFFFFFFFF :: u32) (n mod 32)" for n
  proof -
    have "(0xFFFFFFFF :: u32) = - 1" by simp
    then show ?thesis by (simp only: bit_minus_1_iff possible_bit_word) simp
  qed
  have same: "x = t" if "unat x div 32 = unat t div 32" "unat x mod 32 = unat t mod 32" for x
    using that by (metis div_mult_mod_eq unsigned_word_eqI)
  let ?filt = "(replicate 8 (0xFFFFFFFF :: u32))[unat t div 32 := 0xFFFFFFFF AND NOT (push_bit (unat t mod 32) 1)]"
  have "icmp6_filter_pass_only t = Some ?filt"
    using less [of t] by (simp add: icmp6_filter_pass_only_def Let_def index_def set_at_def)
  moreover have "bit (?filt ! (unat x div 32)) (unat x mod 32) \<longleftrightarrow> x \<noteq> t" for x
  proof (cases "unat x div 32 = unat t div 32")
    case True
    then have "bit (?filt ! (unat x div 32)) (unat x mod 32) \<longleftrightarrow> unat x mod 32 \<noteq> unat t mod 32"
      using less [of t] ones [of "unat x"] by (auto simp: bit_and_iff bit_not_iff bit_push_bit_iff bit_exp_iff)
    then show ?thesis using same [OF True] by auto
  next
    case False
    then show ?thesis using less [of x] ones [of "unat x"] by auto
  qed
  ultimately show ?thesis by (intro exI [of _ ?filt]) simp
qed

text \<open>The advertisements of a run: whether each was solicited, and its time.\<close>

fun ra_time :: "RaEvent \<Rightarrow> nat" where
  "ra_time (Tick now) = now"
| "ra_time (Readable _ now) = now"

fun ra_run :: "nat option \<Rightarrow> RaEvent list \<Rightarrow> (bool \<times> nat) list" where
  "ra_run last_sent [] = []"
| "ra_run last_sent (e # es) =
     (case ra_step last_sent e of (sent, last_sent') \<Rightarrow>
        (if sent then [((case e of Tick _ \<Rightarrow> False | Readable _ _ \<Rightarrow> True), ra_time e)] else []) @ ra_run last_sent' es)"

fun spaced :: "nat option \<Rightarrow> (bool \<times> nat) list \<Rightarrow> bool" where
  "spaced before [] = True"
| "spaced before ((solicited, t) # rest) =
     ((solicited \<longrightarrow> (case before of None \<Rightarrow> True | Some b \<Rightarrow> b + MIN_DELAY_BETWEEN_RAS \<le> t)) \<and> spaced (Some t) rest)"

text \<open>
  However often hosts ask, and whatever arrives, every advertisement sent in answer to a
  solicitation comes at least three seconds after the one before it.
\<close>

theorem solicited_spaced: "spaced last_sent (ra_run last_sent events)"
proof (induction last_sent events rule: ra_run.induct)
  case (2 last_sent e es)
  then show ?case
  proof (cases e)
    case (Readable ps now)
    then show ?thesis using 2 by (cases last_sent) (auto simp: Let_def MIN_DELAY_BETWEEN_RAS_def)
  qed (use 2 in simp)
qed simp

end
