(* ===== verification/Spec2Isabelle.thy ===== *)
theory Spec2Isabelle
  imports Wire_Correct Schedule Dhcp_Server Blocklist_Correct Domain_Set Parser Dns_Cache_Correct Dns_Reply Gate Custom Clients
    Handler_Answers Dns_Server_Correct Upstream_Correct Proxy_Correct Stats_Correct Router_Advert
begin

text \<open>
  \<^bold>\<open>A verification of ferrite\<close>, a DNS filter with a DHCP server and selective routing (the crates
  under \<open>src/crates\<close>).

  \<^bold>\<open>The program.\<close> The DNS server (\<open>dns/src/server.rs\<close>) takes a datagram or a framed query, asks the
  pipeline (\<open>dns/src/handler.rs\<close>) what to do with it, and answers at once or when the upstream
  resolvers (\<open>upstream\<close>) have answered. The pipeline asks, in this order, the client gate
  (\<open>dns/src/gate.rs\<close>), the custom records (\<open>dns/src/custom.rs\<close>), the canaries, the blocklist engine
  (\<open>blocklist\<close>) with the profile of the client (\<open>clients\<close>), SafeSearch, the routing hook
  (\<open>proxy/src/lib.rs\<close>) and the response cache (\<open>dns/src/cache.rs\<close>); it reads and rewrites messages
  in place (\<open>core/src/wire.rs\<close>) and records what it did. The DHCP server (\<open>dhcp\<close>) leases the
  addresses that the client registry learns names from. A connection to a routed name comes to
  a listener of the proxy (\<open>proxy/src/intercept.rs\<close>), which reads the host from the first bytes
  (\<open>edge/src/peek\<close>), asks the same engine and the same rules again, and splices the connection
  through an egress.

  \<^bold>\<open>Theories and sources.\<close>
  \<^item> \<open>Prelude\<close>: machine integers, reads and writes that panic (\<open>'a rs\<close>, where \<open>None\<close> is the panic),
    and the locales \<open>state_machine\<close> (an invariant of a step function over any run) and
    \<open>panic_free\<close> (a fallible step that keeps an invariant never fails on a run). \<open>Rust_Str\<close>: the
    operations of \<open>str\<close>. \<open>Lru\<close>: the interface of the \<open>lru\<close> crate with its laws and an instance.
  \<^item> \<open>Wire\<close> (\<open>core/src/wire.rs\<close>) with \<open>Wire_Walk\<close>, \<open>Wire_Scan\<close>, \<open>Wire_Names\<close> and \<open>Wire_Correct\<close>: no walker
    panics on any bytes; TTLs are capped in place and nothing else changes; the question is read
    exactly; codes, caching times and CNAME targets are those of the records.
  \<^item> \<open>Schedule\<close>, \<open>Net\<close> (\<open>core/src/schedule.rs\<close>, \<open>net.rs\<close>): time windows, addresses and client keys.
  \<^item> \<open>Dhcp_Message\<close>, \<open>Dhcp_Lease\<close>, \<open>Dhcp_Server\<close> (\<open>dhcp/src\<close>): messages decode to what was encoded;
    a running lease stays with its client as long as the client index names its address for no
    other, also when the table is rebuilt on new settings (\<open>app/src/dhcp.rs\<close>), and its address is
    bound to nobody else (the locale \<open>lease_store\<close>); a client whose stored leases name one address
    holds one lease; a REQUEST is acknowledged exactly when it may be; the server keeps its pool
    sound over any traffic.
  \<^item> \<open>Names\<close>, \<open>Domain_Set\<close>, \<open>Pause\<close>, \<open>Parser\<close>, \<open>Blocklist\<close>, \<open>Blocklist_Correct\<close> (\<open>blocklist/src\<close>): the
    packed buffer refines the list of its domains; the parsers return only valid names; the
    cached decision is the uncached one in every reachable state; explanations agree with it unless
    the file of a list is ahead of the merged map.
  \<^item> \<open>Dns_Cache\<close>, \<open>Dns_Cache_Correct\<close> (\<open>dns/src/cache.rs\<close>): exact byte accounting, loops that end,
    answers found until they expire.
  \<^item> \<open>Dns_Message\<close>, \<open>Dns_Reply\<close> (the answers of \<open>handler.rs\<close>, \<open>query.rs\<close>, \<open>safesearch.rs\<close>), \<open>Float64\<close>
    with \<open>Gate\<close>, \<open>Custom\<close>, \<open>Clients\<close> (\<open>clients/src\<close>): what the answers look like to a resolver; how
    many queries of a client pass the gate at most, and that one which keeps to the limit is not
    refused (over a rounding with the laws of the locale \<open>rounding\<close>); records that can be added and
    removed; an exact index of the addresses of a device.
  \<^item> \<open>Handler\<close>, \<open>Handler_Correct\<close>, \<open>Handler_Answers\<close> (\<open>handler.rs\<close>, \<open>ctx.rs\<close>): the pipeline. The locale
    \<open>ctx_invariant\<close> carries a property of the context through all its steps and is interpreted for
    the accounts of cache and permits and for the query log. Blocked names get the block answer,
    only unblocked queries go upstream, no answer exceeds the ceiling of TTLs.
  \<^item> \<open>Dns_Server\<close>, \<open>Dns_Server_Correct\<close> (\<open>server.rs\<close>): truncation, load shedding, and the permits and
    refreshes of a whole run.
  \<^item> \<open>Upstream\<close>, \<open>Upstream_Correct\<close> (\<open>upstream/src\<close>): the plain resolver refuses spoofed datagrams
    (the answer of its fallback to TCP is not checked, and the theorem says so), pooled connections answer their own query, the pool answers when one upstream does, and a
    query goes to its zone.
  \<^item> \<open>Peek\<close>, \<open>Peek_Correct\<close> (\<open>edge/src/peek\<close>, \<open>proxy/src/http_host.rs\<close>): total readers of first bytes,
    and the locale \<open>stable_reader\<close> for a reader whose verdict stands when more bytes arrive,
    interpreted for the server name and the PROXY header.
  \<^item> \<open>Proxy\<close>, \<open>Listener\<close>, \<open>Proxy_Correct\<close> (\<open>proxy/src\<close>): rules, routing table, hook, health, and the
    decision for a connection. The most specific rule decides, a listener blocks what the block
    step of the DNS pipeline blocks and passes on exactly the bytes of the connection, strict rules never leak
    to a direct connection, and no lookup panics over any sequence of configurations.
  \<^item> \<open>Stats\<close>, \<open>Stats_Correct\<close> (\<open>stats/src\<close>): the busiest keys are listed exactly, no device on
    the list of clients shows more blocked queries than queries, also after the seeding at startup, the ring and the timeseries keep to their bounds, and the writer
    loses no entry. \<open>Router_Advert\<close> (\<open>dhcp/src/ra.rs\<close>): a host reads back what was configured, and
    solicited advertisements are spaced.

  \<^bold>\<open>State and errors.\<close> A struct is a record and a method a function from the old to the new record; a
  lock or an atomic is the field it guards, and a task is one step, except where a theorem is
  about steps in between (the refreshes of the cache, a query that waits for its upstream, and
  the edit in the middle of a decision). A \<open>Result\<close> is a sum with the error on the left. Loops
  over data are structural or have a measure; the loops without a bound of their own
  (\<open>Dns_Cache.shrink\<close>, \<open>Clients.describe_device\<close>) are partial functions, for which it is proved that
  they end, and under which condition.

  \<^bold>\<open>Parameters.\<close> Code outside the repository is an argument of the definitions: the DNS decoder and
  encoder (\<open>hickory\<close>, with \<open>rcode_laws\<close>), the LRU map (\<open>lru_laws\<close>), the public-suffix list, regular
  expressions, the map of a compiled list, TLS, HTTPS and QUIC transports (\<open>transports\<close>), egress
  backends (\<open>egress_lib\<close>), a service sharing the TLS port (\<open>handoff\<close>), the outcome of a network
  operation, and every reading of a clock. The laws assumed of them are documented behaviour,
  and the witnesses instantiate them with concrete functions.

  \<^bold>\<open>Numbers.\<close> Integers have their width where they wrap; sizes and offsets of buffers are natural
  numbers, since a slice is shorter than \<open>isize::MAX\<close>. Monotonic times are natural numbers of
  nanoseconds. The tokens of the gate are rational numbers, and each
  operation on them is rounded to 53 bits as \<open>f64\<close> does. A profile a
  waiting query keeps alive is its position in the list of profiles. Text is the list of its
  bytes.

  \<^bold>\<open>Not modelled\<close>: sockets, batching and timeouts of the listeners; the HTTPS and QUIC transports,
  the WireGuard and SOCKS5 egresses and the copying of bytes, which are third-party protocol
  stacks and system calls; the encrypted DNS front end, the relay client and the updater for the
  same reason; the REST API and the wiring of the application, which move data between the parts;
  the database; deserialization of the configuration; building and fetching of the compiled lists; PTR and mDNS lookups.
\<close>

end
